(* ===== verification/Prelude.thy ===== *)
theory Prelude
  imports Complex_Main "HOL-Library.Word" "HOL-Library.Signed_Division" "HOL-Library.Sublist"
begin

text \<open>
  Shared material of the development: Go's 64-bit integers and truncating division, the
  suffix of a bounded log, the arithmetic of ring buffers, strictly ordered lists, and the
  named collections the component theories extend.

  Conventions. A Go \<^verbatim>\<open>int64\<close> (and every type built on it: \<^verbatim>\<open>Price\<close>,
  \<^verbatim>\<open>Qty\<close>, \<^verbatim>\<open>time.Duration\<close>) is an \<^typ>\<open>int\<close> with the wrap-around written
  out by \<open>wrap64\<close>; a Go \<^verbatim>\<open>uint64\<close> is a \<^typ>\<open>64 word\<close>. A fallible Go function
  returns a sum with the error on the left; a run-time panic is \<^term>\<open>None\<close>.
\<close>

unbundle bit_operations_syntax

named_theorems i64_simps \<open>wrap-around arithmetic on Go's signed 64-bit integers\<close>
named_theorems ring_simps \<open>reading and writing a ring buffer\<close>
named_theorems panic_free \<open>operations that do not panic\<close>

type_synonym u64 = "64 word"


section \<open>Signed 64-bit integers\<close>

definition MaxInt64 :: int where
  "MaxInt64 = 2 ^ 63 - 1"

definition MinInt64 :: int where
  "MinInt64 = - (2 ^ 63)"

definition wrap64 :: "int \<Rightarrow> int" where
  "wrap64 x = (x + 2 ^ 63) mod 2 ^ 64 - 2 ^ 63"

definition in_i64 :: "int \<Rightarrow> bool" where
  "in_i64 x \<longleftrightarrow> MinInt64 \<le> x \<and> x \<le> MaxInt64"

lemma in_i64_iff: "in_i64 x \<longleftrightarrow> - (2 ^ 63) \<le> x \<and> x < 2 ^ 63"
  by (auto simp: in_i64_def MinInt64_def MaxInt64_def)

lemma wrap64_id [i64_simps]: "in_i64 x \<Longrightarrow> wrap64 x = x"
  by (simp add: wrap64_def in_i64_iff)

lemma wrap64_in [i64_simps]: "in_i64 (wrap64 x)"
proof -
  have "0 \<le> (x + 2 ^ 63) mod 2 ^ 64" and "(x + 2 ^ 63) mod 2 ^ 64 < 2 ^ 64"
    by simp_all
  then show ?thesis by (simp add: wrap64_def in_i64_iff)
qed

lemma wrap64_mod: "wrap64 x mod 2 ^ 64 = x mod 2 ^ 64"
proof -
  have "((x + 2 ^ 63) mod 2 ^ 64 - 2 ^ 63) mod 2 ^ 64 = (x + 2 ^ 63 - 2 ^ 63) mod 2 ^ 64"
    by (rule mod_diff_left_eq)
  then show ?thesis by (simp add: wrap64_def)
qed

lemma wrap64_cong: "x mod 2 ^ 64 = y mod 2 ^ 64 \<Longrightarrow> wrap64 x = wrap64 y"
  unfolding wrap64_def by (metis mod_add_left_eq)

lemma wrap64_add_left [i64_simps]: "wrap64 (wrap64 x + y) = wrap64 (x + y)"
  by (rule wrap64_cong) (metis wrap64_mod mod_add_left_eq)

lemma wrap64_add_right [i64_simps]: "wrap64 (x + wrap64 y) = wrap64 (x + y)"
  by (metis wrap64_add_left add.commute)

lemma wrap64_diff_left [i64_simps]: "wrap64 (wrap64 x - y) = wrap64 (x - y)"
  by (rule wrap64_cong) (metis wrap64_mod mod_diff_left_eq)

lemma wrap64_diff_right [i64_simps]: "wrap64 (x - wrap64 y) = wrap64 (x - y)"
  by (rule wrap64_cong) (metis wrap64_mod mod_diff_right_eq)

lemma wrap64_zero [simp]: "wrap64 0 = 0"
  by (simp add: wrap64_def)


section \<open>Truncating division\<close>

text \<open>
  Go's \<^verbatim>\<open>/\<close> and \<^verbatim>\<open>%\<close> round towards zero, which is what \<^term>\<open>(sdiv)\<close> and
  \<^term>\<open>(smod)\<close> of the library compute.
\<close>

lemma sdiv_smod: "(a :: int) sdiv b * b + a smod b = a"
  by (simp add: sdiv_mult_smod_eq)

lemma smod_abs: "b \<noteq> 0 \<Longrightarrow> \<bar>(a :: int) smod b\<bar> = \<bar>a\<bar> mod \<bar>b\<bar>"
  by (cases "a = 0") (simp_all add: signed_modulo_int_def abs_mult abs_sgn_eq)

lemma sdiv_nonneg: "0 \<le> (a :: int) \<Longrightarrow> 0 < b \<Longrightarrow> a sdiv b = a div b"
  by (cases "a = 0") (auto simp: signed_divide_int_def)

lemma smod_nonneg: "0 \<le> (a :: int) \<Longrightarrow> 0 < b \<Longrightarrow> a smod b = a mod b"
  by (cases "a = 0") (simp_all add: signed_modulo_int_def)


lemma nat_smod_int: "x = int n \<Longrightarrow> 0 < m \<Longrightarrow> nat (x smod int m) = n mod m"
  by (simp add: smod_nonneg flip: of_nat_mod)

lemma mod_less_of_less: "i < (n :: nat) \<Longrightarrow> x mod n < n"
  by simp


section \<open>Bounded suffixes\<close>

definition last_n :: "nat \<Rightarrow> 'a list \<Rightarrow> 'a list" where
  "last_n n xs = drop (length xs - n) xs"

lemma length_last_n [simp]: "length (last_n n xs) = min n (length xs)"
  by (auto simp: last_n_def)

lemma last_n_all [simp]: "length xs \<le> n \<Longrightarrow> last_n n xs = xs"
  by (simp add: last_n_def)

lemma last_n_append: "last_n n (last_n n xs @ ys) = last_n n (xs @ ys)"
proof (cases "length ys \<ge> n")
  case True
  then show ?thesis by (simp add: last_n_def)
next
  case False
  then show ?thesis by (cases "length xs \<ge> n") (simp_all add: last_n_def add.commute)
qed

lemma last_n_eq_Nil [simp]: "last_n n xs = [] \<longleftrightarrow> n = 0 \<or> xs = []"
  by (metis length_0_conv length_last_n min_0L min_0R min_def)

lemma last_last_n [simp]: "0 < n \<Longrightarrow> xs \<noteq> [] \<Longrightarrow> last (last_n n xs) = last xs"
  by (cases xs) (simp_all add: last_n_def)

lemma last_n_last_n: "m \<le> n \<Longrightarrow> last_n m (last_n n xs) = last_n m xs"
  by (cases "length xs \<le> n") (simp_all add: last_n_def)

lemma last_n_snoc_full: "length xs = n \<Longrightarrow> 0 < n \<Longrightarrow> last_n n (xs @ [x]) = tl xs @ [x]"
  by (cases xs) (simp_all add: last_n_def)

lemma set_last_n: "set (last_n n xs) \<subseteq> set xs"
  by (simp add: last_n_def set_drop_subset)

lemma last_n_map: "last_n n (map f xs) = map f (last_n n xs)"
  by (simp add: last_n_def drop_map)

lemma sorted_wrt_last_n: "sorted_wrt P xs \<Longrightarrow> sorted_wrt P (last_n n xs)"
  by (simp add: last_n_def sorted_wrt_drop)


section \<open>Ring buffers\<close>

text \<open>
  The \<open>n\<close> entries of a ring that start at index \<open>start\<close>, in order. Three components
  keep such a ring: the closed candles, the recent trades and the metrics queue.
\<close>

definition ring_list :: "'a list \<Rightarrow> nat \<Rightarrow> nat \<Rightarrow> 'a list" where
  "ring_list buf start n = map (\<lambda>i. buf ! ((start + i) mod length buf)) [0..<n]"

lemma length_ring_list [simp]: "length (ring_list buf start n) = n"
  by (simp add: ring_list_def)

lemma ring_list_nth [ring_simps]:
  "i < n \<Longrightarrow> ring_list buf start n ! i = buf ! ((start + i) mod length buf)"
  by (simp add: ring_list_def)

lemma ring_list_0 [simp]: "ring_list buf start 0 = []"
  by (simp add: ring_list_def)

lemma ring_index_inj:
  fixes len :: nat
  assumes "i < len" "j < len" "(start + i) mod len = (start + j) mod len"
  shows "i = j"
proof -
  have "i = j" if "i \<le> j" "i < len" "j < len" "(start + i) mod len = (start + j) mod len" for i j
  proof -
    from that(4) have "len dvd (start + j) - (start + i)"
      using that(1) by (metis add_le_cancel_left mod_eq_dvd_iff_nat)
    then have "len dvd j - i" by simp
    with that(1-3) show ?thesis by (metis dvd_imp_le le_antisym diff_le_self diff_is_0_eq
          dual_order.strict_trans2 leD neq0_conv)
  qed
  with assms show ?thesis by (metis nle_le)
qed

lemma ring_list_push [ring_simps]:
  assumes "n < length buf"
  shows "ring_list (buf[(start + n) mod length buf := x]) start (Suc n) = ring_list buf start n @ [x]"
proof -
  have "(start + n) mod length buf \<noteq> (start + i) mod length buf" if "i < n" for i
    using ring_index_inj [of i "length buf" n start] that assms by auto
  then have "map (\<lambda>i. buf[(start + n) mod length buf := x] ! ((start + i) mod length buf)) [0..<n]
      = map (\<lambda>i. buf ! ((start + i) mod length buf)) [0..<n]"
    by (intro map_cong refl nth_list_update_neq) simp
  moreover have "(start + n) mod length buf < length buf"
    using assms by (intro mod_less_divisor) linarith
  ultimately show ?thesis by (simp add: ring_list_def)
qed

lemma ring_list_pop [ring_simps]:
  assumes "0 < n" "start < length buf"
  shows "ring_list buf start n = buf ! start # ring_list buf (Suc start mod length buf) (n - 1)"
proof (rule nth_equalityI)
  show "length (ring_list buf start n)
      = length (buf ! start # ring_list buf (Suc start mod length buf) (n - 1))"
    using assms by simp
next
  fix i assume "i < length (ring_list buf start n)"
  then have "i < n" by simp
  then show "ring_list buf start n ! i
      = (buf ! start # ring_list buf (Suc start mod length buf) (n - 1)) ! i"
    using assms by (cases i) (simp_all add: ring_list_nth mod_simps)
qed

lemma ring_list_overwrite [ring_simps]:
  assumes "start < length buf"
  shows "ring_list (buf[start := x]) (Suc start mod length buf) (length buf)
       = tl (ring_list buf start (length buf)) @ [x]"
proof -
  let ?m = "length buf"
  let ?s = "Suc start mod ?m"
  have pos: "0 < ?m" using assms by linarith
  have ix: "(?s + (?m - 1)) mod ?m = start"
    using assms pos by (cases "Suc start = ?m") simp_all
  have "ring_list (buf[(?s + (?m - 1)) mod ?m := x]) ?s (Suc (?m - 1)) = ring_list buf ?s (?m - 1) @ [x]"
    by (rule ring_list_push) (use pos in simp)
  then have "ring_list (buf[start := x]) ?s ?m = ring_list buf ?s (?m - 1) @ [x]"
    using ix pos by simp
  moreover have "ring_list buf start ?m = buf ! start # ring_list buf ?s (?m - 1)"
    by (rule ring_list_pop) (use assms pos in simp_all)
  ultimately show ?thesis by simp
qed

lemma ring_list_update_outside [ring_simps]:
  assumes "n < length buf"
  shows "ring_list (buf[(start + n) mod length buf := x]) start n = ring_list buf start n"
proof -
  have "(start + n) mod length buf \<noteq> (start + i) mod length buf" if "i < n" for i
    using ring_index_inj [of i "length buf" n start] that assms by auto
  then show ?thesis
    unfolding ring_list_def length_list_update
    by (intro map_cong refl nth_list_update_neq) simp
qed

lemma ring_list_append: "ring_list buf start (m + n)
    = ring_list buf start m @ ring_list buf (start + m) n"
proof (rule nth_equalityI)
  fix i assume "i < length (ring_list buf start (m + n))"
  then show "ring_list buf start (m + n) ! i
      = (ring_list buf start m @ ring_list buf (start + m) n) ! i"
    by (cases "i < m") (simp_all add: nth_append ring_list_nth)
qed simp

lemma last_n_ring_list:
  "m \<le> n \<Longrightarrow> last_n m (ring_list buf start n) = ring_list buf (start + (n - m)) m"
proof -
  assume "m \<le> n"
  then have "ring_list buf start n
      = ring_list buf start (n - m) @ ring_list buf (start + (n - m)) m"
    using ring_list_append [of buf start "n - m" m] by simp
  with \<open>m \<le> n\<close> show ?thesis by (simp add: last_n_def)
qed


text \<open>
  Two of the rings keep the index \<open>head\<close> of the next write and the number \<open>n\<close> of
  entries; a push writes at the head and overwrites the oldest entry of a full ring.
\<close>

definition ring_entries :: "'a list \<Rightarrow> nat \<Rightarrow> nat \<Rightarrow> 'a list" where
  "ring_entries buf head n = ring_list buf ((head + length buf - n) mod length buf) n"

lemma length_ring_entries [simp]: "length (ring_entries buf head n) = n"
  by (simp add: ring_entries_def)

lemma ring_entries_push [ring_simps]:
  assumes "head < length buf" "n \<le> length buf"
  shows "ring_entries (buf[head := x]) (Suc head mod length buf) (if n < length buf then Suc n else n)
       = last_n (length buf) (ring_entries buf head n @ [x])"
proof (cases "n < length buf")
  case True
  let ?m = "length buf"
  let ?s = "(head + ?m - n) mod ?m"
  have "(?s + n) mod ?m = (head + ?m - n + n) mod ?m" by (simp add: mod_add_left_eq)
  then have at_head: "(?s + n) mod ?m = head" using assms by simp
  have "(Suc head mod ?m + ?m - Suc n) mod ?m = (Suc head mod ?m + (?m - Suc n)) mod ?m"
    using True by simp
  also have "\<dots> = (Suc head + (?m - Suc n)) mod ?m" by (simp add: mod_add_left_eq)
  finally have start: "(Suc head mod ?m + ?m - Suc n) mod ?m = ?s"
    using True by (simp add: Suc_diff_Suc)
  show ?thesis
    using True start ring_list_push [OF True, of ?s x] at_head by (simp add: ring_entries_def)
next
  case False
  with assms have n: "n = length buf" by simp
  then show ?thesis
    using assms ring_list_overwrite [OF assms(1), of x]
    by (cases "length buf = 0") (simp_all add: ring_entries_def last_n_snoc_full)
qed

lemma ring_entries_nth:
  assumes "head < length buf" "n \<le> length buf" "i < n"
  shows "ring_entries buf head n ! i = buf ! ((head + (length buf - n) + i) mod length buf)"
  using assms by (simp add: ring_entries_def ring_list_nth mod_add_left_eq)


section \<open>Registries\<close>

lemma find_distinct_key:
  "distinct (map f xs) \<Longrightarrow> x \<in> set xs \<Longrightarrow> find (\<lambda>y. f y = f x) xs = Some x"
  by (induction xs) auto


section \<open>The contract of a bounded log\<close>

text \<open>
  A bounded log keeps the newest \<open>cap\<close> entries pushed into it, in order. The candle
  ring, the trade tape and the metrics queue each provide it; what their clients use is
  proved once here.
\<close>

locale bounded_log =
  fixes inv :: "'s \<Rightarrow> bool"
    and cap :: "'s \<Rightarrow> nat"
    and entries :: "'s \<Rightarrow> 'a list"
    and push :: "'a \<Rightarrow> 's \<Rightarrow> 's"
  assumes inv_push: "inv s \<Longrightarrow> inv (push x s)"
    and cap_push: "inv s \<Longrightarrow> cap (push x s) = cap s"
    and entries_push: "inv s \<Longrightarrow> entries (push x s) = last_n (cap s) (entries s @ [x])"
    and entries_bounded: "inv s \<Longrightarrow> length (entries s) \<le> cap s"
begin

lemma inv_push_all: "inv s \<Longrightarrow> inv (fold push xs s)"
  by (induction xs arbitrary: s) (auto simp: inv_push)

lemma cap_push_all: "inv s \<Longrightarrow> cap (fold push xs s) = cap s"
  by (induction xs arbitrary: s) (auto simp: inv_push cap_push)

lemma entries_push_all:
  "inv s \<Longrightarrow> entries (fold push xs s) = last_n (cap s) (entries s @ xs)"
proof (induction xs arbitrary: s)
  case Nil
  then show ?case by (simp add: entries_bounded)
next
  case (Cons x xs)
  then have "entries (fold push (x # xs) s)
      = last_n (cap s) (last_n (cap s) (entries s @ [x]) @ xs)"
    by (simp add: inv_push cap_push entries_push)
  then show ?case by (simp add: last_n_append)
qed

lemma entries_bounded_always: "inv s \<Longrightarrow> length (entries (fold push xs s)) \<le> cap s"
  using entries_bounded [OF inv_push_all] cap_push_all by metis

lemma newest_is_kept: "inv s \<Longrightarrow> 0 < cap s \<Longrightarrow> last (entries (push x s)) = x"
  by (simp add: entries_push last_n_def)

end


section \<open>Strictly ordered lists\<close>

text \<open>
  The Go code walks a slice and compares every element with the one before it.
\<close>

fun adjacent :: "('a \<Rightarrow> 'a \<Rightarrow> bool) \<Rightarrow> 'a list \<Rightarrow> bool" where
  "adjacent P [] = True"
| "adjacent P [x] = True"
| "adjacent P (x # y # zs) = (P x y \<and> adjacent P (y # zs))"

lemma adjacent_sorted_wrt: "transp P \<Longrightarrow> adjacent P xs \<longleftrightarrow> sorted_wrt P xs"
  by (induction P xs rule: adjacent.induct) (auto dest: transpD)

lemma sorted_wrt_map_iff: "sorted_wrt (\<lambda>x y. P (f x) (f y)) xs \<longleftrightarrow> sorted_wrt P (map f xs)"
  by (simp add: sorted_wrt_map)

lemma sorted_remdups_adj_strict:
  "sorted (xs :: 'a :: linorder list) \<Longrightarrow> sorted_wrt (<) (remdups_adj xs)"
  by (induction xs rule: remdups_adj.induct) (auto simp: less_le)

end
