(* ===== verification/Money.thy ===== *)
theory Money
  imports Prelude
begin

text \<open>
  \<^verbatim>\<open>internal/domain/money.go\<close>: fixed-point prices and quantities, the 128-bit
  multiply-divide, and the decimal printer and parser of the wire format.

  \<^verbatim>\<open>Price\<close> and \<^verbatim>\<open>Qty\<close> are the \<^typ>\<open>int\<close> an \<^verbatim>\<open>int64\<close> denotes, with the
  wrap-around of \<^verbatim>\<open>+\<close> and \<^verbatim>\<open>-\<close> written out. The unsigned values inside
  \<^verbatim>\<open>MulDiv\<close> are non-negative integers below \<open>2 ^ 64\<close>. A Go string is its list of
  bytes.
\<close>

type_synonym price = int
type_synonym qty = int

datatype domain_error =
    ErrDivideByZero
  | ErrOverflow
  | ErrInexactValue
  | ErrMalformedNumber
  | ErrSymbolNotFound
  | ErrUnsupportedInterval
  | ErrInvalidLimit
  | ErrCrossedBook
  | ErrEmptyBook
  | ErrBookGap
  | ErrStaleUpdate
  | ErrCandleInvariant
  | ErrPriceNotTickAligned
  | ErrUnknownSide
  | ErrUnknownTier

type_synonym 'a result = "domain_error + 'a"

definition maxSafeMagnitude :: int where
  "maxSafeMagnitude = 2 ^ 53"


section \<open>Price and quantity arithmetic\<close>

definition Price_Add :: "price \<Rightarrow> price \<Rightarrow> price" where
  "Price_Add p q = wrap64 (p + q)"

definition Price_Sub :: "price \<Rightarrow> price \<Rightarrow> price" where
  "Price_Sub p q = wrap64 (p - q)"

definition Price_Cmp :: "price \<Rightarrow> price \<Rightarrow> int" where
  "Price_Cmp p q = (if p < q then - 1 else if p > q then 1 else 0)"

definition Price_Sign :: "price \<Rightarrow> int" where
  "Price_Sign p = (if p < 0 then - 1 else if p > 0 then 1 else 0)"

definition MaxPrice :: "price \<Rightarrow> price \<Rightarrow> price" where
  "MaxPrice a b = (if a > b then a else b)"

definition MinPrice :: "price \<Rightarrow> price \<Rightarrow> price" where
  "MinPrice a b = (if a < b then a else b)"

definition Qty_Add :: "qty \<Rightarrow> qty \<Rightarrow> qty" where
  "Qty_Add p q = wrap64 (p + q)"

definition Qty_Sub :: "qty \<Rightarrow> qty \<Rightarrow> qty" where
  "Qty_Sub p q = wrap64 (p - q)"

definition Qty_Cmp :: "qty \<Rightarrow> qty \<Rightarrow> int" where
  "Qty_Cmp p q = (if p < q then - 1 else if p > q then 1 else 0)"

definition Qty_IsZero :: "qty \<Rightarrow> bool" where
  "Qty_IsZero q = (q = 0)"

definition Qty_IsNegative :: "qty \<Rightarrow> bool" where
  "Qty_IsNegative q = (q < 0)"

definition Qty_IsPositive :: "qty \<Rightarrow> bool" where
  "Qty_IsPositive q = (q > 0)"

definition MaxQty :: "qty \<Rightarrow> qty \<Rightarrow> qty" where
  "MaxQty a b = (if a > b then a else b)"

definition MinQty :: "qty \<Rightarrow> qty \<Rightarrow> qty" where
  "MinQty a b = (if a < b then a else b)"

lemma Price_Cmp_simps [simp]:
  "Price_Cmp p q < 0 \<longleftrightarrow> p < q"
  "Price_Cmp p q \<le> 0 \<longleftrightarrow> p \<le> q"
  "0 < Price_Cmp p q \<longleftrightarrow> q < p"
  "0 \<le> Price_Cmp p q \<longleftrightarrow> q \<le> p"
  by (auto simp: Price_Cmp_def)

lemma MaxPrice_max [simp]: "MaxPrice a b = max a b"
  by (simp add: MaxPrice_def max_def)

lemma MinPrice_min [simp]: "MinPrice a b = min a b"
  by (simp add: MinPrice_def min_def)


section \<open>128-bit multiply-divide\<close>

definition absUint64 :: "int \<Rightarrow> int \<times> bool" where
  "absUint64 v =
     (if v \<ge> 0 then (v, False)
      else if v = MinInt64 then (2 ^ 63, True)
      else (wrap64 (- v), True))"

text \<open>
  \<^verbatim>\<open>bits.Mul64\<close> and \<^verbatim>\<open>bits.Div64\<close> of the Go library; \<^verbatim>\<open>Div64\<close> panics when
  the quotient does not fit, which the caller has excluded.
\<close>

definition Mul64 :: "int \<Rightarrow> int \<Rightarrow> int \<times> int" where
  "Mul64 x y = ((x * y) div 2 ^ 64, (x * y) mod 2 ^ 64)"

definition Div64 :: "int \<Rightarrow> int \<Rightarrow> int \<Rightarrow> (int \<times> int) option" where
  "Div64 hi lo y =
     (if y = 0 \<or> y \<le> hi then None
      else Some ((hi * 2 ^ 64 + lo) div y, (hi * 2 ^ 64 + lo) mod y))"

definition MulDiv :: "int \<Rightarrow> int \<Rightarrow> int \<Rightarrow> int result option" where
  "MulDiv a b c =
     (if c = 0 then Some (Inl ErrDivideByZero)
      else
        let (ua, aneg) = absUint64 a;
            (ub, bneg) = absUint64 b;
            (uc, cneg) = absUint64 c;
            (hi, lo) = Mul64 ua ub
        in if hi \<ge> uc then Some (Inl ErrOverflow)
           else case Div64 hi lo uc of
             None \<Rightarrow> None
           | Some (q, _) \<Rightarrow>
               let neg = ((aneg \<noteq> bneg) \<noteq> cneg)
               in Some (if neg then
                    (if q > MaxInt64 + 1 then Inl ErrOverflow
                     else if q = MaxInt64 + 1 then Inr MinInt64
                     else Inr (wrap64 (- q)))
                  else (if q > MaxInt64 then Inl ErrOverflow else Inr q)))"

definition ChangeBasisPoints :: "price \<Rightarrow> price \<Rightarrow> int result option" where
  "ChangeBasisPoints open_px last_px =
     (if open_px = 0 then Some (Inl ErrDivideByZero)
      else MulDiv (wrap64 (last_px - open_px)) 10000 open_px)"

lemma absUint64_abs: "in_i64 v \<Longrightarrow> absUint64 v = (\<bar>v\<bar>, v < 0)"
  by (auto simp: absUint64_def in_i64_iff MinInt64_def i64_simps)

lemma int_le_div_iff: "0 < k \<Longrightarrow> c \<le> p div k \<longleftrightarrow> c * k \<le> (p :: int)"
proof
  assume "0 < k" "c \<le> p div k"
  then have "c * k \<le> (p div k) * k" by simp
  also have "\<dots> \<le> p" using \<open>0 < k\<close> by (simp add: minus_mod_eq_div_mult [symmetric])
  finally show "c * k \<le> p" .
next
  assume "0 < k" "c * k \<le> p"
  then have "(c * k) div k \<le> p div k" by (intro zdiv_mono1)
  with \<open>0 < k\<close> show "c \<le> p div k" by simp
qed

lemma mul_high_ge_iff:
  fixes p c :: int
  assumes "0 < c"
  shows "c \<le> p div 2 ^ 64 \<longleftrightarrow> 2 ^ 64 \<le> p div c"
  using assms by (simp add: int_le_div_iff mult.commute)

lemma signed_quotient_range:
  fixes q :: int
  assumes "0 \<le> q"
  shows "(if neg then (if q > MaxInt64 + 1 then Inl ErrOverflow
              else if q = MaxInt64 + 1 then Inr MinInt64 else Inr (wrap64 (- q)))
          else (if q > MaxInt64 then Inl ErrOverflow else Inr q))
       = (if in_i64 (if neg then - q else q) then Inr (if neg then - q else q) else Inl ErrOverflow)"
  using assms by (auto simp: in_i64_iff MaxInt64_def MinInt64_def i64_simps)

lemma sdiv_by_sign:
  fixes a b c :: int
  assumes "c \<noteq> 0"
  shows "(a * b) sdiv c
       = (if ((a < 0) \<noteq> (b < 0)) \<noteq> (c < 0) then - ((\<bar>a\<bar> * \<bar>b\<bar>) div \<bar>c\<bar>)
          else (\<bar>a\<bar> * \<bar>b\<bar>) div \<bar>c\<bar>)"
  using assms unfolding signed_divide_int_def sgn_mult abs_mult
  by (cases "a = 0"; cases "b = 0") (auto simp: sgn_if)

lemma MulDiv_value:
  assumes "in_i64 a" "in_i64 b" "in_i64 c" "c \<noteq> 0"
  shows "MulDiv a b c
       = Some (if in_i64 ((a * b) sdiv c) then Inr ((a * b) sdiv c) else Inl ErrOverflow)"
proof -
  let ?p = "\<bar>a\<bar> * \<bar>b\<bar>"
  let ?q = "?p div \<bar>c\<bar>"
  let ?neg = "((a < 0) \<noteq> (b < 0)) \<noteq> (c < 0)"
  have c: "0 < \<bar>c\<bar>" and q: "0 \<le> ?q"
    using assms(4) by (simp_all add: pos_imp_zdiv_nonneg_iff)
  have split: "?p div 2 ^ 64 * 2 ^ 64 + ?p mod 2 ^ 64 = ?p"
    by (rule div_mult_mod_eq)
  have sd: "(a * b) sdiv c = (if ?neg then - ?q else ?q)"
    by (rule sdiv_by_sign [OF assms(4)])
  show ?thesis
  proof (cases "\<bar>c\<bar> \<le> ?p div 2 ^ 64")
    case True
    then have "2 ^ 64 \<le> ?q" using mul_high_ge_iff [OF c, of ?p] by simp
    then have "\<not> in_i64 (if ?neg then - ?q else ?q)"
      by (auto simp: in_i64_iff)
    with True assms sd show ?thesis
      by (simp add: MulDiv_def absUint64_abs Mul64_def)
  next
    case False
    then show ?thesis
      using assms sd signed_quotient_range [OF q, of ?neg] split
      by (simp add: MulDiv_def absUint64_abs Mul64_def Div64_def Let_def del: div_mult_mod_eq)
  qed
qed

text \<open>
  C37. \<^verbatim>\<open>MulDiv\<close> is exact: for a non-zero divisor it returns the product divided by the
  divisor and truncated towards zero whenever that quotient is an \<^verbatim>\<open>int64\<close>, reports an
  overflow exactly when it is not, and never reaches the panic of \<^verbatim>\<open>bits.Div64\<close>.
\<close>

theorem MulDiv_exact:
  assumes "in_i64 a" "in_i64 b" "in_i64 c" "c \<noteq> 0"
  shows "MulDiv a b c
       = Some (if in_i64 ((a * b) sdiv c) then Inr ((a * b) sdiv c) else Inl ErrOverflow)"
  by (rule MulDiv_value [OF assms])

theorem MulDiv_exact_witness:
  "in_i64 (- 7) \<and> in_i64 (10 ^ 18) \<and> in_i64 (3 * 10 ^ 17)
   \<and> MulDiv (- 7) (10 ^ 18) (3 * 10 ^ 17) = Some (Inr (- 23))"
proof -
  have h: "in_i64 (- 7)" "in_i64 (10 ^ 18)" "in_i64 (3 * 10 ^ 17)" "(3 * 10 ^ 17 :: int) \<noteq> 0"
    by (simp_all add: in_i64_iff)
  show ?thesis
    using h MulDiv_exact [OF h] by (simp add: signed_divide_int_def in_i64_iff)
qed

end
