(* ===== verification/Decimal.thy ===== *)
theory Decimal
  imports Money
begin

text \<open>
  \<^verbatim>\<open>internal/domain/money.go\<close>, second half: the decimal printer \<^verbatim>\<open>FormatScaled\<close>,
  the parser \<^verbatim>\<open>ParseScaled\<close> and the generator's \<^verbatim>\<open>RoundToStep\<close>, with what they use
  of \<^verbatim>\<open>strconv\<close> and \<^verbatim>\<open>strings\<close>. Strings are lists of bytes.
\<close>

section \<open>Digits\<close>

definition digit_char :: "nat \<Rightarrow> char" where
  "digit_char d = char_of (48 + d)"

definition is_digit :: "char \<Rightarrow> bool" where
  "is_digit c \<longleftrightarrow> 48 \<le> (of_char c :: nat) \<and> (of_char c :: nat) \<le> 57"

definition digit_val :: "char \<Rightarrow> nat" where
  "digit_val c = of_char c - 48"

text \<open>\<^verbatim>\<open>strconv.FormatUint(mag, 10)\<close>.\<close>

fun FormatUint :: "nat \<Rightarrow> string" where
  "FormatUint n = (if n < 10 then [digit_char n] else FormatUint (n div 10) @ [digit_char (n mod 10)])"

declare FormatUint.simps [simp del]

definition digits_val :: "string \<Rightarrow> nat" where
  "digits_val s = foldl (\<lambda>acc c. acc * 10 + digit_val c) 0 s"

text \<open>\<^verbatim>\<open>strconv.ParseInt(s, 10, 64)\<close>: \<^term>\<open>None\<close> is its syntax or range error.\<close>

definition ParseInt :: "string \<Rightarrow> int option" where
  "ParseInt s =
     (let neg = (s \<noteq> [] \<and> hd s = CHR ''-'');
          ds = (if s \<noteq> [] \<and> (hd s = CHR ''-'' \<or> hd s = CHR ''+'') then tl s else s)
      in if ds = [] \<or> \<not> list_all is_digit ds then None
         else let v = int (digits_val ds)
              in if neg then (if v \<le> 2 ^ 63 then Some (- v) else None)
                 else (if v < 2 ^ 63 then Some v else None))"

section \<open>Trimming\<close>

text \<open>
  The UTF-8 encodings of the code points \<^verbatim>\<open>unicode.IsSpace\<close> accepts. A suffix test on
  these encodings agrees with decoding the last rune, since their first bytes start a rune.
\<close>

definition unicode_spaces :: "string list" where
  "unicode_spaces =
     [[CHR 0x09], [CHR 0x0A], [CHR 0x0B], [CHR 0x0C], [CHR 0x0D], [CHR 0x20],
      [CHR 0xC2, CHR 0x85], [CHR 0xC2, CHR 0xA0], [CHR 0xE1, CHR 0x9A, CHR 0x80],
      [CHR 0xE2, CHR 0x80, CHR 0x80], [CHR 0xE2, CHR 0x80, CHR 0x81], [CHR 0xE2, CHR 0x80, CHR 0x82],
      [CHR 0xE2, CHR 0x80, CHR 0x83], [CHR 0xE2, CHR 0x80, CHR 0x84], [CHR 0xE2, CHR 0x80, CHR 0x85],
      [CHR 0xE2, CHR 0x80, CHR 0x86], [CHR 0xE2, CHR 0x80, CHR 0x87], [CHR 0xE2, CHR 0x80, CHR 0x88],
      [CHR 0xE2, CHR 0x80, CHR 0x89], [CHR 0xE2, CHR 0x80, CHR 0x8A], [CHR 0xE2, CHR 0x80, CHR 0xA8],
      [CHR 0xE2, CHR 0x80, CHR 0xA9], [CHR 0xE2, CHR 0x80, CHR 0xAF], [CHR 0xE2, CHR 0x81, CHR 0x9F],
      [CHR 0xE3, CHR 0x80, CHR 0x80]]"

function strip_prefixes :: "string list \<Rightarrow> string \<Rightarrow> string" where
  "strip_prefixes ps s =
     (case find (\<lambda>p. p \<noteq> [] \<and> prefix p s) ps of
        None \<Rightarrow> s
      | Some p \<Rightarrow> strip_prefixes ps (drop (length p) s))"
  by pat_completeness auto
termination
proof (relation "measure (\<lambda>(ps, s). length s)")
  fix ps s p
  assume "find (\<lambda>p. p \<noteq> [] \<and> prefix p s) ps = Some (p :: string)"
  then have "p \<noteq> []" "prefix p s" by (auto simp: find_Some_iff)
  then have "0 < length p" "length p \<le> length s"
    by (simp_all add: prefix_length_le)
  then have "length s - length p < length s" by linarith
  then show "((ps, drop (length p) s), ps, s) \<in> measure (\<lambda>(ps, s). length s)"
    by simp
qed simp

declare strip_prefixes.simps [simp del]

definition TrimSpace :: "string \<Rightarrow> string" where
  "TrimSpace s =
     rev (strip_prefixes (map rev unicode_spaces) (rev (strip_prefixes unicode_spaces s)))"

fun TrimRight :: "string \<Rightarrow> char \<Rightarrow> string" where
  "TrimRight s c = rev (dropWhile (\<lambda>x. x = c) (rev s))"

section \<open>FormatScaled and ParseScaled\<close>

definition FormatScaled :: "int \<Rightarrow> int \<Rightarrow> string" where
  "FormatScaled v digits =
     (let neg = v < 0;
          mag = fst (absUint64 v);
          s = FormatUint (nat mag)
      in if digits \<le> 0 then (if neg then ''-'' @ s else s)
         else
           let d = nat digits;
               s' = (if length s \<le> d then replicate (d - length s + 1) (CHR ''0'') @ s else s);
               intPart = take (length s' - d) s';
               fracPart = drop (length s' - d) s';
               out = intPart @ ''.'' @ fracPart
           in if neg then ''-'' @ out else out)"

text \<open>
  \<^verbatim>\<open>ParseScaled(s, scale, digits)\<close>. \<^term>\<open>None\<close> is the panic of the division by a zero
  scale. A negative \<^verbatim>\<open>digits\<close> is always rejected as inexact, so the count given to
  \<^verbatim>\<open>strings.Repeat\<close> is never negative.
\<close>

definition ParseScaled :: "string \<Rightarrow> int \<Rightarrow> int \<Rightarrow> int result option" where
  "ParseScaled s0 scale digits =
     (let s1 = TrimSpace s0
      in if s1 = [] then Some (Inl ErrMalformedNumber)
         else
           let neg = (hd s1 = CHR ''-'');
               s = (if hd s1 = CHR ''-'' \<or> hd s1 = CHR ''+'' then tl s1 else s1)
           in if s = [] then Some (Inl ErrMalformedNumber)
              else
                let hasDot = CHR ''.'' \<in> set s;
                    intPart = takeWhile (\<lambda>c. c \<noteq> CHR ''.'') s;
                    fracPart = (if hasDot then tl (dropWhile (\<lambda>c. c \<noteq> CHR ''.'') s) else [])
                in if intPart = [] \<and> fracPart = [] then Some (Inl ErrMalformedNumber)
                   else if int (length fracPart) > digits
                        \<and> int (length (TrimRight fracPart (CHR ''0''))) > digits
                        then Some (Inl ErrInexactValue)
                   else
                     let frac = (if int (length fracPart) > digits
                                 then take (nat digits) fracPart else fracPart);
                         ip = (if intPart = [] then ''0'' else intPart)
                     in if \<not> list_all is_digit ip then Some (Inl ErrMalformedNumber)
                        else if \<not> list_all is_digit frac then Some (Inl ErrMalformedNumber)
                        else
                          let padded = frac @ replicate (nat (digits - int (length frac))) (CHR ''0'')
                          in case ParseInt ip of
                               None \<Rightarrow> Some (Inl ErrMalformedNumber)
                             | Some whole \<Rightarrow>
                                 if scale = 0 then None
                                 else if whole > maxSafeMagnitude sdiv scale then Some (Inl ErrOverflow)
                                 else
                                   let v = wrap64 (whole * scale)
                                   in if padded = [] then Some (Inr (if neg then wrap64 (- v) else v))
                                      else (case ParseInt padded of
                                          None \<Rightarrow> Some (Inl ErrMalformedNumber)
                                        | Some fr \<Rightarrow>
                                            let v' = wrap64 (v + fr)
                                            in Some (Inr (if neg then wrap64 (- v') else v'))))"

definition RoundToStep :: "int \<Rightarrow> int \<Rightarrow> int" where
  "RoundToStep v step =
     (if step \<le> 0 then v
      else
        let rem = v smod step
        in if rem = 0 then v
           else
             let rem' = (if rem < 0 then wrap64 (- rem) else rem)
             in if wrap64 (rem' * 2) \<ge> step then
                  (if v < 0 then wrap64 (v - wrap64 (step - rem'))
                   else wrap64 (v + wrap64 (step - rem')))
                else if v < 0 then wrap64 (v + rem')
                else wrap64 (v - rem'))"


section \<open>Printing and reading digits\<close>

lemma of_char_digit_char: "d < 10 \<Longrightarrow> of_char (digit_char d) = 48 + d"
  by (simp add: digit_char_def)

lemma is_digit_digit_char [simp]: "d < 10 \<Longrightarrow> is_digit (digit_char d)"
  by (simp add: is_digit_def of_char_digit_char)

lemma digit_val_digit_char [simp]: "d < 10 \<Longrightarrow> digit_val (digit_char d) = d"
  by (simp add: digit_val_def of_char_digit_char)

lemma digits_val_Nil [simp]: "digits_val [] = 0"
  by (simp add: digits_val_def)

lemma digits_val_append: "digits_val (a @ b) = digits_val a * 10 ^ length b + digits_val b"
proof (induction b rule: rev_induct)
  case (snoc x xs)
  have "digits_val (a @ xs @ [x]) = digits_val (a @ xs) * 10 + digit_val x"
    by (simp add: digits_val_def)
  moreover have "digits_val (xs @ [x]) = digits_val xs * 10 + digit_val x"
    by (simp add: digits_val_def)
  ultimately show ?case using snoc by (simp add: algebra_simps)
qed simp

lemma digits_val_zeros [simp]: "digits_val (replicate k (CHR ''0'')) = 0"
proof (induction k)
  case (Suc k)
  have "digits_val (replicate (Suc k) (CHR ''0'')) = digits_val ([CHR ''0''] @ replicate k (CHR ''0''))"
    by simp
  then show ?case using Suc by (simp only: digits_val_append) (simp add: digits_val_def digit_val_def)
qed simp

lemma digits_val_bound: "list_all is_digit s \<Longrightarrow> digits_val s < 10 ^ length s"
proof (induction s rule: rev_induct)
  case (snoc x xs)
  then have "digit_val x < 10" "digits_val xs < 10 ^ length xs"
    by (auto simp: is_digit_def digit_val_def)
  then show ?case by (simp add: digits_val_append) (simp add: digits_val_def)
qed simp

lemma FormatUint_digits: "list_all is_digit (FormatUint n)"
proof (induction n rule: FormatUint.induct)
  case (1 n)
  then show ?case by (subst FormatUint.simps) simp
qed

lemma FormatUint_nonempty [simp]: "FormatUint n \<noteq> []"
  by (subst FormatUint.simps) simp

lemma digits_val_FormatUint [simp]: "digits_val (FormatUint n) = n"
proof (induction n rule: FormatUint.induct)
  case (1 n)
  have "digits_val [digit_char d] = d" if "d < 10" for d
    using that by (simp add: digits_val_def)
  with 1 show ?case
    by (subst FormatUint.simps) (simp add: digits_val_append)
qed

lemma ParseInt_digits:
  assumes "ds \<noteq> []" "list_all is_digit ds" "int (digits_val ds) < 2 ^ 63"
  shows "ParseInt ds = Some (int (digits_val ds))"
proof -
  have "is_digit (hd ds)" using assms(1,2) by (cases ds) simp_all
  then have "hd ds \<noteq> CHR ''-''" "hd ds \<noteq> CHR ''+''"
    by (auto simp: is_digit_def)
  with assms show ?thesis by (simp add: ParseInt_def)
qed

section \<open>Trimming a string that has nothing to trim\<close>

lemma strip_prefixes_id:
  assumes "s = [] \<or> (\<forall>p\<in>set ps. p \<noteq> [] \<longrightarrow> hd p \<noteq> hd s)"
  shows "strip_prefixes ps s = s"
proof -
  have "find (\<lambda>p. p \<noteq> [] \<and> prefix p s) ps = None"
    using assms by (auto simp: find_None_iff prefix_def)
  then show ?thesis by (subst strip_prefixes.simps) simp
qed

definition solid :: "char \<Rightarrow> bool" where
  "solid c \<longleftrightarrow> 33 \<le> (of_char c :: nat) \<and> (of_char c :: nat) \<le> 126"

lemma unicode_spaces_not_solid:
  "p \<in> set unicode_spaces \<Longrightarrow> \<not> solid (hd p) \<and> \<not> solid (last p)"
  unfolding unicode_spaces_def solid_def by (auto simp del: of_char_of)

lemma TrimSpace_id:
  assumes "s \<noteq> []" "solid (hd s)" "solid (last s)"
  shows "TrimSpace s = s"
proof -
  have "strip_prefixes unicode_spaces s = s"
    using assms(2) by (intro strip_prefixes_id disjI2) (auto dest: unicode_spaces_not_solid)
  moreover have "strip_prefixes (map rev unicode_spaces) (rev s) = rev s"
    using assms(1,3)
    by (intro strip_prefixes_id disjI2) (auto simp: hd_rev dest: unicode_spaces_not_solid)
  ultimately show ?thesis by (simp add: TrimSpace_def)
qed

lemma is_digit_solid: "is_digit c \<Longrightarrow> solid c"
  by (simp add: is_digit_def solid_def)

lemma solid_minus [simp]: "solid (CHR ''-'')"
  by (simp add: solid_def)

lemma is_digit_not_dot: "is_digit c \<Longrightarrow> c \<noteq> CHR ''.'' \<and> c \<noteq> CHR ''-'' \<and> c \<noteq> CHR ''+''"
  by (auto simp: is_digit_def)


section \<open>Round trip\<close>

abbreviation sign_str :: "bool \<Rightarrow> string" where
  "sign_str neg \<equiv> (if neg then ''-'' else [])"

lemma split_at_dot:
  assumes "list_all is_digit ip"
  shows "takeWhile (\<lambda>c. c \<noteq> CHR ''.'') (ip @ CHR ''.'' # fp) = ip"
    and "dropWhile (\<lambda>c. c \<noteq> CHR ''.'') (ip @ CHR ''.'' # fp) = CHR ''.'' # fp"
proof -
  have "\<forall>c\<in>set ip. c \<noteq> CHR ''.''" using assms by (auto simp: list_all_iff dest: is_digit_not_dot)
  then show "takeWhile (\<lambda>c. c \<noteq> CHR ''.'') (ip @ CHR ''.'' # fp) = ip"
    and "dropWhile (\<lambda>c. c \<noteq> CHR ''.'') (ip @ CHR ''.'' # fp) = CHR ''.'' # fp"
    by (simp_all add: takeWhile_append2 dropWhile_append2)
qed

lemma takeWhile_no_dot:
  assumes "list_all is_digit ip"
  shows "takeWhile (\<lambda>c. c \<noteq> CHR ''.'') ip = ip" "CHR ''.'' \<notin> set ip"
  using assms by (auto simp: list_all_iff takeWhile_eq_all_conv dest: is_digit_not_dot)

lemma in_i64_small:
  fixes x y :: int
  assumes "0 \<le> x" "x \<le> 2 ^ 53" "0 \<le> y" "y < 10 ^ 18"
  shows "in_i64 x" "in_i64 (x + y)" "in_i64 (- (x + y))"
  using assms by (simp_all add: in_i64_iff)

lemma scaled_bounds:
  fixes w f :: nat
  assumes "d \<le> 18" "int w \<le> 2 ^ 53 div 10 ^ d" "f < 10 ^ d"
  shows "int w * 10 ^ d \<le> 2 ^ 53" "in_i64 (int w * 10 ^ d)"
    "in_i64 (int w * 10 ^ d + int f)" "in_i64 (- (int w * 10 ^ d + int f))" "int w < 2 ^ 63"
    "int f < 2 ^ 63"
proof -
  show w: "int w * 10 ^ d \<le> 2 ^ 53"
    using assms(2) by (simp add: int_le_div_iff)
  have "(10 :: nat) ^ d \<le> 10 ^ 18" using assms(1) by (intro power_increasing) simp_all
  with assms(3) have "f < 10 ^ 18" by linarith
  then have f: "int f < 10 ^ 18" by simp
  have "int w * 1 \<le> int w * 10 ^ d" by (rule mult_left_mono) simp_all
  with w have "int w \<le> 2 ^ 53" by linarith
  then show "int w < 2 ^ 63" "int f < 2 ^ 63" using f by simp_all
  show "in_i64 (int w * 10 ^ d)" "in_i64 (int w * 10 ^ d + int f)"
    "in_i64 (- (int w * 10 ^ d + int f))"
    using in_i64_small [of "int w * 10 ^ d" "int f"] w f by simp_all
qed

lemma ParseScaled_dotted:
  assumes ip: "ip \<noteq> []" "list_all is_digit ip"
    and fp: "list_all is_digit fp" "length fp = d" "0 < d" "d \<le> 18"
    and small: "int (digits_val ip) \<le> 2 ^ 53 div 10 ^ d"
  shows "ParseScaled (sign_str neg @ ip @ CHR ''.'' # fp) (10 ^ d) (int d)
       = Some (Inr (let v = int (digits_val ip) * 10 ^ d + int (digits_val fp)
                    in if neg then - v else v))"
proof -
  let ?body = "ip @ CHR ''.'' # fp"
  let ?s = "sign_str neg @ ?body"
  have fpne: "fp \<noteq> []" using fp by auto
  have hd_ip: "is_digit (hd ip)" "is_digit (last fp)"
    using ip fp(1) fpne by (auto simp: list_all_iff)
  have "TrimSpace ?s = ?s"
    using hd_ip fpne ip(1) by (intro TrimSpace_id) (auto simp: is_digit_solid)
  moreover have "hd ?body \<noteq> CHR ''-''" "hd ?body \<noteq> CHR ''+''"
    using hd_ip ip(1) by (auto dest: is_digit_not_dot)
  moreover note split_at_dot [OF ip(2)]
  moreover have "digits_val fp < 10 ^ d" using digits_val_bound [OF fp(1)] fp(2) by simp
  note b = scaled_bounds [OF fp(4) small this]
  moreover have "ParseInt ip = Some (int (digits_val ip))" "ParseInt fp = Some (int (digits_val fp))"
    using ip fp fpne b by (simp_all add: ParseInt_digits)
  moreover have "maxSafeMagnitude sdiv 10 ^ d = 2 ^ 53 div 10 ^ d"
    by (simp add: maxSafeMagnitude_def sdiv_nonneg)
  ultimately show ?thesis
    using ip fp fpne small
    by (simp add: ParseScaled_def Let_def wrap64_id)
qed

lemma ParseScaled_plain:
  assumes ip: "ip \<noteq> []" "list_all is_digit ip"
    and small: "int (digits_val ip) \<le> 2 ^ 53"
  shows "ParseScaled (sign_str neg @ ip) 1 0
       = Some (Inr (if neg then - int (digits_val ip) else int (digits_val ip)))"
proof -
  have hd_ip: "is_digit (hd ip)" "is_digit (last ip)"
    using ip by (auto simp: list_all_iff)
  have "TrimSpace (sign_str neg @ ip) = sign_str neg @ ip"
    using hd_ip ip(1) by (intro TrimSpace_id) (auto simp: is_digit_solid)
  moreover have "hd ip \<noteq> CHR ''-''" "hd ip \<noteq> CHR ''+''"
    using hd_ip by (auto dest: is_digit_not_dot)
  moreover have "ParseInt ip = Some (int (digits_val ip))"
    using ip small by (intro ParseInt_digits) simp_all
  moreover have "in_i64 (int (digits_val ip))" "in_i64 (- int (digits_val ip))"
    using small by (simp_all add: in_i64_iff)
  ultimately show ?thesis
    using ip small
    by (simp add: ParseScaled_def Let_def maxSafeMagnitude_def wrap64_id takeWhile_no_dot [OF ip(2)])
qed

lemma scaled_sum_cast:
  assumes "w * 10 ^ d + f = nat \<bar>v\<bar>"
  shows "int w * 10 ^ d + int f = \<bar>v\<bar>"
proof -
  have "int (w * 10 ^ d + f) = \<bar>v\<bar>" using assms by simp
  then show ?thesis by simp
qed

lemma FormatScaled_parts:
  assumes "in_i64 v" "0 < d"
  obtains ip fp where
    "FormatScaled v (int d) = sign_str (v < 0) @ ip @ CHR ''.'' # fp"
    "ip \<noteq> []" "list_all is_digit ip" "list_all is_digit fp" "length fp = d"
    "int (digits_val ip) * 10 ^ d + int (digits_val fp) = \<bar>v\<bar>"
proof -
  define s where "s = FormatUint (nat \<bar>v\<bar>)"
  define t where "t = (if length s \<le> d then replicate (d - length s + 1) (CHR ''0'') @ s else s)"
  define ip where "ip = take (length t - d) t"
  define fp where "fp = drop (length t - d) t"
  have form: "FormatScaled v (int d) = sign_str (v < 0) @ ip @ CHR ''.'' # fp"
    using assms by (simp add: FormatScaled_def absUint64_abs Let_def ip_def fp_def t_def s_def)
  have len: "d < length t" by (simp add: t_def)
  have dig: "list_all is_digit t"
    using FormatUint_digits [of "nat \<bar>v\<bar>"]
    by (auto simp: t_def s_def list_all_iff is_digit_def)
  have "digits_val (replicate k (CHR ''0'') @ s) = nat \<bar>v\<bar>" for k
    by (simp add: digits_val_append s_def)
  then have val: "digits_val t = nat \<bar>v\<bar>"
    by (metis t_def s_def digits_val_FormatUint)
  have fplen: "length fp = d" using len by (simp add: fp_def)
  have "digits_val (ip @ fp) = nat \<bar>v\<bar>"
    by (simp only: ip_def fp_def append_take_drop_id val)
  then have sum: "int (digits_val ip) * 10 ^ d + int (digits_val fp) = \<bar>v\<bar>"
    by (intro scaled_sum_cast) (simp only: digits_val_append fplen)
  have "list_all is_digit ip" "list_all is_digit fp"
    using dig by (auto simp: ip_def fp_def list_all_iff dest: in_set_takeD in_set_dropD)
  moreover have "ip \<noteq> []" using len by (auto simp: ip_def)
  ultimately show thesis using that form fplen sum by blast
qed

text \<open>
  Printing a scaled integer and parsing the text gives the integer back, for every value
  the engine accepts (magnitude up to \<open>2 ^ 53\<close>) and every number of decimals an
  \<^verbatim>\<open>int64\<close> scale can have; the parser neither rounds nor panics.
\<close>

lemma ParseScaled_FormatScaled:
  assumes "\<bar>v\<bar> \<le> 2 ^ 53" "d \<le> 18"
  shows "ParseScaled (FormatScaled v (int d)) (10 ^ d) (int d) = Some (Inr v)"
proof (cases "d = 0")
  case True
  have i: "in_i64 v" using assms(1) by (auto simp: in_i64_iff)
  have "FormatScaled v 0 = sign_str (v < 0) @ FormatUint (nat \<bar>v\<bar>)"
    using i by (simp add: FormatScaled_def absUint64_abs Let_def)
  then show ?thesis
    using True assms(1) by (simp add: ParseScaled_plain FormatUint_digits)
next
  case False
  have i: "in_i64 v" using assms(1) by (auto simp: in_i64_iff)
  from False obtain ip fp where parts:
    "FormatScaled v (int d) = sign_str (v < 0) @ ip @ CHR ''.'' # fp"
    "ip \<noteq> []" "list_all is_digit ip" "list_all is_digit fp" "length fp = d"
    "int (digits_val ip) * 10 ^ d + int (digits_val fp) = \<bar>v\<bar>"
    using FormatScaled_parts [OF i, of d] by blast
  have "int (digits_val ip) * 10 ^ d \<le> 2 ^ 53" using parts(6) assms(1) by linarith
  then have "int (digits_val ip) \<le> 2 ^ 53 div 10 ^ d" by (simp add: int_le_div_iff)
  then show ?thesis
    using parts False assms(2) by (simp add: ParseScaled_dotted Let_def del: append_Cons)
qed

text \<open>
  Excess precision is rejected, never rounded: a number with more significant fractional
  digits than the symbol allows is the error \<^verbatim>\<open>ErrInexactValue\<close>, whatever its sign,
  integer part and scale.
\<close>

lemma ParseScaled_rejects_excess_precision:
  assumes ip: "ip \<noteq> []" "list_all is_digit ip"
    and fp: "list_all is_digit fp" "d < length fp" "last fp \<noteq> CHR ''0''"
  shows "ParseScaled (sign_str neg @ ip @ CHR ''.'' # fp) scale (int d) = Some (Inl ErrInexactValue)"
proof -
  let ?body = "ip @ CHR ''.'' # fp"
  have fpne: "fp \<noteq> []" using fp(2) by auto
  have hd_ip: "is_digit (hd ip)" "is_digit (last fp)"
    using ip fp(1) fpne by (auto simp: list_all_iff)
  have "TrimSpace (sign_str neg @ ?body) = sign_str neg @ ?body"
    using hd_ip fpne ip(1) by (intro TrimSpace_id) (auto simp: is_digit_solid)
  moreover have "hd ?body \<noteq> CHR ''-''" "hd ?body \<noteq> CHR ''+''"
    using hd_ip ip(1) by (auto dest: is_digit_not_dot)
  moreover have "TrimRight fp (CHR ''0'') = fp"
  proof -
    have "rev fp = last fp # rev (butlast fp)"
      using fpne by (metis append_butlast_last_id rev.simps(2) rev_rev_ident rev_swap)
    with fp(3) have "dropWhile (\<lambda>x. x = CHR ''0'') (rev fp) = rev fp"
      by (metis (mono_tags, lifting) dropWhile.simps(2))
    then show ?thesis by simp
  qed
  ultimately show ?thesis
    using ip fp fpne by (simp add: ParseScaled_def Let_def split_at_dot [OF ip(2)] del: TrimRight.simps)
qed

section \<open>Snapping to a step\<close>

lemma wrap64_near:
  assumes "\<bar>x\<bar> < 2 ^ 62"
  shows "wrap64 x = x" "wrap64 (x * 2) = 2 * x"
  using assms by (simp_all add: wrap64_id in_i64_iff abs_less_iff)

lemma RoundToStep_nonneg:
  assumes "0 < step" "0 \<le> v" "v + step < 2 ^ 62" and m: "m = v mod step"
  shows "RoundToStep v step = (if m = 0 then v else if step \<le> 2 * m then v - m + step else v - m)"
proof -
  have b: "0 \<le> m" "m < step" using assms(1) by (simp_all add: m)
  have "v smod step = m" using assms by (simp add: smod_nonneg)
  moreover have "wrap64 (m * 2) = 2 * m" "wrap64 (step - m) = step - m"
    "wrap64 (v - m) = v - m" "wrap64 (v + (step - m)) = v + (step - m)"
    using assms(1-3) b by (simp_all add: wrap64_near)
  ultimately show ?thesis
    using assms(1,2) b unfolding RoundToStep_def Let_def by simp
qed

lemma RoundToStep_neg:
  assumes "0 < step" "v < 0" "- v + step < 2 ^ 62"
  shows "RoundToStep v step = - RoundToStep (- v) step"
proof -
  define m where "m = (- v) mod step"
  have b: "0 \<le> m" "m < step" using assms(1) by (simp_all add: m_def)
  have "v smod step = - m"
    using assms(1,2) by (simp add: signed_modulo_int_def m_def)
  moreover have "wrap64 m = m" "wrap64 (m * 2) = 2 * m" "wrap64 (step - m) = step - m"
    "wrap64 (v + m) = v + m" "wrap64 (v - (step - m)) = v - (step - m)"
    using assms b by (simp_all add: wrap64_near)
  ultimately have "RoundToStep v step
      = (if m = 0 then v else if step \<le> 2 * m then v - (step - m) else v + m)"
    using assms b unfolding RoundToStep_def Let_def by simp
  moreover have "RoundToStep (- v) step
      = (if m = 0 then - v else if step \<le> 2 * m then - v - m + step else - v - m)"
    using assms by (intro RoundToStep_nonneg) (simp_all add: m_def)
  ultimately show ?thesis by simp
qed

text \<open>
  \<^verbatim>\<open>RoundToStep\<close> returns a multiple of the step, and no multiple is nearer: the result
  is at most half a step away. (Far from the ends of the \<^verbatim>\<open>int64\<close> range, where the doubled
  remainder would wrap.)
\<close>

lemma RoundToStep_nearest:
  assumes "0 < step" "\<bar>v\<bar> + step < 2 ^ 62"
  shows "step dvd RoundToStep v step \<and> 2 * \<bar>RoundToStep v step - v\<bar> \<le> step"
proof -
  have pos: "step dvd RoundToStep u step \<and> 2 * \<bar>RoundToStep u step - u\<bar> \<le> step"
    if u: "0 \<le> u" "u + step < 2 ^ 62" for u
  proof -
    have "step dvd u - u mod step" by (simp add: minus_mod_eq_mult_div)
    moreover have "step dvd u - u mod step + step" by (simp add: minus_mod_eq_mult_div)
    moreover have "0 \<le> u mod step" "u mod step < step" using assms(1) by simp_all
    ultimately show ?thesis
      unfolding RoundToStep_nonneg [OF assms(1) u refl]
      by (auto simp: dvd_eq_mod_eq_0 [of step u])
  qed
  show ?thesis
  proof (cases "0 \<le> v")
    case True
    with pos [of v] assms show ?thesis by simp
  next
    case False
    then have "RoundToStep v step = - RoundToStep (- v) step"
      using assms by (intro RoundToStep_neg) simp_all
    moreover have "step dvd RoundToStep (- v) step \<and> 2 * \<bar>RoundToStep (- v) step - (- v)\<bar> \<le> step"
      using False assms by (intro pos) simp_all
    ultimately show ?thesis by (auto simp: abs_if split: if_splits)
  qed
qed

end
