(* ===== verification/Domain.thy ===== *)
theory Domain
  imports Decimal
begin

text \<open>
  The value types of \<^verbatim>\<open>internal/domain\<close>: time and the candle intervals
  (\<^verbatim>\<open>interval.go\<close>), the symbol roster (\<^verbatim>\<open>symbol.go\<close>), trades, levels and book
  snapshots (\<^verbatim>\<open>market.go\<close>, \<^verbatim>\<open>clock.go\<close>) and candles (\<^verbatim>\<open>candle.go\<close>).

  A \<^verbatim>\<open>time.Time\<close> is an instant in nanoseconds since the Unix epoch and a location;
  a \<^verbatim>\<open>time.Duration\<close> is an \<^typ>\<open>int\<close> of nanoseconds. A Go map or struct used as a
  registry keeps its entries and their order.
\<close>

section \<open>Time\<close>

datatype location = UTC | Zone string

record gotime =
  instant :: int
  zone :: location

text \<open>The zero \<^verbatim>\<open>time.Time\<close> is 1 January of year 1: 719162 days before the Unix epoch.\<close>

definition zero_instant :: int where
  "zero_instant = - (719162 * 86400 * 10 ^ 9)"

definition IsZero :: "gotime \<Rightarrow> bool" where
  "IsZero t = (instant t = zero_instant)"

definition to_utc :: "gotime \<Rightarrow> gotime" where
  "to_utc t = t\<lparr>zone := UTC\<rparr>"

text \<open>\<^verbatim>\<open>Time.Truncate\<close> rounds down to a multiple of \<^verbatim>\<open>d\<close> since the zero time.\<close>

definition Truncate :: "gotime \<Rightarrow> int \<Rightarrow> gotime" where
  "Truncate t d =
     (if d \<le> 0 then t else t\<lparr>instant := instant t - (instant t - zero_instant) mod d\<rparr>)"

definition Time_Add :: "gotime \<Rightarrow> int \<Rightarrow> gotime" where
  "Time_Add t d = t\<lparr>instant := instant t + d\<rparr>"

definition Time_Sub :: "gotime \<Rightarrow> gotime \<Rightarrow> int" where
  "Time_Sub t u = max MinInt64 (min MaxInt64 (instant t - instant u))"

definition Time_Equal :: "gotime \<Rightarrow> gotime \<Rightarrow> bool" where
  "Time_Equal t u = (instant t = instant u)"

definition Time_After :: "gotime \<Rightarrow> gotime \<Rightarrow> bool" where
  "Time_After t u = (instant t > instant u)"

definition Time_Before :: "gotime \<Rightarrow> gotime \<Rightarrow> bool" where
  "Time_Before t u = (instant t < instant u)"

definition Unix :: "gotime \<Rightarrow> int" where
  "Unix t = instant t div 10 ^ 9"

abbreviation (input) second :: int where "second \<equiv> 10 ^ 9"
abbreviation (input) minute_ns :: int where "minute_ns \<equiv> 60 * 10 ^ 9"
abbreviation (input) hour_ns :: int where "hour_ns \<equiv> 3600 * 10 ^ 9"


section \<open>Intervals\<close>

type_synonym interval = string

record IntervalSpec =
  spec_ID :: interval
  spec_Duration :: int
  spec_HistoryDepth :: nat

abbreviation Interval1m :: interval where "Interval1m \<equiv> ''1m''"
abbreviation Interval5m :: interval where "Interval5m \<equiv> ''5m''"
abbreviation Interval15m :: interval where "Interval15m \<equiv> ''15m''"
abbreviation Interval1h :: interval where "Interval1h \<equiv> ''1h''"
abbreviation Interval4h :: interval where "Interval4h \<equiv> ''4h''"
abbreviation Interval1D :: interval where "Interval1D \<equiv> ''1D''"

definition intervalSpecs :: "IntervalSpec list" where
  "intervalSpecs =
     [\<lparr>spec_ID = Interval1m, spec_Duration = minute_ns, spec_HistoryDepth = 500\<rparr>,
      \<lparr>spec_ID = Interval5m, spec_Duration = 5 * minute_ns, spec_HistoryDepth = 500\<rparr>,
      \<lparr>spec_ID = Interval15m, spec_Duration = 15 * minute_ns, spec_HistoryDepth = 500\<rparr>,
      \<lparr>spec_ID = Interval1h, spec_Duration = hour_ns, spec_HistoryDepth = 500\<rparr>,
      \<lparr>spec_ID = Interval4h, spec_Duration = 4 * hour_ns, spec_HistoryDepth = 180\<rparr>,
      \<lparr>spec_ID = Interval1D, spec_Duration = 24 * hour_ns, spec_HistoryDepth = 30\<rparr>]"

definition intervalSpec :: "interval \<Rightarrow> IntervalSpec result" where
  "intervalSpec i =
     (case find (\<lambda>s. spec_ID s = i) intervalSpecs of
        None \<Rightarrow> Inl ErrUnsupportedInterval
      | Some s \<Rightarrow> Inr s)"

definition ParseInterval :: "string \<Rightarrow> interval result" where
  "ParseInterval i =
     (case find (\<lambda>s. spec_ID s = i) intervalSpecs of
        None \<Rightarrow> Inl ErrUnsupportedInterval
      | Some s \<Rightarrow> Inr (spec_ID s))"

definition Intervals :: "interval list" where
  "Intervals = map spec_ID intervalSpecs"

definition IntervalIDs :: "string list" where
  "IntervalIDs = map spec_ID intervalSpecs"

definition Interval_Valid :: "interval \<Rightarrow> bool" where
  "Interval_Valid i = (case intervalSpec i of Inl _ \<Rightarrow> False | Inr _ \<Rightarrow> True)"

text \<open>\<^verbatim>\<open>Duration\<close> panics on an unregistered interval, and so do its callers.\<close>

definition Interval_Duration :: "interval \<Rightarrow> int option" where
  "Interval_Duration i = (case intervalSpec i of Inl _ \<Rightarrow> None | Inr s \<Rightarrow> Some (spec_Duration s))"

definition Interval_HistoryDepth :: "interval \<Rightarrow> nat" where
  "Interval_HistoryDepth i = (case intervalSpec i of Inl _ \<Rightarrow> 0 | Inr s \<Rightarrow> spec_HistoryDepth s)"

definition BucketStart :: "interval \<Rightarrow> gotime \<Rightarrow> gotime option" where
  "BucketStart i t = map_option (Truncate (to_utc t)) (Interval_Duration i)"

definition BucketEnd :: "interval \<Rightarrow> gotime \<Rightarrow> gotime option" where
  "BucketEnd i t =
     (case (BucketStart i t, Interval_Duration i) of
        (Some b, Some d) \<Rightarrow> Some (Time_Add b d)
      | _ \<Rightarrow> None)"

definition ExpectedNext :: "interval \<Rightarrow> gotime \<Rightarrow> gotime option" where
  "ExpectedNext i t =
     (case (BucketStart i t, Interval_Duration i) of
        (Some b, Some d) \<Rightarrow> Some (Time_Add b d)
      | _ \<Rightarrow> None)"


section \<open>Symbols\<close>

record Symbol =
  sym_ID :: string
  sym_Base :: string
  sym_Quote :: string
  sym_Display :: string
  sym_Name :: string
  sym_Glyph :: string
  PriceScale :: int
  QtyScale :: int
  PriceDigits :: int
  QtyDigits :: int
  sym_Live :: bool

definition Tick :: "Symbol \<Rightarrow> int" where "Tick s = 1"

definition Step :: "Symbol \<Rightarrow> int" where "Step s = 1"

definition FormatPrice :: "Symbol \<Rightarrow> price \<Rightarrow> string" where
  "FormatPrice s p = FormatScaled p (PriceDigits s)"

definition FormatQty :: "Symbol \<Rightarrow> qty \<Rightarrow> string" where
  "FormatQty s q = FormatScaled q (QtyDigits s)"

definition ParsePrice :: "Symbol \<Rightarrow> string \<Rightarrow> price result option" where
  "ParsePrice s v = ParseScaled v (PriceScale s) (PriceDigits s)"

definition ParseQty :: "Symbol \<Rightarrow> string \<Rightarrow> qty result option" where
  "ParseQty s v = ParseScaled v (QtyScale s) (QtyDigits s)"

definition IsTickAligned :: "Symbol \<Rightarrow> price \<Rightarrow> bool" where
  "IsTickAligned s p = (p smod Tick s = 0)"

definition IsStepAligned :: "Symbol \<Rightarrow> qty \<Rightarrow> bool" where
  "IsStepAligned s q = (q smod Step s = 0)"

definition BTCUSDT :: Symbol where
  "BTCUSDT = \<lparr>sym_ID = ''BTCUSDT'', sym_Base = ''BTC'', sym_Quote = ''USDT'',
     sym_Display = ''BTC/USDT'', sym_Name = ''Bitcoin / USDT'',
     sym_Glyph = [CHR 0xE2, CHR 0x82, CHR 0xBF],
     PriceScale = 100, QtyScale = 100000000, PriceDigits = 2, QtyDigits = 8, sym_Live = True\<rparr>"

definition ETHUSDT :: Symbol where
  "ETHUSDT = \<lparr>sym_ID = ''ETHUSDT'', sym_Base = ''ETH'', sym_Quote = ''USDT'',
     sym_Display = ''ETH/USDT'', sym_Name = ''Ethereum / USDT'', sym_Glyph = [CHR 0xCE, CHR 0x9E],
     PriceScale = 1000, QtyScale = 100000000, PriceDigits = 3, QtyDigits = 8, sym_Live = True\<rparr>"

definition SOLUSDT :: Symbol where
  "SOLUSDT = \<lparr>sym_ID = ''SOLUSDT'', sym_Base = ''SOL'', sym_Quote = ''USDT'',
     sym_Display = ''SOL/USDT'', sym_Name = ''Solana / USDT'', sym_Glyph = ''S'',
     PriceScale = 10000, QtyScale = 100000000, PriceDigits = 4, QtyDigits = 8, sym_Live = True\<rparr>"

definition BNBUSDT :: Symbol where
  "BNBUSDT = \<lparr>sym_ID = ''BNBUSDT'', sym_Base = ''BNB'', sym_Quote = ''USDT'',
     sym_Display = ''BNB/USDT'', sym_Name = ''BNB Chain / USDT'', sym_Glyph = ''B'',
     PriceScale = 10000, QtyScale = 100000000, PriceDigits = 4, QtyDigits = 8, sym_Live = True\<rparr>"

definition AVAXUSDT :: Symbol where
  "AVAXUSDT = \<lparr>sym_ID = ''AVAXUSDT'', sym_Base = ''AVAX'', sym_Quote = ''USDT'',
     sym_Display = ''AVAX/USDT'', sym_Name = ''Avalanche / USDT'', sym_Glyph = ''A'',
     PriceScale = 10000, QtyScale = 100000000, PriceDigits = 4, QtyDigits = 8, sym_Live = True\<rparr>"

definition ADAUSDT :: Symbol where
  "ADAUSDT = \<lparr>sym_ID = ''ADAUSDT'', sym_Base = ''ADA'', sym_Quote = ''USDT'',
     sym_Display = ''ADA/USDT'', sym_Name = ''Cardano / USDT'', sym_Glyph = ''D'',
     PriceScale = 10000, QtyScale = 100000000, PriceDigits = 4, QtyDigits = 8, sym_Live = True\<rparr>"

lemmas roster_defs = BTCUSDT_def ETHUSDT_def SOLUSDT_def BNBUSDT_def AVAXUSDT_def ADAUSDT_def

definition AllSymbols :: "Symbol list" where
  "AllSymbols = [BTCUSDT, ETHUSDT, SOLUSDT, BNBUSDT, AVAXUSDT, ADAUSDT]"

record MarketSeed =
  seed_Symbol :: Symbol
  seed_Price :: price

definition seedBy :: "(string \<times> MarketSeed) list" where
  "seedBy =
     [(sym_ID BTCUSDT, \<lparr>seed_Symbol = BTCUSDT, seed_Price = 6742135\<rparr>),
      (sym_ID ETHUSDT, \<lparr>seed_Symbol = ETHUSDT, seed_Price = 3421200\<rparr>),
      (sym_ID SOLUSDT, \<lparr>seed_Symbol = SOLUSDT, seed_Price = 1824000\<rparr>),
      (sym_ID BNBUSDT, \<lparr>seed_Symbol = BNBUSDT, seed_Price = 5941000\<rparr>),
      (sym_ID AVAXUSDT, \<lparr>seed_Symbol = AVAXUSDT, seed_Price = 287500\<rparr>),
      (sym_ID ADAUSDT, \<lparr>seed_Symbol = ADAUSDT, seed_Price = 4820\<rparr>)]"

definition Lookup :: "string \<Rightarrow> Symbol result" where
  "Lookup i =
     (case find (\<lambda>s. sym_ID s = i) AllSymbols of
        None \<Rightarrow> Inl ErrSymbolNotFound
      | Some s \<Rightarrow> Inr s)"

definition Seed :: "string \<Rightarrow> MarketSeed option" where
  "Seed i = map_of seedBy i"

definition SeedPrice :: "string \<Rightarrow> price option" where
  "SeedPrice i = map_option seed_Price (map_of seedBy i)"

text \<open>\<^verbatim>\<open>fnv.New64a\<close>: the 64-bit FNV-1a hash of the symbol id.\<close>

definition fnv64a :: "string \<Rightarrow> u64" where
  "fnv64a s = foldl (\<lambda>h c. (h XOR word_of_nat (of_char c)) * 1099511628211) 14695981039346656037 s"

definition DerivedSeed :: "int \<Rightarrow> string \<Rightarrow> int" where
  "DerivedSeed base symbolID = sint ((word_of_int base :: u64) XOR fnv64a symbolID)"


section \<open>Sides, trades, levels and book snapshots\<close>

datatype Side = SideUnknown | SideBuy | SideSell

fun Side_String :: "Side \<Rightarrow> string" where
  "Side_String SideBuy = ''BUY''"
| "Side_String SideSell = ''SELL''"
| "Side_String SideUnknown = ''UNKNOWN''"

definition ParseSide :: "string \<Rightarrow> Side result" where
  "ParseSide v =
     (if v = ''BUY'' then Inr SideBuy
      else if v = ''SELL'' then Inr SideSell
      else Inl ErrUnknownSide)"

record Trade =
  tr_ID :: u64
  tr_Symbol :: string
  tr_Timestamp :: gotime
  tr_Price :: price
  tr_Quantity :: qty
  tr_Side :: Side

record Level =
  lv_Price :: price
  lv_Quantity :: qty

record OrderBookSnapshot =
  ob_Symbol :: string
  ob_Epoch :: u64
  ob_UpdateID :: u64
  ob_Bids :: "Level list"
  ob_Asks :: "Level list"
  ob_ServerTime :: gotime

definition BestBid :: "OrderBookSnapshot \<Rightarrow> Level option" where
  "BestBid s = (if ob_Bids s = [] then None else Some (hd (ob_Bids s)))"

definition BestAsk :: "OrderBookSnapshot \<Rightarrow> Level option" where
  "BestAsk s = (if ob_Asks s = [] then None else Some (hd (ob_Asks s)))"

definition Spread :: "OrderBookSnapshot \<Rightarrow> price option" where
  "Spread s =
     (case (BestBid s, BestAsk s) of
        (Some b, Some a) \<Rightarrow> Some (Price_Sub (lv_Price a) (lv_Price b))
      | _ \<Rightarrow> None)"

definition Snapshot_Validate :: "OrderBookSnapshot \<Rightarrow> unit result" where
  "Snapshot_Validate s =
     (if ob_Bids s = [] \<or> ob_Asks s = [] then Inl ErrEmptyBook
      else if Price_Cmp (lv_Price (hd (ob_Bids s))) (lv_Price (hd (ob_Asks s))) \<ge> 0
      then Inl ErrCrossedBook
      else if \<not> adjacent (\<lambda>a b. \<not> Price_Cmp (lv_Price a) (lv_Price b) \<le> 0) (ob_Bids s)
      then Inl ErrCrossedBook
      else if \<not> adjacent (\<lambda>a b. \<not> Price_Cmp (lv_Price a) (lv_Price b) \<ge> 0) (ob_Asks s)
      then Inl ErrCrossedBook
      else Inr ())"

record MarketSummary =
  ms_Symbol :: string
  ms_Last :: price
  ms_Open24h :: price
  ms_High24h :: price
  ms_Low24h :: price
  ms_Volume24h :: qty
  ms_Change :: price
  ms_ChangeBP :: int
  ms_Trades24h :: int
  ms_UpdatedAt :: gotime

definition EqualLevels :: "Level list \<Rightarrow> Level list \<Rightarrow> bool" where
  "EqualLevels a b =
     (if length a \<noteq> length b then False else list_all (\<lambda>(x, y). x = y) (zip a b))"

definition EqualTrades :: "Trade \<Rightarrow> Trade \<Rightarrow> bool" where
  "EqualTrades a b =
     (tr_ID a = tr_ID b \<and> tr_Symbol a = tr_Symbol b
      \<and> Time_Equal (tr_Timestamp a) (tr_Timestamp b)
      \<and> tr_Price a = tr_Price b \<and> tr_Quantity a = tr_Quantity b \<and> tr_Side a = tr_Side b)"


section \<open>Candles\<close>

record Candle =
  cd_Symbol :: string
  cd_Interval :: interval
  cd_StartTime :: gotime
  cd_Open :: price
  cd_High :: price
  cd_Low :: price
  cd_Close :: price
  cd_Volume :: qty
  cd_TradeCount :: int
  cd_SourceSequence :: u64

definition NewCandle :: "string \<Rightarrow> interval \<Rightarrow> Trade \<Rightarrow> Candle option" where
  "NewCandle symbol iv t =
     map_option (\<lambda>start.
       \<lparr>cd_Symbol = symbol, cd_Interval = iv, cd_StartTime = start,
        cd_Open = tr_Price t, cd_High = tr_Price t, cd_Low = tr_Price t, cd_Close = tr_Price t,
        cd_Volume = tr_Quantity t, cd_TradeCount = 1, cd_SourceSequence = tr_ID t\<rparr>)
     (BucketStart iv (tr_Timestamp t))"

definition Candle_Apply :: "Trade \<Rightarrow> Candle \<Rightarrow> Candle" where
  "Candle_Apply t c =
     c\<lparr>cd_High := (if Price_Cmp (tr_Price t) (cd_High c) > 0 then tr_Price t else cd_High c),
       cd_Low := (if Price_Cmp (tr_Price t) (cd_Low c) < 0 then tr_Price t else cd_Low c),
       cd_Close := tr_Price t,
       cd_Volume := Qty_Add (cd_Volume c) (tr_Quantity t),
       cd_TradeCount := wrap64 (cd_TradeCount c + 1),
       cd_SourceSequence := tr_ID t\<rparr>"

definition Candle_Validate :: "Candle \<Rightarrow> unit result" where
  "Candle_Validate c =
     (if cd_TradeCount c \<le> 0 then Inl ErrCandleInvariant
      else if Qty_IsNegative (cd_Volume c) then Inl ErrCandleInvariant
      else if Price_Cmp (cd_High c) (MaxPrice (cd_Open c) (cd_Close c)) < 0
      then Inl ErrCandleInvariant
      else if Price_Cmp (cd_Low c) (MinPrice (cd_Open c) (cd_Close c)) > 0
      then Inl ErrCandleInvariant
      else if Price_Cmp (cd_High c) (cd_Low c) < 0 then Inl ErrCandleInvariant
      else if zone (cd_StartTime c) \<noteq> UTC then Inl ErrCandleInvariant
      else Inr ())"

definition EqualValue :: "Candle \<Rightarrow> Candle \<Rightarrow> bool" where
  "EqualValue c c' =
     (cd_Symbol c = cd_Symbol c' \<and> cd_Interval c = cd_Interval c'
      \<and> Time_Equal (cd_StartTime c) (cd_StartTime c')
      \<and> cd_Open c = cd_Open c' \<and> cd_High c = cd_High c' \<and> cd_Low c = cd_Low c'
      \<and> cd_Close c = cd_Close c' \<and> cd_Volume c = cd_Volume c')"


section \<open>Bucketing\<close>

lemma Interval_Duration_cases:
  assumes "Interval_Duration i = Some d"
  shows "d \<in> {minute_ns, 5 * minute_ns, 15 * minute_ns, hour_ns, 4 * hour_ns, 24 * hour_ns}"
  using assms
  by (auto simp: Interval_Duration_def intervalSpec_def intervalSpecs_def split: if_splits)

lemma Interval_Duration_pos: "Interval_Duration i = Some d \<Longrightarrow> 0 < d"
  by (auto dest: Interval_Duration_cases)

lemma Interval_Duration_dvd_zero: "Interval_Duration i = Some d \<Longrightarrow> d dvd zero_instant"
  by (auto simp: zero_instant_def dest!: Interval_Duration_cases)

lemma Interval_Duration_Valid: "Interval_Valid i \<longleftrightarrow> (\<exists>d. Interval_Duration i = Some d)"
  by (auto simp: Interval_Valid_def Interval_Duration_def split: sum.splits)

lemma BucketStart_instant:
  assumes "Interval_Duration i = Some d"
  shows "BucketStart i t = Some \<lparr>instant = instant t - instant t mod d, zone = UTC\<rparr>"
proof -
  have "(instant t - zero_instant) mod d = instant t mod d"
    using Interval_Duration_dvd_zero [OF assms] by (simp add: mod_diff_eq [symmetric] dvd_imp_mod_0)
  then show ?thesis
    using assms Interval_Duration_pos [OF assms]
    by (simp add: BucketStart_def Truncate_def to_utc_def)
qed

lemma BucketStart_Some_iff: "(\<exists>b. BucketStart i t = Some b) \<longleftrightarrow> Interval_Valid i"
  by (auto simp: BucketStart_def Interval_Duration_Valid)

text \<open>
  \<^verbatim>\<open>BucketStart\<close> is the bucketing the candles rely on: for every registered
  interval it returns (without the panic) a UTC instant that is a multiple of the interval
  since the Unix epoch, and that is the only such multiple whose bucket contains the
  timestamp. \<^verbatim>\<open>time.Truncate\<close> itself counts from year 1; the two agree because every
  interval divides a day.
\<close>

lemma BucketStart_aligned:
  assumes "Interval_Valid i"
  shows "\<exists>b d. BucketStart i t = Some b \<and> Interval_Duration i = Some d \<and> zone b = UTC
    \<and> d dvd instant b \<and> instant b \<le> instant t \<and> instant t < instant b + d
    \<and> BucketEnd i t = Some \<lparr>instant = instant b + d, zone = UTC\<rparr>
    \<and> (\<forall>u. d dvd u \<longrightarrow> u \<le> instant t \<longrightarrow> instant t < u + d \<longrightarrow> u = instant b)"
proof -
  from assms obtain d where d: "Interval_Duration i = Some d"
    by (auto simp: Interval_Duration_Valid)
  let ?b = "\<lparr>instant = instant t - instant t mod d, zone = UTC\<rparr>"
  have pos: "0 < d" by (rule Interval_Duration_pos [OF d])
  have lt: "instant t mod d < d" and ge: "0 \<le> instant t mod d" using pos by simp_all
  have uniq: "u = instant t - instant t mod d"
    if "d dvd u" "u \<le> instant t" "instant t < u + d" for u
  proof -
    from that(1) obtain k where "u = d * k" by blast
    then have "instant t mod d = instant t - u"
      using that(2,3) pos by (intro int_mod_pos_eq [where q = k]) auto
    then show ?thesis by simp
  qed
  have "d dvd instant t - instant t mod d" by (simp add: dvd_minus_mod)
  then show ?thesis
    using BucketStart_instant [OF d] d lt ge uniq
    by (intro exI [of _ ?b] exI [of _ d]) (auto simp: BucketEnd_def Time_Add_def)
qed

section \<open>The roster\<close>

lemma roster_ids [simp]:
  "sym_ID BTCUSDT = ''BTCUSDT''" "sym_ID ETHUSDT = ''ETHUSDT''" "sym_ID SOLUSDT = ''SOLUSDT''"
  "sym_ID BNBUSDT = ''BNBUSDT''" "sym_ID AVAXUSDT = ''AVAXUSDT''" "sym_ID ADAUSDT = ''ADAUSDT''"
  by (simp_all only: roster_defs Symbol.simps)

lemma roster_price_digits [simp]:
  "PriceDigits BTCUSDT = 2" "PriceDigits ETHUSDT = 3" "PriceDigits SOLUSDT = 4"
  "PriceDigits BNBUSDT = 4" "PriceDigits AVAXUSDT = 4" "PriceDigits ADAUSDT = 4"
  by (simp_all only: roster_defs Symbol.simps)

lemma roster_price_scales [simp]:
  "PriceScale BTCUSDT = 100" "PriceScale ETHUSDT = 1000" "PriceScale SOLUSDT = 10000"
  "PriceScale BNBUSDT = 10000" "PriceScale AVAXUSDT = 10000" "PriceScale ADAUSDT = 10000"
  by (simp_all only: roster_defs Symbol.simps)

lemma roster_qty [simp]:
  "s \<in> set AllSymbols \<Longrightarrow> QtyDigits s = 8 \<and> QtyScale s = 100000000"
  unfolding AllSymbols_def list.set
  by (elim insertE emptyE; simp only: roster_defs Symbol.simps)

lemma AllSymbols_scales:
  assumes "s \<in> set AllSymbols"
  shows "0 < PriceDigits s \<and> PriceScale s = 10 ^ nat (PriceDigits s) \<and> PriceDigits s \<le> 18
    \<and> 0 < QtyDigits s \<and> QtyScale s = 10 ^ nat (QtyDigits s) \<and> QtyDigits s \<le> 18"
  using roster_qty [OF assms] assms
  unfolding AllSymbols_def list.set by (elim insertE emptyE; simp)

lemma Symbol_wire_exact:
  assumes "s \<in> set AllSymbols" "\<bar>v\<bar> \<le> maxSafeMagnitude"
  shows "ParsePrice s (FormatPrice s v) = Some (Inr v) \<and> ParseQty s (FormatQty s v) = Some (Inr v)"
proof -
  from assms(1) have sc: "0 < PriceDigits s" "PriceScale s = 10 ^ nat (PriceDigits s)"
    "PriceDigits s \<le> 18" "0 < QtyDigits s" "QtyScale s = 10 ^ nat (QtyDigits s)" "QtyDigits s \<le> 18"
    using AllSymbols_scales by blast+
  have v: "\<bar>v\<bar> \<le> 2 ^ 53" using assms(2) by (simp add: maxSafeMagnitude_def)
  show ?thesis
    using sc ParseScaled_FormatScaled [OF v, of "nat (PriceDigits s)"]
      ParseScaled_FormatScaled [OF v, of "nat (QtyDigits s)"]
    by (simp add: ParsePrice_def FormatPrice_def ParseQty_def FormatQty_def nat_le_iff)
qed



lemma Lookup_Inr: "Lookup i = Inr s \<Longrightarrow> s \<in> set AllSymbols \<and> sym_ID s = i"
  by (auto simp: Lookup_def find_Some_iff split: option.splits)

lemma roster_ids_distinct: "distinct (map sym_ID AllSymbols)"
  by (simp add: AllSymbols_def)

lemma Lookup_roster: "s \<in> set AllSymbols \<Longrightarrow> Lookup (sym_ID s) = Inr s"
  by (simp add: Lookup_def find_distinct_key [OF roster_ids_distinct])

lemma seedBy_roster: "map fst seedBy = map sym_ID AllSymbols"
  by (simp add: seedBy_def AllSymbols_def)

lemma Seed_roster:
  "s \<in> set AllSymbols \<Longrightarrow> \<exists>m. Seed (sym_ID s) = Some m \<and> seed_Symbol m = s \<and> 0 < seed_Price m"
  unfolding AllSymbols_def list.set
  by (elim insertE emptyE; simp add: Seed_def seedBy_def)


section \<open>Sides and snapshots\<close>

lemma ParseSide_String: "s \<noteq> SideUnknown \<Longrightarrow> ParseSide (Side_String s) = Inr s"
  by (cases s) (simp_all add: ParseSide_def)

lemma ParseSide_Inr: "ParseSide v = Inr s \<longleftrightarrow> s \<noteq> SideUnknown \<and> v = Side_String s"
  by (cases s) (auto simp: ParseSide_def split: if_splits)

definition bids_ordered :: "Level list \<Rightarrow> bool" where
  "bids_ordered ls = sorted_wrt (>) (map lv_Price ls)"

definition asks_ordered :: "Level list \<Rightarrow> bool" where
  "asks_ordered ls = sorted_wrt (<) (map lv_Price ls)"

definition uncrossed :: "Level list \<Rightarrow> Level list \<Rightarrow> bool" where
  "uncrossed bids asks = (\<forall>b\<in>set bids. \<forall>a\<in>set asks. lv_Price b < lv_Price a)"

lemma adjacent_bids:
  "adjacent (\<lambda>a b. \<not> Price_Cmp (lv_Price a) (lv_Price b) \<le> 0) ls = bids_ordered ls"
proof -
  have "transp (\<lambda>a b. lv_Price a > lv_Price b)" by (auto intro!: transpI)
  then show ?thesis
    unfolding bids_ordered_def Price_Cmp_simps not_le sorted_wrt_map by (rule adjacent_sorted_wrt)
qed

lemma adjacent_asks:
  "adjacent (\<lambda>a b. \<not> Price_Cmp (lv_Price a) (lv_Price b) \<ge> 0) ls = asks_ordered ls"
proof -
  have "transp (\<lambda>a b. lv_Price a < lv_Price b)" by (auto intro!: transpI)
  then show ?thesis
    unfolding asks_ordered_def Price_Cmp_simps not_le sorted_wrt_map by (rule adjacent_sorted_wrt)
qed

lemma best_bid_max: "bids_ordered ls \<Longrightarrow> b \<in> set ls \<Longrightarrow> lv_Price b \<le> lv_Price (hd ls)"
  by (cases ls) (auto simp: bids_ordered_def)

lemma best_ask_min: "asks_ordered ls \<Longrightarrow> a \<in> set ls \<Longrightarrow> lv_Price (hd ls) \<le> lv_Price a"
  by (cases ls) (auto simp: asks_ordered_def)

lemma uncrossed_hd:
  assumes "bids_ordered bids" "asks_ordered asks" "bids \<noteq> []" "asks \<noteq> []"
  shows "uncrossed bids asks \<longleftrightarrow> lv_Price (hd bids) < lv_Price (hd asks)"
  using assms best_bid_max [OF assms(1)] best_ask_min [OF assms(2)]
  unfolding uncrossed_def by (meson hd_in_set le_less_trans less_le_trans)

definition sides_valid :: "Level list \<Rightarrow> Level list \<Rightarrow> bool" where
  "sides_valid bids asks =
     (bids \<noteq> [] \<and> asks \<noteq> [] \<and> bids_ordered bids \<and> asks_ordered asks \<and> uncrossed bids asks)"

lemma Snapshot_Validate_iff:
  "Snapshot_Validate s = Inr () \<longleftrightarrow> sides_valid (ob_Bids s) (ob_Asks s)"
proof -
  have "Snapshot_Validate s = Inr () \<longleftrightarrow> ob_Bids s \<noteq> [] \<and> ob_Asks s \<noteq> []
      \<and> lv_Price (hd (ob_Bids s)) < lv_Price (hd (ob_Asks s))
      \<and> bids_ordered (ob_Bids s) \<and> asks_ordered (ob_Asks s)"
    unfolding Snapshot_Validate_def adjacent_bids adjacent_asks by auto
  then show ?thesis using uncrossed_hd by (auto simp: sides_valid_def)
qed

lemma EqualLevels_eq: "EqualLevels a b \<longleftrightarrow> a = b"
  by (auto simp: EqualLevels_def list_all_iff list_eq_iff_zip_eq)


section \<open>The value of a candle\<close>

text \<open>
  A candle opened by one trade and fed the others of its bucket has a closed form; the
  aggregator's refinement rests on it.
\<close>

lemma fold_Candle_Apply:
  "fold Candle_Apply ts c =
     c\<lparr>cd_High := Max (insert (cd_High c) (tr_Price ` set ts)),
       cd_Low := Min (insert (cd_Low c) (tr_Price ` set ts)),
       cd_Close := (if ts = [] then cd_Close c else tr_Price (last ts)),
       cd_Volume := (if ts = [] then cd_Volume c else wrap64 (cd_Volume c + sum_list (map tr_Quantity ts))),
       cd_TradeCount := (if ts = [] then cd_TradeCount c else wrap64 (cd_TradeCount c + int (length ts))),
       cd_SourceSequence := (if ts = [] then cd_SourceSequence c else tr_ID (last ts))\<rparr>"
proof (induction ts arbitrary: c)
  case (Cons t ts)
  have mx: "Max (insert (max x a) (tr_Price ` set ts)) = Max (insert x (insert a (tr_Price ` set ts)))"
    and mn: "Min (insert (min x a) (tr_Price ` set ts)) = Min (insert x (insert a (tr_Price ` set ts)))"
    for x a :: int
    by (cases "ts = []"; simp add: ac_simps)+
  have hi: "(if Price_Cmp (tr_Price t) (cd_High c) > 0 then tr_Price t else cd_High c)
      = max (cd_High c) (tr_Price t)"
    and lo: "(if Price_Cmp (tr_Price t) (cd_Low c) < 0 then tr_Price t else cd_Low c)
      = min (cd_Low c) (tr_Price t)"
    by auto
  show ?case
    unfolding fold_simps comp_apply Cons.IH
    unfolding Candle_Apply_def hi lo Qty_Add_def
    by (simp add: mx mn i64_simps algebra_simps)
qed simp

lemma candle_value:
  assumes "NewCandle symbol iv t = Some c" "c' = fold Candle_Apply ts c" "in_i64 (tr_Quantity t)"
  shows "cd_Open c' = tr_Price t \<and> cd_Close c' = tr_Price (last (t # ts))
    \<and> cd_High c' = Max (tr_Price ` set (t # ts)) \<and> cd_Low c' = Min (tr_Price ` set (t # ts))
    \<and> cd_Volume c' = wrap64 (sum_list (map tr_Quantity (t # ts)))
    \<and> cd_TradeCount c' = wrap64 (int (length (t # ts)))
    \<and> cd_SourceSequence c' = tr_ID (last (t # ts)) \<and> BucketStart iv (tr_Timestamp t) = Some (cd_StartTime c')
    \<and> ((\<forall>u\<in>set (t # ts). 0 \<le> tr_Quantity u) \<and> in_i64 (sum_list (map tr_Quantity (t # ts)))
        \<and> in_i64 (int (length (t # ts))) \<longrightarrow> Candle_Validate c' = Inr ())"
proof -
  obtain st where st: "BucketStart iv (tr_Timestamp t) = Some st"
    and c: "c = \<lparr>cd_Symbol = symbol, cd_Interval = iv, cd_StartTime = st,
        cd_Open = tr_Price t, cd_High = tr_Price t, cd_Low = tr_Price t, cd_Close = tr_Price t,
        cd_Volume = tr_Quantity t, cd_TradeCount = 1, cd_SourceSequence = tr_ID t\<rparr>"
    using assms(1) by (auto simp: NewCandle_def)
  have utc: "zone st = UTC"
    using st by (auto simp: BucketStart_def Truncate_def to_utc_def)
  have one: "wrap64 1 = 1" by (simp add: wrap64_def)
  have v: "cd_Open c' = tr_Price t" "cd_Close c' = tr_Price (last (t # ts))"
    "cd_High c' = Max (tr_Price ` set (t # ts))" "cd_Low c' = Min (tr_Price ` set (t # ts))"
    "cd_Volume c' = wrap64 (sum_list (map tr_Quantity (t # ts)))"
    "cd_TradeCount c' = wrap64 (int (length (t # ts)))"
    "cd_SourceSequence c' = tr_ID (last (t # ts))" "cd_StartTime c' = st"
    unfolding assms(2) fold_Candle_Apply c
    using assms(3) by (simp_all add: i64_simps one)
  have "Candle_Validate c' = Inr ()"
    if q: "\<forall>u\<in>set (t # ts). 0 \<le> tr_Quantity u" "in_i64 (sum_list (map tr_Quantity (t # ts)))"
      "in_i64 (int (length (t # ts)))"
  proof -
    have vol: "0 \<le> sum_list (map tr_Quantity (t # ts))" using q(1) by (intro sum_list_nonneg) auto
    have zn: "zone (cd_StartTime c') = UTC" using v(8) utc by simp
    have fin: "finite (tr_Price ` set (t # ts))" by simp
    have mem: "tr_Price t \<in> tr_Price ` set (t # ts)" "tr_Price (last (t # ts)) \<in> tr_Price ` set (t # ts)"
      by (simp, intro imageI last_in_set) simp
    have hi: "cd_Open c' \<le> cd_High c'" "cd_Close c' \<le> cd_High c'"
      and lo: "cd_Low c' \<le> cd_Open c'" "cd_Low c' \<le> cd_Close c'"
      using v mem Max_ge [OF fin] Min_le [OF fin] by metis+
    have "cd_TradeCount c' = int (length (t # ts))" "cd_Volume c' = sum_list (map tr_Quantity (t # ts))"
      using v q(2,3) by (simp_all only: wrap64_id)
    then show ?thesis
      using vol zn hi lo by (auto simp: Candle_Validate_def Qty_IsNegative_def not_less)
  qed
  with v st show ?thesis by blast
qed

text \<open>
  The OHLCV value of a candle is what its trades determine: opened by \<open>t\<close> and fed
  \<open>ts\<close>, its open is the first price, its close the last, its high and low the extremes,
  its volume and count the (64-bit) totals; and it passes \<^verbatim>\<open>Validate\<close> whenever the
  quantities are non-negative and the totals fit.
\<close>

lemma Candle_OHLCV:
  assumes "NewCandle symbol iv t = Some c" "c' = fold Candle_Apply ts c" "in_i64 (tr_Quantity t)"
  shows "cd_Open c' = tr_Price t \<and> cd_Close c' = tr_Price (last (t # ts))
    \<and> cd_High c' = Max (tr_Price ` set (t # ts)) \<and> cd_Low c' = Min (tr_Price ` set (t # ts))
    \<and> cd_Volume c' = wrap64 (sum_list (map tr_Quantity (t # ts)))
    \<and> cd_TradeCount c' = wrap64 (int (length (t # ts)))
    \<and> cd_SourceSequence c' = tr_ID (last (t # ts)) \<and> BucketStart iv (tr_Timestamp t) = Some (cd_StartTime c')
    \<and> ((\<forall>u\<in>set (t # ts). 0 \<le> tr_Quantity u) \<and> in_i64 (sum_list (map tr_Quantity (t # ts)))
        \<and> in_i64 (int (length (t # ts))) \<longrightarrow> Candle_Validate c' = Inr ())"
  by (rule candle_value [OF assms])

end
