(* ===== verification/Float64.thy ===== *)
theory Float64
  imports Prelude "HOL-Library.Log_Nat"
begin

text \<open>
  The \<^verbatim>\<open>float64\<close> arithmetic the program uses to size quantities and flush intervals:
  an operation is the exact rational result rounded to the nearest 53-bit significand, ties
  to even, with the subnormal spacing as the smallest one. Overflow to infinity is not
  represented; the program's values stay far below it.
\<close>

section \<open>Rounding\<close>

definition round_half_even :: "rat \<Rightarrow> int" where
  "round_half_even y =
     (let f = \<lfloor>y\<rfloor>; d = y - of_int f in
      if d < 1 / 2 then f else if d > 1 / 2 then f + 1 else if even f then f else f + 1)"

text \<open>The binary exponent of a positive rational.\<close>

definition f64_exp :: "rat \<Rightarrow> int" where
  "f64_exp x =
     (let (p, q) = quotient_of x;
          e = int (nat (bitlen p)) - int (nat (bitlen q))
      in if x < 2 powi e then e - 1 else e)"

definition f64_ulp :: "rat \<Rightarrow> rat" where
  "f64_ulp x = 2 powi (max (f64_exp x - 52) (- 1074))"

definition round64 :: "rat \<Rightarrow> rat" where
  "round64 x =
     (if x = 0 then 0
      else if x < 0 then - (of_int (round_half_even (- x / f64_ulp (- x))) * f64_ulp (- x))
      else of_int (round_half_even (x / f64_ulp x)) * f64_ulp x)"

definition f64_add :: "rat \<Rightarrow> rat \<Rightarrow> rat" where "f64_add x y = round64 (x + y)"
definition f64_sub :: "rat \<Rightarrow> rat \<Rightarrow> rat" where "f64_sub x y = round64 (x - y)"
definition f64_mul :: "rat \<Rightarrow> rat \<Rightarrow> rat" where "f64_mul x y = round64 (x * y)"
definition f64_div :: "rat \<Rightarrow> rat \<Rightarrow> rat" where "f64_div x y = round64 (x / y)"

text \<open>Conversions: \<^verbatim>\<open>float64(n)\<close> rounds, \<^verbatim>\<open>int64(x)\<close> discards the fraction.\<close>

definition f64_of_int :: "int \<Rightarrow> rat" where "f64_of_int n = round64 (of_int n)"

definition f64_to_int :: "rat \<Rightarrow> int" where
  "f64_to_int x = (if x < 0 then - \<lfloor>- x\<rfloor> else \<lfloor>x\<rfloor>)"


section \<open>Rounding lemmas\<close>

lemma round_half_even_of_int [simp]: "round_half_even (of_int n) = n"
  by (simp add: round_half_even_def)

lemma round_half_even_cases: "round_half_even y = \<lfloor>y\<rfloor> \<or> round_half_even y = \<lfloor>y\<rfloor> + 1"
  by (simp add: round_half_even_def Let_def)

lemma round_half_even_mono:
  assumes "x \<le> y"
  shows "round_half_even x \<le> round_half_even y"
proof (cases "\<lfloor>x\<rfloor> = \<lfloor>y\<rfloor>")
  case True
  with assms show ?thesis by (auto simp: round_half_even_def Let_def)
next
  case False
  with assms have "\<lfloor>x\<rfloor> + 1 \<le> \<lfloor>y\<rfloor>" using floor_mono [OF assms] by linarith
  then show ?thesis
    using round_half_even_cases [of x] round_half_even_cases [of y] by linarith
qed

lemma round_half_even_le: "y \<le> of_int n \<Longrightarrow> round_half_even y \<le> n"
  using round_half_even_mono [of y "of_int n"] by simp

lemma round_half_even_ge: "of_int n \<le> y \<Longrightarrow> n \<le> round_half_even y"
  using round_half_even_mono [of "of_int n" y] by simp

lemma bitlen_pos: "0 < p \<Longrightarrow> 0 < bitlen p"
  using bitlen_nonneg [of p] bitlen_eq_zero_iff [of p] by linarith

lemma bitlen_bounds_rat:
  assumes "0 < p"
  shows "(2 :: rat) ^ (nat (bitlen p) - 1) \<le> of_int p" "(of_int p :: rat) < 2 ^ nat (bitlen p)"
proof -
  from assms have b: "0 < bitlen p" "2 ^ nat (bitlen p - 1) \<le> p" "p < 2 ^ nat (bitlen p)"
    using bitlen_bounds [of p] bitlen_pos [of p] by simp_all
  then have e: "nat (bitlen p - 1) = nat (bitlen p) - 1" by simp
  show "(2 :: rat) ^ (nat (bitlen p) - 1) \<le> of_int p"
    using b(2) unfolding e by (metis of_int_le_iff of_int_numeral of_int_power)
  show "(of_int p :: rat) < 2 ^ nat (bitlen p)"
    using b(3) by (metis of_int_less_iff of_int_numeral of_int_power)
qed

lemma f64_exp_bounds:
  assumes "0 < x"
  shows "2 powi f64_exp x \<le> x" "x < 2 powi (f64_exp x + 1)"
proof -
  obtain p q where pq: "quotient_of x = (p, q)" by force
  have q: "0 < q" using quotient_of_denom_pos [OF pq] .
  have x: "x = of_int p / of_int q" using quotient_of_div [OF pq] .
  have p: "0 < p" using assms q unfolding x by (simp add: zero_less_divide_iff)
  define a where "a = nat (bitlen p)"
  define b where "b = nat (bitlen q)"
  have ab: "0 < a" "0 < b"
    using p q bitlen_pos [of p] bitlen_pos [of q] by (simp_all add: a_def b_def)
  have P: "(2 :: rat) ^ (a - 1) \<le> of_int p" "(of_int p :: rat) < 2 ^ a"
    and Q: "(2 :: rat) ^ (b - 1) \<le> of_int q" "(of_int q :: rat) < 2 ^ b"
    unfolding a_def b_def using bitlen_bounds_rat [OF p] bitlen_bounds_rat [OF q] by auto
  have half: "(2 :: rat) powi (int a - int b - 1) = 2 ^ (a - 1) / 2 ^ b"
    "(2 :: rat) powi (int a - int b + 1) = 2 ^ a / 2 ^ (b - 1)"
    using ab by (cases a; cases b; simp add: power_int_diff power_int_add)+
  have lo: "2 powi (int a - int b - 1) \<le> x"
    unfolding half x using P(1) Q p q by (intro frac_le) (auto simp: less_imp_le)
  have hi: "x < 2 powi (int a - int b + 1)"
    unfolding half x using P(2) Q p q by (intro frac_less) auto
  show "2 powi f64_exp x \<le> x" "x < 2 powi (f64_exp x + 1)"
    using lo hi unfolding f64_exp_def pq Let_def prod.case a_def [symmetric] b_def [symmetric]
    by (simp_all split: if_split)
qed

lemma powi2_mono: "m \<le> n \<Longrightarrow> (2 :: rat) powi m \<le> 2 powi n"
  by (intro power_int_increasing) auto

lemma powi2_less_iff: "(2 :: rat) powi m < 2 powi n \<longleftrightarrow> m < n"
  by (meson linorder_not_less powi2_mono power_int_strict_increasing one_less_numeral_iff semiring_norm(76))

lemma f64_exp_mono: "0 < x \<Longrightarrow> x \<le> y \<Longrightarrow> f64_exp x \<le> f64_exp y"
  using f64_exp_bounds [of x] f64_exp_bounds [of y] powi2_less_iff [of "f64_exp x" "f64_exp y + 1"]
  by linarith

lemma f64_ulp_pos [simp]: "0 < f64_ulp x"
  by (simp add: f64_ulp_def)

lemma powi2_ulp_int:
  assumes "max (e - 52) (- 1074) \<le> k"
  shows "\<exists>n. (2 :: rat) powi k / 2 powi max (e - 52) (- 1074) = of_int n"
proof -
  have "(2 :: rat) powi k / 2 powi max (e - 52) (- 1074) = 2 powi (k - max (e - 52) (- 1074))"
    by (simp add: power_int_diff)
  also have "\<dots> = of_int (2 ^ nat (k - max (e - 52) (- 1074)))"
    using assms by (simp add: power_int_def)
  finally show ?thesis by blast
qed

text \<open>A positive value rounds to something between the powers of two around it.\<close>

lemma round64_binade:
  assumes "0 < x"
  shows "x < 2 powi k \<Longrightarrow> - 1074 \<le> k \<Longrightarrow> round64 x \<le> 2 powi k"
    and "2 powi k \<le> x \<Longrightarrow> - 1074 \<le> k \<Longrightarrow> k = f64_exp x \<Longrightarrow> 2 powi k \<le> round64 x"
proof -
  define u where "u = f64_ulp x"
  have u: "0 < u" by (simp add: u_def)
  have r: "round64 x = of_int (round_half_even (x / u)) * u"
    using assms by (simp add: round64_def u_def)
  show "round64 x \<le> 2 powi k" if "x < 2 powi k" "- 1074 \<le> k"
  proof -
    have "f64_exp x < k"
      using f64_exp_bounds(1) [OF assms] that(1) powi2_less_iff [of "f64_exp x" k] by linarith
    with that(2) have "max (f64_exp x - 52) (- 1074) \<le> k" by simp
    then obtain n where n: "2 powi k / u = of_int n"
      using powi2_ulp_int [of "f64_exp x" k] by (auto simp: u_def f64_ulp_def)
    have "x / u \<le> of_int n" using that(1) u by (simp add: divide_right_mono flip: n)
    then have "of_int (round_half_even (x / u)) \<le> (of_int n :: rat)"
      using round_half_even_le by simp
    then show ?thesis using u unfolding r n [symmetric] by (simp add: pos_le_divide_eq)
  qed
  show "2 powi k \<le> round64 x" if "2 powi k \<le> x" "- 1074 \<le> k" "k = f64_exp x"
  proof -
    from that(2,3) have "max (f64_exp x - 52) (- 1074) \<le> k" by simp
    then obtain n where n: "2 powi k / u = of_int n"
      using powi2_ulp_int [of "f64_exp x" k] by (auto simp: u_def f64_ulp_def)
    have "of_int n \<le> x / u" using that(1) u by (simp add: divide_right_mono flip: n)
    then have "(of_int n :: rat) \<le> of_int (round_half_even (x / u))"
      using round_half_even_ge by simp
    then show ?thesis using u unfolding r n [symmetric] by (simp add: pos_divide_le_eq)
  qed
qed

lemma round64_nonneg: "0 \<le> x \<Longrightarrow> 0 \<le> round64 x"
  using round_half_even_ge [of 0 "x / f64_ulp x"] f64_ulp_pos [of x]
  by (auto simp: round64_def less_imp_le)

lemma round64_zero [simp]: "round64 0 = 0"
  by (simp add: round64_def)

lemma round64_minus: "round64 (- x) = - round64 x"
  by (auto simp: round64_def)

lemma round64_mono_pos:
  assumes "0 < x" "x \<le> y"
  shows "round64 x \<le> round64 y"
proof (cases "f64_ulp x = f64_ulp y")
  case True
  have "round_half_even (x / f64_ulp y) \<le> round_half_even (y / f64_ulp y)"
    using assms by (intro round_half_even_mono divide_right_mono) (auto simp: less_imp_le)
  with assms True show ?thesis by (simp add: round64_def)
next
  case False
  from assms have e: "f64_exp x \<le> f64_exp y" by (rule f64_exp_mono)
  have lt: "f64_exp x < f64_exp y" using e False by (cases "f64_exp x = f64_exp y") (auto simp: f64_ulp_def)
  then have big: "- 1074 \<le> f64_exp y"
    using False by (auto simp: f64_ulp_def max_def split: if_splits)
  have "x < 2 powi f64_exp y"
    using f64_exp_bounds(2) [OF assms(1)] powi2_mono [of "f64_exp x + 1" "f64_exp y"] lt by linarith
  then have "round64 x \<le> 2 powi f64_exp y"
    using assms(1) big by (intro round64_binade(1))
  also have "\<dots> \<le> round64 y"
    using assms big by (intro round64_binade(2) f64_exp_bounds(1)) auto
  finally show ?thesis .
qed

lemma round64_mono: "x \<le> y \<Longrightarrow> round64 x \<le> round64 y"
proof -
  assume le: "x \<le> y"
  consider "0 < x" | "x \<le> 0" "0 \<le> y" | "y < 0" by linarith
  then show ?thesis
  proof cases
    case 1 with le show ?thesis by (intro round64_mono_pos)
  next
    case 2
    then have "round64 x \<le> 0" using round64_nonneg [of "- x"] by (simp add: round64_minus)
    with 2 show ?thesis using round64_nonneg [of y] by linarith
  next
    case 3
    with le have "round64 (- y) \<le> round64 (- x)" by (intro round64_mono_pos) auto
    then show ?thesis by (simp add: round64_minus)
  qed
qed

lemma round64_int_pos:
  assumes "0 < n" "n \<le> 2 ^ 53"
  shows "round64 (of_int n) = of_int n"
proof -
  define u where "u = f64_ulp (of_int n)"
  have x: "(0 :: rat) < of_int n" using assms(1) by simp
  have e0: "0 \<le> f64_exp (of_int n)"
  proof -
    have "(1 :: rat) \<le> of_int n" using assms(1) by simp
    then have "(2 :: rat) powi 0 < 2 powi (f64_exp (of_int n) + 1)"
      using f64_exp_bounds(2) [OF x] by simp
    then show ?thesis unfolding powi2_less_iff by simp
  qed
  have "\<exists>m. of_int n / u = of_int m"
  proof (cases "n = 2 ^ 53")
    case True
    have "f64_exp (2 ^ 53) = 53"
      using f64_exp_bounds [of "2 ^ 53"] powi2_less_iff [of 53 "f64_exp (2 ^ 53) + 1"]
        powi2_less_iff [of "f64_exp (2 ^ 53)" 54] by (simp add: power_int_def)
    then have "u = 2" by (simp add: u_def True f64_ulp_def)
    with True show ?thesis by (intro exI [of _ "2 ^ 52"]) simp
  next
    case False
    with assms have "(of_int n :: rat) < 2 powi 53"
      by (simp add: power_int_def)
    then have "f64_exp (of_int n) \<le> 52"
      using f64_exp_bounds(1) [OF x] powi2_less_iff [of "f64_exp (of_int n)" 53] by linarith
    then obtain k where k: "f64_exp (of_int n) - 52 = - int k"
      by (metis add_diff_cancel_left' diff_0 le_iff_diff_le_0 nonneg_int_cases minus_diff_eq neg_0_le_iff_le)
    then have "u = 2 powi (- int k)"
      using e0 by (simp add: u_def f64_ulp_def max_def)
    then have "of_int n / u = of_int (n * 2 ^ k)"
      by (simp add: power_int_minus divide_inverse)
    then show ?thesis by blast
  qed
  then obtain m where m: "of_int n / u = of_int m" by blast
  then have "of_int m * u = of_int n" 
    using f64_ulp_pos [of "of_int n"] by (simp add: divide_eq_eq flip: u_def)
  then show ?thesis using x m by (simp add: round64_def flip: u_def)
qed

lemma f64_of_int_exact: "\<bar>n\<bar> \<le> 2 ^ 53 \<Longrightarrow> f64_of_int n = of_int n"
  using round64_int_pos [of n] round64_int_pos [of "- n"] round64_minus [of "of_int (- n)"]
  by (cases n "0 :: int" rule: linorder_cases) (auto simp: f64_of_int_def)

lemma round64_le_int: "x \<le> of_int n \<Longrightarrow> \<bar>n\<bar> \<le> 2 ^ 53 \<Longrightarrow> round64 x \<le> of_int n"
  using round64_mono [of x "of_int n"] f64_of_int_exact [of n] by (simp add: f64_of_int_def)

lemma round64_ge_int: "of_int n \<le> x \<Longrightarrow> \<bar>n\<bar> \<le> 2 ^ 53 \<Longrightarrow> of_int n \<le> round64 x"
  using round64_mono [of "of_int n" x] f64_of_int_exact [of n] by (simp add: f64_of_int_def)

lemma f64_to_int_nonneg: "0 \<le> x \<Longrightarrow> f64_to_int x = \<lfloor>x\<rfloor>"
  by (simp add: f64_to_int_def)

lemma f64_to_int_mono: "x \<le> y \<Longrightarrow> f64_to_int x \<le> f64_to_int y"
proof -
  assume le: "x \<le> y"
  have neg: "- \<lfloor>- z\<rfloor> \<le> 0" if "z < 0" for z :: rat using that by simp
  have pos: "0 \<le> \<lfloor>z\<rfloor>" if "\<not> z < 0" for z :: rat using that by simp
  show ?thesis
  proof (cases "x < 0 \<and> \<not> y < 0")
    case True
    then have "- \<lfloor>- x\<rfloor> \<le> \<lfloor>y\<rfloor>" using neg [of x] pos [of y] by linarith
    with True show ?thesis by (simp add: f64_to_int_def)
  next
    case False
    with le show ?thesis
      using floor_mono [of "- y" "- x"] floor_mono [of x y] by (auto simp: f64_to_int_def)
  qed
qed

end
