(* ===== verification/Tier.thy ===== *)
theory Tier
  imports Domain Float64
begin

text \<open>
  The adaptive delivery tier: the vocabulary of \<^verbatim>\<open>internal/domain/tier.go\<close> and the
  policy, the hysteresis machine and the health tracker of \<^verbatim>\<open>internal/delivery/tier.go\<close>.

  Round-trip times and jitters are \<^verbatim>\<open>float64\<close> values that the code only compares, so
  they are the rationals they denote (JSON, their only source, has neither NaN nor
  infinities). The pointer-receiver methods take and return the machine.
\<close>

section \<open>Tiers, bands and reports\<close>

datatype DeliveryTier = TierFull | TierDegraded | TierMinimal

fun Tier_String :: "DeliveryTier \<Rightarrow> string" where
  "Tier_String TierFull = ''FULL''"
| "Tier_String TierDegraded = ''DEGRADED''"
| "Tier_String TierMinimal = ''MINIMAL''"

definition ParseTier :: "string \<Rightarrow> DeliveryTier result" where
  "ParseTier v =
     (if v = ''FULL'' then Inr TierFull
      else if v = ''DEGRADED'' then Inr TierDegraded
      else if v = ''MINIMAL'' then Inr TierMinimal
      else Inl ErrUnknownTier)"

fun Rank :: "DeliveryTier \<Rightarrow> int" where
  "Rank TierFull = 2"
| "Rank TierDegraded = 1"
| "Rank TierMinimal = 0"

instantiation DeliveryTier :: linorder
begin

definition less_eq_DeliveryTier :: "DeliveryTier \<Rightarrow> DeliveryTier \<Rightarrow> bool" where
  "less_eq_DeliveryTier a b = (Rank a \<le> Rank b)"

definition less_DeliveryTier :: "DeliveryTier \<Rightarrow> DeliveryTier \<Rightarrow> bool" where
  "less_DeliveryTier a b = (Rank a < Rank b)"

instance
proof
  fix a b :: DeliveryTier
  show "a \<le> b \<Longrightarrow> b \<le> a \<Longrightarrow> a = b"
    by (cases a; cases b) (simp_all add: less_eq_DeliveryTier_def)
qed (auto simp: less_eq_DeliveryTier_def less_DeliveryTier_def)

end

datatype TierReason =
    ReasonGoodHealth
  | ReasonHighRTT
  | ReasonHighJitter
  | ReasonMissingReports
  | ReasonForcedOverride
  | ReasonRecovery
  | ReasonInitialAssignment

datatype HealthBand = BandGood | BandDegraded | BandMinimal

fun band_index :: "HealthBand \<Rightarrow> nat" where
  "band_index BandGood = 0"
| "band_index BandDegraded = 1"
| "band_index BandMinimal = 2"

instantiation HealthBand :: linorder
begin

definition less_eq_HealthBand :: "HealthBand \<Rightarrow> HealthBand \<Rightarrow> bool" where
  "less_eq_HealthBand a b = (band_index a \<le> band_index b)"

definition less_HealthBand :: "HealthBand \<Rightarrow> HealthBand \<Rightarrow> bool" where
  "less_HealthBand a b = (band_index a < band_index b)"

instance
proof
  fix a b :: HealthBand
  show "a \<le> b \<Longrightarrow> b \<le> a \<Longrightarrow> a = b"
    by (cases a; cases b) (simp_all add: less_eq_HealthBand_def)
qed (auto simp: less_eq_HealthBand_def less_HealthBand_def)

end

fun HealthBand_String :: "HealthBand \<Rightarrow> string" where
  "HealthBand_String BandGood = ''GOOD''"
| "HealthBand_String BandDegraded = ''DEGRADED_BAND''"
| "HealthBand_String BandMinimal = ''MINIMAL_BAND''"

record HealthReport =
  hr_RTTMs :: rat
  hr_JitterMs :: rat
  hr_Samples :: int
  hr_ClientTimeMs :: int
  hr_ReceivedAt :: gotime

record TierTransition =
  tt_SessionID :: string
  tt_From :: DeliveryTier
  tt_To :: DeliveryTier
  tt_Reason :: TierReason
  tt_Streak :: int
  tt_RTTMs :: rat
  tt_JitterMs :: rat
  tt_Override :: string
  tt_At :: gotime
  tt_Changed :: bool


section \<open>The policy\<close>

record Thresholds =
  FullMaxRTTMs :: rat
  FullMaxJitterMs :: rat
  MinimalMinRTTMs :: rat
  MinimalMinJitterMs :: rat
  DegradeStreak :: int
  RecoverStreak :: int
  ReportHold :: int
  ReportDegrade :: int

text \<open>The interface \<^verbatim>\<open>Policy\<close>: its four methods.\<close>

record Policy =
  pol_Classify :: "rat \<Rightarrow> rat \<Rightarrow> HealthBand"
  pol_Thresholds :: Thresholds
  pol_TargetRate :: "DeliveryTier \<Rightarrow> rat"
  pol_FlushInterval :: "DeliveryTier \<Rightarrow> int"

record DefaultPolicy =
  dp_thresholds :: Thresholds
  dp_rates :: "DeliveryTier \<rightharpoonup> rat"

definition NewDefaultPolicy :: "Thresholds \<Rightarrow> rat \<Rightarrow> rat \<Rightarrow> rat \<Rightarrow> DefaultPolicy" where
  "NewDefaultPolicy t fullRate degradedRate minimalRate =
     \<lparr>dp_thresholds = t,
      dp_rates = [TierFull \<mapsto> fullRate, TierDegraded \<mapsto> degradedRate, TierMinimal \<mapsto> minimalRate]\<rparr>"

definition Classify :: "DefaultPolicy \<Rightarrow> rat \<Rightarrow> rat \<Rightarrow> HealthBand" where
  "Classify p rttMs jitterMs =
     (if rttMs \<ge> MinimalMinRTTMs (dp_thresholds p) \<or> jitterMs \<ge> MinimalMinJitterMs (dp_thresholds p)
      then BandMinimal
      else if rttMs \<ge> FullMaxRTTMs (dp_thresholds p) \<or> jitterMs \<ge> FullMaxJitterMs (dp_thresholds p)
      then BandDegraded
      else BandGood)"

definition TargetRate :: "DefaultPolicy \<Rightarrow> DeliveryTier \<Rightarrow> rat" where
  "TargetRate p tier =
     (case dp_rates p tier of
        Some rate \<Rightarrow> if rate > 0 then rate else 1
      | None \<Rightarrow> 1)"

definition FlushInterval :: "DefaultPolicy \<Rightarrow> DeliveryTier \<Rightarrow> int" where
  "FlushInterval p tier = f64_to_int (f64_div (f64_of_int second) (TargetRate p tier))"

definition as_Policy :: "DefaultPolicy \<Rightarrow> Policy" where
  "as_Policy p =
     \<lparr>pol_Classify = Classify p, pol_Thresholds = dp_thresholds p, pol_TargetRate = TargetRate p,
      pol_FlushInterval = FlushInterval p\<rparr>"

text \<open>The policy a session falls back to when its configuration names none.\<close>

definition defaultThresholds :: Thresholds where
  "defaultThresholds =
     \<lparr>FullMaxRTTMs = 150, FullMaxJitterMs = 50, MinimalMinRTTMs = 500, MinimalMinJitterMs = 150,
      DegradeStreak = 3, RecoverStreak = 5, ReportHold = 5 * second, ReportDegrade = 10 * second\<rparr>"

definition sessionPolicy :: Policy where
  "sessionPolicy = as_Policy (NewDefaultPolicy defaultThresholds 10 2 (1 / 2))"


section \<open>The tier machine\<close>

record TierMachine =
  tm_policy :: Policy
  autoTier :: DeliveryTier
  tier :: DeliveryTier
  override :: "DeliveryTier option"
  goodStreak :: int
  badStreak :: int
  minimalStreak :: int
  recoveryStreak :: int
  watchdogApplied :: bool
  reason :: TierReason

definition NewTierMachine :: "Policy \<Rightarrow> TierMachine" where
  "NewTierMachine p =
     \<lparr>tm_policy = p, autoTier = TierFull, tier = TierFull, override = None,
      goodStreak = 0, badStreak = 0, minimalStreak = 0, recoveryStreak = 0,
      watchdogApplied = False, reason = ReasonInitialAssignment\<rparr>"

definition Streak :: "TierMachine \<Rightarrow> int" where
  "Streak m =
     (case reason m of
        ReasonHighRTT \<Rightarrow> if autoTier m = TierMinimal then minimalStreak m else badStreak m
      | ReasonHighJitter \<Rightarrow> if autoTier m = TierMinimal then minimalStreak m else badStreak m
      | ReasonGoodHealth \<Rightarrow> goodStreak m
      | ReasonRecovery \<Rightarrow> recoveryStreak m
      | _ \<Rightarrow> 0)"

definition bandReason :: "HealthBand \<Rightarrow> TierReason" where
  "bandReason band = (if band = BandMinimal then ReasonHighJitter else ReasonHighRTT)"

fun oneStepDown :: "DeliveryTier \<Rightarrow> DeliveryTier" where
  "oneStepDown TierFull = TierDegraded"
| "oneStepDown TierDegraded = TierMinimal"
| "oneStepDown TierMinimal = TierMinimal"

text \<open>The streak counters stop at 16, so their increments cannot overflow.\<close>

definition streakCap :: int where "streakCap = 16"

definition updateStreaks :: "HealthBand \<Rightarrow> TierMachine \<Rightarrow> TierMachine" where
  "updateStreaks band m =
     m\<lparr>goodStreak := min (if band = BandGood then goodStreak m + 1 else 0) streakCap,
       badStreak := min (if band \<ge> BandDegraded then badStreak m + 1 else 0) streakCap,
       minimalStreak := min (if band = BandMinimal then minimalStreak m + 1 else 0) streakCap,
       recoveryStreak := min (if band \<noteq> BandMinimal then recoveryStreak m + 1 else 0) streakCap\<rparr>"

definition resetStreaks :: "TierMachine \<Rightarrow> TierMachine" where
  "resetStreaks m = m\<lparr>goodStreak := 0, badStreak := 0, minimalStreak := 0, recoveryStreak := 0\<rparr>"

text \<open>A \<^verbatim>\<open>TierTransition\<close> literal that leaves the measurement fields zero.\<close>

definition transition :: "DeliveryTier \<Rightarrow> DeliveryTier \<Rightarrow> TierReason \<Rightarrow> gotime \<Rightarrow> bool \<Rightarrow> TierTransition" where
  "transition from_t to_t r now changed =
     \<lparr>tt_SessionID = [], tt_From = from_t, tt_To = to_t, tt_Reason = r, tt_Streak = 0, tt_RTTMs = 0,
      tt_JitterMs = 0, tt_Override = [], tt_At = now, tt_Changed = changed\<rparr>"

definition applyAuto ::
  "gotime \<Rightarrow> HealthReport \<Rightarrow> bool \<Rightarrow> TierMachine \<Rightarrow> TierMachine \<times> TierTransition" where
  "applyAuto now rep changed m =
     (let previous = tier m;
          m' = m\<lparr>tier := autoTier m\<rparr>
      in (m', (transition previous (tier m') (reason m') now (changed \<and> previous \<noteq> tier m'))
               \<lparr>tt_Streak := Streak m', tt_RTTMs := hr_RTTMs rep, tt_JitterMs := hr_JitterMs rep\<rparr>))"

text \<open>The switch of \<^verbatim>\<open>Observe\<close>: the next automatic tier and its reason.\<close>

definition nextTier :: "HealthBand \<Rightarrow> TierMachine \<Rightarrow> DeliveryTier \<times> TierReason" where
  "nextTier band m =
     (let th = pol_Thresholds (tm_policy m) in
      case autoTier m of
        TierFull \<Rightarrow>
          if badStreak m \<ge> DegradeStreak th then (TierDegraded, bandReason band)
          else (autoTier m, reason m)
      | TierDegraded \<Rightarrow>
          if minimalStreak m \<ge> DegradeStreak th then (TierMinimal, bandReason band)
          else if goodStreak m \<ge> RecoverStreak th then (TierFull, ReasonGoodHealth)
          else (autoTier m, reason m)
      | TierMinimal \<Rightarrow>
          if recoveryStreak m \<ge> RecoverStreak th then (TierDegraded, ReasonRecovery)
          else (autoTier m, reason m))"

definition Observe :: "HealthReport \<Rightarrow> gotime \<Rightarrow> TierMachine \<Rightarrow> TierMachine \<times> TierTransition" where
  "Observe rep now m =
     (let band = pol_Classify (tm_policy m) (hr_RTTMs rep) (hr_JitterMs rep);
          m1 = (updateStreaks band m)\<lparr>watchdogApplied := False\<rparr>;
          (nxt, rsn) = nextTier band m1;
          changed = (nxt \<noteq> autoTier m1);
          m2 = m1\<lparr>autoTier := nxt, reason := rsn\<rparr>
      in if override m2 \<noteq> None then
           (m2, (transition (tier m2) (tier m2) ReasonForcedOverride now False)
                  \<lparr>tt_Streak := Streak m2, tt_RTTMs := hr_RTTMs rep, tt_JitterMs := hr_JitterMs rep\<rparr>)
         else applyAuto now rep changed m2)"

definition OnMissingReports :: "int \<Rightarrow> gotime \<Rightarrow> TierMachine \<Rightarrow> TierMachine \<times> TierTransition" where
  "OnMissingReports age now m =
     (let th = pol_Thresholds (tm_policy m);
          fire = (\<lambda>target m.
            if target = autoTier m then (m, transition (tier m) (tier m) (reason m) now False)
            else
              let m' = resetStreaks (m\<lparr>autoTier := target, reason := ReasonMissingReports\<rparr>)
              in if override m' \<noteq> None then
                   (m', transition (tier m') (tier m') ReasonForcedOverride now False)
                 else (m'\<lparr>tier := target\<rparr>,
                       transition (tier m') target ReasonMissingReports now (tier m' \<noteq> target)))
      in if age \<ge> ReportDegrade th then fire TierMinimal (m\<lparr>watchdogApplied := True\<rparr>)
         else if age \<ge> ReportHold th \<and> \<not> watchdogApplied m then
           fire (oneStepDown (autoTier m)) (m\<lparr>watchdogApplied := True\<rparr>)
         else (m, transition (tier m) (tier m) (reason m) now False))"

definition Force :: "DeliveryTier \<Rightarrow> gotime \<Rightarrow> TierMachine \<Rightarrow> TierMachine \<times> TierTransition" where
  "Force t now m =
     (m\<lparr>override := Some t, tier := t, reason := ReasonForcedOverride\<rparr>,
      transition (tier m) t ReasonForcedOverride now (tier m \<noteq> t))"

definition ClearOverride :: "gotime \<Rightarrow> TierMachine \<Rightarrow> TierMachine \<times> TierTransition" where
  "ClearOverride now m =
     (if override m = None then (m, transition (tier m) (tier m) (reason m) now False)
      else (m\<lparr>override := None, tier := autoTier m, reason := ReasonRecovery\<rparr>,
            transition (tier m) (autoTier m) ReasonRecovery now (tier m \<noteq> autoTier m)))"

definition OnReconnect :: "gotime \<Rightarrow> TierMachine \<Rightarrow> TierMachine \<times> TierTransition" where
  "OnReconnect now m =
     (let m' = resetStreaks (m\<lparr>override := None, autoTier := TierFull, tier := TierFull,
                              reason := ReasonInitialAssignment\<rparr>)
      in (m', transition (tier m) (tier m') ReasonInitialAssignment now (tier m \<noteq> tier m')))"


section \<open>The health tracker\<close>

record HealthSnapshot =
  hs_HasReport :: bool
  hs_RTTMs :: rat
  hs_JitterMs :: rat
  hs_Samples :: int
  hs_LastReportAt :: gotime
  hs_Age :: int
  hs_MissedPongs :: int
  hs_Capped :: int
  hs_TotalReports :: int

record HealthTracker =
  ht_policy :: Policy
  hasReport :: bool
  rttMs :: rat
  jitterMs :: rat
  samples :: int
  lastReportAt :: gotime
  missedPongs :: int
  capped :: int
  totalReports :: int

definition NewHealthTracker :: "Policy \<Rightarrow> HealthTracker" where
  "NewHealthTracker p =
     \<lparr>ht_policy = p, hasReport = False, rttMs = 0, jitterMs = 0, samples = 0,
      lastReportAt = \<lparr>instant = zero_instant, zone = UTC\<rparr>, missedPongs = 0, capped = 0, totalReports = 0\<rparr>"

definition Ingest :: "HealthReport \<Rightarrow> HealthTracker \<Rightarrow> HealthTracker" where
  "Ingest rep h =
     h\<lparr>hasReport := True, rttMs := hr_RTTMs rep, jitterMs := hr_JitterMs rep,
       samples := hr_Samples rep, lastReportAt := hr_ReceivedAt rep,
       totalReports := wrap64 (totalReports h + 1)\<rparr>"

definition Health_Snapshot :: "gotime \<Rightarrow> HealthTracker \<Rightarrow> HealthSnapshot" where
  "Health_Snapshot now h =
     \<lparr>hs_HasReport = hasReport h, hs_RTTMs = rttMs h, hs_JitterMs = jitterMs h,
      hs_Samples = samples h, hs_LastReportAt = lastReportAt h,
      hs_Age = (if hasReport h then
                  (let age = Time_Sub now (lastReportAt h) in if age < 0 then 0 else age)
                else 0),
      hs_MissedPongs = missedPongs h, hs_Capped = capped h, hs_TotalReports = totalReports h\<rparr>"

definition Band :: "HealthTracker \<Rightarrow> HealthBand" where
  "Band h = (if \<not> hasReport h then BandGood else pol_Classify (ht_policy h) (rttMs h) (jitterMs h))"



section \<open>What one report does\<close>

definition report_band :: "Policy \<Rightarrow> HealthReport \<Rightarrow> HealthBand" where
  "report_band p rep = pol_Classify p (hr_RTTMs rep) (hr_JitterMs rep)"

lemma band_simps [simp]:
  "BandDegraded \<le> b \<longleftrightarrow> b \<noteq> BandGood" "\<not> BandDegraded \<le> b \<longleftrightarrow> b = BandGood"
  by (cases b; simp add: less_eq_HealthBand_def)+

lemma tier_le_simps [simp]:
  "TierMinimal \<le> t" "t \<le> TierFull" "TierFull \<le> t \<longleftrightarrow> t = TierFull" "t \<le> TierMinimal \<longleftrightarrow> t = TierMinimal"
  by (cases t; simp add: less_eq_DeliveryTier_def)+

lemma nextTier_watchdog [simp]: "nextTier band (m\<lparr>watchdogApplied := w\<rparr>) = nextTier band m"
  by (simp add: nextTier_def Let_def split: DeliveryTier.split)

lemma updateStreaks_fields [simp]:
  "tm_policy (updateStreaks b m) = tm_policy m" "autoTier (updateStreaks b m) = autoTier m"
  "tier (updateStreaks b m) = tier m" "override (updateStreaks b m) = override m"
  "watchdogApplied (updateStreaks b m) = watchdogApplied m" "reason (updateStreaks b m) = reason m"
  by (simp_all add: updateStreaks_def)

lemma Observe_fields [simp]:
  "tm_policy (fst (Observe rep now m)) = tm_policy m"
    "override (fst (Observe rep now m)) = override m"
    "watchdogApplied (fst (Observe rep now m)) = False"
    "goodStreak (fst (Observe rep now m)) = goodStreak (updateStreaks (report_band (tm_policy m) rep) m)"
    "badStreak (fst (Observe rep now m)) = badStreak (updateStreaks (report_band (tm_policy m) rep) m)"
    "minimalStreak (fst (Observe rep now m)) = minimalStreak (updateStreaks (report_band (tm_policy m) rep) m)"
    "recoveryStreak (fst (Observe rep now m)) = recoveryStreak (updateStreaks (report_band (tm_policy m) rep) m)"
    "autoTier (fst (Observe rep now m)) = fst (nextTier (report_band (tm_policy m) rep) (updateStreaks (report_band (tm_policy m) rep) m))"
    "tier (fst (Observe rep now m))
     = (if override m = None then fst (nextTier (report_band (tm_policy m) rep) (updateStreaks (report_band (tm_policy m) rep) m)) else tier m)"
  by (auto simp: Observe_def applyAuto_def Let_def report_band_def split: prod.split)

lemma OnMissingReports_fields [simp]:
  "tm_policy (fst (OnMissingReports age now m)) = tm_policy m"
  "override (fst (OnMissingReports age now m)) = override m"
  by (auto simp: OnMissingReports_def Let_def resetStreaks_def)

definition watchdog_target :: "int \<Rightarrow> TierMachine \<Rightarrow> DeliveryTier" where
  "watchdog_target age m =
     (if ReportDegrade (pol_Thresholds (tm_policy m)) \<le> age then TierMinimal
      else if ReportHold (pol_Thresholds (tm_policy m)) \<le> age \<and> \<not> watchdogApplied m
      then oneStepDown (autoTier m) else autoTier m)"

lemma OnMissingReports_autoTier [simp]:
  "autoTier (fst (OnMissingReports age now m)) = watchdog_target age m"
  by (auto simp: OnMissingReports_def Let_def resetStreaks_def watchdog_target_def)

lemma OnMissingReports_tier:
  "override m = None \<Longrightarrow> tier m = autoTier m \<Longrightarrow>
     tier (fst (OnMissingReports age now m)) = watchdog_target age m"
  "override m \<noteq> None \<Longrightarrow> tier (fst (OnMissingReports age now m)) = tier m"
  by (auto simp: OnMissingReports_def Let_def resetStreaks_def watchdog_target_def)

lemma OnMissingReports_watchdog:
  "watchdogApplied (fst (OnMissingReports age now m)) =
     (watchdogApplied m \<or> ReportDegrade (pol_Thresholds (tm_policy m)) \<le> age
      \<or> ReportHold (pol_Thresholds (tm_policy m)) \<le> age)"
  by (auto simp: OnMissingReports_def Let_def resetStreaks_def)

lemma watchdog_target_le: "watchdog_target age m \<le> autoTier m"
  by (cases "autoTier m") (auto simp: watchdog_target_def less_eq_DeliveryTier_def)


section \<open>Sequences of events and the machine's invariant\<close>

datatype tier_event =
    EvReport HealthReport gotime
  | EvSilence int gotime
  | EvForce DeliveryTier gotime
  | EvClear gotime
  | EvReconnect gotime

fun tier_step :: "tier_event \<Rightarrow> TierMachine \<Rightarrow> TierMachine \<times> TierTransition" where
  "tier_step (EvReport rep now) m = Observe rep now m"
| "tier_step (EvSilence age now) m = OnMissingReports age now m"
| "tier_step (EvForce t now) m = Force t now m"
| "tier_step (EvClear now) m = ClearOverride now m"
| "tier_step (EvReconnect now) m = OnReconnect now m"

inductive tier_reachable :: "Policy \<Rightarrow> TierMachine \<Rightarrow> bool" for p where
  start: "tier_reachable p (NewTierMachine p)"
| step: "tier_reachable p m \<Longrightarrow> tier_reachable p (fst (tier_step e m))"

definition tier_inv :: "TierMachine \<Rightarrow> bool" where
  "tier_inv m =
     (tier m = (case override m of None \<Rightarrow> autoTier m | Some t \<Rightarrow> t)
      \<and> (\<forall>s\<in>{goodStreak m, badStreak m, minimalStreak m, recoveryStreak m}. 0 \<le> s \<and> s \<le> streakCap)
      \<and> (goodStreak m = 0 \<or> badStreak m = 0) \<and> (minimalStreak m = 0 \<or> recoveryStreak m = 0)
      \<and> minimalStreak m \<le> badStreak m \<and> goodStreak m \<le> recoveryStreak m)"

lemma tier_inv_Observe: "tier_inv m \<Longrightarrow> tier_inv (fst (Observe rep now m))"
  by (cases "report_band (tm_policy m) rep")
    (auto simp: tier_inv_def updateStreaks_def streakCap_def split: option.splits)

lemma tier_inv_silence: "tier_inv m \<Longrightarrow> tier_inv (fst (OnMissingReports age now m))"
  by (auto simp: tier_inv_def OnMissingReports_def Let_def resetStreaks_def streakCap_def
      split: option.splits)

lemma tier_inv_step: "tier_inv m \<Longrightarrow> tier_inv (fst (tier_step e m))"
proof (cases e)
  case (EvForce t now)
  then show "tier_inv m \<Longrightarrow> ?thesis" by (simp add: tier_inv_def Force_def)
next
  case (EvClear now)
  then show "tier_inv m \<Longrightarrow> ?thesis" by (auto simp: tier_inv_def ClearOverride_def)
next
  case (EvReconnect now)
  then show "tier_inv m \<Longrightarrow> ?thesis"
    by (simp add: tier_inv_def OnReconnect_def Let_def resetStreaks_def streakCap_def)
qed (simp_all add: tier_inv_Observe tier_inv_silence)

lemma tier_reachable_inv: "tier_reachable p m \<Longrightarrow> tier_inv m \<and> tm_policy m = p"
proof (induction rule: tier_reachable.induct)
  case start
  then show ?case by (simp add: tier_inv_def NewTierMachine_def streakCap_def)
next
  case (step m e)
  then have "tm_policy (fst (tier_step e m)) = p"
    by (cases e) (auto simp: Force_def ClearOverride_def OnReconnect_def Let_def resetStreaks_def)
  with step tier_inv_step show ?case by blast
qed

text \<open>
  C4. In every reachable state of the tier machine the effective tier is the override when one
  is set and the automatic tier otherwise, and the four streak counters are consistent and
  within their cap: a good streak excludes a bad one, a minimal streak is a bad streak and a
  good streak is a recovery streak.
\<close>

theorem TierMachine_invariant:
  assumes "tier_reachable p m"
  shows "tier m = (case override m of None \<Rightarrow> autoTier m | Some t \<Rightarrow> t)
    \<and> 0 \<le> goodStreak m \<and> goodStreak m \<le> recoveryStreak m \<and> recoveryStreak m \<le> 16
    \<and> 0 \<le> minimalStreak m \<and> minimalStreak m \<le> badStreak m \<and> badStreak m \<le> 16
    \<and> (goodStreak m = 0 \<or> badStreak m = 0) \<and> (minimalStreak m = 0 \<or> recoveryStreak m = 0)"
  using tier_reachable_inv [OF assms] by (auto simp: tier_inv_def streakCap_def)

theorem TierMachine_invariant_witness:
  "tier_reachable sessionPolicy (fst (Force TierMinimal \<lparr>instant = 0, zone = UTC\<rparr> (NewTierMachine sessionPolicy)))
   \<and> tier (fst (Force TierMinimal \<lparr>instant = 0, zone = UTC\<rparr> (NewTierMachine sessionPolicy))) = TierMinimal"
proof -
  have r: "tier_reachable sessionPolicy
      (fst (Force TierMinimal \<lparr>instant = 0, zone = UTC\<rparr> (NewTierMachine sessionPolicy)))"
    using tier_reachable.step [OF tier_reachable.start, of sessionPolicy "EvForce TierMinimal \<lparr>instant = 0, zone = UTC\<rparr>"]
    by simp
  show ?thesis using r TierMachine_invariant [OF r] by (simp add: Force_def)
qed


text \<open>A transition record is truthful when it names the effective tier before and after.\<close>

definition truthful :: "TierMachine \<Rightarrow> TierMachine \<times> TierTransition \<Rightarrow> bool" where
  "truthful m r =
     (tt_From (snd r) = tier m \<and> tt_To (snd r) = tier (fst r)
      \<and> tt_Changed (snd r) = (tier (fst r) \<noteq> tier m))"

lemma tier_step_truthful: "tier_inv m \<Longrightarrow> truthful m (tier_step e m)"
  by (cases e)
    (auto simp: tier_inv_def truthful_def Observe_def applyAuto_def OnMissingReports_def Force_def
      ClearOverride_def OnReconnect_def transition_def Let_def resetStreaks_def
      split: prod.splits option.splits)

lemma nextTier_one_step: "\<bar>Rank (fst (nextTier b m)) - Rank (autoTier m)\<bar> \<le> 1"
  by (cases "autoTier m") (simp_all add: nextTier_def Let_def)

text \<open>
  A report moves the automatic tier at most one step (so never from MINIMAL to FULL
  directly), the silence watchdog only degrades, and the transition record of every operation
  is truthful: it names the effective tier before and after and is flagged as a change exactly
  when they differ.
\<close>

lemma TierMachine_transitions:
  assumes "tier_reachable p m"
  shows "\<bar>Rank (autoTier (fst (Observe rep now m))) - Rank (autoTier m)\<bar> \<le> 1
    \<and> autoTier (fst (OnMissingReports age now m)) \<le> autoTier m
    \<and> truthful m (tier_step e m)"
  using tier_reachable_inv [OF assms] tier_step_truthful [of m e] watchdog_target_le
    nextTier_one_step [of _ "updateStreaks (report_band (tm_policy m) rep) m"]
  by simp

section \<open>Hysteresis\<close>

text \<open>The reports of a session are folded one after the other.\<close>

definition observe_all :: "(HealthReport \<times> gotime) list \<Rightarrow> TierMachine \<Rightarrow> TierMachine" where
  "observe_all reps m = fold (\<lambda>(r, now) m. fst (Observe r now m)) reps m"

lemma observe_all_snoc: "observe_all (reps @ [(r, now)]) m = fst (Observe r now (observe_all reps m))"
  by (simp add: observe_all_def)

lemma observe_all_Nil [simp]: "observe_all [] m = m"
  by (simp add: observe_all_def)

lemma observe_all_append: "observe_all (xs @ ys) m = observe_all ys (observe_all xs m)"
  by (simp add: observe_all_def)

lemma observe_all_fields [simp]:
  "tm_policy (observe_all reps m) = tm_policy m" "override (observe_all reps m) = override m"
  by (induction reps rule: rev_induct) (auto simp: observe_all_snoc)

text \<open>The length of the run of reports with property \<open>Q\<close> that ends the sequence.\<close>

definition run :: "(HealthBand \<Rightarrow> bool) \<Rightarrow> Policy \<Rightarrow> (HealthReport \<times> gotime) list \<Rightarrow> nat" where
  "run Q p reps = length (takeWhile (\<lambda>(r, _). Q (report_band p r)) (rev reps))"

lemma run_snoc: "run Q p (reps @ [(r, now)]) = (if Q (report_band p r) then Suc (run Q p reps) else 0)"
  by (simp add: run_def)

lemma run_all: "\<forall>(r, now)\<in>set reps. Q (report_band p r) \<Longrightarrow> run Q p reps = length reps"
  unfolding run_def by (subst takeWhile_eq_all_conv [THEN iffD2]) auto

definition fresh_streaks :: "TierMachine \<Rightarrow> bool" where
  "fresh_streaks m = (goodStreak m = 0 \<and> badStreak m = 0 \<and> minimalStreak m = 0 \<and> recoveryStreak m = 0)"

lemma fresh_NewTierMachine [simp]: "fresh_streaks (NewTierMachine p)"
  by (simp add: fresh_streaks_def NewTierMachine_def)

lemma streaks_are_runs:
  assumes "fresh_streaks m"
  shows "goodStreak (observe_all reps m) = min (int (run (\<lambda>b. b = BandGood) (tm_policy m) reps)) streakCap
    \<and> badStreak (observe_all reps m) = min (int (run (\<lambda>b. b \<noteq> BandGood) (tm_policy m) reps)) streakCap
    \<and> minimalStreak (observe_all reps m) = min (int (run (\<lambda>b. b = BandMinimal) (tm_policy m) reps)) streakCap
    \<and> recoveryStreak (observe_all reps m) = min (int (run (\<lambda>b. b \<noteq> BandMinimal) (tm_policy m) reps)) streakCap"
proof (induction reps rule: rev_induct)
  case Nil
  then show ?case using assms by (simp add: fresh_streaks_def run_def streakCap_def)
next
  case (snoc x reps)
  obtain r now where x: "x = (r, now)" by force
  show ?case
    using snoc unfolding x observe_all_snoc run_snoc
    by (auto simp: updateStreaks_def streakCap_def)
qed

text \<open>
  What the policy promises the machine: reachable streak thresholds, ordered silence
  thresholds and a classification in which a worse sample is never a better band.
\<close>

locale delivery_policy =
  fixes p :: Policy
  assumes degrade_pos: "1 \<le> DegradeStreak (pol_Thresholds p)"
    and degrade_cap: "DegradeStreak (pol_Thresholds p) \<le> streakCap"
    and recover_pos: "1 \<le> RecoverStreak (pol_Thresholds p)"
    and recover_cap: "RecoverStreak (pol_Thresholds p) \<le> streakCap"
    and hold_le_degrade: "ReportHold (pol_Thresholds p) \<le> ReportDegrade (pol_Thresholds p)"
    and classify_mono: "rtt \<le> rtt' \<Longrightarrow> jit \<le> jit' \<Longrightarrow> pol_Classify p rtt jit \<le> pol_Classify p rtt' jit'"
begin

abbreviation ends_with :: "(HealthBand \<Rightarrow> bool) \<Rightarrow> int \<Rightarrow> (HealthReport \<times> gotime) list \<Rightarrow> bool" where
  "ends_with Q k reps \<equiv> k \<le> int (run Q p reps)"

lemma hysteresis:
  fixes m :: TierMachine and reps :: "(HealthReport \<times> gotime) list" and r :: "HealthReport \<times> gotime"
  assumes "fresh_streaks m" "tm_policy m = p"
  defines "m1 \<equiv> observe_all reps m" and "m2 \<equiv> observe_all (reps @ [r]) m"
  shows "autoTier m1 = TierFull \<Longrightarrow> autoTier m2 =
      (if ends_with (\<lambda>b. b \<noteq> BandGood) (DegradeStreak (pol_Thresholds p)) (reps @ [r])
       then TierDegraded else TierFull)"
    and "autoTier m1 = TierDegraded \<Longrightarrow> autoTier m2 =
      (if ends_with (\<lambda>b. b = BandMinimal) (DegradeStreak (pol_Thresholds p)) (reps @ [r])
       then TierMinimal
       else if ends_with (\<lambda>b. b = BandGood) (RecoverStreak (pol_Thresholds p)) (reps @ [r])
       then TierFull else TierDegraded)"
    and "autoTier m1 = TierMinimal \<Longrightarrow> autoTier m2 =
      (if ends_with (\<lambda>b. b \<noteq> BandMinimal) (RecoverStreak (pol_Thresholds p)) (reps @ [r])
       then TierDegraded else TierMinimal)"
proof -
  obtain rep now where r: "r = (rep, now)" by force
  let ?u = "updateStreaks (report_band p rep) m1"
  have m2: "m2 = fst (Observe rep now m1)" by (simp add: m2_def m1_def r observe_all_snoc)
  have pol: "tm_policy m1 = p" by (simp add: m1_def assms(2))
  have runs: "goodStreak m2 = min (int (run (\<lambda>b. b = BandGood) p (reps @ [r]))) streakCap"
    "badStreak m2 = min (int (run (\<lambda>b. b \<noteq> BandGood) p (reps @ [r]))) streakCap"
    "minimalStreak m2 = min (int (run (\<lambda>b. b = BandMinimal) p (reps @ [r]))) streakCap"
    "recoveryStreak m2 = min (int (run (\<lambda>b. b \<noteq> BandMinimal) p (reps @ [r]))) streakCap"
    using streaks_are_runs [OF assms(1), of "reps @ [r]"] by (simp_all add: m2_def assms(2))
  have st: "goodStreak ?u = goodStreak m2" "badStreak ?u = badStreak m2"
    "minimalStreak ?u = minimalStreak m2" "recoveryStreak ?u = recoveryStreak m2"
    by (simp_all add: m2 pol)
  note bounds = degrade_cap recover_cap
  show "autoTier m1 = TierFull \<Longrightarrow> autoTier m2 =
      (if ends_with (\<lambda>b. b \<noteq> BandGood) (DegradeStreak (pol_Thresholds p)) (reps @ [r])
       then TierDegraded else TierFull)"
    using st(2) runs(2) bounds by (simp add: m2 nextTier_def Let_def pol)
  show "autoTier m1 = TierDegraded \<Longrightarrow> autoTier m2 =
      (if ends_with (\<lambda>b. b = BandMinimal) (DegradeStreak (pol_Thresholds p)) (reps @ [r])
       then TierMinimal
       else if ends_with (\<lambda>b. b = BandGood) (RecoverStreak (pol_Thresholds p)) (reps @ [r])
       then TierFull else TierDegraded)"
    using st(1,3) runs(1,3) bounds by (simp add: m2 nextTier_def Let_def pol)
  show "autoTier m1 = TierMinimal \<Longrightarrow> autoTier m2 =
      (if ends_with (\<lambda>b. b \<noteq> BandMinimal) (RecoverStreak (pol_Thresholds p)) (reps @ [r])
       then TierDegraded else TierMinimal)"
    using st(4) runs(4) bounds by (simp add: m2 nextTier_def Let_def pol)
qed

lemma good_reports_recover:
  assumes "tier_inv m" "tm_policy m = p" "\<forall>(r, now)\<in>set reps. report_band p r = BandGood"
  shows "min (int (length reps)) streakCap \<le> goodStreak (observe_all reps m)
    \<and> min (int (length reps)) streakCap \<le> recoveryStreak (observe_all reps m)
    \<and> (reps \<noteq> [] \<longrightarrow> badStreak (observe_all reps m) = 0 \<and> minimalStreak (observe_all reps m) = 0)
    \<and> (RecoverStreak (pol_Thresholds p) \<le> int (length reps) \<longrightarrow> autoTier (observe_all reps m) \<noteq> TierMinimal)
    \<and> (RecoverStreak (pol_Thresholds p) < int (length reps) \<longrightarrow> autoTier (observe_all reps m) = TierFull)"
  using assms(3)
proof (induction reps rule: rev_induct)
  case Nil
  then show ?case using assms(1) recover_pos by (simp add: tier_inv_def)
next
  case (snoc x reps)
  obtain r now where x: "x = (r, now)" by force
  have b: "report_band p r = BandGood" using snoc.prems by (simp add: x)
  have IH: "min (int (length reps)) streakCap \<le> goodStreak (observe_all reps m)"
    "min (int (length reps)) streakCap \<le> recoveryStreak (observe_all reps m)"
    "RecoverStreak (pol_Thresholds p) \<le> int (length reps) \<Longrightarrow> autoTier (observe_all reps m) \<noteq> TierMinimal"
    using snoc by auto
  show ?case
    unfolding x observe_all_snoc
    using IH degrade_pos recover_cap
    by (cases "autoTier (observe_all reps m)")
      (auto simp: assms(2) b updateStreaks_def nextTier_def Let_def streakCap_def)
qed

lemma minimal_reports_degrade:
  assumes "tier_inv m" "tm_policy m = p" "\<forall>(r, now)\<in>set reps. report_band p r = BandMinimal"
  shows "min (int (length reps)) streakCap \<le> badStreak (observe_all reps m)
    \<and> min (int (length reps)) streakCap \<le> minimalStreak (observe_all reps m)
    \<and> (reps \<noteq> [] \<longrightarrow> goodStreak (observe_all reps m) = 0 \<and> recoveryStreak (observe_all reps m) = 0)
    \<and> (DegradeStreak (pol_Thresholds p) \<le> int (length reps) \<longrightarrow> autoTier (observe_all reps m) \<noteq> TierFull)
    \<and> (DegradeStreak (pol_Thresholds p) < int (length reps) \<longrightarrow> autoTier (observe_all reps m) = TierMinimal)"
  using assms(3)
proof (induction reps rule: rev_induct)
  case Nil
  then show ?case using assms(1) degrade_pos by (simp add: tier_inv_def)
next
  case (snoc x reps)
  obtain r now where x: "x = (r, now)" by force
  have b: "report_band p r = BandMinimal" using snoc.prems by (simp add: x)
  have IH: "min (int (length reps)) streakCap \<le> badStreak (observe_all reps m)"
    "min (int (length reps)) streakCap \<le> minimalStreak (observe_all reps m)"
    "DegradeStreak (pol_Thresholds p) \<le> int (length reps) \<Longrightarrow> autoTier (observe_all reps m) \<noteq> TierFull"
    using snoc by auto
  show ?case
    unfolding x observe_all_snoc
    using IH recover_pos degrade_cap
    by (cases "autoTier (observe_all reps m)")
      (auto simp: assms(2) b updateStreaks_def nextTier_def Let_def streakCap_def)
qed

end

lemma Classify_mono: "rtt \<le> rtt' \<Longrightarrow> jit \<le> jit' \<Longrightarrow> Classify d rtt jit \<le> Classify d rtt' jit'"
  by (auto simp: Classify_def less_eq_HealthBand_def)

lemma default_policy_promises:
  assumes "1 \<le> DegradeStreak t" "DegradeStreak t \<le> 16" "1 \<le> RecoverStreak t" "RecoverStreak t \<le> 16"
    "ReportHold t \<le> ReportDegrade t"
  shows "delivery_policy (as_Policy (NewDefaultPolicy t fullRate degradedRate minimalRate))"
  using assms
  by unfold_locales
    (auto simp: as_Policy_def NewDefaultPolicy_def streakCap_def intro: Classify_mono)

interpretation session_policy: delivery_policy sessionPolicy
  unfolding sessionPolicy_def by (rule default_policy_promises) (simp_all add: defaultThresholds_def)


text \<open>A report with a given round-trip time and no jitter, at the epoch.\<close>

definition rtt_report :: "rat \<Rightarrow> HealthReport \<times> gotime" where
  "rtt_report v =
     (\<lparr>hr_RTTMs = v, hr_JitterMs = 0, hr_Samples = 1, hr_ClientTimeMs = 0,
       hr_ReceivedAt = \<lparr>instant = 0, zone = UTC\<rparr>\<rparr>, \<lparr>instant = 0, zone = UTC\<rparr>)"

lemma rtt_report_band:
  "report_band sessionPolicy (fst (rtt_report v))
     = (if 500 \<le> v then BandMinimal else if 150 \<le> v then BandDegraded else BandGood)"
  by (simp add: report_band_def rtt_report_def sessionPolicy_def as_Policy_def Classify_def
      NewDefaultPolicy_def defaultThresholds_def)


text \<open>
  Reports always win in the end: whatever a connection's history, one report more than
  \<^verbatim>\<open>RecoverStreak\<close> GOOD reports in a row brings the automatic tier to FULL, and one
  more than \<^verbatim>\<open>DegradeStreak\<close> MINIMAL reports in a row bring it to MINIMAL; without an
  override the effective tier follows.
\<close>

lemma TierMachine_converges:
  assumes "delivery_policy p" "tier_reachable p m" "override m = None"
  shows "((\<forall>(r, now)\<in>set reps. report_band p r = BandGood)
        \<and> RecoverStreak (pol_Thresholds p) < int (length reps) \<longrightarrow> tier (observe_all reps m) = TierFull)
    \<and> ((\<forall>(r, now)\<in>set reps. report_band p r = BandMinimal)
        \<and> DegradeStreak (pol_Thresholds p) < int (length reps) \<longrightarrow> tier (observe_all reps m) = TierMinimal)"
proof -
  have inv: "tier_inv m" and pol: "tm_policy m = p" using tier_reachable_inv [OF assms(2)] by auto
  have "tier_inv (observe_all reps m)"
    using inv by (induction reps rule: rev_induct) (auto simp: observe_all_snoc tier_inv_Observe)
  then have eff: "tier (observe_all reps m) = autoTier (observe_all reps m)"
    using assms(3) by (simp add: tier_inv_def)
  show ?thesis
    using delivery_policy.good_reports_recover [OF assms(1) inv pol]
      delivery_policy.minimal_reports_degrade [OF assms(1) inv pol] eff by auto
qed

section \<open>Silence\<close>

definition silence_all :: "(int \<times> gotime) list \<Rightarrow> TierMachine \<Rightarrow> TierMachine" where
  "silence_all ages m = fold (\<lambda>(age, now) m. fst (OnMissingReports age now m)) ages m"

lemma silence_all_snoc: "silence_all (ages @ [(a, now)]) m = fst (OnMissingReports a now (silence_all ages m))"
  by (simp add: silence_all_def)

lemma silence_all_policy [simp]: "tm_policy (silence_all ages m) = tm_policy m"
  by (induction ages rule: rev_induct) (auto simp: silence_all_def)

lemma silence_episode:
  fixes m :: TierMachine
  defines "th \<equiv> pol_Thresholds (tm_policy m)"
  assumes "\<not> watchdogApplied m" "ReportHold th \<le> ReportDegrade th"
  shows "autoTier (silence_all ages m) =
      (if \<exists>(a, now)\<in>set ages. ReportDegrade th \<le> a then TierMinimal
       else if \<exists>(a, now)\<in>set ages. ReportHold th \<le> a then oneStepDown (autoTier m)
       else autoTier m)
    \<and> watchdogApplied (silence_all ages m) = (\<exists>(a, now)\<in>set ages. ReportHold th \<le> a)"
proof (induction ages rule: rev_induct)
  case Nil
  then show ?case using assms(2) by (simp add: silence_all_def)
next
  case (snoc x ages)
  obtain a now where x: "x = (a, now)" by force
  show ?case
    using snoc assms(3) unfolding x silence_all_snoc
    by (auto simp: OnMissingReports_watchdog watchdog_target_def th_def)
qed

text \<open>
  A silence episode degrades by its length, not by how often it is looked at: for any
  sequence of watchdog evaluations after a report, the automatic tier is MINIMAL once an age
  has reached \<^verbatim>\<open>ReportDegrade\<close>, exactly one step below the tier at the last report once
  an age has reached \<^verbatim>\<open>ReportHold\<close>, and unchanged otherwise.
\<close>

lemma TierMachine_silence_episode:
  assumes "delivery_policy (tm_policy m)"
  shows "autoTier (silence_all ages (fst (Observe rep now m))) =
      (if \<exists>(a, _)\<in>set ages. ReportDegrade (pol_Thresholds (tm_policy m)) \<le> a then TierMinimal
       else if \<exists>(a, _)\<in>set ages. ReportHold (pol_Thresholds (tm_policy m)) \<le> a
       then oneStepDown (autoTier (fst (Observe rep now m)))
       else autoTier (fst (Observe rep now m)))"
  using silence_episode [of "fst (Observe rep now m)" ages]
    delivery_policy.hold_le_degrade [OF assms]
  by simp

section \<open>Overrides\<close>

text \<open>The events that feed the automatic rules.\<close>

fun automatic :: "tier_event \<Rightarrow> bool" where
  "automatic (EvReport _ _) = True"
| "automatic (EvSilence _ _) = True"
| "automatic _ = False"

definition same_health :: "TierMachine \<Rightarrow> TierMachine \<Rightarrow> bool" where
  "same_health m n =
     (tm_policy m = tm_policy n \<and> autoTier m = autoTier n \<and> goodStreak m = goodStreak n
      \<and> badStreak m = badStreak n \<and> minimalStreak m = minimalStreak n
      \<and> recoveryStreak m = recoveryStreak n \<and> watchdogApplied m = watchdogApplied n)"

lemma same_health_nextTier:
  "same_health m n \<Longrightarrow> fst (nextTier b (updateStreaks b m)) = fst (nextTier b (updateStreaks b n))"
  by (cases "autoTier n") (simp_all add: same_health_def nextTier_def updateStreaks_def Let_def)

lemma same_health_step:
  assumes "same_health m n" "automatic e"
  shows "same_health (fst (tier_step e m)) (fst (tier_step e n))"
proof (cases e)
  case (EvReport rep now)
  have "fst (nextTier b (updateStreaks b m)) = fst (nextTier b (updateStreaks b n))" for b
    by (rule same_health_nextTier [OF assms(1)])
  with assms(1) EvReport show ?thesis
    by (simp add: same_health_def) (simp add: updateStreaks_def)
next
  case (EvSilence age now)
  with assms(1) show ?thesis
    by (auto simp: same_health_def OnMissingReports_def Let_def resetStreaks_def)
qed (use assms(2) in simp_all)

definition run_events :: "tier_event list \<Rightarrow> TierMachine \<Rightarrow> TierMachine" where
  "run_events es m = fold (\<lambda>e m. fst (tier_step e m)) es m"

lemma run_events_automatic:
  assumes "list_all automatic es"
  shows "same_health m n \<Longrightarrow> same_health (run_events es m) (run_events es n)"
    and "override (run_events es m) = override m"
    and "override m \<noteq> None \<Longrightarrow> tier (run_events es m) = tier m"
proof -
  have ov: "override (fst (tier_step e m)) = override m" if "automatic e" for e m
    using that by (cases e) simp_all
  have ti: "override m \<noteq> None \<Longrightarrow> tier (fst (tier_step e m)) = tier m" if "automatic e" for e m
    using that by (cases e) (auto simp: OnMissingReports_tier)
  show "same_health m n \<Longrightarrow> same_health (run_events es m) (run_events es n)"
    using assms by (induction es arbitrary: m n) (auto simp: run_events_def same_health_step)
  show "override (run_events es m) = override m"
    using assms by (induction es arbitrary: m) (auto simp: run_events_def ov)
  show "override m \<noteq> None \<Longrightarrow> tier (run_events es m) = tier m"
    using assms by (induction es arbitrary: m) (auto simp: run_events_def ov ti)
qed

lemma run_events_inv: "tier_inv m \<Longrightarrow> tier_inv (run_events es m)"
  by (induction es arbitrary: m) (auto simp: run_events_def tier_inv_step)

text \<open>
  An override pins delivery and nothing else: while it is set, no report and no silence
  changes the effective tier, and clearing it lands on exactly the tier the connection would
  have had if it had never been overridden.
\<close>

lemma TierMachine_override_transparent:
  assumes "tier_reachable p m" "override m = None" "list_all automatic es"
  shows "tier (run_events es (fst (Force t now m))) = t
    \<and> tier (fst (ClearOverride now' (run_events es (fst (Force t now m))))) = tier (run_events es m)"
proof -
  let ?f = "fst (Force t now m)"
  have f: "override ?f = Some t" "tier ?f = t" "same_health ?f m"
    by (simp_all add: Force_def same_health_def)
  have "tier_inv (run_events es m)"
    using tier_reachable_inv [OF assms(1)] by (intro run_events_inv) simp
  then have "tier (run_events es m) = autoTier (run_events es m)"
    using run_events_automatic(2) [OF assms(3), of m] assms(2) by (simp add: tier_inv_def)
  moreover have "autoTier (run_events es ?f) = autoTier (run_events es m)"
    using run_events_automatic(1) [OF assms(3) f(3)] by (simp add: same_health_def)
  moreover have "override (run_events es ?f) = Some t" "tier (run_events es ?f) = t"
    using run_events_automatic(2,3) [OF assms(3), of ?f] f by simp_all
  ultimately show ?thesis by (simp add: ClearOverride_def)
qed

section \<open>The streak cap\<close>

text \<open>
  The streak counters stop at 16, so a policy whose \<^verbatim>\<open>RecoverStreak\<close> is larger
  (the configuration accepts every value from 1) never recovers: however many good reports a
  MINIMAL connection sends, it stays MINIMAL.
\<close>

lemma TierMachine_streak_cap_blocks_recovery:
  assumes "16 < RecoverStreak (pol_Thresholds (tm_policy m))" "autoTier m = TierMinimal"
  shows "autoTier (observe_all reps m) = TierMinimal"
proof (induction reps rule: rev_induct)
  case Nil
  then show ?case using assms(2) by simp
next
  case (snoc x reps)
  obtain r now where x: "x = (r, now)" by force
  show ?case
    using snoc assms(1) unfolding x observe_all_snoc
    by (auto simp: nextTier_def updateStreaks_def streakCap_def Let_def)
qed

section \<open>Flush intervals\<close>

lemma FlushInterval_antimono:
  assumes "0 < TargetRate d t" "TargetRate d t \<le> TargetRate d u"
  shows "FlushInterval d u \<le> FlushInterval d t"
  unfolding FlushInterval_def f64_div_def
  using assms f64_of_int_exact [of "10 ^ 9"]
  by (intro f64_to_int_mono round64_mono frac_le) auto

lemma FlushInterval_positive:
  assumes "0 < TargetRate d t" "TargetRate d t \<le> 10 ^ 9"
  shows "1 \<le> FlushInterval d t"
proof -
  have "1 \<le> (10 ^ 9 :: rat) / TargetRate d t" using assms by (simp add: le_divide_eq)
  then have "of_int 1 \<le> round64 (10 ^ 9 / TargetRate d t)"
    by (intro round64_ge_int) simp_all
  then show ?thesis
    using f64_of_int_exact [of "10 ^ 9"] f64_to_int_mono [of "of_int 1"]
    by (simp add: FlushInterval_def f64_div_def f64_to_int_def)
qed

text \<open>
  Delivery slows down with the tier: under rates the configuration accepts (positive and
  decreasing from FULL to MINIMAL), the flush intervals of the tiers increase from FULL to
  MINIMAL and are at least a nanosecond, so the flush ticker of a session never gets a
  non-positive interval.
\<close>

lemma FlushInterval_ordered:
  assumes "0 < rm" "rm \<le> rd" "rd \<le> rf" "rf \<le> 10 ^ 9"
  shows "1 \<le> FlushInterval (NewDefaultPolicy th rf rd rm) TierFull
    \<and> FlushInterval (NewDefaultPolicy th rf rd rm) TierFull \<le> FlushInterval (NewDefaultPolicy th rf rd rm) TierDegraded
    \<and> FlushInterval (NewDefaultPolicy th rf rd rm) TierDegraded \<le> FlushInterval (NewDefaultPolicy th rf rd rm) TierMinimal"
proof -
  have r: "TargetRate (NewDefaultPolicy th rf rd rm) TierFull = rf"
    "TargetRate (NewDefaultPolicy th rf rd rm) TierDegraded = rd"
    "TargetRate (NewDefaultPolicy th rf rd rm) TierMinimal = rm"
    using assms by (simp_all add: TargetRate_def NewDefaultPolicy_def)
  show ?thesis
    using assms by (intro conjI FlushInterval_antimono FlushInterval_positive) (simp_all add: r)
qed

end
