(* ===== verification/Tape.thy ===== *)
theory Tape
  imports Domain
begin

text \<open>
  \<^verbatim>\<open>internal/market/trades.go\<close>: the ring of the most recent trades, and its
  refinement to the plain list of the last \<open>capacity\<close> trades pushed.
\<close>

section \<open>The ring\<close>

definition zeroTime :: gotime where
  "zeroTime = \<lparr>instant = zero_instant, zone = UTC\<rparr>"

definition zeroTrade :: Trade where
  "zeroTrade = \<lparr>tr_ID = 0, tr_Symbol = [], tr_Timestamp = zeroTime, tr_Price = 0, tr_Quantity = 0,
     tr_Side = SideUnknown\<rparr>"

record TradeRing =
  tape_buf :: "Trade list"
  tape_head :: nat
  tape_count :: nat

definition NewTradeRing :: "int \<Rightarrow> TradeRing" where
  "NewTradeRing capacity =
     (let capacity = (if capacity < 1 then 200 else capacity)
      in \<lparr>tape_buf = replicate (nat capacity) zeroTrade, tape_head = 0, tape_count = 0\<rparr>)"

definition Tape_Push :: "Trade \<Rightarrow> TradeRing \<Rightarrow> TradeRing" where
  "Tape_Push t r =
     r\<lparr>tape_buf := (tape_buf r)[tape_head r := t],
       tape_head := (tape_head r + 1) mod length (tape_buf r),
       tape_count := (if tape_count r < length (tape_buf r) then tape_count r + 1 else tape_count r)\<rparr>"

definition Tape_Recent :: "int \<Rightarrow> TradeRing \<Rightarrow> Trade list" where
  "Tape_Recent limit r =
     (let limit = (if limit \<le> 0 \<or> limit > int (tape_count r) then tape_count r else nat limit);
          len = int (length (tape_buf r))
      in map (\<lambda>i. tape_buf r ! nat ((int (tape_head r) - 1 - int i + len * 2) smod len)) [0..<limit])"

definition Tape_Last :: "TradeRing \<Rightarrow> Trade option" where
  "Tape_Last r =
     (if tape_count r = 0 then None
      else Some (tape_buf r ! nat ((int (tape_head r) - 1 + int (length (tape_buf r)))
                                     smod int (length (tape_buf r)))))"

definition Tape_Reset :: "TradeRing \<Rightarrow> TradeRing" where
  "Tape_Reset r = r\<lparr>tape_head := 0, tape_count := 0\<rparr>"


section \<open>Refinement to a list\<close>

definition tape_inv :: "TradeRing \<Rightarrow> bool" where
  "tape_inv r = (tape_head r < length (tape_buf r) \<and> tape_count r \<le> length (tape_buf r))"

definition tape_cap :: "TradeRing \<Rightarrow> nat" where
  "tape_cap r = length (tape_buf r)"

definition tape_entries :: "TradeRing \<Rightarrow> Trade list" where
  "tape_entries r = ring_entries (tape_buf r) (tape_head r) (tape_count r)"

interpretation tape: bounded_log tape_inv tape_cap tape_entries Tape_Push
proof
  fix r t
  assume inv: "tape_inv r"
  then have ix: "tape_head r < length (tape_buf r)" "tape_count r \<le> length (tape_buf r)"
    by (simp_all add: tape_inv_def)
  show "tape_inv (Tape_Push t r)"
    using ix mod_less_of_less [OF ix(1)] by (auto simp: tape_inv_def Tape_Push_def)
  show "tape_cap (Tape_Push t r) = tape_cap r"
    by (simp add: tape_cap_def Tape_Push_def)
  show "tape_entries (Tape_Push t r) = last_n (tape_cap r) (tape_entries r @ [t])"
    using ring_entries_push [OF ix, of t] 
    by (simp add: tape_entries_def tape_cap_def Tape_Push_def split del: if_split cong: if_cong)
  show "length (tape_entries r) \<le> tape_cap r"
    using ix by (simp add: tape_entries_def tape_cap_def)
qed

lemma NewTradeRing_inv: "tape_inv (NewTradeRing c) \<and> tape_entries (NewTradeRing c) = []
    \<and> tape_cap (NewTradeRing c) = (if c < 1 then 200 else nat c)"
  by (auto simp: tape_inv_def tape_entries_def tape_cap_def NewTradeRing_def Let_def ring_entries_def)

lemma Tape_Reset_inv: "tape_inv r \<Longrightarrow> tape_inv (Tape_Reset r) \<and> tape_entries (Tape_Reset r) = []
    \<and> tape_cap (Tape_Reset r) = tape_cap r"
  by (auto simp: tape_inv_def tape_entries_def tape_cap_def Tape_Reset_def ring_entries_def)

lemma Tape_index:
  assumes "tape_inv r" "i < tape_count r"
  shows "tape_buf r ! nat ((int (tape_head r) - 1 - int i + int (length (tape_buf r)) * 2)
           smod int (length (tape_buf r)))
       = rev (tape_entries r) ! i"
proof -
  let ?m = "length (tape_buf r)"
  have ix: "tape_head r < ?m" "tape_count r \<le> ?m" using assms(1) by (simp_all add: tape_inv_def)
  have "int (tape_head r) - 1 - int i + int ?m * 2 = int (tape_head r + ?m + (?m - Suc i))"
    using ix assms(2) by (simp add: of_nat_diff)
  then have "nat ((int (tape_head r) - 1 - int i + int ?m * 2) smod int ?m)
      = (tape_head r + ?m + (?m - Suc i)) mod ?m"
    by (rule nat_smod_int) (use ix in linarith)
  also have "\<dots> = (tape_head r + (?m - tape_count r) + (tape_count r - Suc i)) mod ?m"
  proof -
    have "tape_head r + ?m + (?m - Suc i) = tape_head r + (?m - tape_count r) + (tape_count r - Suc i) + ?m"
      using ix assms(2) by simp
    then show ?thesis by (metis mod_add_self2)
  qed
  finally show ?thesis
    using ix assms(2) by (simp add: tape_entries_def rev_nth ring_entries_nth)
qed

lemma Tape_Recent_entries:
  assumes "tape_inv r"
  shows "Tape_Recent limit r
       = rev (last_n (if limit \<le> 0 \<or> limit > int (tape_count r) then tape_count r else nat limit) (tape_entries r))"
proof -
  define k where "k = (if limit \<le> 0 \<or> limit > int (tape_count r) then tape_count r else nat limit)"
  have k: "k \<le> tape_count r" by (auto simp: k_def)
  have len: "length (tape_entries r) = tape_count r" by (simp add: tape_entries_def)
  have "Tape_Recent limit r = map (\<lambda>i. rev (tape_entries r) ! i) [0..<k]"
    using Tape_index [OF assms] k
    unfolding Tape_Recent_def Let_def k_def [symmetric] by (intro map_cong refl) simp
  also have "\<dots> = take k (rev (tape_entries r))"
    using k len by (intro nth_equalityI) simp_all
  also have "\<dots> = rev (last_n k (tape_entries r))"
    using k by (simp add: last_n_def rev_drop len)
  finally show ?thesis by (simp add: k_def)
qed

lemma Tape_Last_entries:
  assumes "tape_inv r"
  shows "Tape_Last r = (if tape_entries r = [] then None else Some (last (tape_entries r)))"
proof (cases "tape_count r = 0")
  case True
  then show ?thesis by (simp add: Tape_Last_def tape_entries_def ring_entries_def)
next
  case False
  let ?m = "int (length (tape_buf r))"
  have ix: "tape_head r < length (tape_buf r)" using assms by (simp add: tape_inv_def)
  have len: "length (tape_entries r) = tape_count r" by (simp add: tape_entries_def)
  have m: "0 < length (tape_buf r)" using ix by linarith
  have "nat ((int (tape_head r) - 1 + ?m) smod ?m) = (tape_head r + (length (tape_buf r) - 1)) mod length (tape_buf r)"
    by (rule nat_smod_int) (use m in linarith)+
  moreover have "nat ((int (tape_head r) - 1 - int 0 + ?m * 2) smod ?m)
      = (tape_head r + (length (tape_buf r) - 1) + length (tape_buf r)) mod length (tape_buf r)"
    by (rule nat_smod_int) (use m in linarith)+
  ultimately have "nat ((int (tape_head r) - 1 + ?m) smod ?m) = nat ((int (tape_head r) - 1 - int 0 + ?m * 2) smod ?m)"
    by simp
  then show ?thesis
    using False len Tape_index [OF assms, of 0] by (auto simp: Tape_Last_def rev_nth last_conv_nth)
qed

text \<open>
  The tape refines a list: after any trades pushed into a new ring (also after a reset),
  \<^verbatim>\<open>Recent(limit)\<close> returns the most recent \<open>limit\<close> of them (all the retained ones
  when the limit is not positive), newest first; at most \<open>capacity\<close> are retained and
  \<^verbatim>\<open>Last\<close> is the last one pushed.
\<close>

lemma TradeRing_refines_list:
  assumes "r = fold Tape_Push ts (Tape_Reset (fold Tape_Push before (NewTradeRing c)))"
  shows "Tape_Recent limit r = rev (last_n (if limit \<le> 0 then tape_cap (NewTradeRing c)
            else min (nat limit) (tape_cap (NewTradeRing c))) ts)
    \<and> Tape_Last r = (if ts = [] then None else Some (last ts))
    \<and> tape_cap (NewTradeRing c) = (if c < 1 then 200 else nat c)"
proof -
  let ?n = "NewTradeRing c"
  let ?cap = "tape_cap ?n"
  let ?z = "Tape_Reset (fold Tape_Push before ?n)"
  have n: "tape_inv ?n" "?cap = (if c < 1 then 200 else nat c)" using NewTradeRing_inv by auto
  have z: "tape_inv ?z" "tape_entries ?z = []" "tape_cap ?z = ?cap"
    using Tape_Reset_inv [OF tape.inv_push_all [OF n(1), of before]] tape.cap_push_all [OF n(1), of before] by auto
  have inv: "tape_inv r" and ent: "tape_entries r = last_n ?cap ts"
    using tape.inv_push_all [OF z(1), of ts] tape.entries_push_all [OF z(1), of ts] z assms by auto
  have cnt: "tape_count r = min ?cap (length ts)"
    using ent by (metis length_last_n length_ring_entries tape_entries_def)
  have pos: "0 < ?cap" using n(2) by auto
  define k where "k = (if limit \<le> 0 \<or> limit > int (tape_count r) then tape_count r else nat limit)"
  have "last_n k (last_n ?cap ts) = last_n (if limit \<le> 0 then ?cap else min (nat limit) ?cap) ts"
    using cnt by (auto simp: k_def last_n_last_n last_n_def nat_le_iff min_def split: if_splits)
  then have "Tape_Recent limit r = rev (last_n (if limit \<le> 0 then ?cap else min (nat limit) ?cap) ts)"
    using Tape_Recent_entries [OF inv, of limit] ent by (simp add: k_def)
  moreover have "Tape_Last r = (if ts = [] then None else Some (last ts))"
  proof (cases "ts = []")
    case False
    then have "last_n ?cap ts \<noteq> []" "last (last_n ?cap ts) = last ts"
      using pos by simp_all
    with False show ?thesis using Tape_Last_entries [OF inv] ent by simp
  qed (use Tape_Last_entries [OF inv] ent in simp)
  ultimately show ?thesis using n(2) by blast
qed

end
