(* ===== verification/Protocol.thy ===== *)
theory Protocol
  imports Tier Tape
begin

text \<open>
  \<^verbatim>\<open>internal/protocol\<close>: the vocabulary of the wire (\<^verbatim>\<open>codes.go\<close>), the validation of client
  frames (\<^verbatim>\<open>client.go\<close>), the payloads of server frames and their constructors (\<^verbatim>\<open>server.go\<close>)
  and the wire timestamp (\<^verbatim>\<open>envelope.go\<close>).

  JSON itself (\<^verbatim>\<open>encoding/json\<close>) is not interpreted: a decoder is an argument, one function per
  Go type it is asked to fill. The message of an error is kept as its format and its arguments.
\<close>

section \<open>Codes and channels\<close>

definition Version :: int where "Version = 1"

type_synonym MessageType = string

abbreviation TypeWelcome :: MessageType where "TypeWelcome \<equiv> ''welcome''"
abbreviation TypeSubscribed :: MessageType where "TypeSubscribed \<equiv> ''subscribed''"
abbreviation TypeUnsubscribed :: MessageType where "TypeUnsubscribed \<equiv> ''unsubscribed''"
abbreviation TypePong :: MessageType where "TypePong \<equiv> ''pong''"
abbreviation TypePing :: MessageType where "TypePing \<equiv> ''ping''"
abbreviation TypeMarketStatus :: MessageType where "TypeMarketStatus \<equiv> ''market_status''"
abbreviation TypeOrderBookSnapshot :: MessageType where "TypeOrderBookSnapshot \<equiv> ''order_book_snapshot''"
abbreviation TypeOrderBookDelta :: MessageType where "TypeOrderBookDelta \<equiv> ''order_book_delta''"
abbreviation TypeTrade :: MessageType where "TypeTrade \<equiv> ''trade''"
abbreviation TypeTradeBatch :: MessageType where "TypeTradeBatch \<equiv> ''trade_batch''"
abbreviation TypeCandleUpdate :: MessageType where "TypeCandleUpdate \<equiv> ''candle_update''"
abbreviation TypeCandleClosed :: MessageType where "TypeCandleClosed \<equiv> ''candle_closed''"
abbreviation TypeMarketSummary :: MessageType where "TypeMarketSummary \<equiv> ''market_summary''"
abbreviation TypeHealth :: MessageType where "TypeHealth \<equiv> ''health''"
abbreviation TypeError :: MessageType where "TypeError \<equiv> ''error''"
abbreviation TypeGoodbye :: MessageType where "TypeGoodbye \<equiv> ''goodbye''"
abbreviation TypeHello :: MessageType where "TypeHello \<equiv> ''hello''"
abbreviation TypeSubscribe :: MessageType where "TypeSubscribe \<equiv> ''subscribe''"
abbreviation TypeUnsubscribe :: MessageType where "TypeUnsubscribe \<equiv> ''unsubscribe''"
abbreviation TypeSetInterval :: MessageType where "TypeSetInterval \<equiv> ''set_interval''"
abbreviation TypeLatencyReport :: MessageType where "TypeLatencyReport \<equiv> ''latency_report''"
abbreviation TypeTierOverride :: MessageType where "TypeTierOverride \<equiv> ''tier_override''"

datatype ErrorCode =
    CodeMalformedFrame
  | CodeUnknownMessageType
  | CodeValidationFailed
  | CodeUnsupportedSymbol
  | CodeUnsupportedInterval
  | CodeUnsupportedChannel
  | CodeRateLimited
  | CodeTierOverrideRejected
  | CodeDebugDisabled
  | CodeSubscriptionRequired
  | CodeSlowConsumer
  | CodeProtocolVersion
  | CodeServerShutdown
  | CodeInternal

fun Code_String :: "ErrorCode \<Rightarrow> string" where
  "Code_String CodeMalformedFrame = ''MALFORMED_FRAME''"
| "Code_String CodeUnknownMessageType = ''UNKNOWN_MESSAGE_TYPE''"
| "Code_String CodeValidationFailed = ''VALIDATION_FAILED''"
| "Code_String CodeUnsupportedSymbol = ''UNSUPPORTED_SYMBOL''"
| "Code_String CodeUnsupportedInterval = ''UNSUPPORTED_INTERVAL''"
| "Code_String CodeUnsupportedChannel = ''UNSUPPORTED_CHANNEL''"
| "Code_String CodeRateLimited = ''RATE_LIMITED''"
| "Code_String CodeTierOverrideRejected = ''TIER_OVERRIDE_REJECTED''"
| "Code_String CodeDebugDisabled = ''DEBUG_DISABLED''"
| "Code_String CodeSubscriptionRequired = ''SUBSCRIPTION_REQUIRED''"
| "Code_String CodeSlowConsumer = ''SLOW_CONSUMER''"
| "Code_String CodeProtocolVersion = ''PROTOCOL_VERSION_UNSUPPORTED''"
| "Code_String CodeServerShutdown = ''SERVER_SHUTDOWN''"
| "Code_String CodeInternal = ''INTERNAL''"

text \<open>An argument of a format: a text, a number or a measurement.\<close>

datatype msg_arg = ArgS string | ArgI int | ArgF rat

record ProtoError =
  pe_Code :: ErrorCode
  pe_Message :: "string \<times> msg_arg list"
  pe_Fatal :: bool
  pe_RequestID :: string

definition NewError :: "ErrorCode \<Rightarrow> string \<Rightarrow> msg_arg list \<Rightarrow> ProtoError" where
  "NewError code format args = \<lparr>pe_Code = code, pe_Message = (format, args), pe_Fatal = False, pe_RequestID = []\<rparr>"

definition NewFatalError :: "ErrorCode \<Rightarrow> string \<Rightarrow> msg_arg list \<Rightarrow> ProtoError" where
  "NewFatalError code format args = \<lparr>pe_Code = code, pe_Message = (format, args), pe_Fatal = True, pe_RequestID = []\<rparr>"

abbreviation ChannelOrderBook :: string where "ChannelOrderBook \<equiv> ''order_book''"
abbreviation ChannelTrades :: string where "ChannelTrades \<equiv> ''trades''"
abbreviation ChannelCandles :: string where "ChannelCandles \<equiv> ''candles''"
abbreviation ChannelSummary :: string where "ChannelSummary \<equiv> ''summary''"
abbreviation ChannelHealth :: string where "ChannelHealth \<equiv> ''health''"

definition Channels :: "string list" where
  "Channels = [ChannelOrderBook, ChannelTrades, ChannelCandles, ChannelSummary, ChannelHealth]"

definition ValidChannel :: "string \<Rightarrow> bool" where
  "ValidChannel name = list_ex (\<lambda>c. c = name) Channels"

definition DefaultChannels :: "string list" where
  "DefaultChannels = [ChannelOrderBook, ChannelTrades, ChannelCandles, ChannelSummary, ChannelHealth]"


section \<open>Client frames\<close>

record header =
  hdr_Type :: string
  hdr_Version :: int
  hdr_RequestID :: string

record HelloMsg =
  he_ClientVersion :: string
  he_Platform :: string
  he_DeviceID :: string

text \<open>A JSON array that is absent or null is a nil slice, \<^term>\<open>None\<close>; it has length zero.\<close>

record SubscribeMsg =
  su_Symbol :: string
  su_Interval :: string
  su_Channels :: "string list option"

definition elems :: "'a list option \<Rightarrow> 'a list" where
  "elems s = (case s of None \<Rightarrow> [] | Some xs \<Rightarrow> xs)"

record PingMsg =
  pi_ID :: int
  pi_ClientTimeMs :: int

record LatencyReportMsg =
  lr_RTTMs :: rat
  lr_JitterMs :: rat
  lr_Samples :: int
  lr_ClientTimeMs :: int
  lr_Window :: string
  lr_MissedPongs :: int
  lr_Capped :: int

datatype ClientMessage =
    Hello HelloMsg
  | Subscribe SubscribeMsg
  | Unsubscribe_msg "string list option"
  | SetInterval string
  | Ping PingMsg
  | LatencyReport LatencyReportMsg
  | TierOverride string

fun Message_Type :: "ClientMessage \<Rightarrow> MessageType" where
  "Message_Type (Hello _) = TypeHello"
| "Message_Type (Subscribe _) = TypeSubscribe"
| "Message_Type (Unsubscribe_msg _) = TypeUnsubscribe"
| "Message_Type (SetInterval _) = TypeSetInterval"
| "Message_Type (Ping _) = TypePing"
| "Message_Type (LatencyReport _) = TypeLatencyReport"
| "Message_Type (TierOverride _) = TypeTierOverride"

text \<open>The JSON decoder: one function per type, with the text of its error.\<close>

record json_decoder =
  js_header :: "string \<Rightarrow> string + header"
  js_Hello :: "string \<Rightarrow> string + HelloMsg"
  js_Subscribe :: "string \<Rightarrow> string + SubscribeMsg"
  js_Unsubscribe :: "string \<Rightarrow> string + string list option"
  js_SetInterval :: "string \<Rightarrow> string + string"
  js_Ping :: "string \<Rightarrow> string + PingMsg"
  js_LatencyReport :: "string \<Rightarrow> string + LatencyReportMsg"
  js_TierOverride :: "string \<Rightarrow> string + string"

definition Subscribe_validate :: "SubscribeMsg \<Rightarrow> ProtoError option" where
  "Subscribe_validate s =
     (if su_Symbol s = [] then Some (NewError CodeValidationFailed ''subscribe requires a symbol'' [])
      else if su_Interval s = [] then Some (NewError CodeValidationFailed ''subscribe requires an interval'' [])
      else case ParseInterval (su_Interval s) of
             Inl _ \<Rightarrow> Some (NewError CodeUnsupportedInterval ''interval %q is not supported'' [ArgS (su_Interval s)])
           | Inr _ \<Rightarrow>
               map_option (\<lambda>c. NewError CodeUnsupportedChannel ''channel %q is not supported'' [ArgS c])
                 (List.find (\<lambda>c. \<not> ValidChannel c) (elems (su_Channels s))))"

definition LatencyReport_validate :: "LatencyReportMsg \<Rightarrow> ProtoError option" where
  "LatencyReport_validate r =
     (if lr_RTTMs r < 0 then Some (NewError CodeValidationFailed ''rttMs must not be negative'' [])
      else if lr_JitterMs r < 0 then Some (NewError CodeValidationFailed ''jitterMs must not be negative'' [])
      else if lr_RTTMs r > 60000
      then Some (NewError CodeValidationFailed ''rttMs %v exceeds the 60s ceiling'' [ArgF (lr_RTTMs r)])
      else if lr_JitterMs r > 60000
      then Some (NewError CodeValidationFailed ''jitterMs %v exceeds the 60s ceiling'' [ArgF (lr_JitterMs r)])
      else if lr_Samples r < 0 \<or> lr_Samples r > 1000
      then Some (NewError CodeValidationFailed ''samples %d is out of range'' [ArgI (lr_Samples r)])
      else None)"

text \<open>\<^verbatim>\<open>strings.EqualFold\<close> against an upper-case ASCII word none of whose letters folds to a
  character outside ASCII.\<close>

definition upper_char :: "char \<Rightarrow> char" where
  "upper_char c = (let n = of_char c :: nat in if 97 \<le> n \<and> n \<le> 122 then char_of (n - 32) else c)"

definition EqualFold :: "string \<Rightarrow> string \<Rightarrow> bool" where
  "EqualFold v w = (map upper_char v = map upper_char w)"

text \<open>The empty tier of the Go code, which stands for AUTO, is \<^term>\<open>None\<close>.\<close>

definition parseTierOrAuto :: "string \<Rightarrow> ProtoError + DeliveryTier option" where
  "parseTierOrAuto v =
     (if EqualFold v ''AUTO'' then Inr None
      else case ParseTier v of
             Inl _ \<Rightarrow> Inl (NewError CodeTierOverrideRejected ''tier %q must be one of AUTO, FULL, DEGRADED, MINIMAL'' [ArgS v])
           | Inr t \<Rightarrow> Inr (Some t))"

definition ParseTierOrAuto :: "string \<Rightarrow> ProtoError + DeliveryTier option" where
  "ParseTierOrAuto v =
     (if EqualFold (TrimSpace v) ''AUTO'' then Inr None
      else case ParseTier v of
             Inl _ \<Rightarrow> Inl (NewError CodeTierOverrideRejected ''tier %q must be one of AUTO, FULL, DEGRADED, MINIMAL'' [ArgS v])
           | Inr t \<Rightarrow> Inr (Some t))"

text \<open>The closure \<^verbatim>\<open>unmarshal\<close> followed by the checks of one message type.\<close>

definition unmarshal :: "header \<Rightarrow> string + 'a \<Rightarrow> ('a \<Rightarrow> ProtoError + ClientMessage) \<Rightarrow> ProtoError + ClientMessage" where
  "unmarshal h r k =
     (case r of
        Inl err \<Rightarrow> Inl (NewError CodeValidationFailed ''invalid %s payload: %v'' [ArgS (hdr_Type h), ArgS err])
      | Inr v \<Rightarrow> k v)"

definition DecodeClientMessage :: "json_decoder \<Rightarrow> string \<Rightarrow> ProtoError + ClientMessage" where
  "DecodeClientMessage J data =
     (case js_header J data of
        Inl err \<Rightarrow> Inl (NewError CodeMalformedFrame ''frame is not valid JSON: %v'' [ArgS err])
      | Inr h \<Rightarrow>
          if TrimSpace (hdr_Type h) = [] then Inl (NewError CodeValidationFailed ''frame has no type'' [])
          else if hdr_Version h > Version
          then Inl (NewFatalError CodeProtocolVersion ''client asked for protocol version %d, server speaks %d''
                      [ArgI (hdr_Version h), ArgI Version])
          else if hdr_Type h = TypeHello then unmarshal h (js_Hello J data) (\<lambda>m. Inr (Hello m))
          else if hdr_Type h = TypeSubscribe then
            unmarshal h (js_Subscribe J data)
              (\<lambda>m. case Subscribe_validate m of Some e \<Rightarrow> Inl e | None \<Rightarrow> Inr (Subscribe m))
          else if hdr_Type h = TypeUnsubscribe then
            unmarshal h (js_Unsubscribe J data)
              (\<lambda>cs. if elems cs = [] then Inl (NewError CodeValidationFailed ''unsubscribe requires at least one channel'' [])
                    else case List.find (\<lambda>c. \<not> ValidChannel c) (elems cs) of
                           Some c \<Rightarrow> Inl (NewError CodeUnsupportedChannel ''channel %q is not supported'' [ArgS c])
                         | None \<Rightarrow> Inr (Unsubscribe_msg cs))
          else if hdr_Type h = TypeSetInterval then
            unmarshal h (js_SetInterval J data)
              (\<lambda>iv. case ParseInterval iv of
                      Inl _ \<Rightarrow> Inl (NewError CodeUnsupportedInterval ''interval %q is not supported'' [ArgS iv])
                    | Inr _ \<Rightarrow> Inr (SetInterval iv))
          else if hdr_Type h = TypePing then unmarshal h (js_Ping J data) (\<lambda>m. Inr (Ping m))
          else if hdr_Type h = TypeLatencyReport then
            unmarshal h (js_LatencyReport J data)
              (\<lambda>m. case LatencyReport_validate m of Some e \<Rightarrow> Inl e | None \<Rightarrow> Inr (LatencyReport m))
          else if hdr_Type h = TypeTierOverride then
            unmarshal h (js_TierOverride J data)
              (\<lambda>v. case parseTierOrAuto v of Inl e \<Rightarrow> Inl e | Inr _ \<Rightarrow> Inr (TierOverride v))
          else Inl (NewError CodeUnknownMessageType ''unknown message type %q'' [ArgS (hdr_Type h)]))"


section \<open>Wire timestamps\<close>

text \<open>
  \<^verbatim>\<open>Time.Format\<close> with the layout \<^verbatim>\<open>2006-01-02T15:04:05.000Z\<close>: the proleptic Gregorian
  date and time of day of the instant, the milliseconds cut off.
\<close>

definition pad :: "nat \<Rightarrow> int \<Rightarrow> string" where
  "pad w n =
     (let s = FormatUint (nat \<bar>n\<bar>) in (if n < 0 then ''-'' else []) @ replicate (w - length s) (CHR ''0'') @ s)"

definition civil :: "int \<Rightarrow> int \<times> int \<times> int" where
  "civil days =
     (let z = days + 719468;
          era = z div 146097;
          doe = z mod 146097;
          yoe = (doe - doe div 1460 + doe div 36524 - doe div 146096) div 365;
          doy = doe - (365 * yoe + yoe div 4 - yoe div 100);
          mp = (5 * doy + 2) div 153;
          d = doy - (153 * mp + 2) div 5 + 1;
          m = (if mp < 10 then mp + 3 else mp - 9)
      in (yoe + era * 400 + (if m \<le> 2 then 1 else 0), m, d))"

definition FormatTime :: "gotime \<Rightarrow> string" where
  "FormatTime t =
     (let ms = instant t div 10 ^ 6;
          (y, m, d) = civil (ms div 86400000);
          r = ms mod 86400000
      in pad 4 y @ ''-'' @ pad 2 m @ ''-'' @ pad 2 d @ ''T'' @ pad 2 (r div 3600000) @ '':''
         @ pad 2 (r div 60000 mod 60) @ '':'' @ pad 2 (r div 1000 mod 60) @ ''.'' @ pad 3 (r mod 1000) @ ''Z'')"


section \<open>Server payloads\<close>

type_synonym LevelJSON = "string \<times> string"

definition Levels :: "Symbol \<Rightarrow> Level list \<Rightarrow> LevelJSON list" where
  "Levels s levels = map (\<lambda>l. (FormatPrice s (lv_Price l), FormatQty s (lv_Quantity l))) levels"

record OrderBookSnapshotPayload =
  sp_Symbol :: string
  sp_Epoch :: u64
  sp_UpdateID :: u64
  sp_Bids :: "LevelJSON list"
  sp_Asks :: "LevelJSON list"
  sp_ServerTime :: string

record OrderBookDeltaPayload =
  op_Symbol :: string
  op_Epoch :: u64
  op_FirstUpdateID :: u64
  op_LastUpdateID :: u64
  op_Bids :: "LevelJSON list"
  op_Asks :: "LevelJSON list"

record TradePayload =
  tp_TradeID :: u64
  tp_Symbol :: string
  tp_Timestamp :: string
  tp_Price :: string
  tp_Quantity :: string
  tp_Side :: string

record TradeBatchPayload =
  tb_Symbol :: string
  tb_Trades :: "TradePayload list"
  tb_Compacted :: bool
  tb_OmittedCount :: int

record CandlePayload =
  cp_StartTime :: string
  cp_Open :: string
  cp_High :: string
  cp_Low :: string
  cp_Close :: string
  cp_Volume :: string
  cp_TradeCount :: int
  cp_SourceSequence :: u64
  cp_Active :: bool

record CandleUpdatePayload =
  cu_Symbol :: string
  cu_Interval :: string
  cu_Candle :: CandlePayload
  cu_SourceSequence :: u64
  cu_Active :: bool

record CandleClosedPayload =
  cc_Symbol :: string
  cc_Interval :: string
  cc_Candle :: CandlePayload
  cc_Epoch :: u64

record MarketSummaryPayload =
  mp_Symbol :: string
  mp_Last :: string
  mp_Open24h :: string
  mp_High24h :: string
  mp_Low24h :: string
  mp_Volume24h :: string
  mp_Change :: string
  mp_ChangeBasisPoints :: int
  mp_Trades24h :: int
  mp_UpdatedAt :: string

record HealthPayload =
  hp_Tier :: string
  hp_Override :: string
  hp_Reason :: string
  hp_TargetRatePerSec :: rat
  hp_EffectiveRatePerSec :: rat
  hp_RTTMs :: rat
  hp_JitterMs :: rat
  hp_LastReportAgeMs :: int
  hp_UptimeMs :: int
  hp_BookEpoch :: u64
  hp_BookUpdateID :: u64
  hp_CoalescedCount :: int
  hp_SuppressedCount :: int
  hp_QueuedMessages :: nat
  hp_DroppedMessages :: int

record MarketStatusPayload =
  sta_State :: string
  sta_Epoch :: u64
  sta_Message :: string
  sta_At :: string

record SubscribedPayload =
  sbp_Symbol :: string
  sbp_Interval :: string
  sbp_Channels :: "string list"
  sbp_Epoch :: u64

record PongPayload =
  po_ID :: int
  po_ClientTimeMs :: int
  po_ServerTimeMs :: int

record ErrorPayload =
  ep_Code :: ErrorCode
  ep_Message :: "string \<times> msg_arg list"
  ep_Fatal :: bool
  ep_RequestID :: string

definition TradePayloadFrom :: "Symbol \<Rightarrow> Trade \<Rightarrow> TradePayload" where
  "TradePayloadFrom s t =
     \<lparr>tp_TradeID = tr_ID t, tp_Symbol = tr_Symbol t, tp_Timestamp = FormatTime (tr_Timestamp t),
      tp_Price = FormatPrice s (tr_Price t), tp_Quantity = FormatQty s (tr_Quantity t), tp_Side = Side_String (tr_Side t)\<rparr>"

definition CandlePayloadFrom :: "Symbol \<Rightarrow> Candle \<Rightarrow> bool \<Rightarrow> CandlePayload" where
  "CandlePayloadFrom s c active =
     \<lparr>cp_StartTime = FormatTime (cd_StartTime c), cp_Open = FormatPrice s (cd_Open c), cp_High = FormatPrice s (cd_High c),
      cp_Low = FormatPrice s (cd_Low c), cp_Close = FormatPrice s (cd_Close c), cp_Volume = FormatQty s (cd_Volume c),
      cp_TradeCount = cd_TradeCount c, cp_SourceSequence = cd_SourceSequence c, cp_Active = active\<rparr>"

definition SummaryPayloadFrom :: "Symbol \<Rightarrow> MarketSummary \<Rightarrow> MarketSummaryPayload" where
  "SummaryPayloadFrom s m =
     \<lparr>mp_Symbol = ms_Symbol m, mp_Last = FormatPrice s (ms_Last m), mp_Open24h = FormatPrice s (ms_Open24h m),
      mp_High24h = FormatPrice s (ms_High24h m), mp_Low24h = FormatPrice s (ms_Low24h m),
      mp_Volume24h = FormatQty s (ms_Volume24h m), mp_Change = FormatPrice s (ms_Change m),
      mp_ChangeBasisPoints = ms_ChangeBP m, mp_Trades24h = ms_Trades24h m, mp_UpdatedAt = FormatTime (ms_UpdatedAt m)\<rparr>"

definition ErrorPayloadFrom :: "ProtoError option \<Rightarrow> ErrorPayload" where
  "ErrorPayloadFrom err =
     (case err of
        None \<Rightarrow> \<lparr>ep_Code = CodeInternal, ep_Message = (''unknown error'', []), ep_Fatal = False, ep_RequestID = []\<rparr>
      | Some e \<Rightarrow> \<lparr>ep_Code = pe_Code e, ep_Message = pe_Message e, ep_Fatal = pe_Fatal e, ep_RequestID = pe_RequestID e\<rparr>)"

definition SnapshotPayloadFrom :: "Symbol \<Rightarrow> OrderBookSnapshot \<Rightarrow> OrderBookSnapshotPayload" where
  "SnapshotPayloadFrom s b =
     \<lparr>sp_Symbol = ob_Symbol b, sp_Epoch = ob_Epoch b, sp_UpdateID = ob_UpdateID b, sp_Bids = Levels s (ob_Bids b),
      sp_Asks = Levels s (ob_Asks b), sp_ServerTime = FormatTime (ob_ServerTime b)\<rparr>"

definition DeltaPayloadFrom :: "Symbol \<Rightarrow> u64 \<Rightarrow> u64 \<Rightarrow> u64 \<Rightarrow> Level list \<Rightarrow> Level list \<Rightarrow> OrderBookDeltaPayload" where
  "DeltaPayloadFrom s epoch first_u last_u bids asks =
     \<lparr>op_Symbol = sym_ID s, op_Epoch = epoch, op_FirstUpdateID = first_u, op_LastUpdateID = last_u,
      op_Bids = Levels s bids, op_Asks = Levels s asks\<rparr>"

record TierThresholds =
  wt_FullMaxRTTMs :: rat
  wt_FullMaxJitterMs :: rat
  wt_MinimalMinRTTMs :: rat
  wt_MinimalMinJitterMs :: rat
  wt_DegradeStreak :: int
  wt_RecoverStreak :: int
  wt_ReportHoldMs :: int
  wt_ReportDegradeMs :: int

record WelcomePayload =
  wp_SessionID :: string
  wp_ShortID :: string
  wp_Symbol :: string
  wp_Epoch :: u64
  wp_EngineState :: string
  wp_ServerTime :: string
  wp_ProtocolMin :: int
  wp_ProtocolMax :: int
  wp_Intervals :: "string list"
  wp_Channels :: "string list"
  wp_HeartbeatMs :: int
  wp_TierRates :: "(string \<times> rat) list"
  wp_TierThresholds :: TierThresholds

definition ClientHeartbeatInterval :: int where "ClientHeartbeatInterval = 2 * second"


section \<open>Server frames\<close>

text \<open>
  A payload of a server frame is a value of one of the payload types. The bytes of a frame are its
  rendering by \<^verbatim>\<open>encoding/json\<close>, which is not interpreted: \<open>je_fails\<close> says for which payloads
  it reports an error (a number that is not finite) and \<open>je_size\<close> how long the rendering of an
  envelope is. A frame itself is its envelope.
\<close>

datatype payload =
    PWelcome WelcomePayload
  | PSubscribed SubscribedPayload
  | PUnsubscribed "string list option"
  | PPong PongPayload
  | PPing int
  | PMarketStatus MarketStatusPayload
  | PSnapshot OrderBookSnapshotPayload
  | PDelta OrderBookDeltaPayload
  | PTrade TradePayload
  | PTradeBatch TradeBatchPayload
  | PCandleUpdate CandleUpdatePayload
  | PCandleClosed CandleClosedPayload
  | PSummary MarketSummaryPayload
  | PHealth HealthPayload
  | PError ErrorPayload
  | PGoodbye string

record Envelope =
  env_Type :: MessageType
  env_Version :: int
  env_ServerTime :: string
  env_Seq :: u64
  env_Payload :: payload

record json_encoder =
  je_fails :: "payload \<Rightarrow> bool"
  je_size :: "Envelope \<Rightarrow> int"

definition Encode :: "json_encoder \<Rightarrow> MessageType \<Rightarrow> u64 \<Rightarrow> gotime \<Rightarrow> payload \<Rightarrow> Envelope option" where
  "Encode J t n serverTime p =
     (if je_fails J p then None
      else Some \<lparr>env_Type = t, env_Version = Version, env_ServerTime = FormatTime serverTime, env_Seq = n, env_Payload = p\<rparr>)"

text \<open>\<^verbatim>\<open>DecodeEnvelope\<close>, on what the JSON decoder makes of the frame.\<close>

definition DecodeEnvelope :: "string + Envelope \<Rightarrow> ProtoError + Envelope" where
  "DecodeEnvelope r =
     (case r of
        Inl err \<Rightarrow> Inl (NewError CodeMalformedFrame ''frame is not valid JSON: %v'' [ArgS err])
      | Inr e \<Rightarrow>
          if env_Type e = [] then Inl (NewError CodeValidationFailed ''frame has no type'' [])
          else if env_Version e = 0 then Inl (NewError CodeValidationFailed ''frame has no version'' [])
          else if env_Version e > Version
          then Inl (NewFatalError CodeProtocolVersion ''client supports protocol version %d, server speaks %d''
                      [ArgI (env_Version e), ArgI Version])
          else Inr e)"

lemma DecodeEnvelope_Encode:
  "Encode J t n now p = Some e \<Longrightarrow> t \<noteq> [] \<Longrightarrow> DecodeEnvelope (Inr e) = Inr e \<and> env_Payload e = p \<and> env_Seq e = n"
  by (auto simp: Encode_def DecodeEnvelope_def Version_def split: if_splits)

section \<open>What a decoded message satisfies\<close>

fun valid_message :: "ClientMessage \<Rightarrow> bool" where
  "valid_message (Subscribe m) = (su_Symbol m \<noteq> [] \<and> Interval_Valid (su_Interval m)
     \<and> (\<forall>c\<in>set (elems (su_Channels m)). c \<in> set Channels))"
| "valid_message (Unsubscribe_msg cs) = (elems cs \<noteq> [] \<and> (\<forall>c\<in>set (elems cs). c \<in> set Channels))"
| "valid_message (SetInterval iv) = Interval_Valid iv"
| "valid_message (LatencyReport r) =
     (0 \<le> lr_RTTMs r \<and> lr_RTTMs r \<le> 60000 \<and> 0 \<le> lr_JitterMs r \<and> lr_JitterMs r \<le> 60000
      \<and> 0 \<le> lr_Samples r \<and> lr_Samples r \<le> 1000)"
| "valid_message (TierOverride v) = (\<exists>t. ParseTierOrAuto v = Inr t)"
| "valid_message _ = True"

lemma ValidChannel_iff: "ValidChannel c \<longleftrightarrow> c \<in> set Channels"
  by (auto simp: ValidChannel_def list_ex_iff)

lemma unmarshal_Inr: "unmarshal h r k = Inr m \<longleftrightarrow> (\<exists>v. r = Inr v \<and> k v = Inr m)"
  by (auto simp: unmarshal_def split: sum.splits)

lemma checked:
  "(case x of None \<Rightarrow> Inr k | Some e \<Rightarrow> Inl (f e)) = Inr m \<longleftrightarrow> x = None \<and> m = k"
  "(case y of Inl e \<Rightarrow> Inl (g e) | Inr z \<Rightarrow> Inr (h z)) = Inr m \<longleftrightarrow> (\<exists>z. y = Inr z \<and> m = h z)"
  by (auto split: option.splits sum.splits)

lemma find_None: "List.find P xs = None \<longleftrightarrow> (\<forall>x\<in>set xs. \<not> P x)"
  by (auto simp: find_None_iff)

lemma ParseInterval_Valid: "ParseInterval iv = Inr s \<Longrightarrow> Interval_Valid iv"
  by (auto simp: ParseInterval_def Interval_Valid_def intervalSpec_def split: sum.splits option.splits)

lemma upper_char_solid: "solid (upper_char c) \<Longrightarrow> solid c"
  by (auto simp: upper_char_def solid_def Let_def split: if_splits)

lemma EqualFold_AUTO_trim:
  assumes "EqualFold v ''AUTO''"
  shows "TrimSpace v = v"
proof -
  have m: "map upper_char v = ''AUTO''" using assms by (simp add: EqualFold_def upper_char_def)
  then have v: "v \<noteq> []" by auto
  have "upper_char (hd v) = CHR ''A''" "upper_char (last v) = CHR ''O''"
    using hd_map [OF v, of upper_char] last_map [OF v, of upper_char] unfolding m by simp_all
  then have "solid (upper_char (hd v))" "solid (upper_char (last v))" by (simp_all add: solid_def)
  then show ?thesis by (rule TrimSpace_id [OF v upper_char_solid upper_char_solid])
qed

lemma parseTierOrAuto_known: "parseTierOrAuto v = Inr t \<Longrightarrow> \<exists>t. ParseTierOrAuto v = Inr t"
  by (auto simp: parseTierOrAuto_def ParseTierOrAuto_def EqualFold_AUTO_trim split: if_splits sum.splits)

lemma Subscribe_validate_None:
  "Subscribe_validate m = None \<Longrightarrow> valid_message (Subscribe m)"
  by (auto simp: Subscribe_validate_def ParseInterval_Valid find_None ValidChannel_iff split: if_splits sum.splits)

lemma LatencyReport_validate_None: "LatencyReport_validate m = None \<longleftrightarrow> valid_message (LatencyReport m)"
  by (auto simp: LatencyReport_validate_def not_less split: if_splits)

text \<open>
  C36. Only valid messages get past the decoder, whatever the JSON decoder yields: a decoded message is
  of the type its header names, its intervals and channels are known, a latency report's measurements
  are within 0 to 60 seconds and its sample count within 0 to 1000, and a tier override is one the
  delivery layer accepts. A rejected frame is fatal exactly when its version is newer than the server's.
\<close>

theorem DecodeClientMessage_valid:
  "case DecodeClientMessage J data of
     Inr m \<Rightarrow> valid_message m \<and> (\<exists>h. js_header J data = Inr h \<and> hdr_Type h = Message_Type m \<and> hdr_Version h \<le> Version)
   | Inl e \<Rightarrow> pe_Fatal e \<longleftrightarrow> (\<exists>h. js_header J data = Inr h \<and> TrimSpace (hdr_Type h) \<noteq> [] \<and> hdr_Version h > Version)"
proof (cases "js_header J data")
  case (Inl err)
  then show ?thesis by (simp add: DecodeClientMessage_def NewError_def)
next
  case (Inr h)
  show ?thesis
  proof (cases "TrimSpace (hdr_Type h) = [] \<or> hdr_Version h > Version")
    case True
    then show ?thesis using Inr by (auto simp: DecodeClientMessage_def NewError_def NewFatalError_def)
  next
    case False
    show ?thesis
    proof (cases "DecodeClientMessage J data")
      case (Inr m)
      then show ?thesis
        using False \<open>js_header J data = Inr h\<close> unfolding DecodeClientMessage_def
        by (auto simp: unmarshal_Inr checked find_None ValidChannel_iff not_less LatencyReport_validate_None
            dest: Subscribe_validate_None ParseInterval_Valid parseTierOrAuto_known split: if_splits)
    next
      case (Inl e)
      then have "\<not> pe_Fatal e"
        using False \<open>js_header J data = Inr h\<close> unfolding DecodeClientMessage_def
        by (auto simp: unmarshal_def NewError_def Subscribe_validate_def LatencyReport_validate_def parseTierOrAuto_def
            split: if_splits option.splits sum.splits)
      then show ?thesis using Inl False \<open>js_header J data = Inr h\<close> by auto
    qed
  qed
qed


section \<open>Levels on the wire\<close>

text \<open>What a client reads from a level: it parses both decimals at the symbol's scales.\<close>

definition parse_level :: "Symbol \<Rightarrow> LevelJSON \<Rightarrow> Level option" where
  "parse_level s l =
     (case (ParsePrice s (fst l), ParseQty s (snd l)) of
        (Some (Inr p), Some (Inr q)) \<Rightarrow> Some \<lparr>lv_Price = p, lv_Quantity = q\<rparr>
      | _ \<Rightarrow> None)"

definition wire_safe :: "Level list \<Rightarrow> bool" where
  "wire_safe ls = (\<forall>l\<in>set ls. \<bar>lv_Price l\<bar> \<le> maxSafeMagnitude \<and> \<bar>lv_Quantity l\<bar> \<le> maxSafeMagnitude)"

lemma Levels_roundtrip:
  assumes "s \<in> set AllSymbols" "wire_safe ls"
  shows "map (parse_level s) (Levels s ls) = map Some ls"
proof -
  have "parse_level s (FormatPrice s (lv_Price l), FormatQty s (lv_Quantity l)) = Some l" if "l \<in> set ls" for l
  proof -
    have "\<bar>lv_Price l\<bar> \<le> maxSafeMagnitude" "\<bar>lv_Quantity l\<bar> \<le> maxSafeMagnitude"
      using assms(2) that by (simp_all add: wire_safe_def)
    then show ?thesis
      using Symbol_wire_exact [OF assms(1), of "lv_Price l"] Symbol_wire_exact [OF assms(1), of "lv_Quantity l"]
      by (simp add: parse_level_def)
  qed
  then show ?thesis by (simp add: Levels_def)
qed

end
