(* ===== verification/Book.thy ===== *)
theory Book
  imports Tape Float64
begin

text \<open>
  \<^verbatim>\<open>internal/market/book.go\<close>: the canonical order book. Levels are kept in sorted
  slices; a trade consumes the touch and replenishes the far end, a refresh churns random
  levels, a recentre rebuilds the ladder around the mid, and a provider delta is applied under
  sequence rules.

  The generator \<^verbatim>\<open>*rand.Rand\<close> is a stream of draws with a position; what the
  library promises about them is the predicate \<open>rand_ok\<close>. The local map
  \<^verbatim>\<open>changed\<close> is written by the operations and never read
  (\<^verbatim>\<open>mutationRange\<close> ignores it), so it has no counterpart here. \<^term>\<open>None\<close> as the
  result of an operation is a run-time panic. Floating-point expressions are rounded after
  every operation.
\<close>

section \<open>Random draws\<close>

record Rand =
  rnd_pos :: nat
  rnd_IntN :: "nat \<Rightarrow> nat \<Rightarrow> nat"
  rnd_Float64 :: "nat \<Rightarrow> rat"

definition IntN :: "nat \<Rightarrow> Rand \<Rightarrow> nat \<times> Rand" where
  "IntN n r = (rnd_IntN r (rnd_pos r) n, r\<lparr>rnd_pos := Suc (rnd_pos r)\<rparr>)"

definition Rand_Float64 :: "Rand \<Rightarrow> rat \<times> Rand" where
  "Rand_Float64 r = (rnd_Float64 r (rnd_pos r), r\<lparr>rnd_pos := Suc (rnd_pos r)\<rparr>)"

text \<open>\<^verbatim>\<open>IntN(n)\<close> is below \<^verbatim>\<open>n\<close> and \<^verbatim>\<open>Float64()\<close> is in \<open>[0, 1)\<close>.\<close>

definition rand_ok :: "Rand \<Rightarrow> bool" where
  "rand_ok r = ((\<forall>k n. 0 < n \<longrightarrow> rnd_IntN r k n < n) \<and> (\<forall>k. 0 \<le> rnd_Float64 r k \<and> rnd_Float64 r k < 1))"

text \<open>The conversion \<^verbatim>\<open>int64(x)\<close> of an out-of-range value, as the amd64 instruction gives it.\<close>

definition f64_to_i64 :: "rat \<Rightarrow> int" where
  "f64_to_i64 x = (if in_i64 (f64_to_int x) then f64_to_int x else MinInt64)"


section \<open>Level helpers\<close>

definition copyLevels :: "Level list \<Rightarrow> int \<Rightarrow> Level list" where
  "copyLevels src n = (let n = (if n \<le> 0 \<or> n > int (length src) then length src else nat n) in take n src)"

definition trimTo :: "Level list \<Rightarrow> nat \<Rightarrow> Level list" where
  "trimTo levels maxLevels = (if length levels \<le> maxLevels then levels else take maxLevels levels)"

fun insertDescending :: "Level list \<Rightarrow> Level \<Rightarrow> Level list" where
  "insertDescending [] lvl = [lvl]"
| "insertDescending (x # xs) lvl =
     (if Price_Cmp (lv_Price lvl) (lv_Price x) > 0 then lvl # x # xs else x # insertDescending xs lvl)"

fun insertAscending :: "Level list \<Rightarrow> Level \<Rightarrow> Level list" where
  "insertAscending [] lvl = [lvl]"
| "insertAscending (x # xs) lvl =
     (if Price_Cmp (lv_Price lvl) (lv_Price x) < 0 then lvl # x # xs else x # insertAscending xs lvl)"

text \<open>The two scans of \<^verbatim>\<open>applyLevel\<close>: the first level at the price is dropped or replaced.\<close>

fun dropLevel :: "price \<Rightarrow> Level list \<Rightarrow> Level list" where
  "dropLevel p [] = []"
| "dropLevel p (x # xs) = (if lv_Price x = p then xs else x # dropLevel p xs)"

fun replaceLevel :: "Level \<Rightarrow> Level list \<Rightarrow> Level list option" where
  "replaceLevel lvl [] = None"
| "replaceLevel lvl (x # xs) =
     (if lv_Price x = lv_Price lvl then Some (lvl # xs) else map_option ((#) x) (replaceLevel lvl xs))"

definition applyLevel :: "bool \<Rightarrow> nat \<Rightarrow> Level \<Rightarrow> Level list \<Rightarrow> Level list" where
  "applyLevel bid maxLevels lvl levels =
     (if Qty_IsZero (lv_Quantity lvl) then dropLevel (lv_Price lvl) levels
      else case replaceLevel lvl levels of
        Some levels' \<Rightarrow> levels'
      | None \<Rightarrow>
          let levels' = (if bid then insertDescending levels lvl else insertAscending levels lvl)
          in if length levels' > maxLevels then take maxLevels levels' else levels')"

definition replenishQuantity :: "Symbol \<Rightarrow> Rand \<Rightarrow> qty \<times> Rand" where
  "replenishQuantity symb r =
     (let (f, r1) = Rand_Float64 r;
          base = f64_add (round64 (2 / 100)) (f64_mul f (round64 (6 / 10)));
          scaled = f64_to_i64 (f64_mul base (f64_of_int (QtyScale symb)))
      in (if scaled < 1 then 1 else scaled, r1))"


section \<open>The book\<close>

record OrderBook =
  bk_symbol :: Symbol
  bk_maxLevels :: nat
  bk_window :: nat
  bk_epoch :: u64
  bk_updateID :: u64
  bk_bids :: "Level list"
  bk_asks :: "Level list"

record Mutation =
  mu_Symbol :: string
  mu_Epoch :: u64
  mu_FirstUpdate :: u64
  mu_LastUpdate :: u64
  mu_Bids :: "Level list"
  mu_Asks :: "Level list"
  mu_At :: gotime
  mu_Err :: "domain_error option"

record BookWindow =
  bw_Symbol :: string
  bw_Epoch :: u64
  bw_UpdateID :: u64
  bw_Bids :: "Level list"
  bw_Asks :: "Level list"
  bw_At :: gotime
  bw_Description :: string

definition NewOrderBook :: "Symbol \<Rightarrow> int \<Rightarrow> int \<Rightarrow> OrderBook" where
  "NewOrderBook symb maxLevels window =
     (let maxLevels = (if maxLevels < 15 then 100 else maxLevels);
          window = (if window < 10 \<or> window > maxLevels then (if 15 > maxLevels then maxLevels else 15)
                    else window)
      in \<lparr>bk_symbol = symb, bk_maxLevels = nat maxLevels, bk_window = nat window, bk_epoch = 0,
          bk_updateID = 0, bk_bids = [], bk_asks = []\<rparr>)"

definition Install :: "u64 \<Rightarrow> u64 \<Rightarrow> Level list \<Rightarrow> Level list \<Rightarrow> OrderBook \<Rightarrow> OrderBook \<times> unit result" where
  "Install epoch updateID bids asks b =
     (if bids = [] \<or> asks = [] then (b, Inl ErrEmptyBook)
      else if Price_Cmp (lv_Price (hd bids)) (lv_Price (hd asks)) \<ge> 0 then (b, Inl ErrCrossedBook)
      else (b\<lparr>bk_epoch := epoch, bk_updateID := updateID, bk_bids := trimTo bids (bk_maxLevels b),
              bk_asks := trimTo asks (bk_maxLevels b)\<rparr>, Inr ()))"

definition Book_Snapshot :: "gotime \<Rightarrow> OrderBook \<Rightarrow> OrderBookSnapshot" where
  "Book_Snapshot now b =
     \<lparr>ob_Symbol = sym_ID (bk_symbol b), ob_Epoch = bk_epoch b, ob_UpdateID = bk_updateID b,
      ob_Bids = bk_bids b, ob_Asks = bk_asks b, ob_ServerTime = to_utc now\<rparr>"

definition TopN :: "int \<Rightarrow> OrderBook \<Rightarrow> Level list \<times> Level list" where
  "TopN n b = (copyLevels (bk_bids b) n, copyLevels (bk_asks b) n)"

definition Book_BestBid :: "OrderBook \<Rightarrow> Level option" where
  "Book_BestBid b = (if bk_bids b = [] then None else Some (hd (bk_bids b)))"

definition Book_BestAsk :: "OrderBook \<Rightarrow> Level option" where
  "Book_BestAsk b = (if bk_asks b = [] then None else Some (hd (bk_asks b)))"

definition Book_Spread :: "OrderBook \<Rightarrow> price option" where
  "Book_Spread b =
     (case (Book_BestBid b, Book_BestAsk b) of
        (Some bid, Some ask) \<Rightarrow> Some (Price_Sub (lv_Price ask) (lv_Price bid))
      | _ \<Rightarrow> None)"

definition Depth :: "OrderBook \<Rightarrow> nat \<times> nat" where
  "Depth b = (length (bk_bids b), length (bk_asks b))"

definition windowLocked :: "OrderBook \<Rightarrow> Level list \<times> Level list" where
  "windowLocked b = (copyLevels (bk_bids b) (int (bk_window b)), copyLevels (bk_asks b) (int (bk_window b)))"

definition mutationRange :: "u64 \<Rightarrow> u64 \<Rightarrow> gotime \<Rightarrow> OrderBook \<Rightarrow> Mutation" where
  "mutationRange first_u last_u now b =
     \<lparr>mu_Symbol = sym_ID (bk_symbol b), mu_Epoch = bk_epoch b, mu_FirstUpdate = first_u,
      mu_LastUpdate = last_u, mu_Bids = fst (windowLocked b), mu_Asks = snd (windowLocked b),
      mu_At = to_utc now, mu_Err = None\<rparr>"

definition book_mutation :: "gotime \<Rightarrow> OrderBook \<Rightarrow> Mutation" where
  "book_mutation now b = mutationRange (bk_updateID b) (bk_updateID b) now b"

definition checkOrdering :: "OrderBook \<Rightarrow> unit result" where
  "checkOrdering b =
     (if \<not> adjacent (\<lambda>x y. \<not> Price_Cmp (lv_Price x) (lv_Price y) \<le> 0) (bk_bids b) then Inl ErrCrossedBook
      else if \<not> adjacent (\<lambda>x y. \<not> Price_Cmp (lv_Price x) (lv_Price y) \<ge> 0) (bk_asks b) then Inl ErrCrossedBook
      else if bk_bids b \<noteq> [] \<and> bk_asks b \<noteq> []
              \<and> Price_Cmp (lv_Price (hd (bk_bids b))) (lv_Price (hd (bk_asks b))) \<ge> 0
      then Inl ErrCrossedBook
      else Inr ())"

text \<open>The mutation the operations return when the ordering check fails: only these fields are set.\<close>

definition errMutation :: "domain_error \<Rightarrow> OrderBook \<Rightarrow> Mutation" where
  "errMutation e b =
     \<lparr>mu_Symbol = [], mu_Epoch = bk_epoch b, mu_FirstUpdate = bk_updateID b, mu_LastUpdate = bk_updateID b,
      mu_Bids = [], mu_Asks = [], mu_At = zeroTime, mu_Err = Some e\<rparr>"

text \<open>The common tail of the mutating operations: check, advance the update id, publish.\<close>

definition commit :: "gotime \<Rightarrow> OrderBook \<Rightarrow> OrderBook \<times> Mutation" where
  "commit now b =
     (case checkOrdering b of
        Inl e \<Rightarrow> (b, errMutation e b)
      | Inr _ \<Rightarrow> let b' = b\<lparr>bk_updateID := bk_updateID b + 1\<rparr> in (b', book_mutation now b'))"

text \<open>The closure \<^verbatim>\<open>consume\<close> of \<^verbatim>\<open>ApplyTrade\<close>; it panics when it drops the only level.\<close>

definition consume :: "Symbol \<Rightarrow> qty \<Rightarrow> bool \<Rightarrow> Level list \<Rightarrow> Rand \<Rightarrow> (Level list \<times> Rand) option" where
  "consume symb tq buy side r =
     (case side of
        [] \<Rightarrow> None
      | level # rest \<Rightarrow>
          let remaining = Qty_Sub (lv_Quantity level) tq
          in if Qty_IsPositive remaining then Some (level\<lparr>lv_Quantity := remaining\<rparr> # rest, r)
             else if rest = [] then None
             else
               let (k, r1) = IntN 2 r;
                   far = (if buy then Price_Add (lv_Price (last rest)) (1 + int k)
                          else Price_Sub (lv_Price (last rest)) (1 + int k));
                   far = (if far \<le> 0 then 1 else far);
                   (q, r2) = replenishQuantity symb r1;
                   fresh = \<lparr>lv_Price = far, lv_Quantity = q\<rparr>
               in Some (if buy then rest @ [fresh] else insertDescending rest fresh, r2))"

definition ApplyTrade ::
  "Trade \<Rightarrow> Rand \<Rightarrow> OrderBook \<Rightarrow> (OrderBook \<times> Mutation option \<times> Rand) option" where
  "ApplyTrade t r b =
     (if bk_bids b = [] \<or> bk_asks b = [] then Some (b, None, r)
      else
        case (if tr_Side t = SideBuy
              then map_option (\<lambda>(s, r'). (b\<lparr>bk_asks := s\<rparr>, r')) (consume (bk_symbol b) (tr_Quantity t) True (bk_asks b) r)
              else map_option (\<lambda>(s, r'). (b\<lparr>bk_bids := s\<rparr>, r')) (consume (bk_symbol b) (tr_Quantity t) False (bk_bids b) r)) of
          None \<Rightarrow> None
        | Some (b1, r1) \<Rightarrow> let (b2, m) = commit (tr_Timestamp t) b1 in Some (b2, Some m, r1))"

definition needsRecenter :: "price \<Rightarrow> OrderBook \<Rightarrow> bool" where
  "needsRecenter mid b =
     (if mid \<le> 0 then False
      else if length (bk_bids b) < bk_maxLevels b * 3 div 4 \<or> length (bk_asks b) < bk_maxLevels b * 3 div 4 then True
      else
        let spread = Price_Sub (lv_Price (hd (bk_asks b))) (lv_Price (hd (bk_bids b)));
            tolerance = int (6 * bk_maxLevels b div 100);
            tolerance = (if tolerance < 6 then 6 else tolerance)
        in spread > tolerance \<or> Price_Cmp (lv_Price (hd (bk_bids b))) mid > 0
           \<or> Price_Cmp (lv_Price (hd (bk_asks b))) mid < 0)"

definition sizeAt :: "OrderBook \<Rightarrow> nat \<Rightarrow> bool \<Rightarrow> qty" where
  "sizeAt b depth bid =
     (let side = (if bid then bk_bids b else bk_asks b)
      in if depth < length side then lv_Quantity (side ! depth)
         else
           let base = f64_add (round64 (2 / 100)) (f64_mul (f64_of_int (int depth)) (round64 (4 / 1000)));
               scaled = f64_to_i64 (f64_mul base (f64_of_int (QtyScale (bk_symbol b))))
           in if scaled < 1 then 1 else scaled)"

text \<open>One round of the loop of \<^verbatim>\<open>Recenter\<close> that builds level \<open>i\<close> of both sides.\<close>

definition recenter_level ::
  "OrderBook \<Rightarrow> price \<times> price \<times> Level list \<times> Level list \<Rightarrow> nat \<Rightarrow> price \<times> price \<times> Level list \<times> Level list" where
  "recenter_level b st i =
     (let (bidPrice, askPrice, bids, asks) = st;
          step = 1 + int i div 20;
          bidPrice = (if i > 0 then wrap64 (bidPrice - step) else bidPrice);
          askPrice = (if i > 0 then wrap64 (askPrice + step) else askPrice);
          bidPrice = (if bidPrice \<le> 0 then 1 else bidPrice)
      in (bidPrice, askPrice, bids @ [\<lparr>lv_Price = bidPrice, lv_Quantity = sizeAt b i True\<rparr>],
          asks @ [\<lparr>lv_Price = askPrice, lv_Quantity = sizeAt b i False\<rparr>]))"

definition Recenter :: "price \<Rightarrow> gotime \<Rightarrow> OrderBook \<Rightarrow> OrderBook \<times> Mutation option" where
  "Recenter mid now b =
     (if mid \<le> 0 then (b, None)
      else
        let half = 1 + mid smod 2;
            bestBid = wrap64 (mid - half);
            bestAsk = wrap64 (mid + half);
            bestBid = (if bestBid \<le> 0 then 1 else bestBid);
            bestAsk = (if bestAsk \<le> bestBid then wrap64 (bestBid + 1) else bestAsk);
            (_, _, bids, asks) = foldl (recenter_level b) (bestBid, bestAsk, [], []) [0..<bk_maxLevels b];
            (b', m) = commit now (b\<lparr>bk_bids := bids, bk_asks := asks\<rparr>)
        in (b', Some m))"

function replenishBids :: "Symbol \<Rightarrow> nat \<Rightarrow> Level list \<Rightarrow> Rand \<Rightarrow> (Level list \<times> Rand) option" where
  "replenishBids symb maxL ls r =
     (if length ls < maxL then
        if ls = [] then None
        else
          let (k, r1) = IntN 2 r;
              px = Price_Sub (lv_Price (last ls)) (1 + int k)
          in if px \<le> 0 then Some (ls, r1)
             else
               let (q, r2) = replenishQuantity symb r1
               in replenishBids symb maxL (ls @ [\<lparr>lv_Price = px, lv_Quantity = q\<rparr>]) r2
      else Some (ls, r))"
  by pat_completeness auto
termination by (relation "measure (\<lambda>(_, maxL, ls, _). maxL - length ls)") auto

function replenishAsks :: "Symbol \<Rightarrow> nat \<Rightarrow> Level list \<Rightarrow> Rand \<Rightarrow> (Level list \<times> Rand) option" where
  "replenishAsks symb maxL ls r =
     (if length ls < maxL then
        if ls = [] then None
        else
          let (k, r1) = IntN 2 r;
              px = Price_Add (lv_Price (last ls)) (1 + int k);
              (q, r2) = replenishQuantity symb r1
          in replenishAsks symb maxL (ls @ [\<lparr>lv_Price = px, lv_Quantity = q\<rparr>]) r2
      else Some (ls, r))"
  by pat_completeness auto
termination by (relation "measure (\<lambda>(_, maxL, ls, _). maxL - length ls)") auto

declare replenishBids.simps [simp del] replenishAsks.simps [simp del]

definition mutateSide :: "Level list \<Rightarrow> Rand \<Rightarrow> Level list \<times> Rand" where
  "mutateSide side r =
     (if side = [] then (side, r)
      else
        let (f1, r1) = Rand_Float64 r;
            (f2, r2) = Rand_Float64 r1;
            idx = f64_to_i64 (f64_mul (f64_mul (f64_of_int (int (length side))) f1) f2);
            i = (if idx \<ge> int (length side) then length side - 1 else nat idx);
            level = side ! i;
            (f3, r3) = Rand_Float64 r2
        in if f3 < round64 (8 / 100) \<and> length side > 20 then (take i side @ drop (i + 1) side, r3)
           else
             let (f4, r4) = Rand_Float64 r3;
                 factor = f64_add (1 / 2) (f64_mul f4 (3 / 2));
                 q = f64_to_i64 (f64_mul (f64_of_int (lv_Quantity level)) factor);
                 q = (if q < 1 then 1 else q)
             in (side[i := level\<lparr>lv_Quantity := q\<rparr>], r4))"

definition mutateRandomLevel :: "bool \<Rightarrow> OrderBook \<times> Rand \<Rightarrow> OrderBook \<times> Rand" where
  "mutateRandomLevel bid br =
     (let (b, r) = br;
          (side, r') = mutateSide (if bid then bk_bids b else bk_asks b) r
      in (if bid then b\<lparr>bk_bids := side\<rparr> else b\<lparr>bk_asks := side\<rparr>, r'))"

definition Refresh ::
  "Rand \<Rightarrow> price \<Rightarrow> gotime \<Rightarrow> OrderBook \<Rightarrow> (OrderBook \<times> Mutation option \<times> Rand) option" where
  "Refresh r mid now b =
     (if bk_bids b = [] \<or> bk_asks b = [] \<or> needsRecenter mid b
      then (let (b', m) = Recenter mid now b in Some (b', m, r))
      else
        let (k1, r1) = IntN 3 r;
            (b1, r2) = (mutateRandomLevel True ^^ (1 + k1)) (b, r1);
            (k2, r3) = IntN 3 r2;
            (b2, r4) = (mutateRandomLevel False ^^ (1 + k2)) (b1, r3)
        in case replenishBids (bk_symbol b2) (bk_maxLevels b2) (bk_bids b2) r4 of
             None \<Rightarrow> None
           | Some (bids, r5) \<Rightarrow>
               (case replenishAsks (bk_symbol b2) (bk_maxLevels b2) (bk_asks b2) r5 of
                  None \<Rightarrow> None
                | Some (asks, r6) \<Rightarrow>
                    let (b', m) = commit now (b2\<lparr>bk_bids := bids, bk_asks := asks\<rparr>)
                    in Some (b', Some m, r6)))"

definition ApplyDelta ::
  "u64 \<Rightarrow> u64 \<Rightarrow> u64 \<Rightarrow> Level list \<Rightarrow> Level list \<Rightarrow> gotime \<Rightarrow> OrderBook \<Rightarrow> OrderBook \<times> Mutation result" where
  "ApplyDelta epoch first_u last_u bids asks now b =
     (if epoch \<noteq> bk_epoch b then (b, Inl ErrStaleUpdate)
      else if last_u \<le> bk_updateID b then (b, Inl ErrStaleUpdate)
      else if first_u > bk_updateID b + 1 then (b, Inl ErrBookGap)
      else
        let b1 = b\<lparr>bk_bids := fold (applyLevel True (bk_maxLevels b)) bids (bk_bids b),
                   bk_asks := fold (applyLevel False (bk_maxLevels b)) asks (bk_asks b)\<rparr>
        in case checkOrdering b1 of
             Inl e \<Rightarrow> (b1, Inl e)
           | Inr _ \<Rightarrow>
               let b2 = b1\<lparr>bk_updateID := last_u\<rparr>
               in (b2, Inr (mutationRange first_u last_u now b2)))"



section \<open>One side of the book as a ladder\<close>

definition levels_map :: "Level list \<Rightarrow> price \<Rightarrow> qty option" where
  "levels_map ls = map_of (map (\<lambda>l. (lv_Price l, lv_Quantity l)) ls)"

text \<open>What a delta level means on a map of prices to quantities.\<close>

definition delta_map :: "Level \<Rightarrow> (price \<Rightarrow> qty option) \<Rightarrow> (price \<Rightarrow> qty option)" where
  "delta_map lvl m = (if lv_Quantity lvl = 0 then m(lv_Price lvl := None) else m(lv_Price lvl \<mapsto> lv_Quantity lvl))"

lemma levels_map_Cons: "levels_map (x # xs) = (levels_map xs)(lv_Price x \<mapsto> lv_Quantity x)"
  by (simp add: levels_map_def)

lemma levels_map_None: "levels_map ls p = None \<longleftrightarrow> p \<notin> lv_Price ` set ls"
  by (auto simp: levels_map_def map_of_eq_None_iff image_image)

locale ladder =
  fixes better :: "price \<Rightarrow> price \<Rightarrow> bool"
    and ins :: "Level list \<Rightarrow> Level \<Rightarrow> Level list"
    and app :: "nat \<Rightarrow> Level \<Rightarrow> Level list \<Rightarrow> Level list"
  assumes better_transp: "transp better"
    and better_irrefl: "\<not> better p p"
    and ins_sorted: "sorted_wrt better (map lv_Price ls) \<Longrightarrow> lv_Price l \<notin> lv_Price ` set ls
        \<Longrightarrow> sorted_wrt better (map lv_Price (ins ls l))"
    and ins_set: "set (ins ls l) = insert l (set ls)"
    and ins_length: "length (ins ls l) = Suc (length ls)"
    and ins_map: "lv_Price l \<notin> lv_Price ` set ls \<Longrightarrow> levels_map (ins ls l) = (levels_map ls)(lv_Price l \<mapsto> lv_Quantity l)"
    and app_eq: "app n l ls =
        (if lv_Quantity l = 0 then dropLevel (lv_Price l) ls
         else case replaceLevel l ls of Some ls' \<Rightarrow> ls' | None \<Rightarrow> take n (ins ls l))"
begin

abbreviation sorted_levels :: "Level list \<Rightarrow> bool" where
  "sorted_levels ls \<equiv> sorted_wrt better (map lv_Price ls)"

lemma drop_set: "set (dropLevel p ls) \<subseteq> set ls"
  by (induction ls) auto

lemma drop_length: "length (dropLevel p ls) \<le> length ls"
  by (induction ls) auto

lemma drop_sorted: "sorted_levels ls \<Longrightarrow> sorted_levels (dropLevel p ls)"
  using drop_set by (induction ls) (auto dest: subsetD [OF drop_set])

lemma drop_map: "sorted_levels ls \<Longrightarrow> levels_map (dropLevel p ls) = (levels_map ls)(p := None)"
proof (induction ls)
  case (Cons x xs)
  have "lv_Price x \<notin> lv_Price ` set xs" using Cons.prems better_irrefl by force
  with Cons show ?case by (auto simp: levels_map_Cons levels_map_None fun_upd_twist)
qed (simp add: levels_map_def fun_eq_iff)

lemma replace_None: "replaceLevel l ls = None \<longleftrightarrow> lv_Price l \<notin> lv_Price ` set ls"
  by (induction ls) auto

lemma replace_Some:
  assumes "replaceLevel l ls = Some ls'"
  shows "map lv_Price ls' = map lv_Price ls \<and> set ls' \<subseteq> insert l (set ls) \<and> length ls' = length ls"
  using assms by (induction ls arbitrary: ls') (auto split: if_splits)

lemma replace_map:
  "sorted_levels ls \<Longrightarrow> replaceLevel l ls = Some ls' \<Longrightarrow> levels_map ls' = (levels_map ls)(lv_Price l \<mapsto> lv_Quantity l)"
proof (induction ls arbitrary: ls')
  case (Cons x xs)
  then show ?case by (auto simp: levels_map_Cons fun_upd_twist split: if_splits)
qed simp

lemma app_sorted: "sorted_levels ls \<Longrightarrow> sorted_levels (app n l ls)"
  using ins_sorted [of ls l] drop_sorted [of ls "lv_Price l"] replace_None [of l ls] replace_Some [of l ls]
  by (auto simp: app_eq take_map [symmetric] sorted_wrt_take split: option.splits)

lemma app_length: "length ls \<le> n \<Longrightarrow> length (app n l ls) \<le> n"
  using drop_length [of "lv_Price l" ls] replace_Some [of l ls]
  by (auto simp: app_eq split: option.splits)

lemma app_set: "set (app n l ls) \<subseteq> insert l (set ls)"
  using drop_set [of "lv_Price l" ls] replace_Some [of l ls] ins_set [of ls l] set_take_subset [of n "ins ls l"]
  by (auto simp: app_eq split: option.splits)

lemma app_map:
  "sorted_levels ls \<Longrightarrow> length ls < n \<Longrightarrow> levels_map (app n l ls) = delta_map l (levels_map ls)"
  using drop_map [of ls] replace_map [of ls l] replace_None [of l ls] ins_map [of l ls]
  by (auto simp: app_eq delta_map_def ins_length split: option.splits)

lemma app_length_Suc: "length (app n l ls) \<le> Suc (length ls)"
  using drop_length [of "lv_Price l" ls] replace_Some [of l ls]
  by (auto simp: app_eq ins_length split: option.splits)

lemma apply_all_sorted: "sorted_levels ls \<Longrightarrow> sorted_levels (fold (app n) ds ls)"
  by (induction ds arbitrary: ls) (auto simp: app_sorted)

lemma apply_all_length: "length ls \<le> n \<Longrightarrow> length (fold (app n) ds ls) \<le> n"
  by (induction ds arbitrary: ls) (auto simp: app_length)

lemma apply_all_map:
  "sorted_levels ls \<Longrightarrow> length ls + length ds \<le> n \<Longrightarrow> levels_map (fold (app n) ds ls) = fold delta_map ds (levels_map ls)"
proof (induction ds arbitrary: ls)
  case (Cons d ds)
  have "length (app n d ls) + length ds \<le> n" using Cons.prems(2) app_length_Suc [of n d ls] by simp
  then show ?case
    using Cons.IH [of "app n d ls"] Cons.prems app_sorted app_map [of ls n d] by simp
qed simp

end

lemma insertDescending_set: "set (insertDescending ls l) = insert l (set ls)"
  by (induction ls) auto

lemma insertAscending_set: "set (insertAscending ls l) = insert l (set ls)"
  by (induction ls) auto

lemma applyLevel_eq:
  "applyLevel bid n l ls =
     (if lv_Quantity l = 0 then dropLevel (lv_Price l) ls
      else case replaceLevel l ls of Some ls' \<Rightarrow> ls'
        | None \<Rightarrow> take n (if bid then insertDescending ls l else insertAscending ls l))"
  by (auto simp: applyLevel_def Qty_IsZero_def Let_def split: option.splits)

interpretation bid_ladder: ladder "(>)" insertDescending "applyLevel True"
proof
  fix ls l
  show "transp ((>) :: price \<Rightarrow> price \<Rightarrow> bool)" by (auto intro: transpI)
  show "set (insertDescending ls l) = insert l (set ls)" by (rule insertDescending_set)
  show "length (insertDescending ls l) = Suc (length ls)" by (induction ls) auto
  show "sorted_wrt (>) (map lv_Price ls) \<Longrightarrow> lv_Price l \<notin> lv_Price ` set ls
      \<Longrightarrow> sorted_wrt (>) (map lv_Price (insertDescending ls l))"
    by (induction ls) (auto simp: insertDescending_set not_less)
  show "lv_Price l \<notin> lv_Price ` set ls
      \<Longrightarrow> levels_map (insertDescending ls l) = (levels_map ls)(lv_Price l \<mapsto> lv_Quantity l)"
    by (induction ls) (auto simp: levels_map_Cons levels_map_def fun_upd_twist)
qed (simp_all add: applyLevel_eq)

interpretation ask_ladder: ladder "(<)" insertAscending "applyLevel False"
proof
  fix ls l
  show "set (insertAscending ls l) = insert l (set ls)" by (rule insertAscending_set)
  show "length (insertAscending ls l) = Suc (length ls)" by (induction ls) auto
  show "sorted_wrt (<) (map lv_Price ls) \<Longrightarrow> lv_Price l \<notin> lv_Price ` set ls
      \<Longrightarrow> sorted_wrt (<) (map lv_Price (insertAscending ls l))"
    by (induction ls) (auto simp: insertAscending_set not_less)
  show "lv_Price l \<notin> lv_Price ` set ls
      \<Longrightarrow> levels_map (insertAscending ls l) = (levels_map ls)(lv_Price l \<mapsto> lv_Quantity l)"
    by (induction ls) (auto simp: levels_map_Cons levels_map_def fun_upd_twist)
qed (simp_all add: applyLevel_eq)


section \<open>The book invariant\<close>

definition prices_ok :: "Level list \<Rightarrow> bool" where
  "prices_ok ls = (\<forall>l\<in>set ls. 0 < lv_Price l \<and> lv_Price l \<le> MaxInt64 \<and> 0 < lv_Quantity l)"

definition book_inv :: "OrderBook \<Rightarrow> bool" where
  "book_inv b =
     (sides_valid (bk_bids b) (bk_asks b) \<and> prices_ok (bk_bids b) \<and> prices_ok (bk_asks b)
      \<and> length (bk_bids b) \<le> bk_maxLevels b \<and> length (bk_asks b) \<le> bk_maxLevels b)"

lemma prices_ok_simps [simp]:
  "prices_ok []" "prices_ok (x # xs) \<longleftrightarrow> 0 < lv_Price x \<and> lv_Price x \<le> MaxInt64 \<and> 0 < lv_Quantity x \<and> prices_ok xs"
  "prices_ok (xs @ ys) \<longleftrightarrow> prices_ok xs \<and> prices_ok ys"
  by (auto simp: prices_ok_def)

lemma checkOrdering_valid: "sides_valid (bk_bids b) (bk_asks b) \<Longrightarrow> checkOrdering b = Inr ()"
  unfolding checkOrdering_def adjacent_bids adjacent_asks
  using uncrossed_hd [of "bk_bids b" "bk_asks b"] by (auto simp: sides_valid_def not_le)

lemma checkOrdering_Inr:
  "checkOrdering b = Inr u \<Longrightarrow> bk_bids b \<noteq> [] \<Longrightarrow> bk_asks b \<noteq> [] \<Longrightarrow> sides_valid (bk_bids b) (bk_asks b)"
  unfolding checkOrdering_def adjacent_bids adjacent_asks
  using uncrossed_hd [of "bk_bids b" "bk_asks b"] by (auto simp: sides_valid_def not_le split: if_splits)

lemma commit_valid:
  assumes "sides_valid (bk_bids b) (bk_asks b)"
  shows "commit now b = (b\<lparr>bk_updateID := bk_updateID b + 1\<rparr>, book_mutation now (b\<lparr>bk_updateID := bk_updateID b + 1\<rparr>))"
  by (simp add: commit_def checkOrdering_valid [OF assms] Let_def)

lemma Book_Snapshot_valid: "book_inv b \<Longrightarrow> Snapshot_Validate (Book_Snapshot now b) = Inr ()"
  by (simp add: Snapshot_Validate_iff Book_Snapshot_def book_inv_def)

lemma IntN_ok: "rand_ok r \<Longrightarrow> 0 < n \<Longrightarrow> IntN n r = (k, r') \<Longrightarrow> k < n \<and> rand_ok r'"
  by (auto simp: IntN_def rand_ok_def)

lemma Rand_Float64_ok: "rand_ok r \<Longrightarrow> Rand_Float64 r = (f, r') \<Longrightarrow> 0 \<le> f \<and> f < 1 \<and> rand_ok r'"
  by (auto simp: Rand_Float64_def rand_ok_def)

lemma replenishQuantity_ok: "rand_ok r \<Longrightarrow> replenishQuantity s r = (q, r') \<Longrightarrow> 0 < q \<and> rand_ok r'"
  by (auto simp: replenishQuantity_def Let_def dest: Rand_Float64_ok split: prod.splits if_splits)

lemma MaxInt64_val: "MaxInt64 = 9223372036854775807" by (simp add: MaxInt64_def)


section \<open>Consuming the touch\<close>

lemma sorted_wrt_lastD:
  "sorted_wrt P xs \<Longrightarrow> x \<in> set xs \<Longrightarrow> x = last xs \<or> P x (last xs)"
  by (induction xs) auto

lemma bids_last: "bids_ordered ls \<Longrightarrow> l \<in> set ls \<Longrightarrow> lv_Price (last ls) \<le> lv_Price l"
  using sorted_wrt_lastD [of "(>)" "map lv_Price ls" "lv_Price l"]
  by (cases "ls = []") (auto simp: bids_ordered_def last_map)

lemma asks_last: "asks_ordered ls \<Longrightarrow> l \<in> set ls \<Longrightarrow> lv_Price l \<le> lv_Price (last ls)"
  using sorted_wrt_lastD [of "(<)" "map lv_Price ls" "lv_Price l"]
  by (cases "ls = []") (auto simp: asks_ordered_def last_map)

lemma asks_snoc:
  "asks_ordered ls \<Longrightarrow> ls \<noteq> [] \<Longrightarrow> lv_Price (last ls) < lv_Price l \<Longrightarrow> asks_ordered (ls @ [l])"
  using asks_last [of ls] by (fastforce simp: asks_ordered_def sorted_wrt_append)

lemma bids_snoc:
  "bids_ordered ls \<Longrightarrow> ls \<noteq> [] \<Longrightarrow> lv_Price l < lv_Price (last ls) \<Longrightarrow> bids_ordered (ls @ [l])"
  using bids_last [of ls] by (fastforce simp: bids_ordered_def sorted_wrt_append)

lemma insertDescending_worst:
  "bids_ordered ls \<Longrightarrow> ls \<noteq> [] \<Longrightarrow> lv_Price l < lv_Price (last ls) \<Longrightarrow> insertDescending ls l = ls @ [l]"
proof (induction ls)
  case (Cons x xs)
  have "lv_Price (last (x # xs)) \<le> lv_Price x" using bids_last [OF Cons.prems(1), of x] by simp
  with Cons show ?case by (cases "xs = []") (auto simp: bids_ordered_def)
qed simp

text \<open>
  What consuming does to a side that has a level to spare and room at the far end: either the
  touch shrinks, or it goes and one worse level is appended.
\<close>

lemma consume_asks:
  assumes "rand_ok r" "asks_ordered ls" "prices_ok ls" "2 \<le> length ls" "lv_Price (last ls) + 2 \<le> MaxInt64"
  shows "\<exists>ls' r'. consume s tq True ls r = Some (ls', r') \<and> rand_ok r' \<and> asks_ordered ls' \<and> prices_ok ls'
    \<and> length ls' = length ls \<and> (\<forall>l\<in>set ls'. lv_Price (hd ls) \<le> lv_Price l)
    \<and> lv_Price (last ls') \<le> lv_Price (last ls) + 2"
proof -
  obtain x rest where ls: "ls = x # rest" and rne: "rest \<noteq> []" using assms(4) by (cases ls; cases "tl ls") auto
  have rest: "asks_ordered rest" "prices_ok rest" using assms(2,3) by (auto simp: ls asks_ordered_def)
  have ge: "\<forall>l\<in>set ls. lv_Price x \<le> lv_Price l" using assms(2) by (auto simp: ls asks_ordered_def)
  show ?thesis
  proof (cases "Qty_IsPositive (Qty_Sub (lv_Quantity x) tq)")
    case True
    then show ?thesis
      using assms ge rne by (auto simp: consume_def ls asks_ordered_def Qty_IsPositive_def)
  next
    case False
    obtain k r1 where k: "IntN 2 r = (k, r1)" by force
    obtain q r2 where q: "replenishQuantity s r1 = (q, r2)" by force
    have kr: "k < 2" "rand_ok r1" using IntN_ok [OF assms(1) _ k] by auto
    have qr: "0 < q" "rand_ok r2" using replenishQuantity_ok [OF kr(2) q] by auto
    define p where "p = lv_Price (last rest)"
    have p: "0 < p" "p + 2 \<le> MaxInt64"
      using rest(2) assms(5) rne by (auto simp: p_def ls prices_ok_def)
    have far: "Price_Add p (1 + int k) = p + 1 + int k"
      using p kr(1) by (simp add: Price_Add_def wrap64_id in_i64_def MinInt64_def)
    define fresh where "fresh = \<lparr>lv_Price = p + 1 + int k, lv_Quantity = q\<rparr>"
    have c: "consume s tq True ls r = Some (rest @ [fresh], r2)"
      using False far p rne by (simp add: consume_def ls k q Let_def fresh_def flip: p_def)
    have "asks_ordered (rest @ [fresh])"
      using rest(1) rne by (intro asks_snoc) (auto simp: fresh_def p_def)
    moreover have "prices_ok (rest @ [fresh])"
      using rest(2) p kr(1) qr(1) by (simp add: fresh_def)
    moreover have "lv_Price x \<le> p" using bspec [OF ge, of "last rest"] rne by (simp add: ls p_def)
    then have "\<forall>l\<in>set (rest @ [fresh]). lv_Price x \<le> lv_Price l"
      using ge by (auto simp: ls fresh_def)
    moreover have "lv_Price fresh \<le> lv_Price (last ls) + 2" using rne kr(1) by (simp add: ls fresh_def p_def)
    ultimately show ?thesis using c qr(2) by (auto simp: ls)
  qed
qed

lemma consume_bids:
  assumes "rand_ok r" "bids_ordered ls" "prices_ok ls" "2 \<le> length ls" "2 \<le> lv_Price (last ls)"
  shows "\<exists>ls' r'. consume s tq False ls r = Some (ls', r') \<and> rand_ok r' \<and> bids_ordered ls' \<and> prices_ok ls'
    \<and> length ls' = length ls \<and> (\<forall>l\<in>set ls'. lv_Price l \<le> lv_Price (hd ls))
    \<and> lv_Price (last ls) - 2 \<le> lv_Price (last ls')"
proof -
  obtain x rest where ls: "ls = x # rest" and rne: "rest \<noteq> []" using assms(4) by (cases ls; cases "tl ls") auto
  have rest: "bids_ordered rest" "prices_ok rest" using assms(2,3) by (auto simp: ls bids_ordered_def)
  have ge: "\<forall>l\<in>set ls. lv_Price l \<le> lv_Price x" using assms(2) by (auto simp: ls bids_ordered_def)
  show ?thesis
  proof (cases "Qty_IsPositive (Qty_Sub (lv_Quantity x) tq)")
    case True
    then show ?thesis
      using assms ge rne by (auto simp: consume_def ls bids_ordered_def Qty_IsPositive_def)
  next
    case False
    obtain k r1 where k: "IntN 2 r = (k, r1)" by force
    obtain q r2 where q: "replenishQuantity s r1 = (q, r2)" by force
    have kr: "k < 2" "rand_ok r1" using IntN_ok [OF assms(1) _ k] by auto
    have qr: "0 < q" "rand_ok r2" using replenishQuantity_ok [OF kr(2) q] by auto
    define p where "p = lv_Price (last rest)"
    have p: "2 \<le> p" "p \<le> MaxInt64"
      using rest(2) assms(5) rne by (auto simp: p_def ls prices_ok_def)
    have sub: "Price_Sub p (1 + int k) = p - 1 - int k"
      using p kr(1) by (simp add: Price_Sub_def wrap64_id in_i64_def MinInt64_def)
    define far where "far = (if p - 1 - int k \<le> 0 then 1 else p - 1 - int k)"
    have far: "0 < far" "far < p" using p kr(1) by (auto simp: far_def)
    define fresh where "fresh = \<lparr>lv_Price = far, lv_Quantity = q\<rparr>"
    have ins: "insertDescending rest fresh = rest @ [fresh]"
      using rest(1) far(2) rne by (intro insertDescending_worst) (auto simp: fresh_def p_def)
    have "consume s tq False ls r = Some (insertDescending rest fresh, r2)"
      using False sub rne by (simp add: consume_def ls k q Let_def fresh_def far_def flip: p_def)
    then have c: "consume s tq False ls r = Some (rest @ [fresh], r2)" by (simp add: ins)
    have "bids_ordered (rest @ [fresh])"
      using rest(1) far(2) rne by (intro bids_snoc) (auto simp: fresh_def p_def)
    moreover have "prices_ok (rest @ [fresh])"
      using rest(2) p far qr(1) by (simp add: fresh_def)
    moreover have "p \<le> lv_Price x" using bspec [OF ge, of "last rest"] rne by (simp add: ls p_def)
    then have "\<forall>l\<in>set (rest @ [fresh]). lv_Price l \<le> lv_Price x"
      using ge far(2) by (auto simp: ls fresh_def)
    moreover have "lv_Price (last ls) - 2 \<le> lv_Price fresh"
      using rne kr(1) by (simp add: ls fresh_def far_def p_def)
    ultimately show ?thesis using c qr(2) by (auto simp: ls)
  qed
qed

text \<open>A side has room when a trade can consume a level and append a worse one.\<close>

definition has_room :: "OrderBook \<Rightarrow> bool" where
  "has_room b =
     (2 \<le> length (bk_bids b) \<and> 2 \<le> length (bk_asks b) \<and> 2 \<le> lv_Price (last (bk_bids b))
      \<and> lv_Price (last (bk_asks b)) + 2 \<le> MaxInt64)"

text \<open>Room for \<open>n\<close> trades: each may move the far end of one side by at most two ticks.\<close>

definition has_room_for :: "nat \<Rightarrow> OrderBook \<Rightarrow> bool" where
  "has_room_for n b =
     (2 \<le> length (bk_bids b) \<and> 2 \<le> length (bk_asks b) \<and> 2 * int n \<le> lv_Price (last (bk_bids b))
      \<and> lv_Price (last (bk_asks b)) + 2 * int n \<le> MaxInt64)"

lemma has_room_for_1: "has_room_for 1 b = has_room b"
  by (simp add: has_room_for_def has_room_def)

lemma has_room_for_mono: "has_room_for n b \<Longrightarrow> k \<le> n \<Longrightarrow> has_room_for k b"
  by (auto simp: has_room_for_def)

definition same_config :: "OrderBook \<Rightarrow> OrderBook \<Rightarrow> bool" where
  "same_config b b' = (bk_symbol b' = bk_symbol b \<and> bk_maxLevels b' = bk_maxLevels b \<and> bk_window b' = bk_window b
     \<and> bk_epoch b' = bk_epoch b)"

lemma ApplyTrade_ok:
  assumes "book_inv b" "has_room b" "rand_ok r"
  shows "\<exists>b' m r'. ApplyTrade t r b = Some (b', Some m, r') \<and> rand_ok r' \<and> book_inv b'
    \<and> mu_Err m = None \<and> bk_epoch b' = bk_epoch b \<and> bk_updateID b' = bk_updateID b + 1
    \<and> mu_FirstUpdate m = bk_updateID b' \<and> mu_LastUpdate m = bk_updateID b' \<and> (mu_Bids m, mu_Asks m) = windowLocked b'
    \<and> mu_Epoch m = bk_epoch b' \<and> mu_Symbol m = sym_ID (bk_symbol b')
    \<and> Depth b' = Depth b
    \<and> (if tr_Side t = SideBuy then bk_bids b' = bk_bids b \<and> lv_Price (hd (bk_asks b)) \<le> lv_Price (hd (bk_asks b'))
       else bk_asks b' = bk_asks b \<and> lv_Price (hd (bk_bids b')) \<le> lv_Price (hd (bk_bids b)))
    \<and> Snapshot_Validate (Book_Snapshot now b') = Inr ()
    \<and> same_config b b' \<and> (\<forall>n. has_room_for (Suc n) b \<longrightarrow> has_room_for n b')"
proof -
  have val: "sides_valid (bk_bids b) (bk_asks b)" "prices_ok (bk_bids b)" "prices_ok (bk_asks b)"
    "bids_ordered (bk_bids b)" "asks_ordered (bk_asks b)" "bk_bids b \<noteq> []" "bk_asks b \<noteq> []"
    "uncrossed (bk_bids b) (bk_asks b)"
    using assms(1) by (simp_all add: book_inv_def sides_valid_def)
  have fin: ?thesis
    if b1: "ApplyTrade t r b = (let (b2, m) = commit (tr_Timestamp t) b1 in Some (b2, Some m, r1))"
      and ok: "rand_ok r1" "book_inv b1" "bk_epoch b1 = bk_epoch b" "bk_updateID b1 = bk_updateID b" "Depth b1 = Depth b"
        "if tr_Side t = SideBuy then bk_bids b1 = bk_bids b \<and> lv_Price (hd (bk_asks b)) \<le> lv_Price (hd (bk_asks b1))
         else bk_asks b1 = bk_asks b \<and> lv_Price (hd (bk_bids b1)) \<le> lv_Price (hd (bk_bids b))"
        "same_config b b1" "\<forall>n. has_room_for (Suc n) b \<longrightarrow> has_room_for n b1"
    for b1 r1
  proof -
    let ?b' = "b1\<lparr>bk_updateID := bk_updateID b1 + 1\<rparr>"
    have "commit (tr_Timestamp t) b1 = (?b', book_mutation (tr_Timestamp t) ?b')"
      using ok(2) by (intro commit_valid) (simp add: book_inv_def)
    then have "ApplyTrade t r b = Some (?b', Some (book_mutation (tr_Timestamp t) ?b'), r1)"
      using b1 by simp
    moreover have "book_inv ?b'" using ok(2) by (simp add: book_inv_def)
    ultimately show ?thesis
      using ok Book_Snapshot_valid [of ?b' now] by (auto simp: book_mutation_def mutationRange_def windowLocked_def Depth_def same_config_def has_room_for_def)
  qed
  show ?thesis
  proof (cases "tr_Side t = SideBuy")
    case True
    obtain ls r1 where c: "consume (bk_symbol b) (tr_Quantity t) True (bk_asks b) r = Some (ls, r1)" "rand_ok r1"
      "asks_ordered ls" "prices_ok ls" "length ls = length (bk_asks b)" "\<forall>l\<in>set ls. lv_Price (hd (bk_asks b)) \<le> lv_Price l"
      "lv_Price (last ls) \<le> lv_Price (last (bk_asks b)) + 2"
      using consume_asks [OF assms(3) val(5,3), of "bk_symbol b" "tr_Quantity t"] assms(2) by (auto simp: has_room_def)
    have ne: "ls \<noteq> []" using c(5) val(7) by auto
    have "uncrossed (bk_bids b) ls"
      unfolding uncrossed_def using val(6-8) c(6) by (meson hd_in_set less_le_trans uncrossed_def)
    then have inv: "book_inv (b\<lparr>bk_asks := ls\<rparr>)"
      using assms(1) c ne val by (simp add: book_inv_def sides_valid_def)
    show ?thesis
      by (rule fin [of "b\<lparr>bk_asks := ls\<rparr>" r1])
        (use True c ne inv val in \<open>simp_all add: ApplyTrade_def Depth_def same_config_def has_room_for_def\<close>)
  next
    case False
    obtain ls r1 where c: "consume (bk_symbol b) (tr_Quantity t) False (bk_bids b) r = Some (ls, r1)" "rand_ok r1"
      "bids_ordered ls" "prices_ok ls" "length ls = length (bk_bids b)" "\<forall>l\<in>set ls. lv_Price l \<le> lv_Price (hd (bk_bids b))"
      "lv_Price (last (bk_bids b)) - 2 \<le> lv_Price (last ls)"
      using consume_bids [OF assms(3) val(4,2), of "bk_symbol b" "tr_Quantity t"] assms(2) by (auto simp: has_room_def)
    have ne: "ls \<noteq> []" using c(5) val(6) by auto
    have "uncrossed ls (bk_asks b)"
      unfolding uncrossed_def using val(6-8) c(6) by (meson hd_in_set le_less_trans uncrossed_def)
    then have inv: "book_inv (b\<lparr>bk_bids := ls\<rparr>)"
      using assms(1) c ne val by (simp add: book_inv_def sides_valid_def)
    show ?thesis
      by (rule fin [of "b\<lparr>bk_bids := ls\<rparr>" r1])
        (use False c ne inv val in \<open>simp_all add: ApplyTrade_def Depth_def same_config_def has_room_for_def\<close>)
  qed
qed


text \<open>
  C8. A trade keeps the book sound. On a valid book with at least two levels a side, whatever
  the draws, \<^verbatim>\<open>ApplyTrade\<close> does not panic and reports no error: the book stays strictly
  ordered, uncrossed and within its depth with positive sizes, keeps its number of levels,
  touches only the consumed side, never improves that side's best price, advances the update
  id by exactly one, and publishes exactly the top of the new book under that id; the snapshot
  served from it passes \<^verbatim>\<open>Validate\<close>.
\<close>

theorem ApplyTrade_keeps_book:
  assumes "book_inv b" "has_room b" "rand_ok r"
  shows "\<exists>b' m r'. ApplyTrade t r b = Some (b', Some m, r') \<and> rand_ok r' \<and> book_inv b'
    \<and> mu_Err m = None \<and> bk_epoch b' = bk_epoch b \<and> bk_updateID b' = bk_updateID b + 1
    \<and> mu_FirstUpdate m = bk_updateID b' \<and> mu_LastUpdate m = bk_updateID b' \<and> (mu_Bids m, mu_Asks m) = windowLocked b'
    \<and> Depth b' = Depth b
    \<and> (if tr_Side t = SideBuy then bk_bids b' = bk_bids b \<and> lv_Price (hd (bk_asks b)) \<le> lv_Price (hd (bk_asks b'))
       else bk_asks b' = bk_asks b \<and> lv_Price (hd (bk_bids b')) \<le> lv_Price (hd (bk_bids b)))
    \<and> Snapshot_Validate (Book_Snapshot now b') = Inr ()"
  using ApplyTrade_ok [OF assms, of t now] by blast

text \<open>A constant stream of draws, for the examples.\<close>

definition zeroRand :: Rand where
  "zeroRand = \<lparr>rnd_pos = 0, rnd_IntN = (\<lambda>_ _. 0), rnd_Float64 = (\<lambda>_. 0)\<rparr>"

lemma zeroRand_ok: "rand_ok zeroRand"
  by (simp add: rand_ok_def zeroRand_def)

definition level :: "price \<Rightarrow> qty \<Rightarrow> Level" where
  "level p q = \<lparr>lv_Price = p, lv_Quantity = q\<rparr>"

definition sampleBook :: OrderBook where
  "sampleBook = (NewOrderBook BTCUSDT 100 15)
     \<lparr>bk_epoch := 1, bk_updateID := 7, bk_bids := [level 99 5, level 98 5], bk_asks := [level 101 5, level 102 5]\<rparr>"

lemma sampleBook_ok: "book_inv sampleBook" "has_room sampleBook"
  by (simp_all add: book_inv_def sampleBook_def NewOrderBook_def sides_valid_def bids_ordered_def asks_ordered_def
      uncrossed_def has_room_def level_def MaxInt64_val)

theorem ApplyTrade_keeps_book_witness:
  "\<exists>b' m r'. ApplyTrade (zeroTrade\<lparr>tr_Quantity := 5, tr_Side := SideBuy\<rparr>) zeroRand sampleBook = Some (b', Some m, r')
     \<and> book_inv b' \<and> bk_updateID b' = 8"
  using ApplyTrade_keeps_book [OF sampleBook_ok zeroRand_ok, of "zeroTrade\<lparr>tr_Quantity := 5, tr_Side := SideBuy\<rparr>" zeroTime]
  by (auto simp: sampleBook_def)

text \<open>
  A book with a single level on the consumed side does not survive a trade that exhausts
  it: \<^verbatim>\<open>ApplyTrade\<close> panics with an index out of range (it reads the last level of the
  side it has just emptied), although \<^verbatim>\<open>Install\<close> accepts such a book.
\<close>

lemma ApplyTrade_single_level_panics:
  assumes "bk_asks b = [l]" "bk_bids b \<noteq> []" "tr_Side t = SideBuy" "Qty_Sub (lv_Quantity l) (tr_Quantity t) \<le> 0"
  shows "ApplyTrade t r b = None"
  using assms by (simp add: ApplyTrade_def consume_def Qty_IsPositive_def)

section \<open>Provider deltas\<close>

text \<open>
  Deltas follow the sequence rules and mean what they say. A delta of another epoch or at
  or below the book's update id is rejected as stale and one that starts beyond the next id as
  a gap, both without touching the book. An accepted delta keeps both sides strictly ordered
  and within the depth limit; as long as the limit is not reached, each side is exactly the
  price-to-quantity map updated level by level (a zero quantity deletes); and it succeeds
  exactly when the result is not crossed, moving the update id to the delta's last id.
\<close>

lemma ApplyDelta_spec:
  assumes "book_inv b" "ApplyDelta epoch first_u last_u bids asks now b = (b', res)"
  shows "(epoch \<noteq> bk_epoch b \<or> last_u \<le> bk_updateID b \<longrightarrow> b' = b \<and> res = Inl ErrStaleUpdate)
    \<and> (epoch = bk_epoch b \<and> bk_updateID b < last_u \<and> bk_updateID b + 1 < first_u \<longrightarrow> b' = b \<and> res = Inl ErrBookGap)
    \<and> (epoch = bk_epoch b \<and> bk_updateID b < last_u \<and> first_u \<le> bk_updateID b + 1 \<longrightarrow>
        bids_ordered (bk_bids b') \<and> asks_ordered (bk_asks b')
        \<and> length (bk_bids b') \<le> bk_maxLevels b \<and> length (bk_asks b') \<le> bk_maxLevels b
        \<and> (length (bk_bids b) + length bids \<le> bk_maxLevels b
            \<longrightarrow> levels_map (bk_bids b') = fold delta_map bids (levels_map (bk_bids b)))
        \<and> (length (bk_asks b) + length asks \<le> bk_maxLevels b
            \<longrightarrow> levels_map (bk_asks b') = fold delta_map asks (levels_map (bk_asks b)))
        \<and> (if uncrossed (bk_bids b') (bk_asks b')
           then bk_updateID b' = last_u \<and> res = Inr (mutationRange first_u last_u now b')
           else bk_updateID b' = bk_updateID b \<and> res = Inl ErrCrossedBook))"
proof -
  define b1 where "b1 = b\<lparr>bk_bids := fold (applyLevel True (bk_maxLevels b)) bids (bk_bids b),
                   bk_asks := fold (applyLevel False (bk_maxLevels b)) asks (bk_asks b)\<rparr>"
  have v: "bids_ordered (bk_bids b)" "asks_ordered (bk_asks b)" "length (bk_bids b) \<le> bk_maxLevels b"
    "length (bk_asks b) \<le> bk_maxLevels b"
    using assms(1) by (simp_all add: book_inv_def sides_valid_def)
  have o: "bids_ordered (bk_bids b1)" "asks_ordered (bk_asks b1)"
    using v bid_ladder.apply_all_sorted ask_ladder.apply_all_sorted
    by (simp_all add: b1_def bids_ordered_def asks_ordered_def)
  have len: "length (bk_bids b1) \<le> bk_maxLevels b" "length (bk_asks b1) \<le> bk_maxLevels b"
    using v bid_ladder.apply_all_length ask_ladder.apply_all_length by (simp_all add: b1_def)
  have maps: "length (bk_bids b) + length bids \<le> bk_maxLevels b
      \<Longrightarrow> levels_map (bk_bids b1) = fold delta_map bids (levels_map (bk_bids b))"
    "length (bk_asks b) + length asks \<le> bk_maxLevels b
      \<Longrightarrow> levels_map (bk_asks b1) = fold delta_map asks (levels_map (bk_asks b))"
    using v bid_ladder.apply_all_map [of "bk_bids b" bids] ask_ladder.apply_all_map [of "bk_asks b" asks]
    by (simp_all add: b1_def bids_ordered_def asks_ordered_def)
  have chk: "checkOrdering b1 = (if uncrossed (bk_bids b1) (bk_asks b1) then Inr () else Inl ErrCrossedBook)"
  proof (cases "bk_bids b1 = [] \<or> bk_asks b1 = []")
    case True
    then have "uncrossed (bk_bids b1) (bk_asks b1)" by (auto simp: uncrossed_def)
    with True o show ?thesis unfolding checkOrdering_def adjacent_bids adjacent_asks by auto
  next
    case False
    with o show ?thesis
      unfolding checkOrdering_def adjacent_bids adjacent_asks
      using uncrossed_hd [OF o] by (auto simp: not_le)
  qed
  have uid: "bk_updateID b1 = bk_updateID b" by (simp add: b1_def)
  show ?thesis
    using assms(2) o len maps chk uid
    unfolding ApplyDelta_def b1_def [symmetric] Let_def
    by (auto simp: not_le not_less split: if_splits)
qed

text \<open>
  A rejected delta is not rolled back: when \<^verbatim>\<open>ApplyDelta\<close> reports a crossed book,
  the levels it has already written stay, so the book it leaves behind (under the old update
  id) is one whose snapshot fails \<^verbatim>\<open>Validate\<close>.
\<close>

lemma ApplyDelta_error_leaves_invalid_book:
  assumes "ApplyDelta epoch first_u last_u bids asks now b = (b', Inl ErrCrossedBook)"
  shows "Snapshot_Validate (Book_Snapshot later b') \<noteq> Inr () \<and> bk_updateID b' = bk_updateID b"
proof -
  have "checkOrdering b' = Inl ErrCrossedBook \<and> bk_updateID b' = bk_updateID b"
    using assms by (auto simp: ApplyDelta_def Let_def split: if_splits sum.splits)
  moreover from this have "\<not> sides_valid (bk_bids b') (bk_asks b')" using checkOrdering_valid [of b'] by auto
  ultimately show ?thesis by (simp add: Snapshot_Validate_iff Book_Snapshot_def)
qed

section \<open>Recentring\<close>

text \<open>How far below the best price level \<open>i\<close> of a recentred side is.\<close>

primrec ladder_reach :: "nat \<Rightarrow> int" where
  "ladder_reach 0 = 0"
| "ladder_reach (Suc i) = ladder_reach i + (1 + int (Suc i) div 20)"

lemma ladder_reach_step: "ladder_reach i < ladder_reach (Suc i)"
  by simp

lemma ladder_reach_strict: "i < j \<Longrightarrow> ladder_reach i < ladder_reach j"
  using lift_Suc_mono_less [of ladder_reach i j] ladder_reach_step by blast

lemma ladder_reach_mono: "i \<le> j \<Longrightarrow> ladder_reach i \<le> ladder_reach j"
  using ladder_reach_strict [of i j] by (cases "i = j") auto

lemma ladder_reach_nonneg: "0 \<le> ladder_reach i"
  using ladder_reach_strict [of 0 i] by (cases i) (auto simp del: ladder_reach.simps(2))

lemma sorted_wrt_upt_map:
  "(\<And>i j. i < j \<Longrightarrow> j < n \<Longrightarrow> P (f i) (f j)) \<Longrightarrow> sorted_wrt P (map f [0..<n])"
  by (auto simp: sorted_wrt_map sorted_wrt_iff_nth_less)

lemma recenter_loop:
  assumes bid: "ladder_reach (n - 1) < bb" "bb \<le> MaxInt64"
    and ask: "0 < ba" "ba + ladder_reach (n - 1) \<le> MaxInt64"
    and k: "k \<le> n"
  shows "foldl (recenter_level b) (bb, ba, [], []) [0..<k]
     = (bb - ladder_reach (k - 1), ba + ladder_reach (k - 1),
        map (\<lambda>i. \<lparr>lv_Price = bb - ladder_reach i, lv_Quantity = sizeAt b i True\<rparr>) [0..<k],
        map (\<lambda>i. \<lparr>lv_Price = ba + ladder_reach i, lv_Quantity = sizeAt b i False\<rparr>) [0..<k])"
  using k
proof (induction k)
  case 0
  then show ?case by simp
next
  case (Suc k)
  have le: "ladder_reach k \<le> ladder_reach (n - 1)"
    using Suc.prems by (intro ladder_reach_mono) simp
  have nn: "0 \<le> ladder_reach k" by (rule ladder_reach_nonneg)
  have rng: "in_i64 (bb - ladder_reach k)" "in_i64 (ba + ladder_reach k)" "0 < bb - ladder_reach k"
    using le nn bid ask by (auto simp: in_i64_def MinInt64_def)
  have step: "ladder_reach k = (if k > 0 then ladder_reach (k - 1) + (1 + int k div 20) else 0)"
    by (cases k) simp_all
  then have eqs: "(if k > 0 then wrap64 (bb - ladder_reach (k - 1) - (1 + int k div 20)) else bb - ladder_reach (k - 1))
        = bb - ladder_reach k"
    "(if k > 0 then wrap64 (ba + ladder_reach (k - 1) + (1 + int k div 20)) else ba + ladder_reach (k - 1))
        = ba + ladder_reach k"
    using rng(1,2) by (auto simp: algebra_simps dest!: wrap64_id)
  have "foldl (recenter_level b) (bb, ba, [], []) [0..<Suc k]
      = recenter_level b (foldl (recenter_level b) (bb, ba, [], []) [0..<k]) k" by simp
  also have "\<dots> = recenter_level b (bb - ladder_reach (k - 1), ba + ladder_reach (k - 1),
        map (\<lambda>i. \<lparr>lv_Price = bb - ladder_reach i, lv_Quantity = sizeAt b i True\<rparr>) [0..<k],
        map (\<lambda>i. \<lparr>lv_Price = ba + ladder_reach i, lv_Quantity = sizeAt b i False\<rparr>) [0..<k]) k"
    using Suc by simp
  also have "\<dots> = (bb - ladder_reach k, ba + ladder_reach k,
        map (\<lambda>i. \<lparr>lv_Price = bb - ladder_reach i, lv_Quantity = sizeAt b i True\<rparr>) [0..<Suc k],
        map (\<lambda>i. \<lparr>lv_Price = ba + ladder_reach i, lv_Quantity = sizeAt b i False\<rparr>) [0..<Suc k])"
    unfolding recenter_level_def Let_def prod.case eqs using rng(3) by simp
  finally show ?case by simp
qed

lemma sizeAt_pos: "prices_ok (bk_bids b) \<Longrightarrow> prices_ok (bk_asks b) \<Longrightarrow> 0 < sizeAt b i bid"
  by (auto simp: sizeAt_def Let_def prices_ok_def)

lemma Recenter_eq:
  assumes mid: "ladder_reach (bk_maxLevels b - 1) + 2 < mid" "mid + 2 + ladder_reach (bk_maxLevels b - 1) \<le> MaxInt64"
    and lv: "0 < bk_maxLevels b"
  defines "bb \<equiv> mid - 1 - mid mod 2" and "ba \<equiv> mid + 1 + mid mod 2"
  defines "b1 \<equiv> b\<lparr>bk_bids := map (\<lambda>i. \<lparr>lv_Price = bb - ladder_reach i, lv_Quantity = sizeAt b i True\<rparr>) [0..<bk_maxLevels b],
       bk_asks := map (\<lambda>i. \<lparr>lv_Price = ba + ladder_reach i, lv_Quantity = sizeAt b i False\<rparr>) [0..<bk_maxLevels b],
       bk_updateID := bk_updateID b + 1\<rparr>"
  shows "Recenter mid now b = (b1, Some (book_mutation now b1))"
    and "sides_valid (bk_bids b1) (bk_asks b1)"
    and "\<And>l. l \<in> set (bk_bids b1) \<union> set (bk_asks b1) \<Longrightarrow> 0 < lv_Price l \<and> lv_Price l \<le> MaxInt64"
proof -
  let ?n = "bk_maxLevels b"
  have r0: "0 \<le> ladder_reach i" for i by (rule ladder_reach_nonneg)
  have m2: "0 \<le> mid mod 2" "mid mod 2 < 2" by simp_all
  have pos: "0 < mid" using mid(1) r0 [of "?n - 1"] by linarith
  have sm: "mid smod 2 = mid mod 2" using pos by (simp add: smod_nonneg)
  have bb: "ladder_reach (?n - 1) < bb" "bb \<le> MaxInt64" and ba: "0 < ba" "ba + ladder_reach (?n - 1) \<le> MaxInt64"
    using mid m2 pos r0 [of "?n - 1"] by (simp_all add: bb_def ba_def)
  have lt: "bb < mid" "mid < ba" using m2 by (simp_all add: bb_def ba_def)
  have eqs: "mid - (1 + mid mod 2) = bb" "mid + (1 + mid mod 2) = ba" by (simp_all add: bb_def ba_def)
  have "in_i64 bb" "in_i64 ba" using bb ba r0 [of "?n - 1"] by (simp_all add: in_i64_def MinInt64_def)
  then have w: "wrap64 (mid - (1 + mid mod 2)) = bb" "wrap64 (mid + (1 + mid mod 2)) = ba" "0 < bb" "bb < ba"
    using lt bb(1) r0 [of "?n - 1"] by (simp_all add: eqs wrap64_id)
  have loop: "foldl (recenter_level b) (bb, ba, [], []) [0..<?n]
      = (bb - ladder_reach (?n - 1), ba + ladder_reach (?n - 1), bk_bids b1, bk_asks b1)"
    using recenter_loop [OF bb ba order.refl] by (simp add: b1_def)
  have le: "i < ?n \<Longrightarrow> ladder_reach i \<le> ladder_reach (?n - 1)" for i
    by (intro ladder_reach_mono) simp
  show valid: "sides_valid (bk_bids b1) (bk_asks b1)"
    unfolding sides_valid_def bids_ordered_def asks_ordered_def uncrossed_def
  proof (intro conjI ballI)
    show "bk_bids b1 \<noteq> []" "bk_asks b1 \<noteq> []" using lv by (simp_all add: b1_def)
    show "sorted_wrt (>) (map lv_Price (bk_bids b1))" "sorted_wrt (<) (map lv_Price (bk_asks b1))"
      unfolding b1_def by (auto simp: comp_def intro!: sorted_wrt_upt_map ladder_reach_strict)
    show "lv_Price x < lv_Price y" if "x \<in> set (bk_bids b1)" "y \<in> set (bk_asks b1)" for x y
    proof -
      have "\<exists>i. lv_Price x = bb - ladder_reach i" "\<exists>j. lv_Price y = ba + ladder_reach j"
        using that by (auto simp: b1_def)
      then obtain i j where "lv_Price x = bb - ladder_reach i" "lv_Price y = ba + ladder_reach j" by blast
      then show ?thesis using r0 [of i] r0 [of j] w(4) by linarith
    qed
  qed
  show "0 < lv_Price l \<and> lv_Price l \<le> MaxInt64" if "l \<in> set (bk_bids b1) \<union> set (bk_asks b1)" for l
  proof -
    from that obtain i where i: "i < ?n" "lv_Price l = bb - ladder_reach i \<or> lv_Price l = ba + ladder_reach i"
      by (auto simp: b1_def)
    then show ?thesis using r0 [of i] le [of i] bb ba by linarith
  qed
  define b0 where "b0 = b\<lparr>bk_bids := bk_bids b1, bk_asks := bk_asks b1\<rparr>"
  have "Recenter mid now b = (let (b', m) = commit now b0 in (b', Some m))"
    using pos w unfolding Recenter_def sm Let_def by (simp add: loop b0_def)
  also have "commit now b0 = (b1, book_mutation now b1)"
  proof -
    have "sides_valid (bk_bids b0) (bk_asks b0)" using valid by (simp add: b0_def)
    moreover have "b0\<lparr>bk_updateID := bk_updateID b0 + 1\<rparr> = b1" by (simp add: b0_def b1_def)
    ultimately show ?thesis using commit_valid [of b0 now] by simp
  qed
  finally show "Recenter mid now b = (b1, Some (book_mutation now b1))" by simp
qed

text \<open>
  A recentre restores the ladder: around a mid that leaves room for the configured number
  of levels, it always succeeds, and the new book has exactly that many levels on each side,
  strictly ordered, straddles the mid with a spread of at most four ticks, keeps the sizes of
  the existing levels, satisfies the book invariant and advances the update id by one.
\<close>

lemma Recenter_restores_book:
  assumes "ladder_reach (bk_maxLevels b - 1) + 2 < mid" "mid + 2 + ladder_reach (bk_maxLevels b - 1) \<le> MaxInt64"
    "0 < bk_maxLevels b" "prices_ok (bk_bids b)" "prices_ok (bk_asks b)"
  shows "\<exists>b' m. Recenter mid now b = (b', Some m) \<and> mu_Err m = None \<and> book_inv b'
    \<and> bk_updateID b' = bk_updateID b + 1 \<and> Depth b' = (bk_maxLevels b, bk_maxLevels b)
    \<and> lv_Price (hd (bk_bids b')) < mid \<and> mid < lv_Price (hd (bk_asks b'))
    \<and> lv_Price (hd (bk_asks b')) - lv_Price (hd (bk_bids b')) \<le> 4
    \<and> (\<forall>i<bk_maxLevels b. i < length (bk_bids b) \<longrightarrow> lv_Quantity (bk_bids b' ! i) = lv_Quantity (bk_bids b ! i))
    \<and> (\<forall>i<bk_maxLevels b. i < length (bk_asks b) \<longrightarrow> lv_Quantity (bk_asks b' ! i) = lv_Quantity (bk_asks b ! i))"
proof -
  note r = Recenter_eq(1) [OF assms(1-3), of now] Recenter_eq(2,3) [OF assms(1-3)]
  obtain b1 where b1: "Recenter mid now b = (b1, Some (book_mutation now b1))"
    and lv: "bk_bids b1 = map (\<lambda>i. \<lparr>lv_Price = mid - 1 - mid mod 2 - ladder_reach i, lv_Quantity = sizeAt b i True\<rparr>) [0..<bk_maxLevels b]"
      "bk_asks b1 = map (\<lambda>i. \<lparr>lv_Price = mid + 1 + mid mod 2 + ladder_reach i, lv_Quantity = sizeAt b i False\<rparr>) [0..<bk_maxLevels b]"
    and oth: "bk_updateID b1 = bk_updateID b + 1" "bk_maxLevels b1 = bk_maxLevels b"
    and val: "sides_valid (bk_bids b1) (bk_asks b1)"
      "\<And>l. l \<in> set (bk_bids b1) \<union> set (bk_asks b1) \<Longrightarrow> 0 < lv_Price l \<and> lv_Price l \<le> MaxInt64"
    by (rule that [OF r(1)]) (use r(2,3) in simp_all)
  have sz: "l \<in> set (bk_bids b1) \<union> set (bk_asks b1) \<Longrightarrow> 0 < lv_Quantity l" for l
    using sizeAt_pos [OF assms(4,5)] by (auto simp: lv)
  have "prices_ok (bk_bids b1)" "prices_ok (bk_asks b1)"
    using val(2) sz by (auto simp: prices_ok_def)
  then have inv: "book_inv b1" using val(1) oth by (simp add: book_inv_def lv)
  have hd_map: "hd (map f [0..<bk_maxLevels b]) = f 0" for f :: "nat \<Rightarrow> Level"
    using assms(3) by (simp add: hd_map upt_conv_Cons)
  have "mid mod 2 < 2" "0 \<le> mid mod 2" by simp_all
  then have best: "lv_Price (hd (bk_bids b1)) < mid" "mid < lv_Price (hd (bk_asks b1))"
    "lv_Price (hd (bk_asks b1)) - lv_Price (hd (bk_bids b1)) \<le> 4"
    by (simp_all add: lv hd_map)
  have "mu_Err (book_mutation now b1) = None" "Depth b1 = (bk_maxLevels b, bk_maxLevels b)"
    by (simp_all add: book_mutation_def mutationRange_def Depth_def lv)
  then show ?thesis
    using b1 inv oth(1) best by (auto simp: lv sizeAt_def Let_def)
qed

section \<open>Refreshing\<close>

text \<open>Churn only removes levels or changes sizes.\<close>

definition churned :: "Level list \<Rightarrow> Level list \<Rightarrow> bool" where
  "churned ls ls' =
     (ls' \<noteq> [] \<and> length ls' \<le> length ls \<and> lv_Price ` set ls' \<subseteq> lv_Price ` set ls
      \<and> (\<forall>l\<in>set ls'. 0 < lv_Quantity l)
      \<and> (bids_ordered ls \<longrightarrow> bids_ordered ls') \<and> (asks_ordered ls \<longrightarrow> asks_ordered ls'))"

lemma churned_prices: "churned ls ls' \<Longrightarrow> prices_ok ls \<Longrightarrow> prices_ok ls'"
  by (fastforce simp: churned_def prices_ok_def)

lemma churned_trans: "churned a b \<Longrightarrow> churned b c \<Longrightarrow> churned a c"
  unfolding churned_def by (metis le_trans subset_trans)

lemma churned_refl: "ls \<noteq> [] \<Longrightarrow> prices_ok ls \<Longrightarrow> churned ls ls"
  by (auto simp: churned_def prices_ok_def)

lemma sorted_wrt_remove: "sorted_wrt P xs \<Longrightarrow> i < length xs \<Longrightarrow> sorted_wrt P (take i xs @ drop (Suc i) xs)"
  by (subst (asm) id_take_nth_drop [of i xs]) (auto simp: sorted_wrt_append)

lemma mutateSide_churns:
  assumes "rand_ok r" "side \<noteq> []" "prices_ok side" "mutateSide side r = (side', r')"
  shows "churned side side' \<and> rand_ok r'"
proof -
  obtain f1 r1 where f1: "Rand_Float64 r = (f1, r1)" by force
  obtain f2 r2 where f2: "Rand_Float64 r1 = (f2, r2)" by force
  obtain f3 r3 where f3: "Rand_Float64 r2 = (f3, r3)" by force
  obtain f4 r4 where f4: "Rand_Float64 r3 = (f4, r4)" by force
  have ok: "rand_ok r3" "rand_ok r4"
    using Rand_Float64_ok assms(1) f1 f2 f3 f4 by blast+
  define idx where "idx = f64_to_i64 (f64_mul (f64_mul (f64_of_int (int (length side))) f1) f2)"
  define i where "i = (if idx \<ge> int (length side) then length side - 1 else nat idx)"
  have i: "i < length side" using assms(2) by (cases "idx < 0") (auto simp: i_def nat_less_iff)
  define q0 where "q0 = f64_to_i64 (f64_mul (f64_of_int (lv_Quantity (side ! i))) (f64_add (1 / 2) (f64_mul f4 (3 / 2))))"
  define q where "q = (if q0 < 1 then 1 else q0)"
  have q: "0 < q" by (auto simp: q_def)
  have m: "mutateSide side r = (if f3 < round64 (8 / 100) \<and> length side > 20 then (take i side @ drop (Suc i) side, r3)
      else (side[i := (side ! i)\<lparr>lv_Quantity := q\<rparr>], r4))"
    using assms(2) by (simp add: mutateSide_def f1 f2 f3 f4 Let_def i_def idx_def q_def q0_def)
  show ?thesis
  proof (cases "f3 < round64 (8 / 100) \<and> length side > 20")
    case True
    then have s: "side' = take i side @ drop (Suc i) side" "r' = r3" using m assms(4) by simp_all
    have "length side' = length side - 1" using i by (simp add: s)
    moreover have "set side' \<subseteq> set side" unfolding s using set_take_subset set_drop_subset by fastforce
    moreover have "map lv_Price side' = take i (map lv_Price side) @ drop (Suc i) (map lv_Price side)"
      by (simp add: s take_map drop_map)
    ultimately show ?thesis
      using True i assms(3) ok s
        sorted_wrt_remove [of "(>)" "map lv_Price side" i] sorted_wrt_remove [of "(<)" "map lv_Price side" i]
      by (auto simp: churned_def bids_ordered_def asks_ordered_def prices_ok_def)
  next
    case False
    then have s: "side' = side[i := (side ! i)\<lparr>lv_Quantity := q\<rparr>]" "r' = r4"
      unfolding m using assms(4) by (auto simp: m)
    have pr: "map lv_Price side' = map lv_Price side"
      unfolding s map_update using i by (simp add: list_update_same_conv)
    then have "lv_Price ` set side' = lv_Price ` set side" by (metis set_map)
    moreover have "set side' \<subseteq> insert ((side ! i)\<lparr>lv_Quantity := q\<rparr>) (set side)"
      unfolding s by (rule set_update_subset_insert)
    then have "\<forall>l\<in>set side'. 0 < lv_Quantity l" using assms(3) q by (fastforce simp: prices_ok_def)
    moreover have "side' \<noteq> []" "length side' = length side" using s assms(2) by simp_all
    ultimately show ?thesis
      using ok s pr by (simp add: churned_def bids_ordered_def asks_ordered_def)
  qed
qed

lemma mutate_bids_iter:
  assumes "rand_ok r" "bk_bids b \<noteq> []" "prices_ok (bk_bids b)"
  shows "\<exists>ls r'. (mutateRandomLevel True ^^ n) (b, r) = (b\<lparr>bk_bids := ls\<rparr>, r') \<and> churned (bk_bids b) ls \<and> rand_ok r'"
proof (induction n)
  case 0
  then show ?case using assms churned_refl by (intro exI [of _ "bk_bids b"]) auto
next
  case (Suc n)
  then obtain ls r1 where ls: "(mutateRandomLevel True ^^ n) (b, r) = (b\<lparr>bk_bids := ls\<rparr>, r1)"
    "churned (bk_bids b) ls" "rand_ok r1" by blast
  obtain ls' r2 where m: "mutateSide ls r1 = (ls', r2)" by force
  have "churned ls ls' \<and> rand_ok r2"
    using mutateSide_churns [OF ls(3) _ _ m] ls(2) churned_prices [OF ls(2) assms(3)] by (auto simp: churned_def)
  moreover have "(mutateRandomLevel True ^^ Suc n) (b, r) = (b\<lparr>bk_bids := ls'\<rparr>, r2)"
    unfolding funpow.simps comp_apply ls(1) by (simp add: mutateRandomLevel_def m)
  ultimately show ?case
    using churned_trans [OF ls(2)] by blast
qed

lemma mutate_asks_iter:
  assumes "rand_ok r" "bk_asks b \<noteq> []" "prices_ok (bk_asks b)"
  shows "\<exists>ls r'. (mutateRandomLevel False ^^ n) (b, r) = (b\<lparr>bk_asks := ls\<rparr>, r') \<and> churned (bk_asks b) ls \<and> rand_ok r'"
proof (induction n)
  case 0
  then show ?case using assms churned_refl by (intro exI [of _ "bk_asks b"]) auto
next
  case (Suc n)
  then obtain ls r1 where ls: "(mutateRandomLevel False ^^ n) (b, r) = (b\<lparr>bk_asks := ls\<rparr>, r1)"
    "churned (bk_asks b) ls" "rand_ok r1" by blast
  obtain ls' r2 where m: "mutateSide ls r1 = (ls', r2)" by force
  have "churned ls ls' \<and> rand_ok r2"
    using mutateSide_churns [OF ls(3) _ _ m] ls(2) churned_prices [OF ls(2) assms(3)] by (auto simp: churned_def)
  moreover have "(mutateRandomLevel False ^^ Suc n) (b, r) = (b\<lparr>bk_asks := ls'\<rparr>, r2)"
    unfolding funpow.simps comp_apply ls(1) by (simp add: mutateRandomLevel_def m)
  ultimately show ?case
    using churned_trans [OF ls(2)] by blast
qed

lemma replenishBids_ok:
  "rand_ok r \<Longrightarrow> ls \<noteq> [] \<Longrightarrow> bids_ordered ls \<Longrightarrow> prices_ok ls \<Longrightarrow> length ls \<le> n \<Longrightarrow>
   \<exists>ls' r'. replenishBids s n ls r = Some (ls', r') \<and> rand_ok r' \<and> ls' \<noteq> [] \<and> hd ls' = hd ls
     \<and> bids_ordered ls' \<and> prices_ok ls' \<and> length ls' \<le> n"
proof (induction s n ls r rule: replenishBids.induct)
  case (1 s n ls r)
  obtain k r1 where k: "IntN 2 r = (k, r1)" by force
  obtain q r2 where q: "replenishQuantity s r1 = (q, r2)" by force
  have kr: "k < 2" "rand_ok r1" using IntN_ok [OF "1.prems"(1) _ k] by auto
  have qr: "0 < q" "rand_ok r2" using replenishQuantity_ok [OF kr(2) q] by auto
  define p where "p = lv_Price (last ls)"
  have p: "0 < p" "p \<le> MaxInt64" using "1.prems"(2,4) by (auto simp: p_def prices_ok_def)
  have px: "Price_Sub p (1 + int k) = p - 1 - int k"
    using p kr(1) by (simp add: Price_Sub_def wrap64_id in_i64_def MinInt64_def)
  show ?case
  proof (cases "length ls < n")
    case False
    then show ?thesis using "1.prems" by (subst replenishBids.simps) simp
  next
    case lt: True
    show ?thesis
    proof (cases "p - 1 - int k \<le> 0")
      case True
      then show ?thesis
        using "1.prems" lt kr px by (subst replenishBids.simps) (simp add: k flip: p_def)
    next
      case False
      let ?ls = "ls @ [\<lparr>lv_Price = p - 1 - int k, lv_Quantity = q\<rparr>]"
      have ok: "bids_ordered ?ls" "prices_ok ?ls" "length ?ls \<le> n" "hd ?ls = hd ls"
        using "1.prems" p qr kr False lt by (auto simp: p_def intro: bids_snoc)
      have step: "replenishBids s n ls r = replenishBids s n ?ls r2"
        using "1.prems"(2) lt False px by (subst replenishBids.simps) (simp add: k q flip: p_def)
      have "\<exists>ls' r'. replenishBids s n ?ls r2 = Some (ls', r') \<and> rand_ok r' \<and> ls' \<noteq> [] \<and> hd ls' = hd ?ls
          \<and> bids_ordered ls' \<and> prices_ok ls' \<and> length ls' \<le> n"
        using "1.IH" [OF lt "1.prems"(2) refl k [symmetric] refl _ refl q [symmetric]] False px qr ok
        by (simp flip: p_def)
      then show ?thesis unfolding step ok(4) .
    qed
  qed
qed

lemma replenishAsks_ok:
  "rand_ok r \<Longrightarrow> ls \<noteq> [] \<Longrightarrow> asks_ordered ls \<Longrightarrow> prices_ok ls \<Longrightarrow> length ls \<le> n \<Longrightarrow>
   lv_Price (last ls) + 2 * int (n - length ls) \<le> MaxInt64 \<Longrightarrow>
   \<exists>ls' r'. replenishAsks s n ls r = Some (ls', r') \<and> rand_ok r' \<and> ls' \<noteq> [] \<and> hd ls' = hd ls
     \<and> asks_ordered ls' \<and> prices_ok ls' \<and> length ls' = n"
proof (induction s n ls r rule: replenishAsks.induct)
  case (1 s n ls r)
  obtain k r1 where k: "IntN 2 r = (k, r1)" by force
  obtain q r2 where q: "replenishQuantity s r1 = (q, r2)" by force
  have kr: "k < 2" "rand_ok r1" using IntN_ok [OF "1.prems"(1) _ k] by auto
  have qr: "0 < q" "rand_ok r2" using replenishQuantity_ok [OF kr(2) q] by auto
  define p where "p = lv_Price (last ls)"
  have p: "0 < p" "p + 2 * int (n - length ls) \<le> MaxInt64"
    using "1.prems"(2,4,6) by (auto simp: p_def prices_ok_def)
  show ?case
  proof (cases "length ls < n")
    case False
    then show ?thesis using "1.prems" by (subst replenishAsks.simps) simp
  next
    case lt: True
    let ?ls = "ls @ [\<lparr>lv_Price = p + 1 + int k, lv_Quantity = q\<rparr>]"
    have room: "p + 1 + int k + 2 * int (n - length ?ls) \<le> MaxInt64"
      using p(2) lt kr(1) by (simp add: of_nat_diff algebra_simps)
    then have pm: "p + 1 + int k \<le> MaxInt64" by linarith
    have px: "Price_Add p (1 + int k) = p + 1 + int k"
      using p pm by (simp add: Price_Add_def wrap64_id in_i64_def MinInt64_def add.assoc)
    have ok: "asks_ordered ?ls" "prices_ok ?ls" "length ?ls \<le> n" "hd ?ls = hd ls"
      using "1.prems" p qr lt pm by (auto simp: p_def intro: asks_snoc)
    have step: "replenishAsks s n ls r = replenishAsks s n ?ls r2"
      using "1.prems"(2) lt px by (subst replenishAsks.simps) (simp add: k q flip: p_def)
    have "\<exists>ls' r'. replenishAsks s n ?ls r2 = Some (ls', r') \<and> rand_ok r' \<and> ls' \<noteq> [] \<and> hd ls' = hd ?ls
        \<and> asks_ordered ls' \<and> prices_ok ls' \<and> length ls' = n"
      using "1.IH" [OF lt "1.prems"(2) refl k [symmetric] refl refl q [symmetric]] px qr ok room
      by (simp flip: p_def)
    then show ?thesis unfolding step ok(4) .
  qed
qed

lemma Refresh_ok:
  assumes inv: "book_inv b" and rnd: "rand_ok r" and lv: "0 < bk_maxLevels b"
    and mid: "ladder_reach (bk_maxLevels b - 1) + 2 < mid" "mid + 2 + ladder_reach (bk_maxLevels b - 1) \<le> MaxInt64"
    and room: "\<forall>a\<in>set (bk_asks b). lv_Price a + 2 * int (bk_maxLevels b) \<le> MaxInt64"
  shows "\<exists>b' m r'. Refresh r mid now b = Some (b', Some m, r') \<and> mu_Err m = None \<and> book_inv b'
    \<and> rand_ok r' \<and> bk_updateID b' = bk_updateID b + 1 \<and> bk_epoch b' = bk_epoch b \<and> snd (Depth b') = bk_maxLevels b
    \<and> mu_LastUpdate m = bk_updateID b' \<and> (mu_Bids m, mu_Asks m) = windowLocked b' \<and> mu_Epoch m = bk_epoch b'
    \<and> mu_Symbol m = sym_ID (bk_symbol b') \<and> same_config b b'"
proof -
  have v: "bids_ordered (bk_bids b)" "asks_ordered (bk_asks b)" "bk_bids b \<noteq> []" "bk_asks b \<noteq> []"
    "uncrossed (bk_bids b) (bk_asks b)" "prices_ok (bk_bids b)" "prices_ok (bk_asks b)"
    "length (bk_bids b) \<le> bk_maxLevels b" "length (bk_asks b) \<le> bk_maxLevels b"
    using inv by (simp_all add: book_inv_def sides_valid_def)
  show ?thesis
  proof (cases "needsRecenter mid b")
    case True
    note r = Recenter_eq(1) [OF mid lv, of now] Recenter_eq(2,3) [OF mid lv]
    obtain b1 where b1: "Recenter mid now b = (b1, Some (book_mutation now b1))"
      and l1: "length (bk_bids b1) = bk_maxLevels b" "length (bk_asks b1) = bk_maxLevels b"
        "bk_updateID b1 = bk_updateID b + 1" "bk_epoch b1 = bk_epoch b" "bk_maxLevels b1 = bk_maxLevels b"
        "same_config b b1"
      and ok: "sides_valid (bk_bids b1) (bk_asks b1)"
        "\<And>l. l \<in> set (bk_bids b1) \<union> set (bk_asks b1) \<Longrightarrow> 0 < lv_Price l \<and> lv_Price l \<le> MaxInt64"
        "\<And>l. l \<in> set (bk_bids b1) \<union> set (bk_asks b1) \<Longrightarrow> 0 < lv_Quantity l"
      by (rule that [OF r(1)]) (use r(2,3) sizeAt_pos [OF v(6,7)] in \<open>auto simp: same_config_def\<close>)
    have "book_inv b1" using ok l1 by (simp add: book_inv_def prices_ok_def)
    then show ?thesis
      using True b1 l1 rnd
      by (auto simp: Refresh_def book_mutation_def mutationRange_def Depth_def)
  next
    case False
    obtain k1 r1 where k1: "IntN 3 r = (k1, r1)" by force
    have ok1: "rand_ok r1" using IntN_ok [OF rnd _ k1] by auto
    obtain bs r2 where m1: "(mutateRandomLevel True ^^ (1 + k1)) (b, r1) = (b\<lparr>bk_bids := bs\<rparr>, r2)"
      "churned (bk_bids b) bs" "rand_ok r2" using mutate_bids_iter [OF ok1 v(3,6)] by blast
    obtain k2 r3 where k2: "IntN 3 r2 = (k2, r3)" by force
    have ok3: "rand_ok r3" using IntN_ok [OF m1(3) _ k2] by auto
    obtain as r4 where m2: "(mutateRandomLevel False ^^ (1 + k2)) (b\<lparr>bk_bids := bs\<rparr>, r3) = (b\<lparr>bk_bids := bs, bk_asks := as\<rparr>, r4)"
      "churned (bk_asks b) as" "rand_ok r4"
      using mutate_asks_iter [OF ok3, of "b\<lparr>bk_bids := bs\<rparr>" "1 + k2"] v(4,7) by auto
    have bs: "bs \<noteq> []" "bids_ordered bs" "prices_ok bs" "length bs \<le> bk_maxLevels b"
      using m1(2) v churned_prices by (auto simp: churned_def)
    have as: "as \<noteq> []" "asks_ordered as" "prices_ok as" "length as \<le> bk_maxLevels b"
      using m2(2) v churned_prices by (auto simp: churned_def)
    obtain bs' r5 where rb: "replenishBids (bk_symbol b) (bk_maxLevels b) bs r4 = Some (bs', r5)" "rand_ok r5"
      "bs' \<noteq> []" "hd bs' = hd bs" "bids_ordered bs'" "prices_ok bs'" "length bs' \<le> bk_maxLevels b"
      using replenishBids_ok [OF m2(3) bs] by blast
    have "lv_Price (last as) \<in> lv_Price ` set (bk_asks b)" using m2(2) as(1) by (auto simp: churned_def)
    then have "lv_Price (last as) + 2 * int (bk_maxLevels b - length as) \<le> MaxInt64"
      using room by (force simp: of_nat_diff as(4))
    then obtain as' r6 where ra: "replenishAsks (bk_symbol b) (bk_maxLevels b) as r5 = Some (as', r6)" "rand_ok r6"
      "as' \<noteq> []" "hd as' = hd as" "asks_ordered as'" "prices_ok as'" "length as' = bk_maxLevels b"
      using replenishAsks_ok [OF rb(2) as] by blast
    have "lv_Price (hd bs) \<in> lv_Price ` set (bk_bids b)" "lv_Price (hd as) \<in> lv_Price ` set (bk_asks b)"
      using m1(2) m2(2) bs(1) as(1) by (auto simp: churned_def)
    then have "lv_Price (hd bs') < lv_Price (hd as')"
      using v(5) by (auto simp: rb(4) ra(4) uncrossed_def)
    then have val: "sides_valid bs' as'"
      using uncrossed_hd [OF rb(5) ra(5) rb(3) ra(3)] rb ra by (simp add: sides_valid_def)
    define b1 where "b1 = b\<lparr>bk_bids := bs', bk_asks := as'\<rparr>"
    have "commit now b1 = (b1\<lparr>bk_updateID := bk_updateID b1 + 1\<rparr>, book_mutation now (b1\<lparr>bk_updateID := bk_updateID b1 + 1\<rparr>))"
      using val by (intro commit_valid) (simp add: b1_def)
    then have "Refresh r mid now b = Some (b1\<lparr>bk_updateID := bk_updateID b1 + 1\<rparr>,
        Some (book_mutation now (b1\<lparr>bk_updateID := bk_updateID b1 + 1\<rparr>)), r6)"
      using False v(3,4) m1(1) m2(1) rb(1) ra(1)
      unfolding Refresh_def Let_def k1 prod.case m1(1) k2 m2(1) by (simp add: b1_def Let_def)
    moreover have "book_inv (b1\<lparr>bk_updateID := bk_updateID b1 + 1\<rparr>)"
      using val rb ra by (simp add: book_inv_def b1_def)
    ultimately show ?thesis
      using ra by (auto simp: book_mutation_def mutationRange_def windowLocked_def Depth_def b1_def same_config_def)
  qed
qed



end
