(* ===== verification/Aggregator.thy ===== *)
theory Aggregator
  imports Tape
begin

text \<open>
  \<^verbatim>\<open>internal/market/candle.go\<close>: the aggregator that folds trades into one interval's
  candles. The refinement theorem says which candles it holds after any sequence of trades:
  the candles of the accepted trades, grouped by bucket, the last one active and the newest
  \<open>depth\<close> of the others retained.
\<close>

section \<open>The aggregator\<close>

definition zeroCandle :: Candle where
  "zeroCandle = \<lparr>cd_Symbol = [], cd_Interval = [], cd_StartTime = zeroTime, cd_Open = 0, cd_High = 0,
     cd_Low = 0, cd_Close = 0, cd_Volume = 0, cd_TradeCount = 0, cd_SourceSequence = 0\<rparr>"

record CandleAggregator =
  ag_symbol :: Symbol
  ag_interval :: interval
  ag_depth :: nat
  ag_active :: Candle
  ag_hasActive :: bool
  ag_closed :: "Candle list"
  ag_head :: nat
  ag_closedN :: nat
  ag_lateTrades :: u64

definition NewCandleAggregator :: "Symbol \<Rightarrow> interval \<Rightarrow> int \<Rightarrow> CandleAggregator" where
  "NewCandleAggregator symb iv depth =
     (let depth = (if depth \<le> 0 then Interval_HistoryDepth iv else nat depth)
      in \<lparr>ag_symbol = symb, ag_interval = iv, ag_depth = depth, ag_active = zeroCandle,
          ag_hasActive = False, ag_closed = replicate depth zeroCandle, ag_head = 0,
          ag_closedN = 0, ag_lateTrades = 0\<rparr>)"

definition pushClosed :: "Candle \<Rightarrow> CandleAggregator \<Rightarrow> CandleAggregator" where
  "pushClosed c a =
     a\<lparr>ag_closed := (ag_closed a)[ag_head a := c],
       ag_head := (ag_head a + 1) mod ag_depth a,
       ag_closedN := (if ag_closedN a < ag_depth a then ag_closedN a + 1 else ag_closedN a)\<rparr>"

definition ag_idx :: "nat \<Rightarrow> CandleAggregator \<Rightarrow> nat" where
  "ag_idx logical a =
     (let start = (if ag_closedN a = ag_depth a then ag_head a else 0)
      in (start + logical) mod ag_depth a)"

text \<open>
  \<^verbatim>\<open>Apply\<close> returns the aggregator, whether the active candle changed and the candle
  that closed. It panics on an unregistered interval and when a candle closes into a ring of
  no slots.
\<close>

definition Agg_Apply ::
  "Trade \<Rightarrow> CandleAggregator \<Rightarrow> (CandleAggregator \<times> bool \<times> Candle option) option" where
  "Agg_Apply t a =
     (if tr_Symbol t \<noteq> sym_ID (ag_symbol a) then Some (a, False, None)
      else case (BucketStart (ag_interval a) (tr_Timestamp t),
                 NewCandle (sym_ID (ag_symbol a)) (ag_interval a) t) of
        (Some bucket, Some fresh) \<Rightarrow>
          if \<not> ag_hasActive a then Some (a\<lparr>ag_active := fresh, ag_hasActive := True\<rparr>, True, None)
          else if Time_Equal bucket (cd_StartTime (ag_active a)) then
            Some (a\<lparr>ag_active := Candle_Apply t (ag_active a)\<rparr>, True, None)
          else if Time_After bucket (cd_StartTime (ag_active a)) then
            (if ag_head a < length (ag_closed a) then
               let finished = ag_active a
               in Some ((pushClosed finished a)\<lparr>ag_active := fresh, ag_hasActive := True\<rparr>,
                        True, Some finished)
             else None)
          else Some (a\<lparr>ag_lateTrades := ag_lateTrades a + 1\<rparr>, False, None)
      | _ \<Rightarrow> None)"

definition Agg_Active :: "CandleAggregator \<Rightarrow> Candle \<times> bool" where
  "Agg_Active a = (ag_active a, ag_hasActive a)"

definition LastClosed :: "CandleAggregator \<Rightarrow> Candle option" where
  "LastClosed a =
     (if ag_closedN a = 0 then None else Some (ag_closed a ! ag_idx (ag_closedN a - 1) a))"

definition History :: "int \<Rightarrow> CandleAggregator \<Rightarrow> Candle list" where
  "History limit a =
     (let limit = (if limit \<le> 0 \<or> limit > int (ag_closedN a) then ag_closedN a else nat limit)
      in map (\<lambda>i. ag_closed a ! ag_idx i a) [ag_closedN a - limit..<ag_closedN a])"

definition HistoryWithActive :: "int \<Rightarrow> CandleAggregator \<Rightarrow> Candle list" where
  "HistoryWithActive limit a =
     (let limit = (if limit \<le> 0 then int (ag_closedN a) + 1 else limit);
          room = (if ag_hasActive a then limit - 1 else limit);
          room = (if room > int (ag_closedN a) then ag_closedN a else nat room)
      in map (\<lambda>i. ag_closed a ! ag_idx i a) [ag_closedN a - room..<ag_closedN a]
         @ (if ag_hasActive a then [ag_active a] else []))"

definition Agg_Reset :: "CandleAggregator \<Rightarrow> CandleAggregator" where
  "Agg_Reset a =
     a\<lparr>ag_hasActive := False, ag_active := zeroCandle, ag_head := 0, ag_closedN := 0,
       ag_lateTrades := 0\<rparr>"


section \<open>The ring of closed candles\<close>

definition ag_inv :: "CandleAggregator \<Rightarrow> bool" where
  "ag_inv a =
     (length (ag_closed a) = ag_depth a \<and> ag_head a < ag_depth a \<and> ag_closedN a \<le> ag_depth a
      \<and> (ag_closedN a < ag_depth a \<longrightarrow> ag_head a = ag_closedN a))"

definition closed_candles :: "CandleAggregator \<Rightarrow> Candle list" where
  "closed_candles a = ring_entries (ag_closed a) (ag_head a) (ag_closedN a)"

lemma length_closed_candles [simp]: "length (closed_candles a) = ag_closedN a"
  by (simp add: closed_candles_def)

interpretation closed_ring: bounded_log ag_inv ag_depth closed_candles pushClosed
proof
  fix a c
  assume "ag_inv a"
  then have ix: "length (ag_closed a) = ag_depth a" "ag_head a < ag_depth a" "ag_closedN a \<le> ag_depth a"
    "ag_closedN a < ag_depth a \<Longrightarrow> ag_head a = ag_closedN a"
    by (simp_all add: ag_inv_def)
  have "Suc (ag_closedN a) mod ag_depth a = Suc (ag_closedN a)"
    if "Suc (ag_closedN a) < ag_depth a" using that by simp
  then show "ag_inv (pushClosed c a)"
    using ix mod_less_of_less [OF ix(2)] by (auto simp: ag_inv_def pushClosed_def)
  show "ag_depth (pushClosed c a) = ag_depth a"
    by (simp add: pushClosed_def)
  show "closed_candles (pushClosed c a) = last_n (ag_depth a) (closed_candles a @ [c])"
    using ring_entries_push [of "ag_head a" "ag_closed a" "ag_closedN a" c] ix(1-3)
    by (simp add: closed_candles_def pushClosed_def split del: if_split cong: if_cong)
  show "length (closed_candles a) \<le> ag_depth a"
    using ix by simp
qed

lemma closed_nth:
  assumes "ag_inv a" "i < ag_closedN a"
  shows "ag_closed a ! ag_idx i a = closed_candles a ! i"
proof -
  have ix: "length (ag_closed a) = ag_depth a" "ag_head a < ag_depth a" "ag_closedN a \<le> ag_depth a"
    "ag_closedN a < ag_depth a \<Longrightarrow> ag_head a = ag_closedN a"
    using assms(1) by (simp_all add: ag_inv_def)
  have "(ag_head a + (ag_depth a - ag_closedN a) + i) mod ag_depth a
      = ((if ag_closedN a = ag_depth a then ag_head a else 0) + i) mod ag_depth a"
    using ix by auto
  then show ?thesis
    using ix assms(2) by (simp add: closed_candles_def ring_entries_nth ag_idx_def Let_def)
qed

lemma closed_suffix:
  assumes "ag_inv a" "k \<le> ag_closedN a"
  shows "map (\<lambda>i. ag_closed a ! ag_idx i a) [ag_closedN a - k..<ag_closedN a] = last_n k (closed_candles a)"
proof (rule nth_equalityI)
  fix i assume "i < length (map (\<lambda>i. ag_closed a ! ag_idx i a) [ag_closedN a - k..<ag_closedN a])"
  with assms(2) have i: "i < k" by simp
  then show "map (\<lambda>i. ag_closed a ! ag_idx i a) [ag_closedN a - k..<ag_closedN a] ! i
      = last_n k (closed_candles a) ! i"
    using assms closed_nth [OF assms(1), of "ag_closedN a - k + i"] by (simp add: last_n_def)
qed (use assms(2) in simp)

lemma History_eq:
  "ag_inv a \<Longrightarrow> History limit a
     = (if limit \<le> 0 then closed_candles a else last_n (nat limit) (closed_candles a))"
  using closed_suffix [of a "ag_closedN a"] by (auto simp: History_def Let_def closed_suffix)

text \<open>The candles an aggregator holds, the active one last.\<close>

definition all_candles :: "CandleAggregator \<Rightarrow> Candle list" where
  "all_candles a = closed_candles a @ (if ag_hasActive a then [ag_active a] else [])"

lemma HistoryWithActive_eq:
  assumes "ag_inv a"
  shows "HistoryWithActive limit a
     = (if limit \<le> 0 then all_candles a else last_n (nat limit) (all_candles a))"
proof -
  have full: "last_n (nat l) (closed_candles a) = closed_candles a" if "int (ag_closedN a) < l" for l
    using that by (intro last_n_all) simp
  have app: "last_n (nat l) (closed_candles a @ [c]) = last_n (nat (l - 1)) (closed_candles a) @ [c]"
    if "0 < l" for l c
    using that by (auto simp: last_n_def nat_diff_distrib Suc_diff_le Suc_diff_Suc)
  show ?thesis
    using assms full
    by (auto simp: HistoryWithActive_def Let_def closed_suffix all_candles_def app nat_le_iff)
qed


section \<open>Which candles a sequence of trades produces\<close>

definition bucket :: "interval \<Rightarrow> Trade \<Rightarrow> int" where
  "bucket iv t = instant (the (BucketStart iv (tr_Timestamp t)))"

text \<open>A trade is accepted unless its bucket is older than that of the last accepted one.\<close>

definition accept :: "interval \<Rightarrow> Trade list \<Rightarrow> Trade \<Rightarrow> Trade list" where
  "accept iv acc t = (if acc = [] \<or> bucket iv (last acc) \<le> bucket iv t then acc @ [t] else acc)"

definition accepted :: "interval \<Rightarrow> Trade list \<Rightarrow> Trade list" where
  "accepted iv ts = foldl (accept iv) [] ts"

definition candle_of :: "string \<Rightarrow> interval \<Rightarrow> Trade list \<Rightarrow> Candle" where
  "candle_of s iv ts = fold Candle_Apply (tl ts) (the (NewCandle s iv (hd ts)))"

definition candles_of :: "string \<Rightarrow> interval \<Rightarrow> Trade list \<Rightarrow> Candle list" where
  "candles_of s iv ts =
     map (\<lambda>b. candle_of s iv (filter (\<lambda>t. bucket iv t = b) ts)) (remdups_adj (map (bucket iv) ts))"

lemma accepted_snoc: "accepted iv (ts @ [t]) = accept iv (accepted iv ts) t"
  by (simp add: accepted_def)

lemma accepted_sorted: "sorted (map (bucket iv) (accepted iv ts))"
proof (induction ts rule: rev_induct)
  case (snoc t ts)
  then show ?case
    by (cases "accepted iv ts" rule: rev_cases)
      (auto simp: accepted_snoc accept_def sorted_append intro: order_trans)
qed (simp add: accepted_def)

lemma accepted_length: "length (accepted iv ts) \<le> length ts"
  by (induction ts rule: rev_induct) (auto simp: accepted_snoc accept_def accepted_def)

lemma candle_of_snoc: "ts \<noteq> [] \<Longrightarrow> candle_of s iv (ts @ [t]) = Candle_Apply t (candle_of s iv ts)"
  by (cases ts) (simp_all add: candle_of_def)

lemma candles_of_eq_Nil [simp]: "candles_of s iv ts = [] \<longleftrightarrow> ts = []"
  by (simp add: candles_of_def)

lemma candles_of_split:
  assumes "ts \<noteq> []" "sorted (map (bucket iv) ts)"
  obtains bs where "remdups_adj (map (bucket iv) ts) = bs @ [bucket iv (last ts)]"
    and "\<And>b. b \<in> set bs \<Longrightarrow> b < bucket iv (last ts)"
proof -
  let ?r = "remdups_adj (map (bucket iv) ts)"
  have ne: "?r \<noteq> []" using assms(1) by simp
  have lst: "last ?r = bucket iv (last ts)" using assms(1) by (simp add: last_map)
  have "sorted_wrt (<) ?r"
    by (rule sorted_remdups_adj_strict [OF assms(2)])
  then have "sorted_wrt (<) (butlast ?r @ [last ?r])" by (simp only: append_butlast_last_id [OF ne])
  then have "\<And>b. b \<in> set (butlast ?r) \<Longrightarrow> b < last ?r" by (simp add: sorted_wrt_append)
  then show ?thesis
    using that [of "butlast ?r"] ne lst by (metis append_butlast_last_id)
qed

lemma candles_of_snoc_same:
  assumes "ts \<noteq> []" "sorted (map (bucket iv) ts)" "bucket iv t = bucket iv (last ts)"
  shows "candles_of s iv (ts @ [t])
       = butlast (candles_of s iv ts) @ [Candle_Apply t (last (candles_of s iv ts))]"
proof -
  obtain bs where bs: "remdups_adj (map (bucket iv) ts) = bs @ [bucket iv (last ts)]"
    and lt: "\<And>b. b \<in> set bs \<Longrightarrow> b < bucket iv (last ts)"
    using candles_of_split [OF assms(1,2)] by blast
  obtain us u where ts: "ts = us @ [u]" using assms(1) by (cases ts rule: rev_cases) auto
  have "remdups_adj (map (bucket iv) (ts @ [t])) = remdups_adj (map (bucket iv) ts)"
    using remdups_adj_append_two [of "map (bucket iv) us" "bucket iv u" "bucket iv t"] assms(3) ts by simp
  moreover have "map (\<lambda>b. candle_of s iv (filter (\<lambda>x. bucket iv x = b) (ts @ [t]))) bs
      = map (\<lambda>b. candle_of s iv (filter (\<lambda>x. bucket iv x = b) ts)) bs"
    using lt assms(3) by (intro map_cong refl) auto
  moreover have "filter (\<lambda>x. bucket iv x = bucket iv (last ts)) ts \<noteq> []"
    using assms(1) by (auto simp: filter_empty_conv intro!: bexI [of _ "last ts"])
  ultimately show ?thesis
    using bs assms(3) by (simp add: candles_of_def candle_of_snoc)
qed

lemma candles_of_snoc_later:
  assumes "ts \<noteq> []" "sorted (map (bucket iv) ts)" "bucket iv (last ts) < bucket iv t"
  shows "candles_of s iv (ts @ [t]) = candles_of s iv ts @ [candle_of s iv [t]]"
proof -
  obtain us u where ts: "ts = us @ [u]" using assms(1) by (cases ts rule: rev_cases) auto
  have r: "remdups_adj (map (bucket iv) (ts @ [t])) = remdups_adj (map (bucket iv) ts) @ [bucket iv t]"
    using remdups_adj_append_two [of "map (bucket iv) us" "bucket iv u" "bucket iv t"] assms(3) ts by simp
  have le: "bucket iv x \<le> bucket iv (last ts)" if "x \<in> set ts" for x
    using that assms(2) by (auto simp: ts sorted_append)
  then have "filter (\<lambda>x. bucket iv x = bucket iv t) ts = []"
    using assms(3) by (fastforce simp: filter_empty_conv)
  moreover have "map (\<lambda>b. candle_of s iv (filter (\<lambda>x. bucket iv x = b) (ts @ [t]))) (remdups_adj (map (bucket iv) ts))
      = map (\<lambda>b. candle_of s iv (filter (\<lambda>x. bucket iv x = b) ts)) (remdups_adj (map (bucket iv) ts))"
    using le assms(3) by (intro map_cong refl) fastforce
  ultimately show ?thesis
    unfolding candles_of_def unfolding r unfolding map_append by simp
qed

lemma candles_of_start:
  assumes "ts \<noteq> []" "sorted (map (bucket iv) ts)" "Interval_Valid iv"
  shows "instant (cd_StartTime (last (candles_of s iv ts))) = bucket iv (last ts)"
  using assms(1,2)
proof (induction ts rule: rev_induct)
  case (snoc t ts)
  have start: "instant (cd_StartTime (candle_of s iv [t])) = bucket iv t"
    using BucketStart_Some_iff [of iv "tr_Timestamp t"] assms(3)
    by (auto simp: candle_of_def NewCandle_def bucket_def)
  consider "ts = []" | "ts \<noteq> []" "bucket iv t = bucket iv (last ts)" | "ts \<noteq> []" "bucket iv (last ts) < bucket iv t"
    using snoc.prems by (cases ts rule: rev_cases) (fastforce simp: sorted_append)+
  then show ?case
  proof cases
    case 1
    then show ?thesis using start by (simp add: candles_of_def)
  next
    case 2
    then show ?thesis
      using snoc by (simp add: candles_of_snoc_same sorted_append Candle_Apply_def)
  next
    case 3
    then show ?thesis
      using snoc start by (simp add: candles_of_snoc_later sorted_append)
  qed
qed simp


section \<open>Refinement\<close>

definition Agg_run :: "Trade list \<Rightarrow> CandleAggregator \<Rightarrow> CandleAggregator option" where
  "Agg_run ts a = foldl (\<lambda>s t. Option.bind s (\<lambda>a. map_option fst (Agg_Apply t a))) (Some a) ts"

lemma Agg_run_snoc:
  "Agg_run (ts @ [t]) a = Option.bind (Agg_run ts a) (\<lambda>a. map_option fst (Agg_Apply t a))"
  by (simp add: Agg_run_def)

definition own_trades :: "Symbol \<Rightarrow> Trade list \<Rightarrow> Trade list" where
  "own_trades s ts = filter (\<lambda>t. tr_Symbol t = sym_ID s) ts"

text \<open>The abstract state after the trades \<open>ts\<close>.\<close>

definition agg_refines :: "Symbol \<Rightarrow> interval \<Rightarrow> nat \<Rightarrow> Trade list \<Rightarrow> CandleAggregator \<Rightarrow> bool" where
  "agg_refines s iv d ts a =
     (let acc = accepted iv (own_trades s ts);
          cs = candles_of (sym_ID s) iv acc
      in ag_inv a \<and> ag_symbol a = s \<and> ag_interval a = iv \<and> ag_depth a = d
         \<and> closed_candles a = last_n d (butlast cs)
         \<and> ag_hasActive a = (acc \<noteq> []) \<and> (acc \<noteq> [] \<longrightarrow> ag_active a = last cs)
         \<and> ag_lateTrades a = of_nat (length (own_trades s ts) - length acc))"

lemma NewCandleAggregator_refines:
  assumes "0 < d" "d = (if depth \<le> 0 then Interval_HistoryDepth iv else nat depth)"
  shows "agg_refines s iv d [] (NewCandleAggregator s iv depth)"
  using assms
  by (auto simp: agg_refines_def own_trades_def accepted_def ag_inv_def NewCandleAggregator_def Let_def
      closed_candles_def ring_entries_def candles_of_def)

lemma Agg_Apply_refines:
  assumes ref: "agg_refines s iv d ts a" and iv: "Interval_Valid iv"
  shows "\<exists>a' ch cl. Agg_Apply t a = Some (a', ch, cl) \<and> agg_refines s iv d (ts @ [t]) a'"
proof (cases "tr_Symbol t = sym_ID s")
  case False
  have "ag_symbol a = s" using ref by (simp add: agg_refines_def Let_def)
  with False have "Agg_Apply t a = Some (a, False, None)" by (simp add: Agg_Apply_def)
  moreover have "agg_refines s iv d (ts @ [t]) a"
    using ref False by (simp add: agg_refines_def own_trades_def)
  ultimately show ?thesis by blast
next
  case True
  define acc where "acc = accepted iv (own_trades s ts)"
  define cs where "cs = candles_of (sym_ID s) iv acc"
  have inv: "ag_inv a" and sy: "ag_symbol a = s" "ag_interval a = iv" "ag_depth a = d"
    and cl: "closed_candles a = last_n d (butlast cs)" and act: "ag_hasActive a = (acc \<noteq> [])"
    "acc \<noteq> [] \<Longrightarrow> ag_active a = last cs"
    and late: "ag_lateTrades a = of_nat (length (own_trades s ts) - length acc)"
    using ref by (simp_all add: agg_refines_def Let_def acc_def cs_def)
  have own: "own_trades s (ts @ [t]) = own_trades s ts @ [t]" using True by (simp add: own_trades_def)
  have ref': "agg_refines s iv d (ts @ [t]) a' \<longleftrightarrow> ag_inv a' \<and> ag_symbol a' = s \<and> ag_interval a' = iv
      \<and> ag_depth a' = d \<and> closed_candles a' = last_n d (butlast (candles_of (sym_ID s) iv (accept iv acc t)))
      \<and> ag_hasActive a' = (accept iv acc t \<noteq> [])
      \<and> (accept iv acc t \<noteq> [] \<longrightarrow> ag_active a' = last (candles_of (sym_ID s) iv (accept iv acc t)))
      \<and> ag_lateTrades a' = of_nat (Suc (length (own_trades s ts)) - length (accept iv acc t))" for a'
    by (simp add: agg_refines_def Let_def own accepted_snoc acc_def)
  have srt: "sorted (map (bucket iv) acc)" by (simp add: acc_def accepted_sorted)
  have len: "length acc \<le> length (own_trades s ts)" by (simp add: acc_def accepted_length)
  obtain b where b: "BucketStart iv (tr_Timestamp t) = Some b" using BucketStart_Some_iff iv by blast
  then have bt: "bucket iv t = instant b" by (simp add: bucket_def)
  obtain f where f: "NewCandle (sym_ID s) iv t = Some f" using b by (auto simp: NewCandle_def)
  then have one: "candle_of (sym_ID s) iv [t] = f" by (simp add: candle_of_def)
  have start: "acc \<noteq> [] \<Longrightarrow> instant (cd_StartTime (ag_active a)) = bucket iv (last acc)"
    using candles_of_start [OF _ srt iv] act(2) by (simp add: cs_def)
  have hd: "ag_head a < length (ag_closed a)" using inv by (simp add: ag_inv_def)
  note red = Agg_Apply_def True sy b f Time_Equal_def Time_After_def
  consider (first) "acc = []" | (same) "acc \<noteq> []" "bucket iv t = bucket iv (last acc)"
    | (later) "acc \<noteq> []" "bucket iv (last acc) < bucket iv t"
    | (late) "acc \<noteq> []" "bucket iv t < bucket iv (last acc)" by linarith
  then show ?thesis
  proof cases
    case first
    then show ?thesis
      using inv sy cl late act one
      by (auto simp: red ref' accept_def candles_of_def cs_def ag_inv_def closed_candles_def)
  next
    case same
    then show ?thesis
      using inv sy cl late act start bt candles_of_snoc_same [OF same(1) srt same(2), of "sym_ID s"]
      by (auto simp: red ref' accept_def ag_inv_def closed_candles_def cs_def)
  next
    case later
    let ?a = "(pushClosed (ag_active a) a)\<lparr>ag_active := f, ag_hasActive := True\<rparr>"
    have "closed_candles ?a = last_n d (closed_candles a @ [ag_active a])"
      using closed_ring.entries_push [OF inv, of "ag_active a"] sy by (simp add: closed_candles_def)
    also have "\<dots> = last_n d cs"
      using cl act(2) later(1) by (simp add: last_n_append cs_def)
    finally have "closed_candles ?a = last_n d cs" .
    moreover have "ag_inv ?a" using closed_ring.inv_push [OF inv, of "ag_active a"] by (simp add: ag_inv_def)
    ultimately have "agg_refines s iv d (ts @ [t]) ?a"
      using sy late later len one candles_of_snoc_later [OF later(1) srt later(2), of "sym_ID s"]
      by (simp add: ref' accept_def pushClosed_def cs_def)
    then show ?thesis
      using act later start bt hd by (simp add: red Let_def) blast
  next
    case late
    then show ?thesis
      using inv sy cl \<open>ag_lateTrades a = _\<close> act start bt len
      by (auto simp: red ref' accept_def ag_inv_def closed_candles_def cs_def Suc_diff_le)
  qed
qed

lemma Agg_run_refines:
  assumes "Interval_Valid iv" "0 < d" "d = (if depth \<le> 0 then Interval_HistoryDepth iv else nat depth)"
  shows "\<exists>a. Agg_run ts (NewCandleAggregator s iv depth) = Some a \<and> agg_refines s iv d ts a"
proof (induction ts rule: rev_induct)
  case Nil
  then show ?case using NewCandleAggregator_refines [OF assms(2,3)] by (simp add: Agg_run_def)
next
  case (snoc t ts)
  then obtain a where a: "Agg_run ts (NewCandleAggregator s iv depth) = Some a" "agg_refines s iv d ts a"
    by blast
  show ?case using Agg_Apply_refines [OF a(2) assms(1), of t] by (auto simp: Agg_run_snoc a(1))
qed


lemma HistoryDepth_pos: "Interval_Valid iv \<Longrightarrow> 0 < Interval_HistoryDepth iv"
  by (auto simp: Interval_Valid_def Interval_HistoryDepth_def intervalSpec_def intervalSpecs_def
      split: sum.splits option.splits if_splits)

definition effective_depth :: "interval \<Rightarrow> int \<Rightarrow> nat" where
  "effective_depth iv depth = (if depth \<le> 0 then Interval_HistoryDepth iv else nat depth)"

lemma agg_refines_all_candles:
  assumes "agg_refines s iv d ts a"
  shows "all_candles a = last_n (Suc d) (candles_of (sym_ID s) iv (accepted iv (own_trades s ts)))"
proof -
  define cs where "cs = candles_of (sym_ID s) iv (accepted iv (own_trades s ts))"
  have "closed_candles a = last_n d (butlast cs)" "ag_hasActive a = (cs \<noteq> [])"
    "cs \<noteq> [] \<Longrightarrow> ag_active a = last cs" "ag_inv a"
    using assms by (simp_all add: agg_refines_def Let_def cs_def)
  moreover have "last_n d (butlast cs) @ [last cs] = last_n (Suc d) cs" if "cs \<noteq> []"
    using that by (cases cs rule: rev_cases) (simp_all add: last_n_def Suc_diff_Suc)
  ultimately show ?thesis
    by (cases "cs = []") (simp_all add: all_candles_def flip: cs_def)
qed

lemma Agg_Reset_refines: "agg_refines s iv d ts a \<Longrightarrow> agg_refines s iv d [] (Agg_Reset a)"
  by (auto simp: agg_refines_def own_trades_def accepted_def ag_inv_def Agg_Reset_def Let_def
      closed_candles_def ring_entries_def candles_of_def)

lemma Agg_run_candles:
  assumes "Interval_Valid iv"
  shows "\<exists>a. Agg_run ts (NewCandleAggregator s iv depth) = Some a \<and> ag_inv a
    \<and> agg_refines s iv (effective_depth iv depth) ts a
    \<and> all_candles a = last_n (Suc (effective_depth iv depth)) (candles_of (sym_ID s) iv (accepted iv (own_trades s ts)))"
proof -
  define d where "d = effective_depth iv depth"
  have d: "0 < d" using HistoryDepth_pos [OF assms] by (auto simp: d_def effective_depth_def)
  obtain a where a: "Agg_run ts (NewCandleAggregator s iv depth) = Some a" "agg_refines s iv d ts a"
    using Agg_run_refines [OF assms d d_def [unfolded effective_depth_def]] by blast
  moreover have "ag_inv a" using a(2) by (simp add: agg_refines_def Let_def)
  ultimately show ?thesis using agg_refines_all_candles [OF a(2)] by (auto simp: d_def)
qed

text \<open>
  C6. The aggregator refines the grouping of trades by bucket. For a registered interval and
  any sequence of trades it never panics; its history with the active candle is the newest
  \<open>depth + 1\<close> candles of the accepted trades of its symbol (cut to the limit), the closed
  history is the same without the active one, and every other trade of the symbol was late and
  is counted.
\<close>

theorem CandleAggregator_refines:
  assumes "Interval_Valid iv"
  shows "\<exists>a. Agg_run ts (NewCandleAggregator s iv depth) = Some a
    \<and> HistoryWithActive limit a
      = (if limit \<le> 0 then id else last_n (nat limit))
          (last_n (Suc (effective_depth iv depth)) (candles_of (sym_ID s) iv (accepted iv (own_trades s ts))))
    \<and> History limit a
      = (if limit \<le> 0 then id else last_n (nat limit))
          (last_n (effective_depth iv depth) (butlast (candles_of (sym_ID s) iv (accepted iv (own_trades s ts)))))
    \<and> ag_lateTrades a = of_nat (length (own_trades s ts) - length (accepted iv (own_trades s ts)))"
proof -
  obtain a where a: "Agg_run ts (NewCandleAggregator s iv depth) = Some a" "ag_inv a"
    "agg_refines s iv (effective_depth iv depth) ts a"
    "all_candles a = last_n (Suc (effective_depth iv depth)) (candles_of (sym_ID s) iv (accepted iv (own_trades s ts)))"
    using Agg_run_candles [OF assms] by blast
  then show ?thesis
    by (auto simp: HistoryWithActive_eq History_eq agg_refines_def Let_def)
qed

definition sample_trade :: "u64 \<Rightarrow> int \<Rightarrow> price \<Rightarrow> qty \<Rightarrow> Trade" where
  "sample_trade i sec px q =
     \<lparr>tr_ID = i, tr_Symbol = ''BTCUSDT'', tr_Timestamp = \<lparr>instant = sec * second, zone = UTC\<rparr>,
      tr_Price = px, tr_Quantity = q, tr_Side = SideBuy\<rparr>"

lemma Interval1m_valid: "Interval_Valid Interval1m" "Interval_Duration Interval1m = Some (60 * 10 ^ 9)"
  by (simp_all add: Interval_Valid_def Interval_Duration_def intervalSpec_def intervalSpecs_def)

lemma bucket_sample: "bucket Interval1m (sample_trade i sec px q) = (sec - sec mod 60) * 10 ^ 9"
proof -
  have "(sec * 10 ^ 9) mod (60 * 10 ^ 9) = (sec mod 60) * (10 ^ 9 :: int)" by (rule mult_mod_left [symmetric])
  then show ?thesis
    by (simp add: bucket_def sample_trade_def BucketStart_instant [OF Interval1m_valid(2)] left_diff_distrib)
qed

theorem CandleAggregator_refines_witness:
  "Interval_Valid Interval1m
   \<and> (\<exists>a. Agg_run [sample_trade 1 0 100 1, sample_trade 2 61 101 1, sample_trade 3 59 99 1]
          (NewCandleAggregator BTCUSDT Interval1m 0) = Some a \<and> ag_lateTrades a = 1)"
proof -
  let ?ts = "[sample_trade 1 0 100 1, sample_trade 2 61 101 1, sample_trade 3 59 99 1]"
  have own: "own_trades BTCUSDT ?ts = ?ts" by (simp add: own_trades_def sample_trade_def)
  have "accepted Interval1m ?ts = [sample_trade 1 0 100 1, sample_trade 2 61 101 1]"
    by (simp add: accepted_def accept_def bucket_sample)
  then show ?thesis
    using CandleAggregator_refines [OF Interval1m_valid(1), of ?ts BTCUSDT 0 0] Interval1m_valid(1)
    by (auto simp: own)
qed


section \<open>What the history satisfies\<close>

lemma candle_of_start:
  assumes "Interval_Valid iv" "ts \<noteq> []"
  shows "instant (cd_StartTime (candle_of s iv ts)) = bucket iv (hd ts)"
  using BucketStart_Some_iff [of iv "tr_Timestamp (hd ts)"] assms(1)
  by (auto simp: candle_of_def fold_Candle_Apply NewCandle_def bucket_def)

lemma candles_of_starts:
  assumes "Interval_Valid iv"
  shows "map (\<lambda>c. instant (cd_StartTime c)) (candles_of s iv ts) = remdups_adj (map (bucket iv) ts)"
proof -
  have "instant (cd_StartTime (candle_of s iv (filter (\<lambda>t. bucket iv t = b) ts))) = b"
    if "b \<in> set (map (bucket iv) ts)" for b
  proof -
    have ne: "filter (\<lambda>t. bucket iv t = b) ts \<noteq> []" using that by (auto simp: filter_empty_conv)
    then have "hd (filter (\<lambda>t. bucket iv t = b) ts) \<in> set (filter (\<lambda>t. bucket iv t = b) ts)"
      by (rule hd_in_set)
    then show ?thesis using candle_of_start [OF assms ne] by simp
  qed
  then show ?thesis
    unfolding candles_of_def map_map comp_def by (intro map_idI) simp
qed

lemma sum_list_filter_le:
  assumes "\<forall>t\<in>set ts. 0 \<le> (f t :: int)"
  shows "sum_list (map f (filter P ts)) \<le> sum_list (map f ts)"
  using assms by (induction ts) auto

lemma accepted_subset: "set (accepted iv ts) \<subseteq> set ts"
  by (induction ts rule: rev_induct) (auto simp: accepted_snoc accept_def accepted_def)

lemma accepted_volume:
  "\<forall>t\<in>set ts. 0 \<le> tr_Quantity t \<Longrightarrow>
     sum_list (map tr_Quantity (accepted iv ts)) \<le> sum_list (map tr_Quantity ts)"
  by (induction ts rule: rev_induct) (auto simp: accepted_snoc accept_def accepted_def)

lemma candle_of_valid:
  assumes "Interval_Valid iv" "ts \<noteq> []" "\<forall>t\<in>set ts. 0 \<le> tr_Quantity t"
    "sum_list (map tr_Quantity ts) \<le> MaxInt64" "int (length ts) \<le> MaxInt64"
  shows "Candle_Validate (candle_of s iv ts) = Inr ()"
proof -
  obtain t us where ts: "ts = t # us" using assms(2) by (cases ts) auto
  obtain c where c: "NewCandle s iv t = Some c"
    using BucketStart_Some_iff [of iv "tr_Timestamp t"] assms(1) by (auto simp: NewCandle_def)
  have co: "candle_of s iv ts = fold Candle_Apply us c" by (simp add: candle_of_def ts c)
  have "0 \<le> sum_list (map tr_Quantity us)" using assms(3) by (intro sum_list_nonneg) (auto simp: ts)
  then have "in_i64 (tr_Quantity t)" "in_i64 (sum_list (map tr_Quantity (t # us)))" "in_i64 (int (length (t # us)))"
    using assms(3-5) by (auto simp: in_i64_def MinInt64_def ts)
  then show ?thesis using candle_value [OF c co] assms(3) ts by simp
qed

text \<open>
  Whatever trades arrive, in whatever order, the served history is strictly ascending in
  start time, and every candle in it passes \<^verbatim>\<open>Validate\<close> as long as quantities are
  non-negative and the session's totals fit 64 bits.
\<close>

lemma CandleAggregator_history_wellformed:
  assumes "Interval_Valid iv" "\<forall>t\<in>set ts. 0 \<le> tr_Quantity t"
    "sum_list (map tr_Quantity ts) \<le> MaxInt64" "int (length ts) \<le> MaxInt64"
  shows "\<exists>a. Agg_run ts (NewCandleAggregator s iv depth) = Some a
    \<and> sorted_wrt (<) (map (\<lambda>c. instant (cd_StartTime c)) (HistoryWithActive limit a))
    \<and> (\<forall>c\<in>set (HistoryWithActive limit a). Candle_Validate c = Inr ())"
proof -
  let ?own = "own_trades s ts"
  let ?acc = "accepted iv ?own"
  let ?cs = "candles_of (sym_ID s) iv ?acc"
  obtain a where a: "Agg_run ts (NewCandleAggregator s iv depth) = Some a" "ag_inv a"
    "all_candles a = last_n (Suc (effective_depth iv depth)) ?cs"
    using Agg_run_candles [OF assms(1)] by blast
  have asc: "sorted_wrt (<) (map (\<lambda>c. instant (cd_StartTime c)) ?cs)"
    unfolding candles_of_starts [OF assms(1)] by (rule sorted_remdups_adj_strict [OF accepted_sorted])
  have own: "\<forall>t\<in>set ?own. 0 \<le> tr_Quantity t" using assms(2) by (simp add: own_trades_def)
  have vol: "sum_list (map tr_Quantity ?acc) \<le> MaxInt64" "int (length ?acc) \<le> MaxInt64"
    using accepted_volume [OF own, of iv] sum_list_filter_le [OF assms(2)] assms(3,4)
      accepted_length [of iv ?own] length_filter_le [of "\<lambda>t. tr_Symbol t = sym_ID s" ts]
    unfolding own_trades_def by (smt (verit) of_nat_le_iff)+
  have q: "\<forall>t\<in>set ?acc. 0 \<le> tr_Quantity t" using own accepted_subset by blast
  have "Candle_Validate c = Inr ()" if "c \<in> set ?cs" for c
  proof -
    have "c \<in> (\<lambda>b. candle_of (sym_ID s) iv (filter (\<lambda>t. bucket iv t = b) ?acc)) ` (bucket iv ` set ?acc)"
      using that by (simp only: candles_of_def set_map remdups_adj_set)
    then obtain b where b: "b \<in> bucket iv ` set ?acc"
      and c: "c = candle_of (sym_ID s) iv (filter (\<lambda>t. bucket iv t = b) ?acc)"
      by (rule imageE) (rule that)
    have "int (length (filter (\<lambda>t. bucket iv t = b) ?acc)) \<le> MaxInt64"
      using vol(2) length_filter_le [of "\<lambda>t. bucket iv t = b" ?acc] by linarith
    then show ?thesis
      unfolding c using assms(1) b q sum_list_filter_le [OF q, of "\<lambda>t. bucket iv t = b"] vol(1)
      by (intro candle_of_valid) (auto simp: filter_empty_conv)
  qed
  then have "\<forall>c\<in>set (HistoryWithActive limit a). Candle_Validate c = Inr ()"
    by (auto simp: HistoryWithActive_eq [OF a(2)] a(3) dest!: subsetD [OF set_last_n])
  moreover have "sorted_wrt (<) (map (\<lambda>c. instant (cd_StartTime c)) (HistoryWithActive limit a))"
    using asc by (simp add: HistoryWithActive_eq [OF a(2)] a(3) sorted_wrt_last_n flip: last_n_map)
  ultimately show ?thesis using a(1) by blast
qed

text \<open>
  Closed candles are immutable: applying a trade either leaves the closed history as it
  is, or appends to it exactly the candle it reports as closed, which is the one that was
  active (the oldest is dropped when the ring is full).
\<close>

lemma CandleAggregator_closed_immutable:
  assumes "ag_inv a" "Agg_Apply t a = Some (a', changed, finished)"
  shows "ag_inv a' \<and> (case finished of
      None \<Rightarrow> closed_candles a' = closed_candles a
    | Some c \<Rightarrow> c = ag_active a \<and> ag_hasActive a
        \<and> closed_candles a' = last_n (ag_depth a) (closed_candles a @ [c]))"
proof -
  have "ag_inv (pushClosed (ag_active a) a)"
    "closed_candles (pushClosed (ag_active a) a) = last_n (ag_depth a) (closed_candles a @ [ag_active a])"
    using closed_ring.inv_push [OF assms(1)] closed_ring.entries_push [OF assms(1)] by auto
  then show ?thesis
    using assms unfolding Agg_Apply_def Let_def
    by (auto simp: ag_inv_def closed_candles_def split: option.splits if_splits)
qed

end
