(* ===== verification/Coalescer.thy ===== *)
theory Coalescer
  imports Book Aggregator "HOL-Library.AList"
begin

text \<open>
  \<^verbatim>\<open>internal/delivery/coalesce.go\<close>: the undelivered state of one session. The book part
  is a protocol between the coalescer and the client's book: the coalescer remembers what the
  client was told and sends the difference to the newest window as one contiguous range.

  A Go map from prices to levels is an association list with distinct keys; the order in which
  Go iterates it does not matter, since every list built from it is sorted by price before it
  leaves the coalescer.
\<close>

section \<open>Level maps\<close>

type_synonym level_map = "(int \<times> Level) list"

definition levelMap :: "Level list \<Rightarrow> level_map" where
  "levelMap levels = fold (\<lambda>l m. AList.update (lv_Price l) l m) levels []"

text \<open>\<^verbatim>\<open>replaceLevels(dst, src)\<close> empties the destination and copies the source into it.\<close>

definition replaceLevels :: "level_map \<Rightarrow> level_map \<Rightarrow> level_map" where
  "replaceLevels dst src = fold (\<lambda>(k, v) m. AList.update k v m) src []"

definition mergeLevels :: "level_map \<Rightarrow> Level list \<Rightarrow> level_map" where
  "mergeLevels dst levels = fold (\<lambda>l m. AList.update (lv_Price l) l m) levels dst"

definition diffLevels :: "level_map \<Rightarrow> level_map \<Rightarrow> Level list" where
  "diffLevels current sent =
     map snd (filter (\<lambda>(p, l). case map_of sent p of
                         None \<Rightarrow> True
                       | Some previous \<Rightarrow> lv_Quantity previous \<noteq> lv_Quantity l) current)
     @ map (\<lambda>(p, _). \<lparr>lv_Price = p, lv_Quantity = 0\<rparr>) (filter (\<lambda>(p, _). map_of current p = None) sent)"

definition sortLevels :: "Level list \<Rightarrow> bool \<Rightarrow> Level list" where
  "sortLevels levels descending =
     (if descending then sort_key (\<lambda>l. - lv_Price l) levels else sort_key lv_Price levels)"


section \<open>The coalescer\<close>

record Coalescer =
  co_symbol :: Symbol
  co_bids :: level_map
  co_asks :: level_map
  co_sentBids :: level_map
  co_sentAsks :: level_map
  co_epoch :: u64
  co_updateID :: u64
  co_clientApplied :: u64
  co_bookDirty :: bool
  co_needsSnapshot :: bool
  co_candles :: "(interval \<times> Candle) list"
  co_trades :: "Trade list"
  co_omitted :: int
  co_coalesced :: int
  co_suppressed :: int

definition NewCoalescer :: "Symbol \<Rightarrow> Coalescer" where
  "NewCoalescer symb =
     \<lparr>co_symbol = symb, co_bids = [], co_asks = [], co_sentBids = [], co_sentAsks = [], co_epoch = 0,
      co_updateID = 0, co_clientApplied = 0, co_bookDirty = False, co_needsSnapshot = False,
      co_candles = [], co_trades = [], co_omitted = 0, co_coalesced = 0, co_suppressed = 0\<rparr>"

definition OnBookWindow :: "u64 \<Rightarrow> u64 \<Rightarrow> Level list \<Rightarrow> Level list \<Rightarrow> Coalescer \<Rightarrow> Coalescer" where
  "OnBookWindow epoch updateID bids asks c =
     (let c1 = (if epoch \<noteq> co_epoch c then
                  c\<lparr>co_epoch := epoch, co_needsSnapshot := True, co_bookDirty := True,
                    co_sentBids := [], co_sentAsks := [], co_clientApplied := 0\<rparr>
                else c)
      in c1\<lparr>co_bids := replaceLevels (co_bids c1) (levelMap bids),
            co_asks := replaceLevels (co_asks c1) (levelMap asks),
            co_updateID := (if updateID > co_updateID c1 then updateID else co_updateID c1),
            co_bookDirty := True\<rparr>)"

definition OnCandle :: "Candle \<Rightarrow> Coalescer \<Rightarrow> Coalescer" where
  "OnCandle candle c =
     (case map_of (co_candles c) (cd_Interval candle) of
        Some previous \<Rightarrow>
          if cd_SourceSequence previous \<ge> cd_SourceSequence candle
             \<and> Time_Equal (cd_StartTime previous) (cd_StartTime candle)
          then c else c\<lparr>co_candles := AList.update (cd_Interval candle) candle (co_candles c)\<rparr>
      | None \<Rightarrow> c\<lparr>co_candles := AList.update (cd_Interval candle) candle (co_candles c)\<rparr>)"

definition OnTrade :: "int \<Rightarrow> Trade \<Rightarrow> Coalescer \<Rightarrow> Coalescer" where
  "OnTrade maxBatch t c =
     (if maxBatch > 0 \<and> int (length (co_trades c)) \<ge> maxBatch then
        c\<lparr>co_trades := tl (co_trades c) @ [t], co_omitted := wrap64 (co_omitted c + 1),
          co_coalesced := wrap64 (co_coalesced c + 1)\<rparr>
      else c\<lparr>co_trades := co_trades c @ [t]\<rparr>)"

record book_delta =
  de_epoch :: u64
  de_first :: u64
  de_last :: u64
  de_bids :: "Level list"
  de_asks :: "Level list"

definition TakeBookDelta :: "Coalescer \<Rightarrow> Coalescer \<times> book_delta option" where
  "TakeBookDelta c =
     (if \<not> co_bookDirty c \<or> co_needsSnapshot c then (c, None)
      else if co_updateID c \<le> co_clientApplied c then (c\<lparr>co_bookDirty := False\<rparr>, None)
      else
        let bids = diffLevels (co_bids c) (co_sentBids c);
            asks = diffLevels (co_asks c) (co_sentAsks c)
        in if bids = [] \<and> asks = [] then (c\<lparr>co_bookDirty := False\<rparr>, None)
           else
             (c\<lparr>co_sentBids := replaceLevels (co_sentBids c) (co_bids c),
                co_sentAsks := replaceLevels (co_sentAsks c) (co_asks c),
                co_clientApplied := co_updateID c, co_bookDirty := False\<rparr>,
              Some \<lparr>de_epoch = co_epoch c, de_first = co_clientApplied c + 1, de_last = co_updateID c,
                    de_bids = sortLevels bids True, de_asks = sortLevels asks False\<rparr>))"

definition TakeCandle :: "interval \<Rightarrow> Coalescer \<Rightarrow> Coalescer \<times> Candle option" where
  "TakeCandle iv c =
     (case map_of (co_candles c) iv of
        None \<Rightarrow> (c, None)
      | Some candle \<Rightarrow> (c\<lparr>co_candles := AList.delete iv (co_candles c)\<rparr>, Some candle))"

text \<open>The results are the trades, the number omitted and whether there is anything to send.\<close>

definition TakeTrades :: "Coalescer \<Rightarrow> Coalescer \<times> Trade list \<times> int \<times> bool" where
  "TakeTrades c =
     (if co_trades c = [] then (c, [], co_omitted c, False)
      else (c\<lparr>co_trades := [], co_omitted := 0\<rparr>, co_trades c, co_omitted c, True))"

definition NeedsSnapshot :: "Coalescer \<Rightarrow> bool" where
  "NeedsSnapshot c = co_needsSnapshot c"

definition SnapshotSent :: "u64 \<Rightarrow> u64 \<Rightarrow> Coalescer \<Rightarrow> Coalescer" where
  "SnapshotSent epoch updateID c =
     c\<lparr>co_epoch := epoch, co_updateID := updateID, co_clientApplied := updateID, co_needsSnapshot := False,
       co_bookDirty := False, co_sentBids := replaceLevels (co_sentBids c) (co_bids c),
       co_sentAsks := replaceLevels (co_sentAsks c) (co_asks c)\<rparr>"

definition InjectGap :: "Coalescer \<Rightarrow> Coalescer \<times> u64" where
  "InjectGap c =
     (c\<lparr>co_clientApplied := co_updateID c, co_bookDirty := True\<rparr>, co_updateID c - co_clientApplied c)"

definition Coalescer_Reset :: "Coalescer \<Rightarrow> Coalescer" where
  "Coalescer_Reset c =
     c\<lparr>co_bids := [], co_asks := [], co_sentBids := [], co_sentAsks := [], co_candles := [], co_trades := [],
       co_omitted := 0, co_bookDirty := False, co_needsSnapshot := True, co_clientApplied := 0, co_updateID := 0\<rparr>"

definition PendingCounts :: "Coalescer \<Rightarrow> nat \<times> nat \<times> nat" where
  "PendingCounts c = (length (co_candles c), length (co_trades c), length (co_bids c) + length (co_asks c))"

definition Stats :: "Coalescer \<Rightarrow> Coalescer \<times> int \<times> int" where
  "Stats c = (c\<lparr>co_coalesced := 0, co_suppressed := 0\<rparr>, co_coalesced c, co_suppressed c)"


section \<open>Differences of windows\<close>

definition lmap_ok :: "level_map \<Rightarrow> bool" where
  "lmap_ok m = (distinct (map fst m) \<and> (\<forall>(p, l)\<in>set m. lv_Price l = p \<and> lv_Quantity l \<noteq> 0))"

text \<open>What a level map says: the quantity at each price.\<close>

definition qmap :: "level_map \<Rightarrow> price \<Rightarrow> qty option" where
  "qmap m p = map_option lv_Quantity (map_of m p)"

definition window_ok :: "Level list \<Rightarrow> bool" where
  "window_ok ls = (distinct (map lv_Price ls) \<and> (\<forall>l\<in>set ls. lv_Quantity l \<noteq> 0))"

lemma update_fresh: "k \<notin> fst ` set m \<Longrightarrow> AList.update k v m = m @ [(k, v)]"
  by (induction m) auto

lemma fold_update_distinct:
  "distinct (map fst (m @ xs)) \<Longrightarrow> fold (\<lambda>(k, v) m. AList.update k v m) xs m = m @ xs"
proof (induction xs arbitrary: m)
  case (Cons x xs)
  obtain k v where x: "x = (k, v)" by force
  have "k \<notin> fst ` set m" using Cons.prems by (auto simp: x)
  then show ?case using Cons.IH [of "m @ [x]"] Cons.prems by (simp add: x update_fresh)
qed simp

lemma replaceLevels_eq: "distinct (map fst src) \<Longrightarrow> replaceLevels dst src = src"
  using fold_update_distinct [of "[]" src] by (simp add: replaceLevels_def)

lemma levelMap_eq: "distinct (map lv_Price ls) \<Longrightarrow> levelMap ls = map (\<lambda>l. (lv_Price l, l)) ls"
proof -
  assume d: "distinct (map lv_Price ls)"
  have "levelMap ls = fold (\<lambda>(k, v) m. AList.update k v m) (map (\<lambda>l. (lv_Price l, l)) ls) []"
    by (simp add: levelMap_def fold_map comp_def)
  then show ?thesis using fold_update_distinct [of "[]" "map (\<lambda>l. (lv_Price l, l)) ls"] d by (simp add: comp_def)
qed

lemma levelMap_ok: "window_ok ls \<Longrightarrow> lmap_ok (levelMap ls) \<and> qmap (levelMap ls) = levels_map ls"
proof -
  assume w: "window_ok ls"
  have "qmap (map (\<lambda>l. (lv_Price l, l)) ls) = levels_map ls"
    by (rule ext, induction ls) (auto simp: qmap_def levels_map_def)
  with w show ?thesis by (auto simp: levelMap_eq window_ok_def lmap_ok_def comp_def)
qed

lemma fold_delta_map:
  assumes "distinct (map lv_Price ds)"
  shows "fold delta_map ds m p = (case levels_map ds p of None \<Rightarrow> m p | Some q \<Rightarrow> if q = 0 then None else Some q)"
  using assms
proof (induction ds arbitrary: m)
  case Nil
  then show ?case by (simp add: levels_map_def)
next
  case (Cons d ds)
  have "levels_map ds (lv_Price d) = None" using Cons.prems by (auto simp: levels_map_None)
  then show ?case
    using Cons by (auto simp: levels_map_Cons delta_map_def split: option.splits)
qed

lemma levels_map_set:
  assumes "distinct (map lv_Price xs)" "distinct (map lv_Price ys)" "set xs = set ys"
  shows "levels_map xs = levels_map ys"
  unfolding levels_map_def using assms
  by (subst map_of_inject_set) (auto simp: comp_def)

lemma sortLevels_set [simp]: "set (sortLevels ls d) = set ls"
  by (simp add: sortLevels_def)

lemma sortLevels_distinct [simp]: "distinct (map lv_Price (sortLevels ls d)) = distinct (map lv_Price ls)"
  by (simp add: sortLevels_def distinct_map)

lemma sortLevels_ordered:
  assumes "distinct (map lv_Price ls)"
  shows "bids_ordered (sortLevels ls True)" "asks_ordered (sortLevels ls False)"
proof -
  have s: "sorted (map (\<lambda>l. - lv_Price l) (sortLevels ls True))" "sorted (map lv_Price (sortLevels ls False))"
    by (simp_all add: sortLevels_def)
  have d: "distinct (map lv_Price (sortLevels ls True))" "distinct (map lv_Price (sortLevels ls False))"
    using assms by simp_all
  have "sorted_wrt (\<lambda>x y. lv_Price y \<le> lv_Price x \<and> lv_Price x \<noteq> lv_Price y) (sortLevels ls True)"
    using s(1) d(1) by (auto simp: sorted_wrt_map distinct_conv_nth sorted_wrt_iff_nth_less)
  then show "bids_ordered (sortLevels ls True)"
    unfolding bids_ordered_def sorted_wrt_map by (rule sorted_wrt_mono_rel [rotated]) auto
  have "sorted_wrt (<) (map lv_Price (sortLevels ls False))" using s(2) d(2) by (simp add: strict_sorted_iff)
  then show "asks_ordered (sortLevels ls False)" by (simp add: asks_ordered_def)
qed

lemma lmap_okD: "lmap_ok m \<Longrightarrow> map_of m p = Some l \<Longrightarrow> lv_Price l = p \<and> lv_Quantity l \<noteq> 0"
  by (auto simp: lmap_ok_def dest!: map_of_SomeD)

lemma diffLevels_mem:
  assumes "lmap_ok cur" "lmap_ok sent"
  shows "l \<in> set (diffLevels cur sent) \<longleftrightarrow>
     (map_of cur (lv_Price l) = Some l \<and> qmap sent (lv_Price l) \<noteq> Some (lv_Quantity l))
     \<or> (map_of cur (lv_Price l) = None \<and> map_of sent (lv_Price l) \<noteq> None \<and> lv_Quantity l = 0)"
proof -
  have d: "distinct (map fst cur)" "distinct (map fst sent)" using assms by (simp_all add: lmap_ok_def)
  have c: "(p, x) \<in> set cur \<longleftrightarrow> map_of cur p = Some x" "(p, x) \<in> set sent \<longleftrightarrow> map_of sent p = Some x" for p x
    using d by simp_all
  have a: "l \<in> set (map snd (filter (\<lambda>(p, x). case map_of sent p of None \<Rightarrow> True
        | Some previous \<Rightarrow> lv_Quantity previous \<noteq> lv_Quantity x) cur))
      \<longleftrightarrow> map_of cur (lv_Price l) = Some l \<and> qmap sent (lv_Price l) \<noteq> Some (lv_Quantity l)" (is "?A \<longleftrightarrow> ?B")
  proof
    assume ?A
    then obtain x where "x \<in> set cur" "snd x = l"
      "case map_of sent (fst x) of None \<Rightarrow> True | Some previous \<Rightarrow> lv_Quantity previous \<noteq> lv_Quantity (snd x)"
      by (auto simp: case_prod_unfold)
    then obtain p where p: "map_of cur p = Some l"
      "case map_of sent p of None \<Rightarrow> True | Some previous \<Rightarrow> lv_Quantity previous \<noteq> lv_Quantity l"
      using c(1) [of "fst x" "snd x"] by force
    then have "p = lv_Price l" using lmap_okD [OF assms(1) p(1)] by simp
    with p show ?B by (auto simp: qmap_def split: option.splits)
  next
    assume ?B
    then have "(lv_Price l, l) \<in> set (filter (\<lambda>(p, x). case map_of sent p of None \<Rightarrow> True
        | Some previous \<Rightarrow> lv_Quantity previous \<noteq> lv_Quantity x) cur)"
      by (auto simp: c qmap_def split: option.splits)
    from imageI [OF this, of snd] show ?A by simp
  qed
  have b: "l \<in> set (map (\<lambda>(p, _). \<lparr>lv_Price = p, lv_Quantity = 0\<rparr>) (filter (\<lambda>(p, _). map_of cur p = None) sent))
      \<longleftrightarrow> map_of cur (lv_Price l) = None \<and> map_of sent (lv_Price l) \<noteq> None \<and> lv_Quantity l = 0" (is "?A \<longleftrightarrow> ?B")
  proof
    assume ?A
    then show ?B by (auto simp: c)
  next
    assume ?B
    then obtain x where "(lv_Price l, x) \<in> set (filter (\<lambda>(p, _). map_of cur p = None) sent)" by (auto simp: c)
    from imageI [OF this, of "\<lambda>(p, _). \<lparr>lv_Price = p, lv_Quantity = 0\<rparr>"] \<open>?B\<close> show ?A by (cases l) auto
  qed
  show ?thesis unfolding diffLevels_def set_append Un_iff a b ..
qed

lemma diffLevels_value:
  assumes "lmap_ok cur" "lmap_ok sent"
  shows "l \<in> set (diffLevels cur sent) \<longleftrightarrow>
     qmap sent (lv_Price l) \<noteq> qmap cur (lv_Price l)
     \<and> lv_Quantity l = (case qmap cur (lv_Price l) of None \<Rightarrow> 0 | Some q \<Rightarrow> q)"
proof (cases "map_of cur (lv_Price l)")
  case None
  then show ?thesis by (simp add: diffLevels_mem [OF assms] qmap_def)
next
  case (Some x)
  then have "lv_Price x = lv_Price l" using lmap_okD [OF assms(1)] by blast
  then have "x = l \<longleftrightarrow> lv_Quantity x = lv_Quantity l" by (cases x; cases l) auto
  with Some show ?thesis by (auto simp: diffLevels_mem [OF assms] qmap_def)
qed

lemma diffLevels_distinct:
  assumes "lmap_ok cur" "lmap_ok sent"
  shows "distinct (map lv_Price (diffLevels cur sent))"
proof -
  have cur: "distinct (map fst cur)" "\<And>x. x \<in> set cur \<Longrightarrow> lv_Price (snd x) = fst x"
    and sent: "distinct (map fst sent)" using assms by (auto simp: lmap_ok_def)
  have a: "map lv_Price (map snd (filter P cur)) = map fst (filter P cur)" for P
    using cur(2) by (auto simp: comp_def)
  have b: "map lv_Price (map (\<lambda>(p, _). \<lparr>lv_Price = p, lv_Quantity = 0\<rparr>) (filter Q sent)) = map fst (filter Q sent)" for Q
    by (auto simp: comp_def case_prod_unfold)
  show ?thesis
    unfolding diffLevels_def map_append a b distinct_append
    using cur(1) sent by (auto simp: distinct_map_filter map_of_eq_None_iff image_iff)
qed

lemma diffLevels_sound:
  assumes "lmap_ok cur" "lmap_ok sent"
  shows "fold delta_map (sortLevels (diffLevels cur sent) d) (qmap sent) = qmap cur"
proof
  fix p
  let ?ds = "diffLevels cur sent"
  have dd: "distinct (map lv_Price ?ds)" by (rule diffLevels_distinct [OF assms])
  have lm: "levels_map (sortLevels ?ds d) = levels_map ?ds"
    using dd by (intro levels_map_set) simp_all
  have mem: "levels_map ?ds p = Some q \<longleftrightarrow> (\<exists>l\<in>set ?ds. lv_Price l = p \<and> lv_Quantity l = q)" for q
    using dd unfolding levels_map_def by (subst map_of_eq_Some_iff) (auto simp: comp_def)
  have none: "levels_map ?ds p = None \<longleftrightarrow> (\<forall>l\<in>set ?ds. lv_Price l \<noteq> p)"
    by (auto simp: levels_map_None)
  show "fold delta_map (sortLevels ?ds d) (qmap sent) p = qmap cur p"
  proof (cases "map_of cur p")
    case None
    then have "levels_map ?ds p = (if map_of sent p = None then None else Some 0)"
    proof (cases "map_of sent p = None")
      case True
      with None show ?thesis by (auto simp: none diffLevels_mem [OF assms])
    next
      case False
      then have "\<lparr>lv_Price = p, lv_Quantity = 0\<rparr> \<in> set ?ds" using None by (simp add: diffLevels_mem [OF assms])
      then show ?thesis using False by (auto simp: mem intro!: bexI)
    qed
    with None show ?thesis using dd by (simp add: fold_delta_map lm qmap_def)
  next
    case (Some l)
    then have l: "lv_Price l = p" "lv_Quantity l \<noteq> 0" using lmap_okD [OF assms(1)] by auto
    show ?thesis
    proof (cases "qmap sent p = Some (lv_Quantity l)")
      case True
      then have "levels_map ?ds p = None" using Some l by (auto simp: none diffLevels_mem [OF assms])
      then show ?thesis using True Some dd by (simp add: fold_delta_map lm qmap_def)
    next
      case False
      then have "l \<in> set ?ds" using Some l by (simp add: diffLevels_mem [OF assms])
      then have "levels_map ?ds p = Some (lv_Quantity l)" using l by (auto simp: mem)
      then show ?thesis using Some l dd by (simp add: fold_delta_map lm qmap_def)
    qed
  qed
qed

lemma diffLevels_Nil: "lmap_ok cur \<Longrightarrow> lmap_ok sent \<Longrightarrow> diffLevels cur sent = [] \<Longrightarrow> qmap sent = qmap cur"
  using diffLevels_sound [of cur sent True] by (simp add: sortLevels_def)


section \<open>The coalescer and the client's book\<close>

text \<open>
  The frames a client receives in order, and the client's side of the contract: a snapshot replaces
  the book; a delta range is applied when it is of the client's epoch, not stale and not past a gap
  (the rules of \<^verbatim>\<open>OrderBook.ApplyDelta\<close>), and counted as rejected otherwise.
\<close>

datatype book_frame =
    FSnapshot u64 u64 "Level list" "Level list"
  | FDelta book_delta

record book_client =
  cl_epoch :: u64
  cl_applied :: u64
  cl_bids :: "price \<Rightarrow> qty option"
  cl_asks :: "price \<Rightarrow> qty option"
  cl_rejected :: nat

definition new_client :: book_client where
  "new_client = \<lparr>cl_epoch = 0, cl_applied = 0, cl_bids = (\<lambda>_. None), cl_asks = (\<lambda>_. None), cl_rejected = 0\<rparr>"

definition accepts :: "book_delta \<Rightarrow> book_client \<Rightarrow> bool" where
  "accepts d cl = (de_epoch d = cl_epoch cl \<and> \<not> de_last d \<le> cl_applied cl \<and> \<not> de_first d > cl_applied cl + 1)"

fun client_recv :: "book_frame \<Rightarrow> book_client \<Rightarrow> book_client" where
  "client_recv (FSnapshot epoch updateID bids asks) cl =
     cl\<lparr>cl_epoch := epoch, cl_applied := updateID, cl_bids := levels_map bids, cl_asks := levels_map asks\<rparr>"
| "client_recv (FDelta d) cl =
     (if accepts d cl
      then cl\<lparr>cl_applied := de_last d, cl_bids := fold delta_map (de_bids d) (cl_bids cl),
              cl_asks := fold delta_map (de_asks d) (cl_asks cl)\<rparr>
      else cl\<lparr>cl_rejected := Suc (cl_rejected cl)\<rparr>)"

text \<open>
  One session: engine windows arrive, the session flushes or sends a snapshot of the recorded window,
  and the frames in flight reach the client in order. The trades and candles held beside the book
  change nothing here.
\<close>

inductive session_run :: "Coalescer \<Rightarrow> book_frame list \<Rightarrow> book_client \<Rightarrow> bool" where
  start: "session_run (NewCoalescer symb) [] new_client"
| window: "session_run c q cl \<Longrightarrow> window_ok bids \<Longrightarrow> window_ok asks
     \<Longrightarrow> session_run (OnBookWindow epoch updateID bids asks c) q cl"
| flush: "session_run c q cl \<Longrightarrow> TakeBookDelta c = (c', Some d) \<Longrightarrow> session_run c' (q @ [FDelta d]) cl"
| flush_idle: "session_run c q cl \<Longrightarrow> TakeBookDelta c = (c', None) \<Longrightarrow> session_run c' q cl"
| snapshot: "session_run c q cl \<Longrightarrow> levels_map bids = qmap (co_bids c) \<Longrightarrow> levels_map asks = qmap (co_asks c)
     \<Longrightarrow> session_run (SnapshotSent epoch updateID c) (q @ [FSnapshot epoch updateID bids asks]) cl"
| deliver: "session_run c (m # q) cl \<Longrightarrow> session_run c q (client_recv m cl)"
| trade: "session_run c q cl \<Longrightarrow> session_run (OnTrade limit t c) q cl"
| take_trades: "session_run c q cl \<Longrightarrow> session_run (fst (TakeTrades c)) q cl"
| candle: "session_run c q cl \<Longrightarrow> session_run (OnCandle cd c) q cl"
| take_candle: "session_run c q cl \<Longrightarrow> session_run (fst (TakeCandle iv c)) q cl"
| stats: "session_run c q cl \<Longrightarrow> session_run (fst (Stats c)) q cl"

definition coalescer_ok :: "Coalescer \<Rightarrow> bool" where
  "coalescer_ok c = (lmap_ok (co_bids c) \<and> lmap_ok (co_asks c) \<and> lmap_ok (co_sentBids c) \<and> lmap_ok (co_sentAsks c))"

text \<open>What the client holds once it has received everything in flight.\<close>

definition mirrors :: "Coalescer \<Rightarrow> book_client \<Rightarrow> bool" where
  "mirrors c cl = (cl_epoch cl = co_epoch c \<and> cl_applied cl = co_clientApplied c
     \<and> cl_bids cl = qmap (co_sentBids c) \<and> cl_asks cl = qmap (co_sentAsks c))"

definition session_inv :: "Coalescer \<Rightarrow> book_frame list \<Rightarrow> book_client \<Rightarrow> bool" where
  "session_inv c q cl = (coalescer_ok c \<and> cl_rejected (fold client_recv q cl) = 0
     \<and> (\<not> co_needsSnapshot c \<longrightarrow> mirrors c (fold client_recv q cl)))"

lemma lmap_ok_Nil [simp]: "lmap_ok []" "qmap [] = (\<lambda>_. None)"
  by (simp_all add: lmap_ok_def qmap_def fun_eq_iff)

lemma replaceLevels_ok: "lmap_ok src \<Longrightarrow> replaceLevels dst src = src"
  by (simp add: replaceLevels_eq lmap_ok_def)

lemma OnBookWindow_ok: "coalescer_ok c \<Longrightarrow> window_ok bids \<Longrightarrow> window_ok asks \<Longrightarrow> coalescer_ok (OnBookWindow e u bids asks c)"
  by (auto simp: coalescer_ok_def OnBookWindow_def Let_def replaceLevels_ok levelMap_ok)

text \<open>The delta is exactly the difference between what the client was told and the newest window.\<close>

lemma TakeBookDelta_Some:
  assumes "coalescer_ok c" "TakeBookDelta c = (c', Some d)"
  shows "\<not> co_needsSnapshot c" "co_updateID c > co_clientApplied c"
    "de_epoch d = co_epoch c" "de_first d = co_clientApplied c + 1" "de_last d = co_updateID c"
    "bids_ordered (de_bids d)" "asks_ordered (de_asks d)"
    "fold delta_map (de_bids d) (qmap (co_sentBids c)) = qmap (co_bids c)"
    "fold delta_map (de_asks d) (qmap (co_sentAsks c)) = qmap (co_asks c)"
    "de_bids d \<noteq> [] \<or> de_asks d \<noteq> []"
    "c' = c\<lparr>co_sentBids := co_bids c, co_sentAsks := co_asks c, co_clientApplied := co_updateID c, co_bookDirty := False\<rparr>"
proof -
  have ok: "lmap_ok (co_bids c)" "lmap_ok (co_asks c)" "lmap_ok (co_sentBids c)" "lmap_ok (co_sentAsks c)"
    using assms(1) by (simp_all add: coalescer_ok_def)
  define bs where "bs = diffLevels (co_bids c) (co_sentBids c)"
  define xs where "xs = diffLevels (co_asks c) (co_sentAsks c)"
  have g: "\<not> co_needsSnapshot c" "\<not> co_updateID c \<le> co_clientApplied c" "\<not> (bs = [] \<and> xs = [])"
    and c': "c' = c\<lparr>co_sentBids := replaceLevels (co_sentBids c) (co_bids c),
        co_sentAsks := replaceLevels (co_sentAsks c) (co_asks c), co_clientApplied := co_updateID c, co_bookDirty := False\<rparr>"
    and d: "d = \<lparr>de_epoch = co_epoch c, de_first = co_clientApplied c + 1, de_last = co_updateID c,
        de_bids = sortLevels bs True, de_asks = sortLevels xs False\<rparr>"
    using assms(2) unfolding TakeBookDelta_def bs_def [symmetric] xs_def [symmetric]
    by (auto simp: Let_def split: if_splits)
  show "\<not> co_needsSnapshot c" "co_updateID c > co_clientApplied c" using g by simp_all
  show "de_epoch d = co_epoch c" "de_first d = co_clientApplied c + 1" "de_last d = co_updateID c" by (simp_all add: d)
  show "bids_ordered (de_bids d)" "asks_ordered (de_asks d)"
    by (simp_all add: d bs_def xs_def sortLevels_ordered diffLevels_distinct ok)
  show "fold delta_map (de_bids d) (qmap (co_sentBids c)) = qmap (co_bids c)"
    "fold delta_map (de_asks d) (qmap (co_sentAsks c)) = qmap (co_asks c)"
    by (simp_all add: d bs_def xs_def diffLevels_sound ok)
  have "set (de_bids d) = set bs" "set (de_asks d) = set xs" by (simp_all add: d)
  then show "de_bids d \<noteq> [] \<or> de_asks d \<noteq> []" using g(3) by auto
  show "c' = c\<lparr>co_sentBids := co_bids c, co_sentAsks := co_asks c, co_clientApplied := co_updateID c, co_bookDirty := False\<rparr>"
    by (simp add: c' replaceLevels_ok ok)
qed

lemma TakeBookDelta_None: "TakeBookDelta c = (c', None) \<Longrightarrow> c' = c \<or> c' = c\<lparr>co_bookDirty := False\<rparr>"
  by (auto simp: TakeBookDelta_def Let_def split: if_splits)

lemma TakeBookDelta_caught_up:
  assumes "coalescer_ok c" "co_bookDirty c" "\<not> co_needsSnapshot c" "co_updateID c > co_clientApplied c"
    "TakeBookDelta c = (c', r)"
  shows "qmap (co_sentBids c') = qmap (co_bids c)" "qmap (co_sentAsks c') = qmap (co_asks c)"
    "co_epoch c' = co_epoch c" "\<not> co_needsSnapshot c'"
proof -
  have "qmap (co_sentBids c') = qmap (co_bids c) \<and> qmap (co_sentAsks c') = qmap (co_asks c)
    \<and> co_epoch c' = co_epoch c \<and> \<not> co_needsSnapshot c'"
  proof (cases r)
    case None
    then have "diffLevels (co_bids c) (co_sentBids c) = []" "diffLevels (co_asks c) (co_sentAsks c) = []"
      "c' = c\<lparr>co_bookDirty := False\<rparr>"
      using assms(2-5) by (auto simp: TakeBookDelta_def Let_def split: if_splits)
    then show ?thesis using assms(1,3) diffLevels_Nil by (auto simp: coalescer_ok_def)
  next
    case (Some d)
    with TakeBookDelta_Some(11) [OF assms(1)] assms(3,5) show ?thesis by auto
  qed
  then show "qmap (co_sentBids c') = qmap (co_bids c)" "qmap (co_sentAsks c') = qmap (co_asks c)"
    "co_epoch c' = co_epoch c" "\<not> co_needsSnapshot c'" by simp_all
qed

lemma session_inv_flush:
  assumes "session_inv c q cl" "TakeBookDelta c = (c', Some d)"
  shows "session_inv c' (q @ [FDelta d]) cl"
proof -
  have ok: "coalescer_ok c" using assms(1) by (simp add: session_inv_def)
  note d = TakeBookDelta_Some [OF ok assms(2)]
  define f where "f = fold client_recv q cl"
  have m: "mirrors c f" "cl_rejected f = 0" using assms(1) d(1) by (simp_all add: session_inv_def f_def)
  then have "accepts d f" using d(2-5) by (simp add: accepts_def mirrors_def)
  then have "mirrors c' (client_recv (FDelta d) f)" "cl_rejected (client_recv (FDelta d) f) = 0"
    using m d by (simp_all add: mirrors_def)
  then show ?thesis using ok d(11) by (simp add: session_inv_def f_def coalescer_ok_def)
qed

lemma session_inv_same_book:
  assumes "session_inv c q cl"
    "co_bids c' = co_bids c" "co_asks c' = co_asks c" "co_sentBids c' = co_sentBids c" "co_sentAsks c' = co_sentAsks c"
    "co_epoch c' = co_epoch c" "co_clientApplied c' = co_clientApplied c" "co_needsSnapshot c' = co_needsSnapshot c"
  shows "session_inv c' q cl"
  using assms by (simp add: session_inv_def coalescer_ok_def mirrors_def)

lemma session_run_inv: "session_run c q cl \<Longrightarrow> session_inv c q cl"
proof (induction rule: session_run.induct)
  case (start symb)
  show ?case by (simp add: session_inv_def coalescer_ok_def NewCoalescer_def new_client_def mirrors_def)
next
  case (window c q cl bids asks epoch updateID)
  then have "coalescer_ok (OnBookWindow epoch updateID bids asks c)" by (simp add: session_inv_def OnBookWindow_ok)
  with window.IH show ?case by (auto simp: session_inv_def mirrors_def OnBookWindow_def Let_def)
next
  case (flush c q cl c' d)
  then show ?case by (simp add: session_inv_flush)
next
  case (flush_idle c q cl c')
  then show ?case using TakeBookDelta_None [OF flush_idle.hyps(2)] by (auto intro: session_inv_same_book)
next
  case (snapshot c q cl bids asks epoch updateID)
  then show ?case by (auto simp: session_inv_def coalescer_ok_def mirrors_def SnapshotSent_def replaceLevels_ok)
next
  case (deliver c m q cl)
  then show ?case by (simp add: session_inv_def)
next
  case (candle c q cl cd)
  from candle.IH show ?case by (rule session_inv_same_book) (simp_all add: OnCandle_def split: option.splits)
next
  case (take_candle c q cl iv)
  from take_candle.IH show ?case by (rule session_inv_same_book) (simp_all add: TakeCandle_def split: option.splits)
qed (erule session_inv_same_book; simp add: OnTrade_def TakeTrades_def Stats_def)+

lemma window_ok_take: "window_ok ls \<Longrightarrow> window_ok (take n ls)"
  by (auto simp: window_ok_def take_map [symmetric] dest: in_set_takeD)

lemma ordered_window_ok: "bids_ordered ls \<or> asks_ordered ls \<Longrightarrow> prices_ok ls \<Longrightarrow> window_ok ls"
  unfolding bids_ordered_def asks_ordered_def window_ok_def prices_ok_def
  by (fastforce simp: sorted_wrt_map distinct_conv_nth sorted_wrt_iff_nth_less nat_neq_iff)

lemma ordered_distinct: "bids_ordered ls \<Longrightarrow> distinct (map lv_Price ls)"
  unfolding bids_ordered_def
  by (fastforce simp: sorted_wrt_map distinct_conv_nth sorted_wrt_iff_nth_less nat_neq_iff)


lemma sample_run:
  "session_run (OnBookWindow 0 9 [level 98 6] [level 101 4] (NewCoalescer BTCUSDT)) [] new_client"
  by (intro session_run.intros) (simp_all add: window_ok_def level_def)


text \<open>
  C11. A delta is minimal, ordered and contiguous. When \<^verbatim>\<open>TakeBookDelta\<close> returns a range, the
  range starts right after what the client applied and ends at the newest update; the bids are
  strictly descending and the asks strictly ascending; a level is sent exactly when it differs from
  what the client was told, with quantity zero exactly when the window no longer has it; and a second
  call right after returns nothing and changes nothing.
\<close>

theorem TakeBookDelta_minimal:
  assumes "coalescer_ok c" "TakeBookDelta c = (c', Some d)"
  shows "de_first d = co_clientApplied c + 1 \<and> de_last d = co_updateID c \<and> de_last d > co_clientApplied c
    \<and> bids_ordered (de_bids d) \<and> asks_ordered (de_asks d)
    \<and> (\<forall>l. l \<in> set (de_bids d) \<longleftrightarrow>
          qmap (co_sentBids c) (lv_Price l) \<noteq> qmap (co_bids c) (lv_Price l)
          \<and> lv_Quantity l = (case qmap (co_bids c) (lv_Price l) of None \<Rightarrow> 0 | Some q \<Rightarrow> q))
    \<and> (\<forall>l. l \<in> set (de_asks d) \<longleftrightarrow>
          qmap (co_sentAsks c) (lv_Price l) \<noteq> qmap (co_asks c) (lv_Price l)
          \<and> lv_Quantity l = (case qmap (co_asks c) (lv_Price l) of None \<Rightarrow> 0 | Some q \<Rightarrow> q))
    \<and> TakeBookDelta c' = (c', None)"
proof -
  have ok: "lmap_ok (co_bids c)" "lmap_ok (co_asks c)" "lmap_ok (co_sentBids c)" "lmap_ok (co_sentAsks c)"
    using assms(1) by (simp_all add: coalescer_ok_def)
  note d = TakeBookDelta_Some [OF assms]
  have s: "set (de_bids d) = set (diffLevels (co_bids c) (co_sentBids c))"
    "set (de_asks d) = set (diffLevels (co_asks c) (co_sentAsks c))"
    using assms(2) by (auto simp: TakeBookDelta_def Let_def split: if_splits)
  have idle: "TakeBookDelta c' = (c', None)" by (simp add: TakeBookDelta_def d(11))
  show ?thesis
    unfolding s diffLevels_value [OF ok(1,3)] diffLevels_value [OF ok(2,4)] using d(2,4-7) idle by simp
qed

theorem TakeBookDelta_minimal_witness:
  "let c = OnBookWindow 0 9 [level 98 6] [level 101 4] (NewCoalescer BTCUSDT); (c', r) = TakeBookDelta c
   in coalescer_ok c \<and> (\<exists>d. r = Some d \<and> de_first d = 1 \<and> de_last d = 9 \<and> level 98 6 \<in> set (de_bids d)
        \<and> TakeBookDelta c' = (c', None))"
proof -
  define c where "c = OnBookWindow 0 9 [level 98 6] [level 101 4] (NewCoalescer BTCUSDT)"
  obtain c' d where t: "TakeBookDelta c = (c', Some d)"
    by (simp add: c_def TakeBookDelta_def OnBookWindow_def NewCoalescer_def levelMap_def replaceLevels_def
        diffLevels_def sortLevels_def level_def)
  have q: "qmap (co_bids c) 98 = Some 6" "qmap (co_sentBids c) 98 = None" "co_clientApplied c = 0" "co_updateID c = 9"
    by (simp_all add: c_def OnBookWindow_def NewCoalescer_def levelMap_def replaceLevels_def qmap_def level_def)
  have ok: "coalescer_ok c" using session_run_inv [OF sample_run] by (simp add: session_inv_def c_def)
  have "de_first d = 1" "de_last d = 9" "level 98 6 \<in> set (de_bids d)" "TakeBookDelta c' = (c', None)"
    using TakeBookDelta_minimal [OF ok t] q by (simp_all add: level_def)
  then show ?thesis unfolding c_def [symmetric] using ok t by simp
qed

text \<open>
  C40. A snapshot sent from an empty coalescer is forgotten. \<^verbatim>\<open>SnapshotSent\<close> records the
  window held by the coalescer as what the client holds, not the levels of the snapshot. On the two
  paths that send a snapshot from an empty coalescer (a subscription that binds another market, and a
  resynchronisation, which resets the coalescer first) the record is empty. The next delta is accepted
  and leaves every level of the snapshot that the new window lacks in the client's book, although the
  engine no longer publishes it: no deletion is sent.
\<close>

theorem SnapshotSent_forgets_levels:
  assumes "c0 = NewCoalescer symb \<or> c0 = Coalescer_Reset c"
    and "window_ok bids" "window_ok asks" "bids \<noteq> []" "u < u'"
    and "levels_map sbids p = Some q" "levels_map bids p = None"
  shows "\<exists>c' d. TakeBookDelta (OnBookWindow e u' bids asks (SnapshotSent e u c0)) = (c', Some d)
     \<and> accepts d (client_recv (FSnapshot e u sbids sasks) cl)
     \<and> cl_bids (client_recv (FDelta d) (client_recv (FSnapshot e u sbids sasks) cl)) p = Some q
     \<and> qmap (co_bids c') p = None \<and> qmap (co_sentBids c') p = None"
proof -
  define c1 where "c1 = OnBookWindow e u' bids asks (SnapshotSent e u c0)"
  have ok0: "coalescer_ok (SnapshotSent e u c0)"
    using assms(1) by (auto simp: coalescer_ok_def SnapshotSent_def Coalescer_Reset_def NewCoalescer_def replaceLevels_ok)
  have ok: "coalescer_ok c1" unfolding c1_def by (rule OnBookWindow_ok [OF ok0 assms(2,3)])
  have c1: "co_sentBids c1 = []" "co_sentAsks c1 = []" "co_bids c1 = levelMap bids" "co_asks c1 = levelMap asks"
    "co_updateID c1 = u'" "co_clientApplied c1 = u" "co_bookDirty c1" "\<not> co_needsSnapshot c1" "co_epoch c1 = e"
    using assms(1,5) levelMap_ok [OF assms(2)] levelMap_ok [OF assms(3)]
    by (auto simp: c1_def OnBookWindow_def SnapshotSent_def Coalescer_Reset_def NewCoalescer_def replaceLevels_ok)
  have "diffLevels (co_bids c1) (co_sentBids c1) \<noteq> []"
    using assms(4) levelMap_eq [of bids] assms(2) by (simp add: c1 diffLevels_def window_ok_def case_prod_unfold)
  then have "\<exists>d. snd (TakeBookDelta c1) = Some d"
    using c1(5-8) assms(5) by (simp add: TakeBookDelta_def Let_def)
  then obtain c' d where t: "TakeBookDelta c1 = (c', Some d)" by (metis prod.collapse)
  note d = TakeBookDelta_Some [OF ok t]
  have "levels_map bids = fold delta_map (de_bids d) (\<lambda>_. None)"
    using d(8) levelMap_ok [OF assms(2)] by (simp add: c1)
  have s: "set (de_bids d) = set (diffLevels (levelMap bids) [])"
    using t by (auto simp: TakeBookDelta_def Let_def c1 split: if_splits)
  have lm: "levels_map (de_bids d) p = None"
  proof -
    have "lv_Price l \<noteq> p" if "l \<in> set (diffLevels (levelMap bids) [])" for l
      using that levelMap_ok [OF assms(2)] assms(7) diffLevels_value [of "levelMap bids" "[]" l] by auto
    then show ?thesis by (auto simp: levels_map_None s)
  qed
  have dd: "distinct (map lv_Price (de_bids d))"
    using d(6) ordered_distinct by blast
  have acc: "accepts d (client_recv (FSnapshot e u sbids sasks) cl)"
    using d(2-5) by (simp add: accepts_def c1)
  then have "cl_bids (client_recv (FDelta d) (client_recv (FSnapshot e u sbids sasks) cl)) p = Some q"
    using lm dd assms(6) by (simp add: fold_delta_map)
  then show ?thesis
    using t acc levelMap_ok [OF assms(2)] assms(7) d(11) by (auto simp: c1_def [symmetric] c1)
qed

theorem SnapshotSent_forgets_levels_witness:
  "\<exists>c' d. TakeBookDelta (OnBookWindow 1 8 [level 97 5] [level 101 5] (SnapshotSent 1 7 (NewCoalescer BTCUSDT))) = (c', Some d)
     \<and> cl_bids (client_recv (FDelta d) (client_recv (FSnapshot 1 7 [level 99 5] [level 101 5]) new_client)) 99 = Some 5
     \<and> qmap (co_bids c') 99 = None"
proof -
  have w: "window_ok [level 97 5]" "window_ok [level 101 5]" "(7::u64) < 8"
    "levels_map [level 99 5] 99 = Some 5" "levels_map [level 97 5] 99 = None"
    by (simp_all add: window_ok_def level_def levels_map_def)
  show ?thesis
    using SnapshotSent_forgets_levels [of "NewCoalescer BTCUSDT" BTCUSDT _ "[level 97 5]" "[level 101 5]" 7 8
        "[level 99 5]" 99 5 1 "[level 101 5]" new_client] w by blast
qed


section \<open>Trades and candles\<close>

text \<open>With a positive limit the pending trades are a bounded log that drops the oldest.\<close>

interpretation trade_batch: bounded_log
  "\<lambda>(k, c). 0 < k \<and> length (co_trades c) \<le> k" fst "\<lambda>(k, c). co_trades c" "\<lambda>t (k, c). (k, OnTrade (int k) t c)"
proof
  fix s :: "nat \<times> Coalescer" and t
  assume "case s of (k, c) \<Rightarrow> 0 < k \<and> length (co_trades c) \<le> k"
  then obtain k c where s: "s = (k, c)" "0 < k" "length (co_trades c) \<le> k" by auto
  show "case (case s of (k, c) \<Rightarrow> (k, OnTrade (int k) t c)) of (k, c) \<Rightarrow> 0 < k \<and> length (co_trades c) \<le> k"
    "fst (case s of (k, c) \<Rightarrow> (k, OnTrade (int k) t c)) = fst s"
    "(case (case s of (k, c) \<Rightarrow> (k, OnTrade (int k) t c)) of (k, c) \<Rightarrow> co_trades c)
       = last_n (fst s) ((case s of (k, c) \<Rightarrow> co_trades c) @ [t])"
    "length (case s of (k, c) \<Rightarrow> co_trades c) \<le> fst s"
    using s by (cases "co_trades c"; auto simp: OnTrade_def last_n_def)+
qed

lemma fold_OnTrade_pair: "fold (\<lambda>t (k, c). (k, OnTrade (int k) t c)) ts (k, c) = (k, fold (OnTrade (int k)) ts c)"
  by (induction ts arbitrary: c) simp_all

lemma OnTrade_omitted:
  assumes "0 < k" "length (co_trades c) \<le> k" "co_omitted c = wrap64 n"
  shows "co_omitted (fold (OnTrade (int k)) ts c) = wrap64 (n + int (length (co_trades c) + length ts - k))"
  using assms
proof (induction ts arbitrary: c n)
  case (Cons t ts)
  show ?case
  proof (cases "length (co_trades c) = k")
    case True
    then have "length (co_trades (OnTrade (int k) t c)) = k" "co_omitted (OnTrade (int k) t c) = wrap64 (n + 1)"
      using Cons.prems by (auto simp: OnTrade_def i64_simps)
    then show ?thesis using Cons.IH [of "OnTrade (int k) t c" "n + 1"] True Cons.prems by (simp add: ac_simps)
  next
    case False
    then have "length (co_trades (OnTrade (int k) t c)) = Suc (length (co_trades c))" "co_omitted (OnTrade (int k) t c) = wrap64 n"
      using Cons.prems by (auto simp: OnTrade_def)
    then show ?thesis using Cons.IH [of "OnTrade (int k) t c" n] False Cons.prems by simp
  qed
qed simp

text \<open>
  The pending batch holds the newest trades and accounts for the rest: after any sequence of
  trades at a fixed positive limit, \<^verbatim>\<open>TakeTrades\<close> returns exactly the newest ones up to the
  limit, oldest first, and the number of trades dropped; with limit zero (the FULL tier) it returns
  all of them; taking twice returns nothing the second time.
\<close>

lemma TakeTrades_newest:
  assumes "co_trades c = []" "co_omitted c = 0" "ts \<noteq> []"
  shows "let (c', trades, om, ok) = TakeTrades (fold (OnTrade (int k)) ts c)
    in ok \<and> trades = (if k = 0 then ts else last_n k ts)
       \<and> om = (if k = 0 then 0 else wrap64 (int (length ts - k)))
       \<and> TakeTrades c' = (c', [], 0, False)"
proof -
  define c1 where "c1 = fold (OnTrade (int k)) ts c"
  have "co_trades c1 = (if k = 0 then ts else last_n k ts)
      \<and> co_omitted c1 = (if k = 0 then 0 else wrap64 (int (length ts - k)))"
  proof (cases "k = 0")
    case True
    have "co_trades (fold (OnTrade 0) ts c) = co_trades c @ ts \<and> co_omitted (fold (OnTrade 0) ts c) = co_omitted c" for c
      by (induction ts arbitrary: c) (simp_all add: OnTrade_def)
    with True assms show ?thesis by (simp add: c1_def)
  next
    case False
    then show ?thesis
      using trade_batch.entries_push_all [of "(k, c)" ts] OnTrade_omitted [of k c 0 ts] assms
      by (simp add: fold_OnTrade_pair c1_def)
  qed
  moreover from this have "co_trades c1 \<noteq> []" using assms(3) by (simp add: last_n_eq_Nil)
  ultimately show ?thesis unfolding c1_def [symmetric] by (simp add: TakeTrades_def)
qed

end
