(* ===== verification/Summary.thy ===== *)
theory Summary
  imports Tape
begin

text \<open>
  \<^verbatim>\<open>internal/market/summary.go\<close>: the rolling 24-hour summary of a market, kept in a
  ring of one bucket per minute with running totals. The refinement theorem says that, for
  trades that are not already a day older than the newest one, the cached totals and extremes
  are those of the trades inside the window.
\<close>

section \<open>The window\<close>

definition summaryBuckets :: nat where
  "summaryBuckets = 24 * 60"

record summaryBucket =
  sb_set :: bool
  sb_minute :: int
  sb_volume :: qty
  sb_high :: price
  sb_low :: price
  sb_open :: price
  sb_close :: price
  sb_trades :: int

definition zeroBucket :: summaryBucket where
  "zeroBucket = \<lparr>sb_set = False, sb_minute = 0, sb_volume = 0, sb_high = 0, sb_low = 0, sb_open = 0,
     sb_close = 0, sb_trades = 0\<rparr>"

record Summary24h =
  s24_symbol :: Symbol
  s24_buckets :: "summaryBucket list"
  s24_volume :: qty
  s24_high :: price
  s24_low :: price
  s24_open :: price
  s24_last :: price
  s24_trades :: int
  s24_openAt :: int
  s24_count :: int
  s24_newestMinute :: int

definition NewSummary24h :: "Symbol \<Rightarrow> Summary24h" where
  "NewSummary24h s =
     \<lparr>s24_symbol = s, s24_buckets = replicate summaryBuckets zeroBucket, s24_volume = 0, s24_high = 0,
      s24_low = 0, s24_open = 0, s24_last = 0, s24_trades = 0, s24_openAt = 0, s24_count = 0,
      s24_newestMinute = 0\<rparr>"

definition bucketIndex :: "int \<Rightarrow> nat" where
  "bucketIndex minute =
     nat (((minute smod int summaryBuckets) + int summaryBuckets) smod int summaryBuckets)"

definition trade_minute :: "Trade \<Rightarrow> int" where
  "trade_minute t = Unix (Truncate (to_utc (tr_Timestamp t)) minute_ns) sdiv 60"

definition recomputeHigh :: "Summary24h \<Rightarrow> Summary24h" where
  "recomputeHigh s =
     s\<lparr>s24_high := snd (foldl (\<lambda>(found, h) b.
          if \<not> sb_set b then (found, h)
          else if \<not> found \<or> Price_Cmp (sb_high b) h > 0 then (True, sb_high b)
          else (found, h)) (False, s24_high s) (s24_buckets s))\<rparr>"

definition recomputeLow :: "Summary24h \<Rightarrow> Summary24h" where
  "recomputeLow s =
     s\<lparr>s24_low := snd (foldl (\<lambda>(found, l) b.
          if \<not> sb_set b then (found, l)
          else if \<not> found \<or> Price_Cmp (sb_low b) l < 0 then (True, sb_low b)
          else (found, l)) (False, s24_low s) (s24_buckets s))\<rparr>"

definition recomputeOpen :: "Summary24h \<Rightarrow> Summary24h" where
  "recomputeOpen s =
     (let (found, first_m, op, opAt) =
        foldl (\<lambda>(found, first_m, op, opAt) b.
          if \<not> sb_set b then (found, first_m, op, opAt)
          else if \<not> found \<or> sb_minute b < first_m then (True, sb_minute b, sb_open b, sb_minute b)
          else (found, first_m, op, opAt)) (False, 0, s24_open s, s24_openAt s) (s24_buckets s)
      in s\<lparr>s24_open := op, s24_openAt := opAt\<rparr>)"

definition Summary_clear :: "Summary24h \<Rightarrow> Summary24h" where
  "Summary_clear s =
     s\<lparr>s24_buckets := map (\<lambda>_. zeroBucket) (s24_buckets s), s24_volume := 0, s24_trades := 0,
       s24_count := 0, s24_high := 0, s24_low := 0, s24_open := 0, s24_openAt := 0\<rparr>"

text \<open>\<^verbatim>\<open>expire\<close> takes the index of the bucket it is handed a pointer to.\<close>

definition expire :: "nat \<Rightarrow> Summary24h \<Rightarrow> Summary24h" where
  "expire i s =
     (let b = s24_buckets s ! i;
          heldHigh = (sb_high b = s24_high s);
          heldLow = (sb_low b = s24_low s);
          heldOpen = (sb_minute b = s24_openAt s);
          s1 = s\<lparr>s24_volume := Qty_Sub (s24_volume s) (sb_volume b),
                 s24_trades := wrap64 (s24_trades s - sb_trades b),
                 s24_count := wrap64 (s24_count s - 1),
                 s24_buckets := (s24_buckets s)[i := zeroBucket]\<rparr>
      in if s24_count s1 = 0 then
           s1\<lparr>s24_high := 0, s24_low := 0, s24_open := 0, s24_openAt := 0\<rparr>
         else
           let s2 = (if heldHigh then recomputeHigh s1 else s1);
               s3 = (if heldLow then recomputeLow s2 else s2)
           in if heldOpen then recomputeOpen s3 else s3)"

definition expire_stale :: "int \<Rightarrow> int \<Rightarrow> Summary24h \<Rightarrow> Summary24h" where
  "expire_stale oldest m s =
     (let b = s24_buckets s ! bucketIndex m
      in if sb_set b \<and> sb_minute b < oldest then expire (bucketIndex m) s else s)"

definition advance :: "int \<Rightarrow> Summary24h \<Rightarrow> Summary24h" where
  "advance minute s =
     (if s24_count s = 0 then s\<lparr>s24_newestMinute := minute\<rparr>
      else if minute \<le> s24_newestMinute s then s
      else if minute - s24_newestMinute s \<ge> int summaryBuckets then
        (Summary_clear s)\<lparr>s24_newestMinute := minute\<rparr>
      else
        (fold (expire_stale (minute - int summaryBuckets + 1))
              [s24_newestMinute s + 1..minute] s)\<lparr>s24_newestMinute := minute\<rparr>)"

text \<open>The part of \<^verbatim>\<open>Apply\<close> that folds the trade into its bucket and the cached totals.\<close>

definition Summary_insert :: "int \<Rightarrow> nat \<Rightarrow> Trade \<Rightarrow> Summary24h \<Rightarrow> Summary24h" where
  "Summary_insert minute i t s2 =
     (let b1 = s24_buckets s2 ! i;
          (b2, s3) =
            (if \<not> sb_set b1 then
               (b1\<lparr>sb_set := True, sb_minute := minute, sb_open := tr_Price t, sb_high := tr_Price t,
                   sb_low := tr_Price t, sb_close := tr_Price t, sb_trades := 0\<rparr>,
                let s' = s2\<lparr>s24_count := wrap64 (s24_count s2 + 1)\<rparr>
                in if s24_count s' = 1 \<or> minute < s24_openAt s'
                   then s'\<lparr>s24_openAt := minute, s24_open := tr_Price t\<rparr> else s')
             else
               (b1\<lparr>sb_high := (if Price_Cmp (tr_Price t) (sb_high b1) > 0 then tr_Price t else sb_high b1),
                   sb_low := (if Price_Cmp (tr_Price t) (sb_low b1) < 0 then tr_Price t else sb_low b1),
                   sb_close := tr_Price t\<rparr>, s2));
          b3 = b2\<lparr>sb_volume := Qty_Add (sb_volume b2) (tr_Quantity t), sb_trades := wrap64 (sb_trades b2 + 1)\<rparr>;
          s4 = s3\<lparr>s24_buckets := (s24_buckets s3)[i := b3],
                  s24_volume := Qty_Add (s24_volume s3) (tr_Quantity t),
                  s24_trades := wrap64 (s24_trades s3 + 1)\<rparr>;
          s5 = (if s24_count s4 = 1 \<and> sb_trades b3 = 1 then
                  s4\<lparr>s24_high := tr_Price t, s24_low := tr_Price t, s24_open := tr_Price t\<rparr>
                else
                  s4\<lparr>s24_high := (if Price_Cmp (tr_Price t) (s24_high s4) > 0 then tr_Price t else s24_high s4),
                     s24_low := (if Price_Cmp (tr_Price t) (s24_low s4) < 0 then tr_Price t else s24_low s4)\<rparr>);
          s6 = s5\<lparr>s24_last := tr_Price t\<rparr>
      in if minute > s24_newestMinute s6 then s6\<lparr>s24_newestMinute := minute\<rparr> else s6)"

definition Summary_Apply :: "Trade \<Rightarrow> Summary24h \<Rightarrow> Summary24h" where
  "Summary_Apply t s =
     (let minute = trade_minute t;
          s1 = advance minute s;
          i = bucketIndex minute;
          b0 = s24_buckets s1 ! i;
          s2 = (if sb_set b0 \<and> sb_minute b0 \<noteq> minute then expire i s1 else s1)
      in Summary_insert minute i t s2)"

text \<open>\<^term>\<open>None\<close> would be a panic of \<^verbatim>\<open>ChangeBasisPoints\<close>; it does not happen.\<close>

definition Summary_Snapshot :: "gotime \<Rightarrow> Summary24h \<Rightarrow> MarketSummary option" where
  "Summary_Snapshot now s =
     map_option (\<lambda>(change, changeBP).
       \<lparr>ms_Symbol = sym_ID (s24_symbol s), ms_Last = s24_last s, ms_Open24h = s24_open s,
        ms_High24h = s24_high s, ms_Low24h = s24_low s, ms_Volume24h = s24_volume s,
        ms_Change = change, ms_ChangeBP = changeBP, ms_Trades24h = s24_trades s,
        ms_UpdatedAt = to_utc now\<rparr>)
     (if s24_count s > 0 \<and> s24_open s \<noteq> 0 then
        map_option (\<lambda>bp. (Price_Sub (s24_last s) (s24_open s), case bp of Inl _ \<Rightarrow> 0 | Inr v \<Rightarrow> v))
          (ChangeBasisPoints (s24_open s) (s24_last s))
      else Some (0, 0))"

definition HasData :: "Summary24h \<Rightarrow> bool" where
  "HasData s = (s24_count s > 0)"

definition Summary_Reset :: "Summary24h \<Rightarrow> Summary24h" where
  "Summary_Reset s = (Summary_clear s)\<lparr>s24_last := 0, s24_newestMinute := 0\<rparr>"


section \<open>Slots\<close>

lemma bucketIndex_mod: "bucketIndex m = nat (m mod 1440)"
proof -
  have "\<bar>m smod 1440\<bar> < 1440" by (simp add: smod_abs)
  then have r: "0 \<le> m smod 1440 + 1440" by linarith
  have "(m smod 1440 + 1440) smod 1440 = (m smod 1440) mod 1440"
    using smod_nonneg [OF r] by simp
  also have "\<dots> = m mod 1440"
  proof -
    have "m sdiv 1440 * 1440 + m smod 1440 = m" by (rule sdiv_smod)
    then have "m mod 1440 = (m sdiv 1440 * 1440 + m smod 1440) mod 1440" by simp
    then show ?thesis by simp
  qed
  finally show ?thesis by (simp add: bucketIndex_def summaryBuckets_def)
qed

lemma bucketIndex_less [simp]: "bucketIndex m < 1440"
  by (simp add: bucketIndex_mod nat_less_iff)

lemma bucketIndex_eq:
  assumes "bucketIndex m = bucketIndex k"
  shows "1440 dvd m - k"
  using assms by (simp add: bucketIndex_mod eq_nat_nat_iff mod_eq_dvd_iff)

lemma bucketIndex_near:
  assumes "bucketIndex m = bucketIndex k" "\<bar>m - k\<bar> < 1440"
  shows "m = k"
proof -
  obtain q where "m - k = 1440 * q" using bucketIndex_eq [OF assms(1)] by blast
  with assms(2) have "1440 * \<bar>q\<bar> < 1440" by (simp add: abs_mult)
  then have "q = 0" by simp
  with \<open>m - k = 1440 * q\<close> show ?thesis by simp
qed

definition slot :: "nat \<Rightarrow> Trade list \<Rightarrow> Trade list" where
  "slot i W = filter (\<lambda>t. bucketIndex (trade_minute t) = i) W"

definition bucket_val :: "Trade list \<Rightarrow> summaryBucket" where
  "bucket_val ts =
     (if ts = [] then zeroBucket
      else \<lparr>sb_set = True, sb_minute = trade_minute (hd ts),
            sb_volume = wrap64 (sum_list (map tr_Quantity ts)),
            sb_high = Max (tr_Price ` set ts), sb_low = Min (tr_Price ` set ts),
            sb_open = tr_Price (hd ts), sb_close = tr_Price (last ts),
            sb_trades = int (length ts)\<rparr>)"

text \<open>
  The abstraction: \<open>W\<close> are the trades of the window, all within 24 hours of the newest
  minute \<open>N\<close>; each bucket is determined by the trades of its slot and the cached values
  by all of them.
\<close>

definition open_minute :: "Trade list \<Rightarrow> int" where
  "open_minute W = Min (trade_minute ` set W)"

definition open_price :: "Trade list \<Rightarrow> price" where
  "open_price W = tr_Price (hd (filter (\<lambda>t. trade_minute t = open_minute W) W))"

definition in_window :: "int \<Rightarrow> Trade list \<Rightarrow> bool" where
  "in_window N W = (\<forall>t\<in>set W. N - 1440 < trade_minute t \<and> trade_minute t \<le> N)"

definition used_slots :: "Trade list \<Rightarrow> nat set" where
  "used_slots W = (\<lambda>t. bucketIndex (trade_minute t)) ` set W"

definition window_of :: "Trade list \<Rightarrow> Summary24h \<Rightarrow> bool" where
  "window_of W s =
     (length (s24_buckets s) = 1440 \<and> (\<forall>i<1440. s24_buckets s ! i = bucket_val (slot i W))
      \<and> s24_volume s = wrap64 (sum_list (map tr_Quantity W)) \<and> s24_trades s = int (length W)
      \<and> s24_count s = int (card (used_slots W))
      \<and> s24_high s = (if W = [] then 0 else Max (tr_Price ` set W))
      \<and> s24_low s = (if W = [] then 0 else Min (tr_Price ` set W))
      \<and> s24_openAt s = (if W = [] then 0 else open_minute W)
      \<and> s24_open s = (if W = [] then 0 else open_price W))"


section \<open>The scans\<close>

lemma scan_max_found:
  "foldl (\<lambda>(found, h) b. if \<not> sb_set b then (found, h)
      else if \<not> found \<or> Price_Cmp (f b) h > 0 then (True, f b) else (found, h)) (True, h0) bs
   = (True, Max (set (h0 # map f (filter sb_set bs))))"
  unfolding Max.set_eq_fold by (induction bs arbitrary: h0) (auto simp: max_def)

lemma scan_max:
  "foldl (\<lambda>(found, h) b. if \<not> sb_set b then (found, h)
      else if \<not> found \<or> Price_Cmp (f b) h > 0 then (True, f b) else (found, h)) (False, h0) bs
   = (if filter sb_set bs = [] then (False, h0) else (True, Max (f ` set (filter sb_set bs))))"
  by (induction bs) (simp_all add: scan_max_found)

lemma scan_min_found:
  "foldl (\<lambda>(found, l) b. if \<not> sb_set b then (found, l)
      else if \<not> found \<or> Price_Cmp (f b) l < 0 then (True, f b) else (found, l)) (True, l0) bs
   = (True, Min (set (l0 # map f (filter sb_set bs))))"
  unfolding Min.set_eq_fold by (induction bs arbitrary: l0) (auto simp: min_def)

lemma scan_min:
  "foldl (\<lambda>(found, l) b. if \<not> sb_set b then (found, l)
      else if \<not> found \<or> Price_Cmp (f b) l < 0 then (True, f b) else (found, l)) (False, l0) bs
   = (if filter sb_set bs = [] then (False, l0) else (True, Min (f ` set (filter sb_set bs))))"
  by (induction bs) (simp_all add: scan_min_found)

definition open_scan :: "bool \<times> int \<times> price \<times> int \<Rightarrow> summaryBucket list \<Rightarrow> bool \<times> int \<times> price \<times> int" where
  "open_scan = foldl (\<lambda>(found, first_m, op, opAt) b.
          if \<not> sb_set b then (found, first_m, op, opAt)
          else if \<not> found \<or> sb_minute b < first_m then (True, sb_minute b, sb_open b, sb_minute b)
          else (found, first_m, op, opAt))"

lemma open_scan_found:
  "\<exists>m op. open_scan (True, m0, op0, m0) bs = (True, m, op, m) \<and> m \<le> m0
     \<and> (\<forall>b\<in>set bs. sb_set b \<longrightarrow> m \<le> sb_minute b)
     \<and> ((m = m0 \<and> op = op0) \<or> (\<exists>b\<in>set bs. sb_set b \<and> sb_minute b = m \<and> sb_open b = op))"
proof (induction bs arbitrary: m0 op0)
  case Nil
  then show ?case by (simp add: open_scan_def)
next
  case (Cons b bs)
  show ?case
  proof (cases "sb_set b \<and> sb_minute b < m0")
    case True
    then have "open_scan (True, m0, op0, m0) (b # bs) = open_scan (True, sb_minute b, sb_open b, sb_minute b) bs"
      by (simp add: open_scan_def)
    then show ?thesis
      using Cons.IH [of "sb_minute b" "sb_open b"] True by fastforce
  next
    case False
    then have "open_scan (True, m0, op0, m0) (b # bs) = open_scan (True, m0, op0, m0) bs"
      by (simp add: open_scan_def)
    then show ?thesis
      using Cons.IH [of m0 op0] False by fastforce
  qed
qed

lemma open_scan_start:
  assumes "filter sb_set bs \<noteq> []"
  shows "\<exists>b\<in>set bs. sb_set b \<and> (\<forall>c\<in>set bs. sb_set c \<longrightarrow> sb_minute b \<le> sb_minute c)
    \<and> open_scan (False, x, y, z) bs = (True, sb_minute b, sb_open b, sb_minute b)"
  using assms
proof (induction bs)
  case (Cons b bs)
  show ?case
  proof (cases "sb_set b")
    case True
    have "open_scan (False, x, y, z) (b # bs) = open_scan (True, sb_minute b, sb_open b, sb_minute b) bs"
      using True by (simp add: open_scan_def)
    then show ?thesis
      using open_scan_found [of "sb_minute b" "sb_open b" bs] True by fastforce
  next
    case False
    then have "open_scan (False, x, y, z) (b # bs) = open_scan (False, x, y, z) bs"
      by (simp add: open_scan_def)
    then show ?thesis using Cons False by auto
  qed
qed simp

lemma recomputeHigh_eq:
  assumes "filter sb_set (s24_buckets s) \<noteq> []"
  shows "recomputeHigh s = s\<lparr>s24_high := Max (sb_high ` set (filter sb_set (s24_buckets s)))\<rparr>"
  using assms unfolding recomputeHigh_def scan_max by simp

lemma recomputeLow_eq:
  assumes "filter sb_set (s24_buckets s) \<noteq> []"
  shows "recomputeLow s = s\<lparr>s24_low := Min (sb_low ` set (filter sb_set (s24_buckets s)))\<rparr>"
  using assms unfolding recomputeLow_def scan_min by simp

lemma recomputeOpen_eq:
  assumes "filter sb_set (s24_buckets s) \<noteq> []"
  shows "\<exists>b\<in>set (s24_buckets s). sb_set b \<and> (\<forall>c\<in>set (s24_buckets s). sb_set c \<longrightarrow> sb_minute b \<le> sb_minute c)
    \<and> recomputeOpen s = s\<lparr>s24_open := sb_open b, s24_openAt := sb_minute b\<rparr>"
  using open_scan_start [OF assms, of 0 "s24_open s" "s24_openAt s"]
  unfolding recomputeOpen_def open_scan_def by (auto split: prod.splits)


section \<open>Reading the buckets of a window\<close>

definition buckets_of :: "Trade list \<Rightarrow> summaryBucket list \<Rightarrow> bool" where
  "buckets_of W bs = (length bs = 1440 \<and> (\<forall>i<1440. bs ! i = bucket_val (slot i W)))"

lemma bucket_val_set [simp]: "sb_set (bucket_val ts) \<longleftrightarrow> ts \<noteq> []"
  by (simp add: bucket_val_def zeroBucket_def)

lemma slot_subset: "set (slot i W) \<subseteq> set W"
  by (auto simp: slot_def)

lemma set_slot: "t \<in> set W \<Longrightarrow> t \<in> set (slot (bucketIndex (trade_minute t)) W)"
  by (simp add: slot_def)

lemma in_used_slots: "i \<in> used_slots W \<longleftrightarrow> slot i W \<noteq> []"
  by (auto simp: slot_def used_slots_def filter_empty_conv)

lemma set_filter_buckets:
  assumes "buckets_of W bs"
  shows "set (filter sb_set bs) = (\<lambda>i. bucket_val (slot i W)) ` used_slots W"
proof -
  have len: "length bs = 1440" and val: "\<And>i. i < 1440 \<Longrightarrow> bs ! i = bucket_val (slot i W)"
    using assms by (simp_all add: buckets_of_def)
  have less: "i \<in> used_slots W \<Longrightarrow> i < 1440" for i by (auto simp: used_slots_def)
  have "set (filter sb_set bs) = {bs ! i |i. i < 1440 \<and> sb_set (bs ! i)}"
    using len by (auto simp: in_set_conv_nth)
  also have "\<dots> = (\<lambda>i. bucket_val (slot i W)) ` {i. i < 1440 \<and> slot i W \<noteq> []}"
    by (auto simp: val image_def) (metis bucket_val_set val)
  also have "{i. i < 1440 \<and> slot i W \<noteq> []} = used_slots W"
    using less in_used_slots by blast
  finally show ?thesis .
qed

lemma used_slots_finite [simp]: "finite (used_slots W)"
  by (simp add: used_slots_def)

lemma used_slots_empty [simp]: "used_slots W = {} \<longleftrightarrow> W = []"
  by (simp add: used_slots_def)

lemma Max_cover:
  assumes "finite P" "H \<noteq> {}" "H \<subseteq> P" "\<And>p. p \<in> P \<Longrightarrow> \<exists>h\<in>H. p \<le> (h :: int)"
  shows "Max H = Max P"
proof (rule antisym)
  show "Max H \<le> Max P" using assms by (intro Max_mono)
  have fin: "finite H" using assms(1,3) by (rule rev_finite_subset)
  have "Max P \<in> P" using assms by (intro Max_in) auto
  then obtain h where "h \<in> H" "Max P \<le> h" using assms(4) by blast
  then show "Max P \<le> Max H" using fin by (meson Max_ge order_trans)
qed

lemma Min_cover:
  assumes "finite P" "H \<noteq> {}" "H \<subseteq> P" "\<And>p. p \<in> P \<Longrightarrow> \<exists>h\<in>H. (h :: int) \<le> p"
  shows "Min H = Min P"
proof (rule antisym)
  show "Min P \<le> Min H" using assms by (intro Min_antimono)
  have fin: "finite H" using assms(1,3) by (rule rev_finite_subset)
  have "Min P \<in> P" using assms by (intro Min_in) auto
  then obtain h where "h \<in> H" "h \<le> Min P" using assms(4) by blast
  then show "Min H \<le> Min P" using fin by (meson Min_le order_trans)
qed

lemma buckets_high:
  assumes "buckets_of W bs" "W \<noteq> []"
  shows "Max (sb_high ` set (filter sb_set bs)) = Max (tr_Price ` set W)"
    and "Min (sb_low ` set (filter sb_set bs)) = Min (tr_Price ` set W)"
proof -
  have v: "sb_high (bucket_val (slot i W)) = Max (tr_Price ` set (slot i W))"
    "sb_low (bucket_val (slot i W)) = Min (tr_Price ` set (slot i W))" if "i \<in> used_slots W" for i
    using that by (simp_all add: bucket_val_def in_used_slots)
  have mem: "Max (tr_Price ` set (slot i W)) \<in> tr_Price ` set W" "Min (tr_Price ` set (slot i W)) \<in> tr_Price ` set W"
    if "i \<in> used_slots W" for i
  proof -
    have "Max (tr_Price ` set (slot i W)) \<in> tr_Price ` set (slot i W)"
      "Min (tr_Price ` set (slot i W)) \<in> tr_Price ` set (slot i W)"
      using that by (simp_all add: in_used_slots)
    then show "Max (tr_Price ` set (slot i W)) \<in> tr_Price ` set W" "Min (tr_Price ` set (slot i W)) \<in> tr_Price ` set W"
      using slot_subset [of i W] by auto
  qed
  have cov: "bucketIndex (trade_minute t) \<in> used_slots W
      \<and> tr_Price t \<le> Max (tr_Price ` set (slot (bucketIndex (trade_minute t)) W))
      \<and> Min (tr_Price ` set (slot (bucketIndex (trade_minute t)) W)) \<le> tr_Price t" if "t \<in> set W" for t
    using that set_slot [OF that] by (auto simp: used_slots_def)
  show "Max (sb_high ` set (filter sb_set bs)) = Max (tr_Price ` set W)"
    unfolding set_filter_buckets [OF assms(1)] image_image
    using assms(2) mem(1) cov by (intro Max_cover) (auto simp: v intro!: bexI)
  show "Min (sb_low ` set (filter sb_set bs)) = Min (tr_Price ` set W)"
    unfolding set_filter_buckets [OF assms(1)] image_image
    using assms(2) mem(2) cov by (intro Min_cover) (auto simp: v intro!: bexI)
qed


section \<open>Minutes inside a window\<close>

lemma slot_same_minute:
  assumes "in_window N W" "t \<in> set W" "u \<in> set W"
    "bucketIndex (trade_minute t) = bucketIndex (trade_minute u)"
  shows "trade_minute t = trade_minute u"
proof (rule bucketIndex_near [OF assms(4)])
  have "N - 1440 < trade_minute t" "trade_minute t \<le> N" "N - 1440 < trade_minute u" "trade_minute u \<le> N"
    using assms(1-3) by (auto simp: in_window_def)
  then show "\<bar>trade_minute t - trade_minute u\<bar> < 1440" by linarith
qed

lemma slot_eq_minute:
  assumes "in_window N W" "t \<in> set W"
  shows "slot (bucketIndex (trade_minute t)) W = filter (\<lambda>u. trade_minute u = trade_minute t) W"
  unfolding slot_def using assms by (intro filter_cong refl) (auto intro: slot_same_minute)

lemma slot_hd:
  assumes "slot i W \<noteq> []"
  shows "hd (slot i W) \<in> set W" "bucketIndex (trade_minute (hd (slot i W))) = i"
  using hd_in_set [OF assms] by (auto simp: slot_def)

lemma bucket_minute:
  assumes "in_window N W" "t \<in> set (slot i W)"
  shows "sb_minute (bucket_val (slot i W)) = trade_minute t"
proof -
  have ne: "slot i W \<noteq> []" using assms(2) by auto
  have "trade_minute (hd (slot i W)) = trade_minute t"
    using assms slot_hd [OF ne] by (intro slot_same_minute [OF assms(1)]) (auto simp: slot_def)
  with ne show ?thesis by (simp add: bucket_val_def)
qed

lemma in_window_filter: "in_window N W \<Longrightarrow> in_window N (filter P W)"
  by (simp add: in_window_def)

lemma least_bucket_opens:
  assumes "buckets_of W bs" "in_window N W" "W \<noteq> []" "b \<in> set bs" "sb_set b"
    "\<forall>c\<in>set bs. sb_set c \<longrightarrow> sb_minute b \<le> sb_minute c"
  shows "sb_minute b = open_minute W" "sb_open b = open_price W"
proof -
  have sets: "set (filter sb_set bs) = (\<lambda>i. bucket_val (slot i W)) ` used_slots W"
    by (rule set_filter_buckets [OF assms(1)])
  then obtain i where i: "i \<in> used_slots W" "b = bucket_val (slot i W)" using assms(4,5) by auto
  have ne: "slot i W \<noteq> []" using i(1) by (simp add: in_used_slots)
  let ?h = "hd (slot i W)"
  have m: "sb_minute b = trade_minute ?h" "sb_open b = tr_Price ?h"
    using ne i(2) by (simp_all add: bucket_val_def)
  have le: "sb_minute b \<le> trade_minute t" if "t \<in> set W" for t
  proof -
    let ?j = "bucketIndex (trade_minute t)"
    have "bucket_val (slot ?j W) \<in> set (filter sb_set bs)"
      unfolding sets using that by (intro imageI) (simp add: used_slots_def)
    then show ?thesis
      using assms(6) bucket_minute [OF assms(2) set_slot [OF that]] by auto
  qed
  show om: "sb_minute b = open_minute W"
    unfolding open_minute_def
    using le slot_hd(1) [OF ne] m(1) by (intro Min_eqI [symmetric]) auto
  have "slot i W = filter (\<lambda>u. trade_minute u = open_minute W) W"
    using slot_eq_minute [OF assms(2) slot_hd(1) [OF ne]] slot_hd(2) [OF ne] om m(1) by simp
  then show "sb_open b = open_price W" by (simp add: open_price_def m(2))
qed


section \<open>Expiry\<close>

lemma sum_list_filter_split:
  "sum_list (map f xs) = sum_list (map f (filter P xs)) + sum_list (map f (filter (\<lambda>x. \<not> P x) xs))"
  for f :: "'a \<Rightarrow> int"
  by (induction xs) auto

lemma length_filter_split: "length xs = length (filter P xs) + length (filter (\<lambda>x. \<not> P x) xs)"
  by (induction xs) auto

definition without_slot :: "nat \<Rightarrow> Trade list \<Rightarrow> Trade list" where
  "without_slot i W = filter (\<lambda>t. bucketIndex (trade_minute t) \<noteq> i) W"

lemma slot_without_slot: "slot j (without_slot i W) = (if j = i then [] else slot j W)"
  by (induction W) (auto simp: slot_def without_slot_def)

lemma set_split_slot: "set W = set (slot i W) \<union> set (without_slot i W)"
  by (auto simp: slot_def without_slot_def)

lemma used_without_slot: "used_slots (without_slot i W) = used_slots W - {i}"
  by (auto simp: used_slots_def without_slot_def)

lemma extremes_without_slot:
  assumes "slot i W \<noteq> []" "without_slot i W \<noteq> []"
  shows "Max (tr_Price ` set (slot i W)) \<noteq> Max (tr_Price ` set W)
      \<Longrightarrow> Max (tr_Price ` set W) = Max (tr_Price ` set (without_slot i W))"
    and "Min (tr_Price ` set (slot i W)) \<noteq> Min (tr_Price ` set W)
      \<Longrightarrow> Min (tr_Price ` set W) = Min (tr_Price ` set (without_slot i W))"
proof -
  have "Max (tr_Price ` set W) = max (Max (tr_Price ` set (slot i W))) (Max (tr_Price ` set (without_slot i W)))"
    "Min (tr_Price ` set W) = min (Min (tr_Price ` set (slot i W))) (Min (tr_Price ` set (without_slot i W)))"
    unfolding set_split_slot [of W i] image_Un using assms by (simp_all add: Max_Un Min_Un)
  then show "Max (tr_Price ` set (slot i W)) \<noteq> Max (tr_Price ` set W)
      \<Longrightarrow> Max (tr_Price ` set W) = Max (tr_Price ` set (without_slot i W))"
    and "Min (tr_Price ` set (slot i W)) \<noteq> Min (tr_Price ` set W)
      \<Longrightarrow> Min (tr_Price ` set W) = Min (tr_Price ` set (without_slot i W))"
    by linarith+
qed

lemma open_without_slot:
  assumes "in_window N W" "slot i W \<noteq> []" "without_slot i W \<noteq> []"
    "sb_minute (bucket_val (slot i W)) \<noteq> open_minute W"
  shows "open_minute (without_slot i W) = open_minute W" "open_price (without_slot i W) = open_price W"
proof -
  let ?m = "sb_minute (bucket_val (slot i W))"
  have sm: "trade_minute ` set (slot i W) = {?m}"
    using bucket_minute [OF assms(1), of _ i] assms(2) by (force simp: neq_Nil_conv)
  have "open_minute W = min ?m (open_minute (without_slot i W))"
    unfolding open_minute_def set_split_slot [of W i] image_Un sm
    using assms(3) by (subst Min_Un) auto
  with assms(4) show om: "open_minute (without_slot i W) = open_minute W" by linarith
  have other: "bucketIndex (trade_minute x) \<noteq> i" if "x \<in> set W" "trade_minute x = open_minute W" for x
    using bucket_minute [OF assms(1), of x i] that assms(4) by (auto simp: slot_def)
  have "filter (\<lambda>t. trade_minute t = open_minute W) (without_slot i W) = filter (\<lambda>t. trade_minute t = open_minute W) W"
    unfolding without_slot_def filter_filter
    using other by (intro filter_cong refl) auto
  then show "open_price (without_slot i W) = open_price W" by (simp add: open_price_def om)
qed

lemma card_used_le: "card (used_slots W) \<le> length W"
  unfolding used_slots_def by (metis card_image_le card_length finite_set order_trans)

lemma expire_window:
  assumes win: "window_of W s" "in_window N W" and i: "slot i W \<noteq> []" "i < 1440"
    and len: "int (length W) \<le> MaxInt64"
  shows "window_of (without_slot i W) (expire i s)
    \<and> s24_newestMinute (expire i s) = s24_newestMinute s \<and> s24_last (expire i s) = s24_last s
    \<and> s24_symbol (expire i s) = s24_symbol s"
proof -
  define W' where "W' = without_slot i W"
  define b where "b = s24_buckets s ! i"
  define s1 where "s1 = s\<lparr>s24_volume := Qty_Sub (s24_volume s) (sb_volume b),
                 s24_trades := wrap64 (s24_trades s - sb_trades b),
                 s24_count := wrap64 (s24_count s - 1),
                 s24_buckets := (s24_buckets s)[i := zeroBucket]\<rparr>"
  have b: "b = bucket_val (slot i W)" using win(1) i(2) by (simp add: b_def window_of_def)
  have Wne: "W \<noteq> []" using i(1) by (auto simp: slot_def)
  have lenW: "length W = length (slot i W) + length W'"
    unfolding slot_def W'_def without_slot_def by (rule length_filter_split)
  have sumW: "sum_list (map tr_Quantity W) = sum_list (map tr_Quantity (slot i W)) + sum_list (map tr_Quantity W')"
    unfolding slot_def W'_def without_slot_def by (rule sum_list_filter_split)
  have i_in: "i \<in> used_slots W" using i(1) by (simp add: in_used_slots)
  have card: "int (card (used_slots W)) - 1 = int (card (used_slots W'))"
  proof -
    have "used_slots W \<noteq> {}" using i_in by blast
    then have "0 < card (used_slots W)" unfolding card_gt_0_iff by simp
    then show ?thesis
      unfolding W'_def used_without_slot using i_in by (simp add: card_Diff_singleton of_nat_diff)
  qed
  have small: "in_i64 (int (length W'))" "in_i64 (int (card (used_slots W')))"
    using len lenW card_used_le [of W'] by (auto simp: in_i64_def MinInt64_def)
  have bs1: "buckets_of W' (s24_buckets s1)"
    using win(1) i(2) by (auto simp: buckets_of_def s1_def window_of_def W'_def slot_without_slot
        nth_list_update bucket_val_def)
  have tot: "s24_volume s1 = wrap64 (sum_list (map tr_Quantity W'))" "s24_trades s1 = int (length W')"
    "s24_count s1 = int (card (used_slots W'))"
    using win(1) i(1) small sumW lenW card
    by (simp_all add: s1_def window_of_def b bucket_val_def Qty_Sub_def i64_simps)
  have oth: "s24_high s1 = Max (tr_Price ` set W)" "s24_low s1 = Min (tr_Price ` set W)"
    "s24_open s1 = open_price W" "s24_openAt s1 = open_minute W"
    using win(1) Wne by (simp_all add: s1_def window_of_def)
  have ex: "expire i s = (if s24_count s1 = 0 then
           s1\<lparr>s24_high := 0, s24_low := 0, s24_open := 0, s24_openAt := 0\<rparr>
         else
           let s2 = (if sb_high b = s24_high s1 then recomputeHigh s1 else s1);
               s3 = (if sb_low b = s24_low s1 then recomputeLow s2 else s2)
           in if sb_minute b = s24_openAt s1 then recomputeOpen s3 else s3)"
    unfolding expire_def Let_def s1_def b_def by simp
  have fin: "s24_newestMinute s1 = s24_newestMinute s" "s24_last s1 = s24_last s" "s24_symbol s1 = s24_symbol s"
    by (simp_all add: s1_def)
  show ?thesis
  proof (cases "W' = []")
    case True
    then have "expire i s = s1\<lparr>s24_high := 0, s24_low := 0, s24_open := 0, s24_openAt := 0\<rparr>"
      using tot(3) by (simp add: ex used_slots_def)
    then show ?thesis
      using bs1 tot fin True by (simp add: window_of_def buckets_of_def flip: W'_def)
  next
    case False
    have ne: "filter sb_set (s24_buckets s1) \<noteq> []"
      using set_filter_buckets [OF bs1] False by (metis image_is_empty list.set(1) used_slots_empty)
    have hv: "sb_high b = Max (tr_Price ` set (slot i W))" "sb_low b = Min (tr_Price ` set (slot i W))"
      using i(1) by (simp_all add: b bucket_val_def)
    define s2 where "s2 = s1\<lparr>s24_high := Max (tr_Price ` set W')\<rparr>"
    define s3 where "s3 = s2\<lparr>s24_low := Min (tr_Price ` set W')\<rparr>"
    have s2: "(if sb_high b = s24_high s1 then recomputeHigh s1 else s1) = s2"
      using extremes_without_slot(1) [OF i(1)] False buckets_high(1) [OF bs1 False] recomputeHigh_eq [OF ne] oth(1) hv(1)
      by (auto simp: s2_def W'_def)
    have b2: "s24_buckets s2 = s24_buckets s1" "s24_low s2 = s24_low s1" by (simp_all add: s2_def)
    have s3: "(if sb_low b = s24_low s1 then recomputeLow s2 else s2) = s3"
      using extremes_without_slot(2) [OF i(1)] False buckets_high(2) [OF bs1 False]
        recomputeLow_eq [of s2] ne b2 oth(2) hv(2)
      by (auto simp: s3_def W'_def)
    have b3: "s24_buckets s3 = s24_buckets s1" "s24_open s3 = s24_open s1" "s24_openAt s3 = s24_openAt s1"
      by (simp_all add: s3_def s2_def)
    have "(if sb_minute b = s24_openAt s1 then recomputeOpen s3 else s3)
        = s3\<lparr>s24_open := open_price W', s24_openAt := open_minute W'\<rparr>"
    proof (cases "sb_minute b = s24_openAt s1")
      case True
      obtain c where "c \<in> set (s24_buckets s3)" "sb_set c"
        "\<forall>d\<in>set (s24_buckets s3). sb_set d \<longrightarrow> sb_minute c \<le> sb_minute d"
        and r: "recomputeOpen s3 = s3\<lparr>s24_open := sb_open c, s24_openAt := sb_minute c\<rparr>"
        using recomputeOpen_eq [of s3] ne b3(1) by auto
      then have "sb_minute c = open_minute W'" "sb_open c = open_price W'"
        using least_bucket_opens [OF bs1 _ False, of N c] in_window_filter [OF win(2)] b3(1)
        by (simp_all add: W'_def without_slot_def)
      with r True show ?thesis by simp
    next
      case nope: False
      then have "open_minute W' = s24_openAt s3" "open_price W' = s24_open s3"
        using open_without_slot [OF win(2) i(1)] False b oth(3,4) b3 by (simp_all add: W'_def)
      with nope show ?thesis by simp
    qed
    moreover have "s24_count s1 \<noteq> 0"
      using tot(3) False used_slots_finite [of W'] used_slots_empty [of W'] by (simp add: card_eq_0_iff)
    ultimately have "expire i s = s3\<lparr>s24_open := open_price W', s24_openAt := open_minute W'\<rparr>"
      unfolding ex Let_def s2 s3 by simp
    then show ?thesis
      using bs1 tot fin False by (simp add: window_of_def buckets_of_def s3_def s2_def flip: W'_def)
  qed
qed


section \<open>Moving the window\<close>

lemma bucketIndex_shift: "bucketIndex (m - 1440) = bucketIndex m"
  by (simp add: bucketIndex_mod)

lemma stale_slot:
  assumes "\<forall>t\<in>set W. M - 1440 \<le> trade_minute t \<and> trade_minute t < M"
  shows "without_slot (bucketIndex M) W = filter (\<lambda>t. M - 1440 < trade_minute t) W"
    and "t \<in> set (slot (bucketIndex M) W) \<Longrightarrow> trade_minute t = M - 1440"
proof -
  have eq: "bucketIndex (trade_minute t) = bucketIndex M \<longleftrightarrow> trade_minute t = M - 1440" if "t \<in> set W" for t
  proof
    assume "bucketIndex (trade_minute t) = bucketIndex M"
    then have "bucketIndex (trade_minute t) = bucketIndex (M - 1440)" by (simp add: bucketIndex_shift)
    moreover have "\<bar>trade_minute t - (M - 1440)\<bar> < 1440" using assms that by fastforce
    ultimately show "trade_minute t = M - 1440" by (rule bucketIndex_near)
  qed (simp add: bucketIndex_shift)
  show "without_slot (bucketIndex M) W = filter (\<lambda>t. M - 1440 < trade_minute t) W"
    unfolding without_slot_def using eq assms by (intro filter_cong refl) fastforce
  show "t \<in> set (slot (bucketIndex M) W) \<Longrightarrow> trade_minute t = M - 1440"
    using eq by (auto simp: slot_def)
qed

definition same_header :: "Summary24h \<Rightarrow> Summary24h \<Rightarrow> bool" where
  "same_header s s' =
     (s24_newestMinute s' = s24_newestMinute s \<and> s24_last s' = s24_last s \<and> s24_symbol s' = s24_symbol s)"

lemma expire_loop:
  assumes win: "window_of W s" "in_window N W" and len: "int (length W) \<le> MaxInt64"
    and k: "N + int k \<le> m" "m < N + 1440"
  defines "sk \<equiv> fold (expire_stale (m - 1440 + 1)) [N + 1..N + int k] s"
  shows "window_of (filter (\<lambda>t. N + int k - 1440 < trade_minute t) W) sk \<and> same_header s sk"
  using k(1) unfolding sk_def
proof (induction k)
  case 0
  have "filter (\<lambda>t. N - 1440 < trade_minute t) W = W"
    using win(2) by (simp add: in_window_def filter_id_conv)
  then show ?case using win(1) by (simp add: same_header_def)
next
  case (Suc k)
  define M where "M = N + int (Suc k)"
  define Wk where "Wk = filter (\<lambda>t. N + int k - 1440 < trade_minute t) W"
  define s' where "s' = fold (expire_stale (m - 1440 + 1)) [N + 1..N + int k] s"
  have IH: "window_of Wk s'" "same_header s s'" using Suc by (simp_all add: Wk_def s'_def)
  have up: "[N + 1..M] = [N + 1..N + int k] @ [M]"
    using upto_rec2 [of "N + 1" M] by (simp add: M_def)
  have Wk: "in_window N Wk" "\<forall>t\<in>set Wk. M - 1440 \<le> trade_minute t \<and> trade_minute t < M"
    using win(2) by (auto simp: Wk_def in_window_def M_def)
  have Wk_len: "int (length Wk) \<le> MaxInt64"
    using len length_filter_le [of "\<lambda>t. N + int k - 1440 < trade_minute t" W] unfolding Wk_def by linarith
  have b: "s24_buckets s' ! bucketIndex M = bucket_val (slot (bucketIndex M) Wk)"
    using IH(1) by (simp add: window_of_def)
  have nxt: "without_slot (bucketIndex M) Wk = filter (\<lambda>t. M - 1440 < trade_minute t) W"
    unfolding stale_slot(1) [OF Wk(2)] unfolding Wk_def filter_filter by (intro filter_cong refl) (auto simp: M_def)
  have "window_of (without_slot (bucketIndex M) Wk) (expire_stale (m - 1440 + 1) M s')
      \<and> same_header s' (expire_stale (m - 1440 + 1) M s')"
  proof (cases "slot (bucketIndex M) Wk = []")
    case True
    have "without_slot (bucketIndex M) Wk = Wk"
      using True by (auto simp: without_slot_def slot_def filter_empty_conv filter_id_conv)
    then show ?thesis
      using True IH(1) b by (simp add: expire_stale_def Let_def same_header_def)
  next
    case False
    have "sb_minute (bucket_val (slot (bucketIndex M) Wk)) = M - 1440"
      using False stale_slot(2) [OF Wk(2)] by (simp add: bucket_val_def)
    then have "expire_stale (m - 1440 + 1) M s' = expire (bucketIndex M) s'"
      using False b Suc.prems by (simp add: expire_stale_def Let_def M_def)
    then show ?thesis
      using expire_window [OF IH(1) Wk(1) False bucketIndex_less Wk_len] by (simp add: same_header_def)
  qed
  moreover have "fold (expire_stale (m - 1440 + 1)) [N + 1..M] s = expire_stale (m - 1440 + 1) M s'"
    unfolding up s'_def by (simp only: fold_append comp_apply fold_simps)
  ultimately show ?case
    using IH(2) unfolding nxt M_def [symmetric] by (simp add: same_header_def)
qed

lemma Summary_clear_window:
  "length (s24_buckets s) = 1440 \<Longrightarrow> window_of [] (Summary_clear s) \<and> same_header s (Summary_clear s)"
  by (simp add: window_of_def Summary_clear_def slot_def bucket_val_def used_slots_def same_header_def)

lemma window_newest [simp]: "window_of W (s\<lparr>s24_newestMinute := m\<rparr>) = window_of W s"
  by (simp add: window_of_def)

lemma advance_window:
  fixes m :: int
  assumes win: "window_of W s" "in_window (s24_newestMinute s) W" and len: "int (length W) \<le> MaxInt64"
  defines "N \<equiv> (if W = [] then m else max m (s24_newestMinute s))"
  shows "window_of (filter (\<lambda>t. N - 1440 < trade_minute t) W) (advance m s)
    \<and> s24_newestMinute (advance m s) = N \<and> s24_last (advance m s) = s24_last s"
proof -
  let ?n = "s24_newestMinute s"
  have cnt: "s24_count s = 0 \<longleftrightarrow> W = []"
    using win(1) used_slots_empty [of W] by (simp add: window_of_def card_eq_0_iff)
  have all: "filter (\<lambda>t. ?n - 1440 < trade_minute t) W = W"
    using win(2) by (simp add: in_window_def filter_id_conv)
  consider (empty) "W = []" | (old) "W \<noteq> []" "m \<le> ?n" | (far) "W \<noteq> []" "?n < m" "1440 \<le> m - ?n"
    | (near) "W \<noteq> []" "?n < m" "m - ?n < 1440" by linarith
  then show ?thesis
  proof cases
    case empty
    with win(1) cnt show ?thesis by (simp add: advance_def N_def)
  next
    case old
    then show ?thesis using win(1) cnt all by (simp add: advance_def N_def max_def)
  next
    case far
    have "filter (\<lambda>t. m - 1440 < trade_minute t) W = []"
      using far win(2) by (auto simp: filter_empty_conv in_window_def)
    then show ?thesis
      using far cnt win(1) Summary_clear_window [of s]
      by (simp add: advance_def N_def summaryBuckets_def max_def window_of_def [of W] same_header_def)
  next
    case near
    define k where "k = nat (m - ?n)"
    have mk: "?n + int k = m" using near by (simp add: k_def)
    have "window_of (filter (\<lambda>t. m - 1440 < trade_minute t) W) (fold (expire_stale (m - 1440 + 1)) [?n + 1..m] s)
        \<and> same_header s (fold (expire_stale (m - 1440 + 1)) [?n + 1..m] s)"
      using expire_loop [OF win len, of k m] near mk by simp
    then show ?thesis
      using near cnt by (simp add: advance_def N_def summaryBuckets_def max_def same_header_def)
  qed
qed


section \<open>Folding a trade in\<close>

lemma bucket_val_snoc:
  assumes "ts \<noteq> []"
  shows "bucket_val (ts @ [t]) = (bucket_val ts)
    \<lparr>sb_volume := Qty_Add (sb_volume (bucket_val ts)) (tr_Quantity t),
     sb_high := max (sb_high (bucket_val ts)) (tr_Price t), sb_low := min (sb_low (bucket_val ts)) (tr_Price t),
     sb_close := tr_Price t, sb_trades := sb_trades (bucket_val ts) + 1\<rparr>"
  using assms by (simp add: bucket_val_def Qty_Add_def i64_simps max.commute min.commute)

lemma open_minute_snoc:
  "open_minute (W @ [t]) = (if W = [] then trade_minute t else min (open_minute W) (trade_minute t))"
  by (simp add: open_minute_def min.commute)

lemma open_minute_le: "t \<in> set W \<Longrightarrow> open_minute W \<le> trade_minute t"
  by (simp add: open_minute_def)

lemma open_price_snoc:
  "open_price (W @ [t]) = (if W = [] \<or> trade_minute t < open_minute W then tr_Price t else open_price W)"
proof (cases "W = [] \<or> trade_minute t < open_minute W")
  case True
  have "filter (\<lambda>u. trade_minute u = trade_minute t) W = []"
    using True open_minute_le [of _ W] by (fastforce simp: filter_empty_conv)
  with True show ?thesis by (auto simp: open_price_def open_minute_snoc)
next
  case False
  have "open_minute W \<in> trade_minute ` set W" using False by (simp add: open_minute_def)
  then have "filter (\<lambda>u. trade_minute u = open_minute W) W \<noteq> []" by (auto simp: filter_empty_conv)
  with False show ?thesis by (simp add: open_price_def open_minute_snoc)
qed

lemma used_slots_snoc: "used_slots (W @ [t]) = insert (bucketIndex (trade_minute t)) (used_slots W)"
  by (simp add: used_slots_def)

lemma slot_snoc: "slot i (W @ [t]) = slot i W @ (if bucketIndex (trade_minute t) = i then [t] else [])"
  by (simp add: slot_def)

lemma card_used_max: "card (used_slots W) \<le> 1440"
proof -
  have "used_slots W \<subseteq> {..<1440}" by (auto simp: used_slots_def)
  then have "card (used_slots W) \<le> card {..<1440 :: nat}" by (intro card_mono) auto
  then show ?thesis by simp
qed

lemma insert_window:
  assumes win: "window_of W s" and len: "int (length (W @ [t])) \<le> MaxInt64"
    and same: "\<forall>u\<in>set (slot (bucketIndex (trade_minute t)) W). trade_minute u = trade_minute t"
  defines "s' \<equiv> Summary_insert (trade_minute t) (bucketIndex (trade_minute t)) t s"
  shows "window_of (W @ [t]) s' \<and> s24_last s' = tr_Price t
    \<and> s24_newestMinute s' = max (s24_newestMinute s) (trade_minute t)"
proof -
  define m where "m = trade_minute t"
  define i where "i = bucketIndex m"
  define ts where "ts = slot i W"
  have ib: "i < 1440" by (simp add: i_def)
  have bi: "s24_buckets s ! i = bucket_val ts" and bl: "length (s24_buckets s) = 1440"
    using win ib by (simp_all add: window_of_def ts_def)
  have sl: "slot j (W @ [t]) = (if j = i then ts @ [t] else slot j W)" for j
    by (simp add: slot_snoc ts_def i_def m_def)
  have bk: "buckets_of (W @ [t]) ((s24_buckets s)[i := bucket_val (ts @ [t])])"
    using win bl ib by (simp add: buckets_of_def sl window_of_def nth_list_update)
  have vol: "Qty_Add (s24_volume s) (tr_Quantity t) = wrap64 (sum_list (map tr_Quantity (W @ [t])))"
    "wrap64 (s24_trades s + 1) = int (length (W @ [t]))"
    using win len by (simp_all add: window_of_def Qty_Add_def i64_simps in_i64_def MinInt64_def)
  have lts: "length ts \<le> length W" by (simp add: ts_def slot_def)
  then have wr: "wrap64 (int (length ts) + 1) = int (length ts) + 1"
    using len by (intro wrap64_id) (simp add: in_i64_def MinInt64_def)
  have cnt: "s24_count s = int (card (used_slots W))" using win by (simp add: window_of_def)
  have wc: "wrap64 (int (card (used_slots W)) + 1) = int (card (used_slots W)) + 1"
    using card_used_max [of W] by (intro wrap64_id) (simp add: in_i64_iff)
  have used: "card (used_slots (W @ [t])) = (if ts = [] then Suc (card (used_slots W)) else card (used_slots W))"
    using in_used_slots [of i W]
    by (auto simp: used_slots_snoc ts_def insert_absorb simp flip: m_def i_def)
  have Wts: "ts = [] \<or> W \<noteq> []" by (auto simp: ts_def slot_def)
  have opn: "ts \<noteq> [] \<Longrightarrow> open_minute W \<le> m"
    using same open_minute_le by (metis i_def list.set_intros(1) m_def neq_Nil_conv slot_subset subsetD ts_def)
  define mx where "mx = Max (tr_Price ` set (W @ [t]))"
  define mn where "mn = Min (tr_Price ` set (W @ [t]))"
  define om where "om = open_minute (W @ [t])"
  define op where "op = open_price (W @ [t])"
  obtain hi lo om0 op0 where old: "hi = Max (tr_Price ` set W)" "lo = Min (tr_Price ` set W)"
    "om0 = open_minute W" "op0 = open_price W" by blast
  have vals: "s24_high s = (if W = [] then 0 else hi)" "s24_low s = (if W = [] then 0 else lo)"
    "s24_openAt s = (if W = [] then 0 else om0)" "s24_open s = (if W = [] then 0 else op0)"
    using win by (simp_all add: window_of_def old)
  have ext: "mx = (if W = [] then tr_Price t else max hi (tr_Price t))"
    "mn = (if W = [] then tr_Price t else min lo (tr_Price t))"
    "om = (if W = [] then m else min om0 m)" "op = (if W = [] \<or> m < om0 then tr_Price t else op0)"
    unfolding mx_def mn_def om_def op_def open_minute_snoc open_price_snoc old m_def
    by (simp_all add: max.commute min.commute)
  have opn: "ts \<noteq> [] \<Longrightarrow> om0 \<le> m" using opn by (simp add: old)
  have fields: "s24_buckets s' = (s24_buckets s)[i := bucket_val (ts @ [t])]
      \<and> s24_volume s' = Qty_Add (s24_volume s) (tr_Quantity t) \<and> s24_trades s' = wrap64 (s24_trades s + 1)
      \<and> s24_count s' = int (card (used_slots (W @ [t])))
      \<and> s24_high s' = mx \<and> s24_low s' = mn \<and> s24_openAt s' = om \<and> s24_open s' = op
      \<and> s24_last s' = tr_Price t \<and> s24_newestMinute s' = max (s24_newestMinute s) m"
  proof (cases "ts = []")
    case True
    have cc: "s24_count s = 0 \<longleftrightarrow> W = []" "wrap64 (s24_count s + 1) = s24_count s + 1"
      using cnt wc used_slots_empty [of W] by (simp_all add: card_eq_0_iff)
    have one: "wrap64 1 = 1" by (simp add: wrap64_def)
    have b: "(bucket_val [])\<lparr>sb_set := True, sb_minute := m, sb_open := tr_Price t, sb_high := tr_Price t,
        sb_low := tr_Price t, sb_close := tr_Price t,
        sb_volume := Qty_Add (sb_volume (bucket_val [])) (tr_Quantity t), sb_trades := 1\<rparr> = bucket_val [t]"
      by (simp add: bucket_val_def zeroBucket_def Qty_Add_def m_def)
    have t1: "sb_trades (bucket_val [t]) = 1" by (simp add: bucket_val_def)
    have red: "s' = (let s4 = (if W = [] \<or> m < s24_openAt s
            then s\<lparr>s24_count := s24_count s + 1, s24_openAt := m, s24_open := tr_Price t\<rparr>
            else s\<lparr>s24_count := s24_count s + 1\<rparr>)
          \<lparr>s24_buckets := (s24_buckets s)[i := bucket_val [t]],
           s24_volume := Qty_Add (s24_volume s) (tr_Quantity t), s24_trades := wrap64 (s24_trades s + 1)\<rparr>;
         s5 = (if W = [] then s4\<lparr>s24_high := tr_Price t, s24_low := tr_Price t, s24_open := tr_Price t\<rparr>
               else s4\<lparr>s24_high := max (s24_high s) (tr_Price t), s24_low := min (s24_low s) (tr_Price t)\<rparr>)
       in s5\<lparr>s24_last := tr_Price t, s24_newestMinute := max (s24_newestMinute s) m\<rparr>)"
      unfolding s'_def m_def [symmetric] i_def [symmetric] Summary_insert_def bi True
      using b t1 by (simp add: Let_def cc one max_def min_def)
    show ?thesis
      unfolding red Let_def using True used cnt
      by (cases "W = []"; cases "m < om0") (simp_all add: vals ext min_def)
  next
    case False
    then have W: "W \<noteq> []" using Wts by simp
    have tr: "sb_trades (bucket_val ts) = int (length ts)" using False by (simp add: bucket_val_def)
    have notone: "sb_trades (bucket_val (ts @ [t])) \<noteq> 1" using False by (simp add: bucket_val_def)
    have b: "(bucket_val ts)\<lparr>sb_high := (if Price_Cmp (tr_Price t) (sb_high (bucket_val ts)) > 0 then tr_Price t else sb_high (bucket_val ts)),
        sb_low := (if Price_Cmp (tr_Price t) (sb_low (bucket_val ts)) < 0 then tr_Price t else sb_low (bucket_val ts)),
        sb_close := tr_Price t, sb_volume := Qty_Add (sb_volume (bucket_val ts)) (tr_Quantity t),
        sb_trades := int (length ts) + 1\<rparr> = bucket_val (ts @ [t])"
      unfolding bucket_val_snoc [OF False] tr by (simp add: max_def min_def)
    show ?thesis
      unfolding s'_def m_def [symmetric] i_def [symmetric] Summary_insert_def Let_def bi
      using False W wr tr notone b used cnt opn
      by (auto simp: vals ext max_def min_def)
  qed
  then show ?thesis
    using bk vol unfolding window_of_def buckets_of_def mx_def mn_def om_def op_def m_def by simp
qed



section \<open>Refinement\<close>

text \<open>Trades are timely when none is a full day older than an earlier one.\<close>

definition timely :: "Trade list \<Rightarrow> bool" where
  "timely ts = sorted_wrt (\<lambda>u t. trade_minute u - 1440 < trade_minute t) ts"

definition newest_minute :: "Trade list \<Rightarrow> int" where
  "newest_minute ts = Max (trade_minute ` set ts)"

definition day_window :: "Trade list \<Rightarrow> Trade list" where
  "day_window ts = filter (\<lambda>t. newest_minute ts - 1440 < trade_minute t) ts"

lemma newest_minute_snoc:
  "newest_minute (ts @ [t]) = (if ts = [] then trade_minute t else max (newest_minute ts) (trade_minute t))"
  by (simp add: newest_minute_def max.commute)

lemma newest_minute_ge: "t \<in> set ts \<Longrightarrow> trade_minute t \<le> newest_minute ts"
  by (simp add: newest_minute_def)

lemma newest_minute_mem: "ts \<noteq> [] \<Longrightarrow> newest_minute ts \<in> trade_minute ` set ts"
  by (simp add: newest_minute_def)

lemma day_window_snoc:
  assumes "timely (ts @ [t])"
  shows "day_window (ts @ [t])
       = filter (\<lambda>u. newest_minute (ts @ [t]) - 1440 < trade_minute u) (day_window ts) @ [t]"
proof (cases "ts = []")
  case True
  then show ?thesis by (simp add: day_window_def newest_minute_def)
next
  case False
  let ?n = "newest_minute ts" and ?n' = "newest_minute (ts @ [t])"
  have n': "?n' = max ?n (trade_minute t)" using False by (simp add: newest_minute_snoc)
  obtain u where "u \<in> set ts" "?n = trade_minute u" using newest_minute_mem [OF False] by auto
  then have "?n - 1440 < trade_minute t" using assms by (auto simp: timely_def sorted_wrt_append)
  then have "?n' - 1440 < trade_minute t" unfolding n' by linarith
  moreover have "filter (\<lambda>u. ?n' - 1440 < trade_minute u) ts
      = filter (\<lambda>u. ?n' - 1440 < trade_minute u) (day_window ts)"
    unfolding day_window_def filter_filter n' by (intro filter_cong refl) auto
  ultimately show ?thesis by (simp add: day_window_def [of "ts @ [t]"])
qed

lemma day_window_in: "in_window (newest_minute ts) (day_window ts)"
  by (auto simp: in_window_def day_window_def newest_minute_ge)

lemma day_window_Nil [simp]: "day_window ts = [] \<longleftrightarrow> ts = []"
proof
  assume d: "day_window ts = []"
  show "ts = []"
  proof (rule ccontr)
    assume "ts \<noteq> []"
    then obtain u where "u \<in> set ts" "newest_minute ts = trade_minute u" using newest_minute_mem by auto
    then have "u \<in> set (day_window ts)" by (simp add: day_window_def)
    with d show False by simp
  qed
qed (simp add: day_window_def)

lemma no_collision:
  assumes "window_of W s" "in_window N W" "N - 1440 < trade_minute t" "trade_minute t \<le> N"
  shows "\<forall>u\<in>set (slot (bucketIndex (trade_minute t)) W). trade_minute u = trade_minute t"
    and "sb_set (s24_buckets s ! bucketIndex (trade_minute t)) \<Longrightarrow>
         sb_minute (s24_buckets s ! bucketIndex (trade_minute t)) = trade_minute t"
proof -
  have "in_window N (W @ [t])" using assms by (auto simp: in_window_def)
  then show same: "\<forall>u\<in>set (slot (bucketIndex (trade_minute t)) W). trade_minute u = trade_minute t"
    by (auto simp: slot_def intro: slot_same_minute)
  have b: "s24_buckets s ! bucketIndex (trade_minute t) = bucket_val (slot (bucketIndex (trade_minute t)) W)"
    using assms(1) by (simp add: window_of_def)
  show "sb_set (s24_buckets s ! bucketIndex (trade_minute t)) \<Longrightarrow>
         sb_minute (s24_buckets s ! bucketIndex (trade_minute t)) = trade_minute t"
    using same unfolding b by (auto simp: bucket_val_def zeroBucket_def)
qed

lemma NewSummary24h_window: "window_of [] (NewSummary24h s)"
  by (simp add: window_of_def NewSummary24h_def slot_def bucket_val_def used_slots_def summaryBuckets_def)

lemma summary_window:
  assumes "timely ts" "int (length ts) \<le> MaxInt64"
  shows "window_of (day_window ts) (fold Summary_Apply ts (NewSummary24h s))
    \<and> (ts \<noteq> [] \<longrightarrow> s24_newestMinute (fold Summary_Apply ts (NewSummary24h s)) = newest_minute ts
        \<and> s24_last (fold Summary_Apply ts (NewSummary24h s)) = tr_Price (last ts))"
  using assms
proof (induction ts rule: rev_induct)
  case Nil
  then show ?case by (simp add: day_window_def NewSummary24h_window)
next
  case (snoc t ts)
  define sm where "sm = fold Summary_Apply ts (NewSummary24h s)"
  define W where "W = day_window ts"
  define N where "N = newest_minute (ts @ [t])"
  define W1 where "W1 = filter (\<lambda>u. N - 1440 < trade_minute u) W"
  let ?m = "trade_minute t"
  have IH: "window_of W sm" "ts \<noteq> [] \<Longrightarrow> s24_newestMinute sm = newest_minute ts"
    using snoc by (simp_all add: sm_def W_def timely_def sorted_wrt_append)
  have win: "in_window (s24_newestMinute sm) W"
    using IH(2) day_window_in [of ts] by (cases "ts = []") (simp_all add: W_def in_window_def day_window_def)
  have lenW: "length W \<le> length ts" by (simp add: W_def day_window_def)
  have N: "N = (if W = [] then ?m else max ?m (s24_newestMinute sm))"
    using IH(2) by (auto simp: N_def W_def newest_minute_snoc max.commute)
  have adv: "window_of W1 (advance ?m sm)" "s24_newestMinute (advance ?m sm) = N"
    using advance_window [OF IH(1) win, of ?m] lenW snoc.prems(2) unfolding N [symmetric] by (simp_all add: W1_def)
  have dw: "day_window (ts @ [t]) = W1 @ [t]"
    using day_window_snoc [OF snoc.prems(1)] by (simp add: W1_def W_def N_def)
  have inw: "in_window N (W1 @ [t])"
    using day_window_in [of "ts @ [t]"] unfolding dw N_def .
  then have W1: "in_window N W1" "N - 1440 < ?m" "?m \<le> N" by (auto simp: in_window_def)
  note nc = no_collision [OF adv(1) W1]
  have app: "fold Summary_Apply (ts @ [t]) (NewSummary24h s) = Summary_insert ?m (bucketIndex ?m) t (advance ?m sm)"
    using nc(2) by (auto simp: Summary_Apply_def Let_def simp flip: sm_def)
  have "length W1 \<le> length W" by (simp add: W1_def)
  then have len: "int (length (W1 @ [t])) \<le> MaxInt64" using lenW snoc.prems(2) by simp
  show ?case
    using insert_window [OF adv(1) len nc(1)] W1(3) adv(2) unfolding app dw by (simp add: N_def max_def)
qed

lemma Summary_Snapshot_value:
  assumes "in_i64 (s24_open s)" "in_i64 (s24_last s)"
  shows "\<exists>ms. Summary_Snapshot now s = Some ms \<and> ms_Last ms = s24_last s \<and> ms_Open24h ms = s24_open s
    \<and> ms_High24h ms = s24_high s \<and> ms_Low24h ms = s24_low s \<and> ms_Volume24h ms = s24_volume s
    \<and> ms_Trades24h ms = s24_trades s
    \<and> (s24_count s > 0 \<and> s24_open s \<noteq> 0 \<longrightarrow> ms_Change ms = wrap64 (s24_last s - s24_open s)
        \<and> (let bp = (ms_Change ms * 10000) sdiv s24_open s in ms_ChangeBP ms = (if in_i64 bp then bp else 0)))"
proof (cases "s24_count s > 0 \<and> s24_open s \<noteq> 0")
  case True
  have "in_i64 10000" by (simp add: in_i64_iff)
  then show ?thesis
    using True MulDiv_value [OF wrap64_in _ assms(1), of 10000 "s24_last s - s24_open s"]
    by (simp add: Summary_Snapshot_def ChangeBasisPoints_def Price_Sub_def Let_def)
next
  case False
  then show ?thesis by (auto simp: Summary_Snapshot_def)
qed

lemma summary_exact:
  assumes "timely ts" "ts \<noteq> []" "int (length ts) \<le> MaxInt64" "\<forall>t\<in>set ts. in_i64 (tr_Price t)"
  shows "\<exists>ms. Summary_Snapshot now (fold Summary_Apply ts (NewSummary24h s)) = Some ms
    \<and> ms_Last ms = tr_Price (last ts) \<and> ms_Open24h ms = open_price (day_window ts)
    \<and> ms_High24h ms = Max (tr_Price ` set (day_window ts)) \<and> ms_Low24h ms = Min (tr_Price ` set (day_window ts))
    \<and> ms_Volume24h ms = wrap64 (sum_list (map tr_Quantity (day_window ts)))
    \<and> ms_Trades24h ms = int (length (day_window ts))
    \<and> (ms_Open24h ms \<noteq> 0 \<longrightarrow> ms_Change ms = wrap64 (tr_Price (last ts) - ms_Open24h ms)
        \<and> (let bp = (ms_Change ms * 10000) sdiv ms_Open24h ms in ms_ChangeBP ms = (if in_i64 bp then bp else 0)))"
proof -
  define sm where "sm = fold Summary_Apply ts (NewSummary24h s)"
  define W where "W = day_window ts"
  have W: "window_of W sm" "s24_last sm = tr_Price (last ts)" "W \<noteq> []"
    using summary_window [OF assms(1,3), of s] assms(2) by (simp_all add: sm_def W_def)
  have sub: "set W \<subseteq> set ts" by (auto simp: W_def day_window_def)
  have "open_minute W \<in> trade_minute ` set W" using W(3) by (simp add: open_minute_def)
  then have "filter (\<lambda>t. trade_minute t = open_minute W) W \<noteq> []" by (auto simp: filter_empty_conv)
  then have "hd (filter (\<lambda>t. trade_minute t = open_minute W) W) \<in> set W" using hd_in_set by fastforce
  then have op: "in_i64 (s24_open sm)" "in_i64 (s24_last sm)"
    using W sub assms(2,4) by (auto simp: window_of_def open_price_def)
  have "0 < card (used_slots W)" using W(3) by (simp add: card_gt_0_iff)
  then have cnt: "s24_count sm > 0" using W(1) by (simp add: window_of_def)
  have v: "s24_open sm = open_price W" "s24_high sm = Max (tr_Price ` set W)" "s24_low sm = Min (tr_Price ` set W)"
    "s24_volume sm = wrap64 (sum_list (map tr_Quantity W))" "s24_trades sm = int (length W)"
    using W by (simp_all add: window_of_def)
  show ?thesis
    using Summary_Snapshot_value [OF op, of now] cnt v W(2) unfolding sm_def [symmetric] W_def [symmetric]
    by (auto simp: Let_def)
qed

text \<open>
  C7. The served 24-hour summary is exact. After any non-empty sequence of trades none of which
  is a full day older than an earlier one, it reports the last price and, over exactly the
  trades within 24 hours of the newest minute: the first price of the oldest minute, the highest
  and lowest price, the volume (modulo 64 bits), the number of trades, and the change with its
  basis points. The incremental expiry and the cached extremes never drift, and rendering it
  never panics.
\<close>

theorem Summary24h_exact:
  assumes "timely ts" "ts \<noteq> []" "int (length ts) \<le> MaxInt64" "\<forall>t\<in>set ts. in_i64 (tr_Price t)"
  shows "\<exists>ms. Summary_Snapshot now (fold Summary_Apply ts (NewSummary24h s)) = Some ms
    \<and> ms_Last ms = tr_Price (last ts) \<and> ms_Open24h ms = open_price (day_window ts)
    \<and> ms_High24h ms = Max (tr_Price ` set (day_window ts)) \<and> ms_Low24h ms = Min (tr_Price ` set (day_window ts))
    \<and> ms_Volume24h ms = wrap64 (sum_list (map tr_Quantity (day_window ts)))
    \<and> ms_Trades24h ms = int (length (day_window ts))
    \<and> (ms_Open24h ms \<noteq> 0 \<longrightarrow> ms_Change ms = wrap64 (tr_Price (last ts) - ms_Open24h ms)
        \<and> (let bp = (ms_Change ms * 10000) sdiv ms_Open24h ms in ms_ChangeBP ms = (if in_i64 bp then bp else 0)))"
  using assms by (rule summary_exact)

theorem Summary24h_exact_witness:
  "\<exists>t u ms. timely [t, u] \<and> trade_minute t \<noteq> trade_minute u
     \<and> Summary_Snapshot zeroTime (fold Summary_Apply [t, u] (NewSummary24h BTCUSDT)) = Some ms
     \<and> ms_Last ms = 12 \<and> ms_Trades24h ms = 2"
proof -
  let ?mk = "\<lambda>sec px. \<lparr>tr_ID = 1, tr_Symbol = ''BTCUSDT'', tr_Timestamp = \<lparr>instant = sec * 10 ^ 9, zone = UTC\<rparr>,
      tr_Price = px, tr_Quantity = 5, tr_Side = SideBuy\<rparr>"
  have m: "trade_minute (?mk 0 10) = 0" "trade_minute (?mk 120 12) = 2"
    by (simp_all add: trade_minute_def Unix_def Truncate_def to_utc_def zero_instant_def signed_divide_int_def)
  define t where "t = ?mk 0 10"
  define u where "u = ?mk 120 12"
  have tu: "trade_minute t = 0" "trade_minute u = 2" "tr_Price t = 10" "tr_Price u = 12"
    using m by (simp_all only: t_def u_def Trade.simps)
  have tm: "timely [t, u]" by (simp add: timely_def tu)
  have "day_window [t, u] = [t, u]"
    by (simp add: day_window_def newest_minute_def tu)
  then show ?thesis
    using tm tu Summary24h_exact [OF tm, of zeroTime BTCUSDT]
    by (intro exI [of _ t] exI [of _ u]) (auto simp: in_i64_iff MaxInt64_def)
qed

text \<open>
  The summary does not guard against a trade that is a multiple of a day older than the
  newest one. Such a trade evicts the bucket of the newest minute from the ring: after a
  single trade at minute \<open>m\<close>, a trade at minute \<open>m - 1440\<close> leaves a summary
  whose volume and trade count are those of the day-old trade alone.
\<close>

lemma Summary24h_old_trade_evicts:
  assumes "trade_minute u = trade_minute t - 1440"
  shows "s24_trades (fold Summary_Apply [t, u] (NewSummary24h s)) = 1
    \<and> s24_volume (fold Summary_Apply [t, u] (NewSummary24h s)) = wrap64 (tr_Quantity u)
    \<and> s24_newestMinute (fold Summary_Apply [t, u] (NewSummary24h s)) = trade_minute t"
proof -
  define sm where "sm = Summary_Apply t (NewSummary24h s)"
  have "timely [t]" "int (length [t]) \<le> MaxInt64" by (simp_all add: timely_def MaxInt64_def)
  then have w: "window_of [t] sm" "s24_newestMinute sm = trade_minute t"
    using summary_window [of "[t]" s] by (simp_all add: sm_def day_window_def newest_minute_def)
  let ?i = "bucketIndex (trade_minute u)"
  have ix: "bucketIndex (trade_minute t) = ?i" unfolding assms by (simp add: bucketIndex_shift)
  have sl: "slot ?i [t] = [t]" "without_slot ?i [t] = []" by (simp_all add: slot_def without_slot_def ix)
  have len: "int (length [t]) \<le> MaxInt64" "int (length ([] @ [u])) \<le> MaxInt64" by (simp_all add: MaxInt64_def)
  have ex: "window_of [] (expire ?i sm)" "s24_newestMinute (expire ?i sm) = trade_minute t"
    using expire_window [OF w(1), of "trade_minute t" ?i] sl w(2) len by (simp_all add: in_window_def)
  have cnt: "s24_count sm = 1" using w(1) by (simp add: window_of_def used_slots_def)
  have "advance (trade_minute u) sm = sm" by (simp add: advance_def cnt w(2) assms)
  moreover have "s24_buckets sm ! ?i = bucket_val [t]" using w(1) sl by (simp add: window_of_def)
  ultimately have "Summary_Apply u sm = Summary_insert (trade_minute u) ?i u (expire ?i sm)"
    using assms by (simp add: Summary_Apply_def Let_def bucket_val_def)
  then have "fold Summary_Apply [t, u] (NewSummary24h s) = Summary_insert (trade_minute u) ?i u (expire ?i sm)"
    by (simp add: sm_def)
  then show ?thesis
    using insert_window [OF ex(1) len(2)] ex(2) assms by (simp add: slot_def window_of_def)
qed

section \<open>Reset\<close>

definition summary_shape :: "Summary24h \<Rightarrow> nat \<times> Symbol" where
  "summary_shape s = (length (s24_buckets s), s24_symbol s)"

lemma expire_shape: "summary_shape (expire i s) = summary_shape s"
  by (simp add: summary_shape_def expire_def Let_def recomputeHigh_def recomputeLow_def recomputeOpen_def case_prod_unfold)

lemma advance_shape: "summary_shape (advance m s) = summary_shape s"
proof -
  have "summary_shape (fold (expire_stale k) ms s) = summary_shape s" for k ms s
    by (induction ms arbitrary: s) (simp_all add: expire_stale_def Let_def expire_shape)
  then show ?thesis by (simp add: advance_def summary_shape_def Summary_clear_def)
qed

lemma Summary_insert_shape: "summary_shape (Summary_insert m i t s) = summary_shape s"
  by (simp add: summary_shape_def Summary_insert_def Let_def case_prod_unfold)

lemma Summary_Apply_shape: "summary_shape (fold Summary_Apply ts s) = summary_shape s"
  by (induction ts arbitrary: s) (simp_all add: Summary_Apply_def Let_def Summary_insert_shape expire_shape advance_shape)

lemma Summary_Reset_fresh: "Summary_Reset (fold Summary_Apply ts (NewSummary24h s)) = NewSummary24h s"
  using Summary_Apply_shape [of ts "NewSummary24h s"]
  by (simp add: summary_shape_def Summary_Reset_def Summary_clear_def NewSummary24h_def map_replicate_const)

end
