(* ===== verification/Bus.thy ===== *)
theory Bus
  imports Book
begin

text \<open>
  \<^verbatim>\<open>internal/market/bus.go\<close>: the bus that fans the engine's events out to the sessions.

  Subscriptions are Go pointers: the bus keeps a heap of them addressed by a number, and the set of
  addresses that are registered. A mailbox is a channel, a list of at most \<open>sub_cap\<close> events; what
  the consumer has read from it is kept in \<open>sub_received\<close>, so that what happened to an event can
  be stated. A critical event is sent with a blocking send and a 50 ms limit: what the consumer does
  in that time is an argument of \<open>Publish\<close>, one outcome per subscriber.
\<close>

section \<open>Events\<close>

datatype State = StateStarting | StateWarming | StateLive | StatePaused | StateDegraded | StateStopped

datatype EventKind = EventTrade | EventBookWindow | EventCandleChanged | EventCandleClosed | EventMarketStatus

definition EventKind_String :: "EventKind \<Rightarrow> string" where
  "EventKind_String k =
     (case k of EventTrade \<Rightarrow> ''trade'' | EventBookWindow \<Rightarrow> ''book_window''
      | EventCandleChanged \<Rightarrow> ''candle_changed'' | EventCandleClosed \<Rightarrow> ''candle_closed''
      | EventMarketStatus \<Rightarrow> ''market_status'')"

record MarketStatus =
  st_State :: State
  st_Epoch :: u64
  st_Message :: string
  st_At :: gotime

text \<open>The pointer fields of an event are options.\<close>

record Event =
  ev_Kind :: EventKind
  ev_Trade :: "Trade option"
  ev_Book :: "BookWindow option"
  ev_Candle :: "Candle option"
  ev_Status :: "MarketStatus option"

definition mkEvent :: "EventKind \<Rightarrow> Event" where
  "mkEvent k = \<lparr>ev_Kind = k, ev_Trade = None, ev_Book = None, ev_Candle = None, ev_Status = None\<rparr>"


section \<open>Subscriptions\<close>

record Subscription =
  sub_name :: string
  sub_cap :: nat
  sub_ch :: "Event list"
  sub_done :: bool
  sub_dropped :: u64
  sub_received :: "Event list"

definition sub_close :: "Subscription \<Rightarrow> Subscription" where
  "sub_close s = s\<lparr>sub_done := True\<rparr>"

text \<open>The consumer reads up to \<open>n\<close> events.\<close>

definition sub_read :: "nat \<Rightarrow> Subscription \<Rightarrow> Subscription" where
  "sub_read n s = s\<lparr>sub_received := sub_received s @ take n (sub_ch s), sub_ch := drop n (sub_ch s)\<rparr>"

definition sub_send :: "Event \<Rightarrow> Subscription \<Rightarrow> Subscription" where
  "sub_send ev s = s\<lparr>sub_ch := sub_ch s @ [ev]\<rparr>"

definition sub_full :: "Subscription \<Rightarrow> bool" where
  "sub_full s = (\<not> length (sub_ch s) < sub_cap s)"

text \<open>Within the limit of a blocking send the consumer reads some events, or leaves.\<close>

datatype waiting = Reads nat | Leaves

definition is_critical :: "Event \<Rightarrow> bool" where
  "is_critical ev = (ev_Kind ev = EventCandleClosed \<or> ev_Kind ev = EventMarketStatus)"

text \<open>The body of the loop of \<^verbatim>\<open>Publish\<close>, for one subscriber: the subscriber and the names reported.\<close>

definition publish_one :: "waiting \<Rightarrow> Event \<Rightarrow> Subscription \<Rightarrow> Subscription \<times> string list" where
  "publish_one w ev s =
     (if sub_done s then (s, [])
      else if is_critical ev then
        (case w of
           Leaves \<Rightarrow> (sub_close s, [])
         | Reads n \<Rightarrow>
             if sub_full (sub_read n s) then (sub_read n s, [sub_name s @ '':critical''])
             else (sub_send ev (sub_read n s), []))
      else if sub_full s then (s\<lparr>sub_dropped := sub_dropped s + 1\<rparr>, [sub_name s])
      else (sub_send ev s, []))"


section \<open>The bus\<close>

record Bus =
  bus_heap :: "nat \<Rightarrow> Subscription option"
  bus_next :: nat
  bus_subs :: "nat list"

definition NewBus :: Bus where
  "NewBus = \<lparr>bus_heap = (\<lambda>_. None), bus_next = 0, bus_subs = []\<rparr>"

definition Bus_Subscribe :: "string \<Rightarrow> int \<Rightarrow> Bus \<Rightarrow> Bus \<times> nat" where
  "Bus_Subscribe name capacity b =
     (let capacity = (if capacity \<le> 0 then 64 else nat capacity);
          p = bus_next b
      in (b\<lparr>bus_heap := (bus_heap b)(p \<mapsto> \<lparr>sub_name = name, sub_cap = capacity, sub_ch = [], sub_done = False,
               sub_dropped = 0, sub_received = []\<rparr>), bus_next := p + 1, bus_subs := bus_subs b @ [p]\<rparr>, p))"

definition Unsubscribe :: "nat \<Rightarrow> Bus \<Rightarrow> Bus" where
  "Unsubscribe p b =
     b\<lparr>bus_subs := removeAll p (bus_subs b), bus_heap := (bus_heap b)(p := map_option sub_close (bus_heap b p))\<rparr>"

definition SubscriberCount :: "Bus \<Rightarrow> nat" where
  "SubscriberCount b = length (bus_subs b)"

definition publish_to :: "(nat \<Rightarrow> waiting) \<Rightarrow> Event \<Rightarrow> nat \<Rightarrow> (nat \<Rightarrow> Subscription option) \<times> string list
    \<Rightarrow> (nat \<Rightarrow> Subscription option) \<times> string list" where
  "publish_to w ev p st =
     (case fst st p of
        None \<Rightarrow> st
      | Some s \<Rightarrow> (let (s', d) = publish_one (w p) ev s in ((fst st)(p \<mapsto> s'), snd st @ d)))"

definition Publish :: "(nat \<Rightarrow> waiting) \<Rightarrow> Event \<Rightarrow> Bus \<Rightarrow> Bus \<times> string list" where
  "Publish w ev b =
     (let (h, dropped) = fold (publish_to w ev) (bus_subs b) (bus_heap b, [])
      in (b\<lparr>bus_heap := h\<rparr>, dropped))"

definition Bus_Close :: "Bus \<Rightarrow> Bus" where
  "Bus_Close b =
     b\<lparr>bus_subs := [],
       bus_heap := fold (\<lambda>p h. h(p := map_option sub_close (h p))) (bus_subs b) (bus_heap b)\<rparr>"

text \<open>A consumer takes one event from its mailbox.\<close>

definition Bus_receive :: "nat \<Rightarrow> Bus \<Rightarrow> Bus" where
  "Bus_receive p b = b\<lparr>bus_heap := (bus_heap b)(p := map_option (sub_read 1) (bus_heap b p))\<rparr>"


section \<open>What reaches a subscriber\<close>

text \<open>Everything that entered a mailbox, in order.\<close>

definition sub_history :: "Subscription \<Rightarrow> Event list" where
  "sub_history s = sub_received s @ sub_ch s"

definition sub_inv :: "Subscription \<Rightarrow> bool" where
  "sub_inv s = (0 < sub_cap s \<and> length (sub_ch s) \<le> sub_cap s)"

definition bus_inv :: "Bus \<Rightarrow> bool" where
  "bus_inv b = (distinct (bus_subs b) \<and> (\<forall>p\<in>set (bus_subs b). p < bus_next b \<and> bus_heap b p \<noteq> None)
     \<and> (\<forall>p s. bus_heap b p = Some s \<longrightarrow> p < bus_next b \<and> sub_inv s))"

lemma sub_read_history [simp]: "sub_history (sub_read n s) = sub_history s"
  by (simp add: sub_history_def sub_read_def)

lemma sub_read_fields [simp]:
  "sub_name (sub_read n s) = sub_name s" "sub_cap (sub_read n s) = sub_cap s" "sub_done (sub_read n s) = sub_done s"
  "sub_dropped (sub_read n s) = sub_dropped s" "sub_ch (sub_read n s) = drop n (sub_ch s)"
  by (simp_all add: sub_read_def)

lemma sub_send_fields [simp]:
  "sub_history (sub_send ev s) = sub_history s @ [ev]" "sub_cap (sub_send ev s) = sub_cap s"
  "sub_done (sub_send ev s) = sub_done s" "sub_dropped (sub_send ev s) = sub_dropped s"
  "sub_ch (sub_send ev s) = sub_ch s @ [ev]" "sub_name (sub_send ev s) = sub_name s"
  by (simp_all add: sub_send_def sub_history_def)

lemma sub_close_fields [simp]:
  "sub_history (sub_close s) = sub_history s" "sub_cap (sub_close s) = sub_cap s" "sub_done (sub_close s)"
  "sub_dropped (sub_close s) = sub_dropped s" "sub_ch (sub_close s) = sub_ch s"
  "sub_history (s\<lparr>sub_dropped := k\<rparr>) = sub_history s"
  by (simp_all add: sub_close_def sub_history_def)

lemma sub_read_inv: "sub_inv s \<Longrightarrow> sub_inv (sub_read n s)"
  by (auto simp: sub_inv_def)

lemma publish_one_inv: "sub_inv s \<Longrightarrow> sub_inv (fst (publish_one w ev s))"
  by (auto simp: publish_one_def sub_inv_def sub_full_def sub_close_def split: waiting.splits)

lemma fold_publish_to:
  assumes "distinct ps"
  shows "fst (fold (publish_to w ev) ps (h, ds)) p
      = (if p \<in> set ps then map_option (\<lambda>s. fst (publish_one (w p) ev s)) (h p) else h p)"
    and "snd (fold (publish_to w ev) ps (h, ds))
      = ds @ concat (map (\<lambda>p. case h p of None \<Rightarrow> [] | Some s \<Rightarrow> snd (publish_one (w p) ev s)) ps)"
proof -
  have "fst (fold (publish_to w ev) ps (h, ds)) p
      = (if p \<in> set ps then map_option (\<lambda>s. fst (publish_one (w p) ev s)) (h p) else h p)
    \<and> snd (fold (publish_to w ev) ps (h, ds))
      = ds @ concat (map (\<lambda>p. case h p of None \<Rightarrow> [] | Some s \<Rightarrow> snd (publish_one (w p) ev s)) ps)"
    using assms
  proof (induction ps arbitrary: h ds)
    case (Cons q ps)
    have q: "q \<notin> set ps" using Cons.prems by simp
    obtain h' ds' where st: "publish_to w ev q (h, ds) = (h', ds')" by force
    then have h': "h' = h(q := map_option (\<lambda>s. fst (publish_one (w q) ev s)) (h q))"
      "ds' = ds @ (case h q of None \<Rightarrow> [] | Some s \<Rightarrow> snd (publish_one (w q) ev s))"
      by (auto simp: publish_to_def case_prod_unfold Let_def split: option.splits)
    have eq: "concat (map (\<lambda>p. case h' p of None \<Rightarrow> [] | Some s \<Rightarrow> snd (publish_one (w p) ev s)) ps)
        = concat (map (\<lambda>p. case h p of None \<Rightarrow> [] | Some s \<Rightarrow> snd (publish_one (w p) ev s)) ps)"
      using q by (intro arg_cong [where f = concat] map_cong) (auto simp: h')
    have "distinct ps" using Cons.prems by simp
    note ih = Cons.IH [OF this, of h' ds']
    have f: "fold (publish_to w ev) (q # ps) (h, ds) = fold (publish_to w ev) ps (h', ds')" by (simp add: st)
    show ?case
    proof
      show "fst (fold (publish_to w ev) (q # ps) (h, ds)) p
          = (if p \<in> set (q # ps) then map_option (\<lambda>s. fst (publish_one (w p) ev s)) (h p) else h p)"
        unfolding f conjunct1 [OF ih] using q by (simp add: h')
      show "snd (fold (publish_to w ev) (q # ps) (h, ds))
          = ds @ concat (map (\<lambda>p. case h p of None \<Rightarrow> [] | Some s \<Rightarrow> snd (publish_one (w p) ev s)) (q # ps))"
        unfolding f conjunct2 [OF ih] eq by (simp add: h')
    qed
  qed simp
  then show "fst (fold (publish_to w ev) ps (h, ds)) p
      = (if p \<in> set ps then map_option (\<lambda>s. fst (publish_one (w p) ev s)) (h p) else h p)"
    "snd (fold (publish_to w ev) ps (h, ds))
      = ds @ concat (map (\<lambda>p. case h p of None \<Rightarrow> [] | Some s \<Rightarrow> snd (publish_one (w p) ev s)) ps)" by simp_all
qed

lemma Publish_heap:
  assumes "bus_inv b" "Publish w ev b = (b', dropped)"
  shows "bus_subs b' = bus_subs b" "bus_next b' = bus_next b"
    "bus_heap b' p = (if p \<in> set (bus_subs b) then map_option (\<lambda>s. fst (publish_one (w p) ev s)) (bus_heap b p)
        else bus_heap b p)"
    "dropped = concat (map (\<lambda>p. case bus_heap b p of None \<Rightarrow> [] | Some s \<Rightarrow> snd (publish_one (w p) ev s)) (bus_subs b))"
proof -
  have d: "distinct (bus_subs b)" using assms(1) by (simp add: bus_inv_def)
  obtain h ds where f: "fold (publish_to w ev) (bus_subs b) (bus_heap b, []) = (h, ds)" by force
  then have r: "b' = b\<lparr>bus_heap := h\<rparr>" "dropped = ds" using assms(2) by (simp_all add: Publish_def)
  show "bus_subs b' = bus_subs b" "bus_next b' = bus_next b" by (simp_all add: r)
  show "bus_heap b' p = (if p \<in> set (bus_subs b) then map_option (\<lambda>s. fst (publish_one (w p) ev s)) (bus_heap b p)
        else bus_heap b p)"
    using fold_publish_to(1) [OF d, of w ev "bus_heap b" "[]" p] by (simp add: f r)
  show "dropped = concat (map (\<lambda>p. case bus_heap b p of None \<Rightarrow> [] | Some s \<Rightarrow> snd (publish_one (w p) ev s)) (bus_subs b))"
    using fold_publish_to(2) [OF d, of w ev "bus_heap b" "[]"] by (simp add: f r)
qed

lemma Bus_Close_heap:
  "distinct (bus_subs b) \<Longrightarrow>
     bus_heap (Bus_Close b) p = (if p \<in> set (bus_subs b) then map_option sub_close (bus_heap b p) else bus_heap b p)"
proof -
  have "distinct ps \<Longrightarrow> fold (\<lambda>p h. h(p := map_option sub_close (h p))) ps h p
      = (if p \<in> set ps then map_option sub_close (h p) else h p)" for ps h
    by (induction ps arbitrary: h) auto
  then show "distinct (bus_subs b) \<Longrightarrow>
     bus_heap (Bus_Close b) p = (if p \<in> set (bus_subs b) then map_option sub_close (bus_heap b p) else bus_heap b p)"
    by (simp add: Bus_Close_def)
qed

text \<open>
  Publishing never loses what was queued and never blocks on a full mailbox. For every
  registered, live subscriber, everything that entered its mailbox stays in order, and the event is
  appended behind it, except in three cases: a non-critical event to a full mailbox is dropped, counted
  and reported; a critical event whose mailbox is still full at the time limit is reported as critical
  and not counted; and a subscriber that leaves while a critical send waits is closed. Mailboxes never
  exceed their capacity, and a subscriber that is gone or not registered is not touched.
\<close>

lemma Publish_delivers:
  assumes "bus_inv b" "Publish w ev b = (b', dropped)"
  shows "bus_inv b' \<and> bus_subs b' = bus_subs b
    \<and> (\<forall>p s. bus_heap b p = Some s \<longrightarrow> (\<exists>s'. bus_heap b' p = Some s' \<and>
         (if p \<notin> set (bus_subs b) \<or> sub_done s then s' = s
          else if \<not> is_critical ev then
            (if sub_full s
             then s' = s\<lparr>sub_dropped := sub_dropped s + 1\<rparr> \<and> sub_name s \<in> set dropped
             else sub_history s' = sub_history s @ [ev] \<and> sub_dropped s' = sub_dropped s)
          else sub_dropped s' = sub_dropped s \<and>
            (case w p of
               Leaves \<Rightarrow> sub_history s' = sub_history s \<and> sub_done s'
             | Reads n \<Rightarrow>
                 if length (sub_ch s) - n < sub_cap s then sub_history s' = sub_history s @ [ev]
                 else sub_history s' = sub_history s \<and> (sub_name s @ '':critical'') \<in> set dropped))))"
proof -
  note h = Publish_heap [OF assms]
  have inv: "bus_inv b'"
    unfolding bus_inv_def
  proof (intro conjI allI impI ballI)
    show "distinct (bus_subs b')" using assms(1) h(1) by (simp add: bus_inv_def)
    show "p < bus_next b'" "bus_heap b' p \<noteq> None" if "p \<in> set (bus_subs b')" for p
      using that assms(1) by (auto simp: bus_inv_def h(1-3))
    show "p < bus_next b'" "sub_inv s" if "bus_heap b' p = Some s" for p s
      using that assms(1) publish_one_inv
      by (auto simp: bus_inv_def h(2,3) split: if_splits)
  qed
  have rep: "set (snd (publish_one (w p) ev s)) \<subseteq> set dropped" if "p \<in> set (bus_subs b)" "bus_heap b p = Some s" for p s
    using that by (auto simp: h(4) intro!: bexI [of _ p])
  show ?thesis
  proof (intro conjI allI impI)
    show "bus_inv b'" "bus_subs b' = bus_subs b" by (fact inv, fact h(1))
    fix p s
    assume s: "bus_heap b p = Some s"
    show "\<exists>s'. bus_heap b' p = Some s' \<and>
         (if p \<notin> set (bus_subs b) \<or> sub_done s then s' = s
          else if \<not> is_critical ev then
            (if sub_full s
             then s' = s\<lparr>sub_dropped := sub_dropped s + 1\<rparr> \<and> sub_name s \<in> set dropped
             else sub_history s' = sub_history s @ [ev] \<and> sub_dropped s' = sub_dropped s)
          else sub_dropped s' = sub_dropped s \<and>
            (case w p of
               Leaves \<Rightarrow> sub_history s' = sub_history s \<and> sub_done s'
             | Reads n \<Rightarrow>
                 if length (sub_ch s) - n < sub_cap s then sub_history s' = sub_history s @ [ev]
                 else sub_history s' = sub_history s \<and> (sub_name s @ '':critical'') \<in> set dropped))"
    proof (cases "p \<in> set (bus_subs b)")
      case True
      show ?thesis
        using rep [OF True s] True s unfolding h(3)
        by (auto simp: publish_one_def sub_full_def split: waiting.splits)
    qed (simp add: h(3) s)
  qed
qed

text \<open>A bus with one full mailbox.\<close>

definition full_bus :: Bus where
  "full_bus = fst (Publish (\<lambda>_. Reads 0) (mkEvent EventTrade) (fst (Bus_Subscribe ''s'' 1 NewBus)))"

lemma full_bus_simps:
  "bus_subs full_bus = [0]" "bus_inv full_bus"
  "bus_heap full_bus 0 = Some \<lparr>sub_name = ''s'', sub_cap = 1, sub_ch = [mkEvent EventTrade], sub_done = False,
     sub_dropped = 0, sub_received = []\<rparr>"
  by (auto simp: full_bus_def Publish_def Bus_Subscribe_def NewBus_def publish_to_def publish_one_def sub_full_def
      sub_send_def is_critical_def mkEvent_def bus_inv_def sub_inv_def split: if_splits)

section \<open>Runs of the bus\<close>

text \<open>Where in the log of published events each subscription started is kept beside the bus.\<close>

inductive bus_run :: "Bus \<Rightarrow> (nat \<Rightarrow> nat) \<Rightarrow> Event list \<Rightarrow> bool" where
  bus_new: "bus_run NewBus (\<lambda>_. 0) []"
| bus_subscribe: "bus_run b off evs \<Longrightarrow> Bus_Subscribe name cap b = (b', p) \<Longrightarrow> bus_run b' (off(p := length evs)) evs"
| bus_unsubscribe: "bus_run b off evs \<Longrightarrow> bus_run (Unsubscribe p b) off evs"
| bus_publish: "bus_run b off evs \<Longrightarrow> Publish w ev b = (b', dropped) \<Longrightarrow> bus_run b' off (evs @ [ev])"
| bus_receive: "bus_run b off evs \<Longrightarrow> bus_run (Bus_receive p b) off evs"
| bus_close: "bus_run b off evs \<Longrightarrow> bus_run (Bus_Close b) off evs"

definition plain_count :: "Event list \<Rightarrow> u64" where
  "plain_count evs = of_nat (length (filter (\<lambda>e. \<not> is_critical e) evs))"

definition sub_account :: "nat \<Rightarrow> bool \<Rightarrow> Event list \<Rightarrow> Subscription \<Rightarrow> bool" where
  "sub_account off registered evs s =
     (off \<le> length evs \<and> subseq (sub_history s) (drop off evs)
      \<and> (registered \<and> \<not> sub_done s \<longrightarrow> plain_count (drop off evs) = plain_count (sub_history s) + sub_dropped s))"

lemma plain_count_simps [simp]:
  "plain_count [] = 0" "plain_count (xs @ [e]) = plain_count xs + (if is_critical e then 0 else 1)"
  by (simp_all add: plain_count_def)

lemma subseq_snoc: "subseq xs ys \<Longrightarrow> subseq xs (ys @ [y])" "subseq xs ys \<Longrightarrow> subseq (xs @ [y]) (ys @ [y])"
  by auto

lemma sub_account_read: "sub_account off r evs s \<Longrightarrow> sub_account off r evs (sub_read n s)"
  by (simp add: sub_account_def)

lemma sub_account_publish:
  assumes "sub_account off True evs s"
  shows "sub_account off True (evs @ [ev]) (fst (publish_one w ev s))"
  using assms
  by (auto simp: sub_account_def publish_one_def subseq_snoc split: waiting.splits)

lemma Publish_bus_inv: "bus_inv b \<Longrightarrow> Publish w ev b = (b', dropped) \<Longrightarrow> bus_inv b'"
  unfolding bus_inv_def [of b']
  using Publish_heap [of b w ev b' dropped] publish_one_inv
  by (auto simp: bus_inv_def split: if_splits)

lemma bus_run_inv:
  "bus_run b off evs \<Longrightarrow> bus_inv b \<and> (\<forall>p s. bus_heap b p = Some s \<longrightarrow> sub_account (off p) (p \<in> set (bus_subs b)) evs s)"
proof (induction rule: bus_run.induct)
  case bus_new
  show ?case by (simp add: NewBus_def bus_inv_def)
next
  case (bus_subscribe b off evs name cap b' p)
  then have "bus_heap b p = None" "p \<notin> set (bus_subs b)"
    by (auto simp: Bus_Subscribe_def Let_def bus_inv_def) (metis less_irrefl not_None_eq)
  then show ?case
    using bus_subscribe
    by (auto simp: Bus_Subscribe_def Let_def bus_inv_def sub_inv_def sub_account_def sub_history_def less_Suc_eq
        split: if_splits)
next
  case (bus_unsubscribe b off evs p)
  then show ?case
    by (auto simp: Unsubscribe_def bus_inv_def sub_inv_def distinct_removeAll sub_account_def split: if_splits)
next
  case (bus_publish b off evs w ev b' dropped)
  then have inv: "bus_inv b" and acc: "\<And>p s. bus_heap b p = Some s \<Longrightarrow> sub_account (off p) (p \<in> set (bus_subs b)) evs s"
    by auto
  note h = Publish_heap [OF inv bus_publish.hyps(2)]
  have "sub_account (off p) (p \<in> set (bus_subs b')) (evs @ [ev]) s" if hs: "bus_heap b' p = Some s" for p s
  proof (cases "p \<in> set (bus_subs b)")
    case True
    then obtain s0 where "bus_heap b p = Some s0" "s = fst (publish_one (w p) ev s0)" using hs by (auto simp: h(3))
    then show ?thesis using sub_account_publish acc True h(1) by fastforce
  next
    case False
    then have "sub_account (off p) False evs s" using acc [of p s] hs by (simp add: h(3))
    then show ?thesis using False h(1) by (simp add: sub_account_def subseq_snoc)
  qed
  then show ?case using Publish_bus_inv [OF inv bus_publish.hyps(2)] by blast
next
  case (bus_receive b off evs p)
  then show ?case
    by (auto simp: Bus_receive_def bus_inv_def sub_read_inv sub_account_read split: if_splits)
next
  case (bus_close b off evs)
  then have d: "distinct (bus_subs b)" by (simp add: bus_inv_def)
  have "bus_subs (Bus_Close b) = []" "bus_next (Bus_Close b) = bus_next b" by (simp_all add: Bus_Close_def)
  then show ?case
    using bus_close Bus_Close_heap [OF d]
    by (auto simp: bus_inv_def sub_inv_def sub_account_def split: if_splits)
qed

text \<open>
  C34. What a subscriber sees is the engine's stream with counted omissions. In every run of the bus
  (subscriptions, departures, publications under any behaviour of the consumers, reads, close), what
  entered a subscriber's mailbox is a subsequence, in order, of the events published since it
  subscribed; its mailbox is within capacity; and for a subscriber still registered, the non-critical
  events it got plus its drop counter are exactly the non-critical events published since.
\<close>

theorem Bus_run_accounts:
  assumes "bus_run b off evs" "bus_heap b p = Some s"
  shows "subseq (sub_received s @ sub_ch s) (drop (off p) evs) \<and> length (sub_ch s) \<le> sub_cap s
    \<and> (p \<in> set (bus_subs b) \<and> \<not> sub_done s \<longrightarrow>
        plain_count (drop (off p) evs) = plain_count (sub_received s @ sub_ch s) + sub_dropped s)"
  using bus_run_inv [OF assms(1)] assms(2)
  by (auto simp: sub_account_def bus_inv_def sub_inv_def sub_history_def)

theorem Bus_run_accounts_witness:
  "\<exists>b s. bus_run b (\<lambda>_. 0) [mkEvent EventTrade, mkEvent EventTrade] \<and> bus_heap b 0 = Some s \<and> sub_dropped s = 1
     \<and> subseq (sub_received s @ sub_ch s) [mkEvent EventTrade, mkEvent EventTrade]"
proof -
  obtain b d where p: "Publish (\<lambda>_. Reads 0) (mkEvent EventTrade) full_bus = (b, d)" by force
  have r0: "bus_run (fst (Bus_Subscribe ''s'' 1 NewBus)) (\<lambda>_. 0) []"
    using bus_subscribe [OF bus_new, of "''s''" 1 "fst (Bus_Subscribe ''s'' 1 NewBus)" "snd (Bus_Subscribe ''s'' 1 NewBus)"]
    by (simp add: fun_upd_idem)
  have r1: "bus_run full_bus (\<lambda>_. 0) [mkEvent EventTrade]"
    unfolding full_bus_def
    using bus_publish [OF r0, of "\<lambda>_. Reads 0" "mkEvent EventTrade"] by (metis append_Nil prod.collapse)
  have r2: "bus_run b (\<lambda>_. 0) [mkEvent EventTrade, mkEvent EventTrade]"
    using bus_publish [OF r1 p] by simp
  obtain s where s: "bus_heap b 0 = Some s" "sub_dropped s = 1"
    using Publish_heap(3) [OF full_bus_simps(2) p, of 0] full_bus_simps(1,3)
    by (auto simp: publish_one_def is_critical_def mkEvent_def sub_full_def)
  show ?thesis using Bus_run_accounts [OF r2 s(1)] r2 s by auto
qed

end
