(* ===== verification/Engine.thy ===== *)
theory Engine
  imports Aggregator Summary Bus
begin

text \<open>
  \<^verbatim>\<open>internal/market/engine.go\<close> and \<^verbatim>\<open>registry.go\<close>: the engine that owns one market's
  book, candles, 24-hour summary and trade tape and is their only writer, and the registry of engines.

  The provider is code behind an interface: the result of its \<^verbatim>\<open>Snapshot\<close> and the events of its
  stream are arguments, the calls the engine makes on its optional interfaces are logged in
  \<open>en_calls\<close>. The calls to \<^verbatim>\<open>bus.Publish\<close>, whose result the engine ignores, are logged in
  \<open>en_out\<close>, those to the recorder in \<open>en_rec\<close>. The clock reading of an operation is its
  argument \<open>now\<close>. \<^term>\<open>None\<close> is a panic.
\<close>

section \<open>Configuration and state\<close>

record Config =
  cfg_Symbol :: Symbol
  cfg_Seed :: int
  cfg_BookLevels :: int
  cfg_BookDeltaWindow :: int
  cfg_BookRefreshHz :: rat
  cfg_WarmupEvents :: int
  cfg_RecentTradesCap :: int
  cfg_HistoryDepth :: int
  cfg_VolatilityBurstRate :: rat
  cfg_BusCapacity :: int

definition withDefaults :: "Config \<Rightarrow> Config" where
  "withDefaults c =
     c\<lparr>cfg_BookLevels := (if cfg_BookLevels c < 15 then 100 else cfg_BookLevels c),
       cfg_BookDeltaWindow := (if cfg_BookDeltaWindow c < 10 then 15 else cfg_BookDeltaWindow c),
       cfg_BookRefreshHz := (if cfg_BookRefreshHz c \<le> 0 then 10 else cfg_BookRefreshHz c),
       cfg_RecentTradesCap := (if cfg_RecentTradesCap c < 50 then 200 else cfg_RecentTradesCap c),
       cfg_HistoryDepth := (if cfg_HistoryDepth c \<le> 0 then 500 else cfg_HistoryDepth c),
       cfg_BusCapacity := (if cfg_BusCapacity c \<le> 0 then 256 else cfg_BusCapacity c)\<rparr>"

datatype engine_error =
    ErrSnapshotFailed string
  | ErrInstall domain_error
  | ErrProviderClosed
  | ErrContext
  | ErrInterval

text \<open>The text of a recorded event: an error's text, or a literal.\<close>

datatype detail = DetailNone | DetailErr domain_error | DetailText string | DetailEvents int

record EngineEvent =
  ee_Event :: string
  ee_Epoch :: u64
  ee_EventIndex :: u64
  ee_UpdateID :: u64
  ee_TradeID :: u64
  ee_Detail :: detail
  ee_DurationMs :: int
  ee_At :: gotime

definition engineEvent :: "string \<Rightarrow> u64 \<Rightarrow> detail \<Rightarrow> gotime \<Rightarrow> EngineEvent" where
  "engineEvent name epoch d now =
     \<lparr>ee_Event = name, ee_Epoch = epoch, ee_EventIndex = 0, ee_UpdateID = 0, ee_TradeID = 0, ee_Detail = d,
      ee_DurationMs = 0, ee_At = now\<rparr>"

datatype record_call = RecordEngineEvent EngineEvent | RecordCandleClose Candle

datatype Pace = PaceRealtime | PaceFast

datatype provider_call = CallSetPace Pace | CallPause | CallResume | CallForceBurst int

text \<open>The optional interfaces a provider may implement.\<close>

record capabilities =
  is_PaceController :: bool
  is_Pauser :: bool
  is_Burster :: bool

record Engine =
  en_cfg :: Config
  en_symbol :: Symbol
  en_caps :: capabilities
  en_book :: OrderBook
  en_aggregators :: "CandleAggregator list"
  en_summary :: Summary24h
  en_trades :: TradeRing
  en_rng :: Rand
  en_epoch :: u64
  en_eventIndex :: u64
  en_state :: State
  en_lastPrice :: price
  en_warmupDone :: bool
  en_lastErr :: "engine_error option"
  en_out :: "Event list"
  en_rec :: "record_call list"
  en_calls :: "provider_call list"

text \<open>\<^verbatim>\<open>exchange.MarketEvent\<close>.\<close>

record BookDelta =
  bd_Symbol :: string
  bd_Epoch :: u64
  bd_FirstUpdate :: u64
  bd_LastUpdate :: u64
  bd_Bids :: "Level list"
  bd_Asks :: "Level list"
  bd_Timestamp :: gotime

datatype MarketEvent =
    TradeEvent Trade
  | BookDeltaEvent BookDelta
  | HeartbeatEvent gotime
  | FaultEvent string string gotime

definition MarketEvent_At :: "MarketEvent \<Rightarrow> gotime" where
  "MarketEvent_At ev =
     (case ev of TradeEvent t \<Rightarrow> tr_Timestamp t | BookDeltaEvent d \<Rightarrow> bd_Timestamp d | HeartbeatEvent at' \<Rightarrow> at'
      | FaultEvent _ _ at' \<Rightarrow> at')"


section \<open>Construction\<close>

definition new_engine :: "Config \<Rightarrow> capabilities \<Rightarrow> Rand \<Rightarrow> Engine" where
  "new_engine cfg caps rng =
     \<lparr>en_cfg = cfg, en_symbol = cfg_Symbol cfg, en_caps = caps,
      en_book = NewOrderBook (cfg_Symbol cfg) (cfg_BookLevels cfg) (cfg_BookDeltaWindow cfg),
      en_aggregators = map (\<lambda>iv. NewCandleAggregator (cfg_Symbol cfg) iv (cfg_HistoryDepth cfg)) Intervals,
      en_summary = NewSummary24h (cfg_Symbol cfg), en_trades = NewTradeRing (cfg_RecentTradesCap cfg),
      en_rng = rng, en_epoch = 0, en_eventIndex = 0, en_state = StateStarting, en_lastPrice = 0,
      en_warmupDone = False, en_lastErr = None, en_out = [], en_rec = [], en_calls = []\<rparr>"

definition Engine_New ::
  "Config \<Rightarrow> capabilities \<Rightarrow> Rand \<Rightarrow> string + OrderBookSnapshot \<Rightarrow> engine_error + Engine" where
  "Engine_New cfg caps rng snapshot =
     (let e = new_engine (withDefaults cfg) caps rng
      in case snapshot of
           Inl err \<Rightarrow> Inl (ErrSnapshotFailed err)
         | Inr snap \<Rightarrow>
             (case Install (ob_Epoch snap) (ob_UpdateID snap) (ob_Bids snap) (ob_Asks snap) (en_book e) of
                (_, Inl err) \<Rightarrow> Inl (ErrInstall err)
              | (b, Inr _) \<Rightarrow> Inr (e\<lparr>en_book := b\<rparr>)))"


section \<open>The write path\<close>

definition engine_publish :: "Event \<Rightarrow> Engine \<Rightarrow> Engine" where
  "engine_publish ev e = e\<lparr>en_out := en_out e @ [ev]\<rparr>"

definition engine_record :: "record_call \<Rightarrow> Engine \<Rightarrow> Engine" where
  "engine_record rc e = e\<lparr>en_rec := en_rec e @ [rc]\<rparr>"

definition publishStatus :: "string \<Rightarrow> gotime \<Rightarrow> Engine \<Rightarrow> Engine" where
  "publishStatus message now e =
     engine_publish ((mkEvent EventMarketStatus)\<lparr>ev_Status := Some \<lparr>st_State = en_state e, st_Epoch = en_epoch e,
        st_Message = message, st_At = now\<rparr>\<rparr>) e"

definition setState :: "State \<Rightarrow> Engine \<Rightarrow> Engine" where
  "setState s e = e\<lparr>en_state := s\<rparr>"

definition recordInvariant :: "gotime \<Rightarrow> domain_error \<Rightarrow> Trade \<Rightarrow> Engine \<Rightarrow> Engine" where
  "recordInvariant now err t e =
     engine_record (RecordEngineEvent \<lparr>ee_Event = ''INVARIANT_VIOLATION'', ee_Epoch = en_epoch e,
        ee_EventIndex = en_eventIndex e, ee_UpdateID = bk_updateID (en_book e), ee_TradeID = tr_ID t,
        ee_Detail = DetailErr err, ee_DurationMs = 0, ee_At = now\<rparr>) e"

text \<open>The loop of \<^verbatim>\<open>applyTrade\<close> over the aggregators: the aggregators, the candles changed and closed.\<close>

fun apply_aggregators ::
  "gotime \<Rightarrow> Trade \<Rightarrow> CandleAggregator list \<Rightarrow> Engine
     \<Rightarrow> (CandleAggregator list \<times> Candle list \<times> Candle list \<times> Engine) option" where
  "apply_aggregators now t [] e = Some ([], [], [], e)"
| "apply_aggregators now t (a # as) e =
     (case Agg_Apply t a of
        None \<Rightarrow> None
      | Some (a', changed, finished) \<Rightarrow>
          let e1 = (case finished of
                      None \<Rightarrow> e
                    | Some c \<Rightarrow> (case Candle_Validate c of Inl err \<Rightarrow> recordInvariant now err t e | Inr _ \<Rightarrow> e))
          in case apply_aggregators now t as e1 of
               None \<Rightarrow> None
             | Some (as', ch, cl, e2) \<Rightarrow>
                 Some (a' # as', (if changed \<and> snd (Agg_Active a') then [fst (Agg_Active a')] else []) @ ch,
                       (case finished of None \<Rightarrow> [] | Some c \<Rightarrow> [c]) @ cl, e2))"

definition window_of_mutation :: "string \<Rightarrow> Mutation \<Rightarrow> BookWindow" where
  "window_of_mutation description m =
     \<lparr>bw_Symbol = mu_Symbol m, bw_Epoch = mu_Epoch m, bw_UpdateID = mu_LastUpdate m, bw_Bids = mu_Bids m,
      bw_Asks = mu_Asks m, bw_At = mu_At m, bw_Description = description\<rparr>"

definition book_event :: "BookWindow \<Rightarrow> Event" where
  "book_event w = (mkEvent EventBookWindow)\<lparr>ev_Book := Some w\<rparr>"

definition candle_event :: "EventKind \<Rightarrow> Candle \<Rightarrow> Event" where
  "candle_event k c = (mkEvent k)\<lparr>ev_Candle := Some c\<rparr>"

definition trade_event :: "Trade \<Rightarrow> Event" where
  "trade_event t = (mkEvent EventTrade)\<lparr>ev_Trade := Some t\<rparr>"

text \<open>The publication part of \<^verbatim>\<open>applyTrade\<close>, after the canonical state is updated.\<close>

definition emit_trade :: "Trade \<Rightarrow> Mutation option \<Rightarrow> Candle list \<Rightarrow> Candle list \<Rightarrow> Engine \<Rightarrow> Engine" where
  "emit_trade t mutation changed closed_cs e =
     (let e1 = fold (\<lambda>c e. engine_publish (candle_event EventCandleClosed c) (engine_record (RecordCandleClose c) e)) closed_cs e;
          e2 = (case mutation of
                  None \<Rightarrow> e1
                | Some m \<Rightarrow> engine_publish (book_event (window_of_mutation ''trade'' m)) e1);
          e3 = fold (\<lambda>c. engine_publish (candle_event EventCandleChanged c)) changed e2
      in engine_publish (trade_event t) e3)"

definition applyTrade :: "gotime \<Rightarrow> Trade \<Rightarrow> bool \<Rightarrow> Engine \<Rightarrow> Engine option" where
  "applyTrade now t emit e =
     (case ApplyTrade t (en_rng e) (en_book e) of
        None \<Rightarrow> None
      | Some (b, mutation, r) \<Rightarrow>
          let e1 = e\<lparr>en_eventIndex := en_eventIndex e + 1, en_lastPrice := tr_Price t, en_book := b, en_rng := r\<rparr>
          in case Option.bind mutation mu_Err of
               Some err \<Rightarrow> Some (recordInvariant now err t e1)
             | None \<Rightarrow>
                 (case apply_aggregators now t (en_aggregators e1) e1 of
                    None \<Rightarrow> None
                  | Some (as, changed, closed_cs, e2) \<Rightarrow>
                      let e3 = e2\<lparr>en_aggregators := as, en_summary := Summary_Apply t (en_summary e2),
                                  en_trades := Tape_Push t (en_trades e2)\<rparr>
                      in Some (if emit then emit_trade t mutation changed closed_cs e3 else e3)))"

definition applyProviderDelta :: "BookDelta \<Rightarrow> bool \<Rightarrow> Engine \<Rightarrow> Engine" where
  "applyProviderDelta evt emit e =
     (case ApplyDelta (bd_Epoch evt) (bd_FirstUpdate evt) (bd_LastUpdate evt) (bd_Bids evt) (bd_Asks evt)
             (bd_Timestamp evt) (en_book e) of
        (b, Inl err) \<Rightarrow>
          engine_record (RecordEngineEvent (engineEvent ''PROVIDER_DELTA_REJECTED'' (en_epoch e) (DetailErr err) (bd_Timestamp evt)))
            (e\<lparr>en_book := b\<rparr>)
      | (b, Inr m) \<Rightarrow>
          let e1 = e\<lparr>en_book := b\<rparr>
          in if emit then engine_publish (book_event (window_of_mutation ''provider'' m)) e1 else e1)"

definition refreshBook :: "gotime \<Rightarrow> Engine \<Rightarrow> Engine option" where
  "refreshBook now e =
     (let mid = (if en_lastPrice e = 0
                 then (case Book_BestBid (en_book e) of None \<Rightarrow> 0 | Some best \<Rightarrow> lv_Price best)
                 else en_lastPrice e)
      in case Refresh (en_rng e) mid now (en_book e) of
           None \<Rightarrow> None
         | Some (b, mutation, r) \<Rightarrow>
             let e1 = e\<lparr>en_book := b, en_rng := r\<rparr>
             in case mutation of
                  None \<Rightarrow> Some e1
                | Some m \<Rightarrow>
                    (case mu_Err m of
                       Some err \<Rightarrow> Some (recordInvariant now err zeroTrade e1)
                     | None \<Rightarrow> Some (engine_publish (book_event (window_of_mutation ''refresh'' m)) e1)))"

definition applyEvent :: "gotime \<Rightarrow> MarketEvent \<Rightarrow> bool \<Rightarrow> Engine \<Rightarrow> Engine option" where
  "applyEvent now ev emit e =
     (case ev of
        TradeEvent t \<Rightarrow> applyTrade now t emit e
      | BookDeltaEvent d \<Rightarrow> Some (applyProviderDelta d emit e)
      | FaultEvent kind description ts \<Rightarrow>
          Some (engine_record (RecordEngineEvent (engineEvent ''FAULT_INJECTED'' (en_epoch e)
                  (DetailText (kind @ '': '' @ description)) ts)) e)
      | HeartbeatEvent _ \<Rightarrow> Some e)"

definition Engine_Step :: "gotime \<Rightarrow> MarketEvent \<Rightarrow> Engine \<Rightarrow> Engine option" where
  "Engine_Step now ev e = applyEvent now ev True e"


section \<open>Lifecycle\<close>

text \<open>
  The warmup loop. The stream is the list of events still to come, after which it is closed; the
  context is cancelled after \<open>cancel\<close> more events, if at all. The result is the engine, the rest of the
  stream and the error returned.
\<close>

fun warmup_loop ::
  "gotime \<Rightarrow> nat \<Rightarrow> nat option \<Rightarrow> MarketEvent list \<Rightarrow> Engine
     \<Rightarrow> (Engine \<times> MarketEvent list \<times> engine_error option) option" where
  "warmup_loop now 0 cancel stream e = Some (e, stream, None)"
| "warmup_loop now (Suc n) cancel stream e =
     (if cancel = Some 0 then Some (e, stream, Some ErrContext)
      else case stream of
             [] \<Rightarrow> Some (e, [], Some ErrProviderClosed)
           | ev # rest \<Rightarrow>
               (case applyEvent now ev False e of
                  None \<Rightarrow> None
                | Some e' \<Rightarrow> warmup_loop now n (map_option (\<lambda>k. k - 1) cancel) rest e'))"

definition call_SetPace :: "Pace \<Rightarrow> Engine \<Rightarrow> Engine" where
  "call_SetPace p e = (if is_PaceController (en_caps e) then e\<lparr>en_calls := en_calls e @ [CallSetPace p]\<rparr> else e)"

definition warmup_budget :: "Engine \<Rightarrow> nat" where
  "warmup_budget e = (if cfg_WarmupEvents (en_cfg e) \<le> 0 then 200000 else nat (cfg_WarmupEvents (en_cfg e)))"

definition warmup ::
  "gotime \<Rightarrow> gotime \<Rightarrow> nat option \<Rightarrow> MarketEvent list \<Rightarrow> Engine
     \<Rightarrow> (Engine \<times> MarketEvent list \<times> engine_error option) option" where
  "warmup start now cancel stream e =
     (let e1 = call_SetPace PaceFast (setState StateWarming e);
          budget = warmup_budget e1
      in case warmup_loop now budget cancel stream e1 of
           None \<Rightarrow> None
         | Some (e2, rest, Some err) \<Rightarrow> Some (e2, rest, Some err)
         | Some (e2, rest, None) \<Rightarrow>
             let e3 = (call_SetPace PaceRealtime e2)\<lparr>en_warmupDone := True\<rparr>
             in Some (engine_record (RecordEngineEvent \<lparr>ee_Event = ''WARMUP_COMPLETE'', ee_Epoch = en_epoch e3,
                        ee_EventIndex = en_eventIndex e3, ee_UpdateID = bk_updateID (en_book e3), ee_TradeID = 0,
                        ee_Detail = DetailEvents (int budget), ee_DurationMs = Time_Sub now start sdiv 1000000,
                        ee_At = now\<rparr>) e3, rest, None))"

text \<open>What the select of the live loop of \<^verbatim>\<open>Run\<close> can receive, and one round of that loop: the
  engine and, when the loop returns, the error it returns.\<close>

datatype run_input = CtxDone | RefreshTick | StreamEvent MarketEvent | StreamClosed

definition run_step :: "gotime \<Rightarrow> run_input \<Rightarrow> Engine \<Rightarrow> (Engine \<times> engine_error option option) option" where
  "run_step now inp e =
     (case inp of
        CtxDone \<Rightarrow> Some (publishStatus ''stopped'' now (setState StateStopped e), Some None)
      | RefreshTick \<Rightarrow>
          if en_state e = StatePaused then Some (e, None)
          else map_option (\<lambda>e'. (e', None)) (refreshBook now e)
      | StreamClosed \<Rightarrow>
          Some (publishStatus ''provider_closed'' now
                  ((setState StateDegraded e)\<lparr>en_lastErr := Some ErrProviderClosed\<rparr>), Some (Some ErrProviderClosed))
      | StreamEvent ev \<Rightarrow>
          if en_state e = StatePaused then Some (e, None)
          else map_option (\<lambda>e'. (e', None)) (applyEvent now ev True e))"

fun run_loop :: "(gotime \<times> run_input) list \<Rightarrow> Engine \<Rightarrow> (Engine \<times> engine_error option option) option" where
  "run_loop [] e = Some (e, None)"
| "run_loop ((now, inp) # is) e =
     (case run_step now inp e of
        None \<Rightarrow> None
      | Some (e', Some res) \<Rightarrow> Some (e', Some res)
      | Some (e', None) \<Rightarrow> run_loop is e')"

definition Run_live :: "gotime \<Rightarrow> (gotime \<times> run_input) list \<Rightarrow> Engine \<Rightarrow> (Engine \<times> engine_error option option) option" where
  "Run_live now is e = run_loop is (publishStatus ''live'' now (setState StateLive e))"

definition Engine_Pause :: "gotime \<Rightarrow> Engine \<Rightarrow> Engine" where
  "Engine_Pause now e =
     publishStatus ''generator paused'' now (setState StatePaused
       (if is_Pauser (en_caps e) then e\<lparr>en_calls := en_calls e @ [CallPause]\<rparr> else e))"

definition Engine_Resume :: "gotime \<Rightarrow> Engine \<Rightarrow> Engine" where
  "Engine_Resume now e =
     publishStatus ''generator resumed'' now (setState StateLive
       (if is_Pauser (en_caps e) then e\<lparr>en_calls := en_calls e @ [CallResume]\<rparr> else e))"

text \<open>The text of the duration is an argument.\<close>

definition Engine_Burst :: "gotime \<Rightarrow> int \<Rightarrow> string \<Rightarrow> Engine \<Rightarrow> Engine" where
  "Engine_Burst now d d_text e =
     engine_record (RecordEngineEvent (engineEvent ''BURST_START'' (en_epoch e) (DetailText d_text) now))
       (if is_Burster (en_caps e) then e\<lparr>en_calls := en_calls e @ [CallForceBurst d]\<rparr> else e)"

definition Engine_Reset :: "gotime \<Rightarrow> string + OrderBookSnapshot \<Rightarrow> Engine \<Rightarrow> Engine \<times> engine_error option" where
  "Engine_Reset now snapshot e =
     (case snapshot of
        Inl err \<Rightarrow> (e, Some (ErrSnapshotFailed err))
      | Inr snap \<Rightarrow>
          let e1 = e\<lparr>en_epoch := en_epoch e + 1\<rparr>
          in case Install (en_epoch e1) (ob_UpdateID snap) (ob_Bids snap) (ob_Asks snap) (en_book e1) of
               (_, Inl err) \<Rightarrow> (e1, Some (ErrInstall err))
             | (b, Inr _) \<Rightarrow>
                 let e2 = e1\<lparr>en_book := b, en_eventIndex := 0, en_lastPrice := 0,
                             en_aggregators := map Agg_Reset (en_aggregators e1),
                             en_summary := Summary_Reset (en_summary e1), en_trades := Tape_Reset (en_trades e1)\<rparr>;
                     e3 = engine_record (RecordEngineEvent ((engineEvent ''RESET'' (en_epoch e2) DetailNone now)
                            \<lparr>ee_UpdateID := bk_updateID (en_book e2)\<rparr>)) e2
                 in (publishStatus ''market reset'' now e3, None))"


section \<open>The read API\<close>

definition Engine_Book :: "gotime \<Rightarrow> Engine \<Rightarrow> OrderBookSnapshot" where
  "Engine_Book now e = Book_Snapshot now (en_book e)"

definition Engine_BookWindow :: "gotime \<Rightarrow> Engine \<Rightarrow> BookWindow" where
  "Engine_BookWindow now e =
     (let (bids, asks) = windowLocked (en_book e)
      in \<lparr>bw_Symbol = sym_ID (en_symbol e), bw_Epoch = bk_epoch (en_book e), bw_UpdateID = bk_updateID (en_book e),
          bw_Bids = bids, bw_Asks = asks, bw_At = now, bw_Description = []\<rparr>)"

text \<open>The map \<^verbatim>\<open>byInterval\<close> points to the aggregator of the interval.\<close>

definition byInterval :: "Engine \<Rightarrow> interval \<Rightarrow> CandleAggregator option" where
  "byInterval e iv = List.find (\<lambda>a. ag_interval a = iv) (en_aggregators e)"

definition Engine_Candles :: "interval \<Rightarrow> int \<Rightarrow> Engine \<Rightarrow> engine_error + Candle list \<times> bool" where
  "Engine_Candles iv limit e =
     (case byInterval e iv of
        None \<Rightarrow> Inl ErrInterval
      | Some agg \<Rightarrow>
          let history = HistoryWithActive limit agg;
              (active, hasActive) = Agg_Active agg
          in Inr (history, hasActive \<and> history \<noteq> [] \<and> Time_Equal (cd_StartTime (last history)) (cd_StartTime active)))"

definition ActiveCandle :: "interval \<Rightarrow> Engine \<Rightarrow> Candle \<times> bool" where
  "ActiveCandle iv e = (case byInterval e iv of None \<Rightarrow> (zeroCandle, False) | Some agg \<Rightarrow> Agg_Active agg)"

definition Engine_Summary :: "gotime \<Rightarrow> Engine \<Rightarrow> MarketSummary option" where
  "Engine_Summary now e = Summary_Snapshot now (en_summary e)"

definition RecentTrades :: "int \<Rightarrow> Engine \<Rightarrow> Trade list" where
  "RecentTrades limit e = Tape_Recent limit (en_trades e)"

definition LastPrice :: "Engine \<Rightarrow> price" where
  "LastPrice e =
     (if en_lastPrice e \<noteq> 0 then en_lastPrice e
      else case Tape_Last (en_trades e) of
             Some t \<Rightarrow> tr_Price t
           | None \<Rightarrow> (case Book_BestBid (en_book e) of Some bid \<Rightarrow> lv_Price bid | None \<Rightarrow> 0))"

definition Engine_UpdateID :: "Engine \<Rightarrow> u64" where
  "Engine_UpdateID e = bk_updateID (en_book e)"


section \<open>The registry\<close>

text \<open>The engines are values here; the registry keeps them by symbol id, in registration order.\<close>

record Registry =
  rg_engines :: "(string \<times> Engine) list"
  rg_order :: "Symbol list"

definition register :: "Engine option \<Rightarrow> Registry \<Rightarrow> Registry" where
  "register engine r =
     (case engine of
        None \<Rightarrow> r
      | Some e \<Rightarrow>
          if map_of (rg_engines r) (sym_ID (en_symbol e)) \<noteq> None then r
          else \<lparr>rg_engines = rg_engines r @ [(sym_ID (en_symbol e), e)], rg_order = rg_order r @ [en_symbol e]\<rparr>)"

definition NewRegistry :: "Engine option list \<Rightarrow> Registry" where
  "NewRegistry engines = fold register engines \<lparr>rg_engines = [], rg_order = []\<rparr>"

text \<open>A nil registry is \<^term>\<open>None\<close>.\<close>

definition Registry_Lookup :: "Symbol \<Rightarrow> Registry option \<Rightarrow> Engine option" where
  "Registry_Lookup s r = Option.bind r (\<lambda>r. map_of (rg_engines r) (sym_ID s))"

definition Registry_Symbols :: "Registry option \<Rightarrow> Symbol list" where
  "Registry_Symbols r = (case r of None \<Rightarrow> [] | Some r \<Rightarrow> rg_order r)"

definition Registry_Engines :: "Registry option \<Rightarrow> Engine option list" where
  "Registry_Engines r = (case r of None \<Rightarrow> [] | Some r \<Rightarrow> map (\<lambda>s. map_of (rg_engines r) (sym_ID s)) (rg_order r))"

definition Registry_Len :: "Registry option \<Rightarrow> nat" where
  "Registry_Len r = (case r of None \<Rightarrow> 0 | Some r \<Rightarrow> length (rg_order r))"

section \<open>The canonical state\<close>

text \<open>
  What the engine's components hold after the trades \<open>ts\<close>, in terms of their abstract states: the
  aggregator of every interval refines the trades, the summary is the fold of the trades, and the tape
  is the list of the newest trades.
\<close>

definition engine_config :: "Engine \<Rightarrow> Engine \<Rightarrow> bool" where
  "engine_config e e' = (en_cfg e' = en_cfg e \<and> en_symbol e' = en_symbol e \<and> en_epoch e' = en_epoch e
     \<and> en_state e' = en_state e \<and> en_warmupDone e' = en_warmupDone e)"

definition engine_refines :: "Symbol \<Rightarrow> int \<Rightarrow> nat \<Rightarrow> Trade list \<Rightarrow> Engine \<Rightarrow> bool" where
  "engine_refines s depth tcap ts e =
     (book_inv (en_book e) \<and> rand_ok (en_rng e)
      \<and> list_all2 (\<lambda>iv a. agg_refines s iv (effective_depth iv depth) ts a) Intervals (en_aggregators e)
      \<and> en_summary e = fold Summary_Apply ts (NewSummary24h s)
      \<and> tape_inv (en_trades e) \<and> tape_cap (en_trades e) = tcap \<and> tape_entries (en_trades e) = last_n tcap ts
      \<and> en_eventIndex e = of_nat (length ts) \<and> (ts \<noteq> [] \<longrightarrow> en_lastPrice e = tr_Price (last ts)))"

lemma Intervals_valid: "iv \<in> set Intervals \<Longrightarrow> Interval_Valid iv"
  by (auto simp: Intervals_def intervalSpecs_def Interval_Valid_def intervalSpec_def)

lemma publish_simps [simp]:
  "en_out (engine_publish ev e) = en_out e @ [ev]" "en_rec (engine_record rc e) = en_rec e @ [rc]"
  "en_out (engine_record rc e) = en_out e" "en_rec (engine_publish ev e) = en_rec e"
  by (simp_all add: engine_publish_def engine_record_def)

text \<open>Everything but the logs.\<close>

definition same_state :: "Engine \<Rightarrow> Engine \<Rightarrow> bool" where
  "same_state e e' = (e'\<lparr>en_out := en_out e, en_rec := en_rec e\<rparr> = e)"

lemma same_state_refl [simp]: "same_state e e"
  by (simp add: same_state_def)

lemma same_state_trans: "same_state a b \<Longrightarrow> same_state b c \<Longrightarrow> same_state a c"
  unfolding same_state_def by (cases a; cases b; cases c) simp

lemma same_state_logs [simp]:
  "same_state e (engine_publish ev e)" "same_state e (engine_record rc e)" "same_state e (recordInvariant now err t e)"
  by (simp_all add: same_state_def engine_publish_def engine_record_def recordInvariant_def)

lemma same_state_publish [simp]: "same_state e (engine_publish ev e') = same_state e e'"
  by (simp add: same_state_def engine_publish_def)

lemma same_state_fields:
  assumes "same_state e e'"
  shows "en_book e' = en_book e" "en_rng e' = en_rng e" "en_aggregators e' = en_aggregators e"
    "en_summary e' = en_summary e" "en_trades e' = en_trades e" "en_eventIndex e' = en_eventIndex e"
    "en_lastPrice e' = en_lastPrice e" "engine_config e e'"
  using assms by (cases e; cases e'; simp add: same_state_def engine_config_def)+

lemma same_state_refines: "same_state e e' \<Longrightarrow> engine_refines s d c ts e' = engine_refines s d c ts e"
  using same_state_fields [of e e'] by (simp add: engine_refines_def)

lemma fold_same_state:
  assumes "\<And>x e. same_state e (f x e)"
  shows "same_state e (fold f xs e)"
proof (induction xs arbitrary: e)
  case (Cons x xs)
  show ?case using same_state_trans [OF assms [of e x] Cons.IH] by simp
qed simp

lemma emit_trade_same_state: "same_state e (emit_trade t m ch cl e)"
proof -
  have a: "same_state e (fold (\<lambda>c e. engine_publish (candle_event EventCandleClosed c) (engine_record (RecordCandleClose c) e)) cl e)" for e
    by (rule fold_same_state, rule same_state_trans, rule same_state_logs(2), rule same_state_logs(1))
  have b: "same_state e (fold (\<lambda>c. engine_publish (candle_event EventCandleChanged c)) ch e)" for e
    by (rule fold_same_state) simp
  have c: "same_state e e' \<Longrightarrow> same_state e (fold (\<lambda>c. engine_publish (candle_event EventCandleChanged c)) ch e')" for e'
    by (rule same_state_trans [OF _ b])
  show ?thesis
    unfolding emit_trade_def Let_def by (cases m) (simp_all add: a c)
qed

lemma fold_publish_out: "en_out (fold (\<lambda>c. engine_publish (f c)) cs e) = en_out e @ map f cs"
  by (induction cs arbitrary: e) simp_all

lemma fold_close_out:
  "en_out (fold (\<lambda>c e. engine_publish (f c) (engine_record (g c) e)) cs e) = en_out e @ map f cs"
  by (induction cs arbitrary: e) simp_all

lemma emit_trade_out:
  "en_out (emit_trade t m ch cl e) = en_out e @ map (candle_event EventCandleClosed) cl
     @ (case m of None \<Rightarrow> [] | Some m \<Rightarrow> [book_event (window_of_mutation ''trade'' m)])
     @ map (candle_event EventCandleChanged) ch @ [trade_event t]"
  by (cases m) (simp_all add: emit_trade_def Let_def fold_publish_out fold_close_out)

lemma apply_aggregators_ok:
  assumes "list_all2 (\<lambda>iv a. agg_refines s iv (effective_depth iv depth) ts a) ivs as" "\<forall>iv\<in>set ivs. Interval_Valid iv"
  shows "\<exists>as' ch cl e'. apply_aggregators now t as e = Some (as', ch, cl, e') \<and> same_state e e' \<and> en_out e' = en_out e
    \<and> list_all2 (\<lambda>iv a. agg_refines s iv (effective_depth iv depth) (ts @ [t]) a) ivs as'
    \<and> set ch \<subseteq> ag_active ` set as'"
  using assms
proof (induction as arbitrary: ivs e rule: list.induct)
  case (Cons a as)
  from Cons.prems(1) obtain iv ivs' where ivs: "ivs = iv # ivs'" by (auto simp: list_all2_Cons2)
  have a: "agg_refines s iv (effective_depth iv depth) ts a" "Interval_Valid iv" using Cons.prems by (simp_all add: ivs)
  obtain a' changed finished where ap: "Agg_Apply t a = Some (a', changed, finished)"
    "agg_refines s iv (effective_depth iv depth) (ts @ [t]) a'"
    using Agg_Apply_refines [OF a] by blast
  define e1 where "e1 = (case finished of None \<Rightarrow> e
      | Some c \<Rightarrow> (case Candle_Validate c of Inl err \<Rightarrow> recordInvariant now err t e | Inr _ \<Rightarrow> e))"
  have e1: "same_state e e1" "en_out e1 = en_out e"
    by (auto simp: e1_def recordInvariant_def engine_record_def split: option.splits sum.splits)
      (simp add: same_state_def)
  obtain as' ch cl e' where r: "apply_aggregators now t as e1 = Some (as', ch, cl, e')" "same_state e1 e'" "en_out e' = en_out e1"
    "list_all2 (\<lambda>iv a. agg_refines s iv (effective_depth iv depth) (ts @ [t]) a) ivs' as'" "set ch \<subseteq> ag_active ` set as'"
    using Cons.IH [of ivs' e1] Cons.prems by (auto simp: ivs)
  show ?case
    using ap r e1 same_state_trans [OF e1(1) r(2)] by (auto simp: ivs Let_def e1_def [symmetric] Agg_Active_def)
next
  case Nil
  then show ?case by simp
qed

text \<open>One trade: the book operation's contract and the other components' refinements, together.\<close>

lemma applyTrade_ok:
  assumes ref: "engine_refines s depth tcap ts e" and room: "has_room_for (Suc n) (en_book e)"
  shows "\<exists>e' m ch cl. applyTrade now t emit e = Some e' \<and> engine_refines s depth tcap (ts @ [t]) e'
     \<and> engine_config e e' \<and> has_room_for n (en_book e') \<and> same_config (en_book e) (en_book e')
     \<and> bk_updateID (en_book e') = bk_updateID (en_book e) + 1
     \<and> mu_LastUpdate m = bk_updateID (en_book e') \<and> mu_Epoch m = bk_epoch (en_book e')
     \<and> (mu_Bids m, mu_Asks m) = windowLocked (en_book e') \<and> set ch \<subseteq> ag_active ` set (en_aggregators e')
     \<and> en_out e' = en_out e @ (if emit then map (candle_event EventCandleClosed) cl
          @ [book_event (window_of_mutation ''trade'' m)] @ map (candle_event EventCandleChanged) ch @ [trade_event t] else [])"
proof -
  have inv: "book_inv (en_book e)" "rand_ok (en_rng e)" using ref by (simp_all add: engine_refines_def)
  have room1: "has_room (en_book e)" using has_room_for_mono [OF room, of 1] by (simp add: has_room_for_def has_room_def)
  obtain b m r where b: "ApplyTrade t (en_rng e) (en_book e) = Some (b, Some m, r)" "rand_ok r" "book_inv b"
    "mu_Err m = None" "bk_updateID b = bk_updateID (en_book e) + 1" "mu_LastUpdate m = bk_updateID b"
    "(mu_Bids m, mu_Asks m) = windowLocked b" "mu_Epoch m = bk_epoch b" "same_config (en_book e) b" "has_room_for n b"
    using ApplyTrade_ok [OF inv(1) room1 inv(2), of t zeroTime] room by blast
  define e1 where "e1 = e\<lparr>en_eventIndex := en_eventIndex e + 1, en_lastPrice := tr_Price t, en_book := b, en_rng := r\<rparr>"
  obtain as ch cl e2 where a: "apply_aggregators now t (en_aggregators e1) e1 = Some (as, ch, cl, e2)" "same_state e1 e2"
    "en_out e2 = en_out e1"
    "list_all2 (\<lambda>iv a. agg_refines s iv (effective_depth iv depth) (ts @ [t]) a) Intervals as" "set ch \<subseteq> ag_active ` set as"
    using apply_aggregators_ok [of s depth ts Intervals "en_aggregators e1" now t e1] ref Intervals_valid
    by (auto simp: engine_refines_def e1_def)
  define e3 where "e3 = e2\<lparr>en_aggregators := as, en_summary := Summary_Apply t (en_summary e2),
      en_trades := Tape_Push t (en_trades e2)\<rparr>"
  note f = same_state_fields [OF a(2)]
  have tape: "tape_inv (Tape_Push t (en_trades e))" "tape_cap (Tape_Push t (en_trades e)) = tcap"
    "tape_entries (Tape_Push t (en_trades e)) = last_n tcap (ts @ [t])"
    using ref tape.inv_push tape.cap_push tape.entries_push last_n_append by (auto simp: engine_refines_def)
  have ref3: "engine_refines s depth tcap (ts @ [t]) e3"
    using ref b(2,3) a(4) tape by (simp add: engine_refines_def e3_def f e1_def)
  have "applyTrade now t emit e = Some (if emit then emit_trade t (Some m) ch cl e3 else e3)"
    unfolding applyTrade_def b(1) option.case prod.case Let_def e1_def [symmetric]
    by (simp add: b(4) a(1) e3_def)
  moreover define e' where "e' = (if emit then emit_trade t (Some m) ch cl e3 else e3)"
  moreover have st: "same_state e3 e'" by (simp add: e'_def emit_trade_same_state)
  moreover have "engine_config e e3" using f(8) by (simp add: engine_config_def e3_def e1_def)
  moreover have "en_out e' = en_out e @ (if emit then map (candle_event EventCandleClosed) cl
          @ [book_event (window_of_mutation ''trade'' m)] @ map (candle_event EventCandleChanged) ch @ [trade_event t] else [])"
    by (simp add: e'_def emit_trade_out e3_def a(3) e1_def)
  moreover have "en_book e3 = b" "en_aggregators e3 = as" by (simp_all add: e3_def f e1_def)
  ultimately show ?thesis
    using ref3 same_state_refines [OF st] same_state_fields [OF st] a(5) b(5-10)
    by (intro exI [of _ e'] exI [of _ m] exI [of _ ch] exI [of _ cl]) (simp add: engine_config_def)
qed

section \<open>What readers are served\<close>

lemma tape_entries_length: "length (tape_entries r) = tape_count r"
  by (simp add: tape_entries_def)

lemma Tape_Recent_cut:
  "tape_inv r \<Longrightarrow> Tape_Recent limit r = rev ((if limit \<le> 0 then id else last_n (nat limit)) (tape_entries r))"
  by (auto simp: Tape_Recent_entries tape_entries_length)

lemma list_all2_find_key:
  assumes "list_all2 P ks xs" "k \<in> set ks" "\<And>k x. P k x \<Longrightarrow> key x = k"
  shows "\<exists>x. List.find (\<lambda>x. key x = k) xs = Some x \<and> P k x"
  using assms(1,2)
proof (induction rule: list_all2_induct)
  case (Cons k' x ks xs)
  then show ?case using assms(3) by (cases "k' = k") auto
qed simp

lemma byInterval_refines:
  assumes "engine_refines s depth tcap ts e" "iv \<in> set Intervals"
  shows "\<exists>a. byInterval e iv = Some a \<and> agg_refines s iv (effective_depth iv depth) ts a"
  unfolding byInterval_def
  using assms by (intro list_all2_find_key) (auto simp: engine_refines_def agg_refines_def Let_def)

definition served_candles :: "Symbol \<Rightarrow> interval \<Rightarrow> nat \<Rightarrow> int \<Rightarrow> Trade list \<Rightarrow> Candle list" where
  "served_candles s iv depth limit ts =
     (if limit \<le> 0 then id else last_n (nat limit))
       (last_n (Suc depth) (candles_of (sym_ID s) iv (accepted iv (own_trades s ts))))"

lemma Engine_Candles_refines:
  assumes "engine_refines s depth tcap ts e" "iv \<in> set Intervals"
  shows "Engine_Candles iv limit e = Inr (served_candles s iv (effective_depth iv depth) limit ts,
           accepted iv (own_trades s ts) \<noteq> [])"
proof -
  obtain a where a: "byInterval e iv = Some a" "agg_refines s iv (effective_depth iv depth) ts a"
    using byInterval_refines [OF assms] by blast
  define cs where "cs = candles_of (sym_ID s) iv (accepted iv (own_trades s ts))"
  have inv: "ag_inv a" "ag_hasActive a = (cs \<noteq> [])" "cs \<noteq> [] \<Longrightarrow> ag_active a = last cs"
    using a(2) by (simp_all add: agg_refines_def Let_def cs_def)
  define h where "h = HistoryWithActive limit a"
  have h: "h = served_candles s iv (effective_depth iv depth) limit ts"
    using agg_refines_all_candles [OF a(2)]
    by (simp add: h_def HistoryWithActive_eq [OF inv(1)] served_candles_def)
  have "last h = last cs \<and> h \<noteq> []" if "cs \<noteq> []"
    using that by (simp add: h served_candles_def cs_def)
  then have "(ag_hasActive a \<and> h \<noteq> [] \<and> Time_Equal (cd_StartTime (last h)) (cd_StartTime (ag_active a))) = (cs \<noteq> [])"
    using inv(2,3) by (auto simp: Time_Equal_def)
  then show ?thesis
    by (simp add: Engine_Candles_def a(1) Let_def Agg_Active_def h_def [symmetric] h [symmetric] cs_def)
qed

fun engine_trades :: "(gotime \<times> Trade \<times> bool) list \<Rightarrow> Engine \<Rightarrow> Engine option" where
  "engine_trades [] e = Some e"
| "engine_trades ((now, t, emit) # xs) e = Option.bind (applyTrade now t emit e) (engine_trades xs)"

definition trades_in :: "(gotime \<times> Trade \<times> bool) list \<Rightarrow> Trade list" where
  "trades_in xs = map (\<lambda>(now, t, emit). t) xs"

lemma engine_trades_ok:
  assumes "engine_refines s depth tcap ts e" "has_room_for (length xs) (en_book e)"
  shows "\<exists>e'. engine_trades xs e = Some e' \<and> engine_refines s depth tcap (ts @ trades_in xs) e' \<and> engine_config e e'
    \<and> bk_updateID (en_book e') = bk_updateID (en_book e) + of_nat (length xs) \<and> same_config (en_book e) (en_book e')"
  using assms
proof (induction xs arbitrary: ts e)
  case Nil
  then show ?case by (simp add: trades_in_def engine_config_def same_config_def)
next
  case (Cons x xs)
  obtain now t emit where x: "x = (now, t, emit)" using prod_cases3 by blast
  have room: "has_room_for (Suc (length xs)) (en_book e)" using Cons.prems(2) by simp
  obtain e1 where e1: "applyTrade now t emit e = Some e1" "engine_refines s depth tcap (ts @ [t]) e1" "engine_config e e1"
    "has_room_for (length xs) (en_book e1)" "bk_updateID (en_book e1) = bk_updateID (en_book e) + 1"
    "same_config (en_book e) (en_book e1)"
    using applyTrade_ok [OF Cons.prems(1) room, of now t emit] by blast
  obtain e' where "engine_trades xs e1 = Some e'" "engine_refines s depth tcap ((ts @ [t]) @ trades_in xs) e'"
    "engine_config e1 e'" "bk_updateID (en_book e') = bk_updateID (en_book e1) + of_nat (length xs)"
    "same_config (en_book e1) (en_book e')"
    using Cons.IH [OF e1(2,4)] by blast
  with e1 show ?case by (auto simp: x trades_in_def engine_config_def same_config_def)
qed

definition snapshot_ok :: "OrderBookSnapshot \<Rightarrow> bool" where
  "snapshot_ok snap = (Snapshot_Validate snap = Inr () \<and> prices_ok (ob_Bids snap) \<and> prices_ok (ob_Asks snap))"

lemma sides_valid_take:
  assumes "sides_valid bids asks" "0 < n"
  shows "sides_valid (take n bids) (take n asks)"
  using assms by (auto simp: sides_valid_def bids_ordered_def asks_ordered_def uncrossed_def take_map [symmetric] sorted_wrt_take
      dest!: in_set_takeD)

lemma prices_ok_take: "prices_ok ls \<Longrightarrow> prices_ok (take n ls)"
  by (auto simp: prices_ok_def dest: in_set_takeD)

lemma Install_ok:
  assumes "snapshot_ok snap" "0 < bk_maxLevels b"
  shows "Install epoch u (ob_Bids snap) (ob_Asks snap) b
      = (b\<lparr>bk_epoch := epoch, bk_updateID := u, bk_bids := take (bk_maxLevels b) (ob_Bids snap),
           bk_asks := take (bk_maxLevels b) (ob_Asks snap)\<rparr>, Inr ())"
    and "book_inv (fst (Install epoch u (ob_Bids snap) (ob_Asks snap) b))"
proof -
  have v: "sides_valid (ob_Bids snap) (ob_Asks snap)" "prices_ok (ob_Bids snap)" "prices_ok (ob_Asks snap)"
    using assms(1) by (simp_all add: snapshot_ok_def Snapshot_Validate_iff)
  have "lv_Price (hd (ob_Bids snap)) < lv_Price (hd (ob_Asks snap))"
    using v(1) by (auto simp: sides_valid_def uncrossed_def)
  then show i: "Install epoch u (ob_Bids snap) (ob_Asks snap) b
      = (b\<lparr>bk_epoch := epoch, bk_updateID := u, bk_bids := take (bk_maxLevels b) (ob_Bids snap),
           bk_asks := take (bk_maxLevels b) (ob_Asks snap)\<rparr>, Inr ())"
    using v(1) by (auto simp: Install_def sides_valid_def Price_Cmp_def trimTo_def)
  show "book_inv (fst (Install epoch u (ob_Bids snap) (ob_Asks snap) b))"
    unfolding i book_inv_def using v sides_valid_take [OF v(1) assms(2)] by (simp add: prices_ok_take)
qed

lemma NewOrderBook_levels: "0 < bk_maxLevels (NewOrderBook s l w)"
  by (simp add: NewOrderBook_def Let_def)

lemma Engine_New_ok:
  assumes "Engine_New cfg caps r (Inr snap) = Inr e" "snapshot_ok snap" "rand_ok r"
  shows "engine_refines (cfg_Symbol cfg) (cfg_HistoryDepth (withDefaults cfg)) (nat (cfg_RecentTradesCap (withDefaults cfg))) [] e"
    "bk_updateID (en_book e) = ob_UpdateID snap" "bk_epoch (en_book e) = ob_Epoch snap" "en_out e = []" "en_epoch e = 0"
proof -
  define e0 where "e0 = new_engine (withDefaults cfg) caps r"
  have lv: "0 < bk_maxLevels (en_book e0)" by (simp add: e0_def new_engine_def NewOrderBook_levels)
  obtain b where b: "Install (ob_Epoch snap) (ob_UpdateID snap) (ob_Bids snap) (ob_Asks snap) (en_book e0) = (b, Inr ())"
    "bk_updateID b = ob_UpdateID snap" "bk_epoch b = ob_Epoch snap"
    using Install_ok(1) [OF assms(2) lv, of "ob_Epoch snap" "ob_UpdateID snap"] by simp
  have e: "e = e0\<lparr>en_book := b\<rparr>" using assms(1) b by (simp add: Engine_New_def e0_def [symmetric] Let_def)
  have inv: "book_inv b" using Install_ok(2) [OF assms(2) lv, of "ob_Epoch snap" "ob_UpdateID snap"] b(1) by simp
  have cfg: "cfg_Symbol (withDefaults cfg) = cfg_Symbol cfg" "0 < cfg_RecentTradesCap (withDefaults cfg)"
    by (simp_all add: withDefaults_def)
  have agg: "agg_refines s iv (effective_depth iv d) [] (NewCandleAggregator s iv d)" if "iv \<in> set Intervals" for s iv d
    using NewCandleAggregator_refines [of "effective_depth iv d" d iv s] HistoryDepth_pos [OF Intervals_valid [OF that]]
    by (simp add: effective_depth_def)
  have "list_all2 (\<lambda>iv a. agg_refines s iv (effective_depth iv d) [] a) Intervals
      (map (\<lambda>iv. NewCandleAggregator s iv d) Intervals)" for s d
    by (rule list_all2I) (auto simp: agg in_set_zip)
  then show "engine_refines (cfg_Symbol cfg) (cfg_HistoryDepth (withDefaults cfg)) (nat (cfg_RecentTradesCap (withDefaults cfg))) [] e"
    using inv assms(3) NewTradeRing_inv [of "cfg_RecentTradesCap (withDefaults cfg)"] cfg
    by (simp add: engine_refines_def e e0_def new_engine_def)
  show "bk_updateID (en_book e) = ob_UpdateID snap" "bk_epoch (en_book e) = ob_Epoch snap" "en_out e = []" "en_epoch e = 0"
    using b by (simp_all add: e e0_def new_engine_def)
qed

text \<open>
  C3. The engine's canonical state is a function of the trades. From an engine bootstrapped on a
  valid snapshot whose book has room for them, any sequence of trades, published or silent, is applied
  without a panic, and then every reader is served exactly what the trades determine: for each interval
  the candles of the accepted trades, the newest trades of the tape, the 24-hour summary folded over
  the trades, the last price, the number of events, and a valid book whose update id counts the trades.
\<close>

theorem Engine_refines_trades:
  assumes "Engine_New cfg caps r (Inr snap) = Inr e" "snapshot_ok snap" "rand_ok r"
    and "has_room_for (length xs) (en_book e)"
  shows "\<exists>e'. engine_trades xs e = Some e'
    \<and> (\<forall>iv\<in>set Intervals. Engine_Candles iv limit e'
         = Inr (served_candles (cfg_Symbol cfg) iv (nat (cfg_HistoryDepth (withDefaults cfg))) limit (trades_in xs),
                accepted iv (own_trades (cfg_Symbol cfg) (trades_in xs)) \<noteq> []))
    \<and> RecentTrades limit e' = rev ((if limit \<le> 0 then id else last_n (nat limit))
         (last_n (nat (cfg_RecentTradesCap (withDefaults cfg))) (trades_in xs)))
    \<and> Engine_Summary now e' = Summary_Snapshot now (fold Summary_Apply (trades_in xs) (NewSummary24h (cfg_Symbol cfg)))
    \<and> en_eventIndex e' = of_nat (length xs)
    \<and> (xs \<noteq> [] \<and> tr_Price (last (trades_in xs)) \<noteq> 0 \<longrightarrow> LastPrice e' = tr_Price (last (trades_in xs)))
    \<and> Snapshot_Validate (Engine_Book now e') = Inr () \<and> Engine_UpdateID e' = ob_UpdateID snap + of_nat (length xs)"
proof -
  let ?d = "cfg_HistoryDepth (withDefaults cfg)"
  have d: "0 < ?d" by (simp add: withDefaults_def)
  note n = Engine_New_ok [OF assms(1-3)]
  obtain e' where e': "engine_trades xs e = Some e'" "bk_updateID (en_book e') = bk_updateID (en_book e) + of_nat (length xs)"
    and ref: "engine_refines (cfg_Symbol cfg) ?d (nat (cfg_RecentTradesCap (withDefaults cfg))) (trades_in xs) e'"
    using engine_trades_ok [OF n(1) assms(4)] by auto
  have "effective_depth iv ?d = nat ?d" for iv using d by (simp add: effective_depth_def)
  then have "\<forall>iv\<in>set Intervals. Engine_Candles iv limit e'
         = Inr (served_candles (cfg_Symbol cfg) iv (nat ?d) limit (trades_in xs),
                accepted iv (own_trades (cfg_Symbol cfg) (trades_in xs)) \<noteq> [])"
    using Engine_Candles_refines [OF ref] by simp
  moreover have "RecentTrades limit e' = rev ((if limit \<le> 0 then id else last_n (nat limit))
         (last_n (nat (cfg_RecentTradesCap (withDefaults cfg))) (trades_in xs)))"
    using ref by (simp add: RecentTrades_def engine_refines_def Tape_Recent_cut)
  moreover have "Snapshot_Validate (Engine_Book now e') = Inr ()"
    using ref by (simp add: Engine_Book_def engine_refines_def Book_Snapshot_valid)
  moreover have "length (trades_in xs) = length xs" "trades_in xs = [] \<longleftrightarrow> xs = []" by (simp_all add: trades_in_def)
  ultimately show ?thesis
    using e' ref n(2) by (auto simp: engine_refines_def Engine_Summary_def LastPrice_def Engine_UpdateID_def)
qed

definition sampleSnapshot :: OrderBookSnapshot where
  "sampleSnapshot = Book_Snapshot zeroTime sampleBook"

definition sampleConfig :: Config where
  "sampleConfig = \<lparr>cfg_Symbol = BTCUSDT, cfg_Seed = 1, cfg_BookLevels = 0, cfg_BookDeltaWindow = 0, cfg_BookRefreshHz = 0,
     cfg_WarmupEvents = 0, cfg_RecentTradesCap = 0, cfg_HistoryDepth = 0, cfg_VolatilityBurstRate = 0, cfg_BusCapacity = 0\<rparr>"

definition noCaps :: capabilities where
  "noCaps = \<lparr>is_PaceController = False, is_Pauser = False, is_Burster = False\<rparr>"

lemma sampleSnapshot_ok: "snapshot_ok sampleSnapshot"
  using Book_Snapshot_valid [OF sampleBook_ok(1)] sampleBook_ok(1)
  by (simp add: snapshot_ok_def sampleSnapshot_def Book_Snapshot_def book_inv_def)

lemma sample_engine:
  obtains e where "Engine_New sampleConfig noCaps zeroRand (Inr sampleSnapshot) = Inr e" "has_room_for 3 (en_book e)"
    "en_book e = sampleBook"
proof -
  have "Install 1 7 (ob_Bids sampleSnapshot) (ob_Asks sampleSnapshot) (NewOrderBook BTCUSDT 100 15) = (sampleBook, Inr ())"
    using Install_ok(1) [OF sampleSnapshot_ok NewOrderBook_levels, of 1 7 BTCUSDT 100 15]
    by (simp add: sampleSnapshot_def Book_Snapshot_def sampleBook_def NewOrderBook_def)
  moreover have "ob_Epoch sampleSnapshot = 1" "ob_UpdateID sampleSnapshot = 7"
    by (simp_all add: sampleSnapshot_def Book_Snapshot_def sampleBook_def)
  ultimately have "Engine_New sampleConfig noCaps zeroRand (Inr sampleSnapshot)
      = Inr ((new_engine (withDefaults sampleConfig) noCaps zeroRand)\<lparr>en_book := sampleBook\<rparr>)"
    by (simp add: Engine_New_def new_engine_def sampleConfig_def withDefaults_def Let_def)
  moreover have "has_room_for 3 sampleBook"
    by (simp add: has_room_for_def sampleBook_def level_def MaxInt64_val)
  ultimately show ?thesis
    by (intro that [of "(new_engine (withDefaults sampleConfig) noCaps zeroRand)\<lparr>en_book := sampleBook\<rparr>"]) simp_all
qed

theorem Engine_refines_trades_witness:
  "\<exists>e e'. Engine_New sampleConfig noCaps zeroRand (Inr sampleSnapshot) = Inr e
     \<and> engine_trades [(zeroTime, sample_trade 1 0 100 1, False), (zeroTime, sample_trade 2 61 101 1, True)] e = Some e'
     \<and> RecentTrades 1 e' = [sample_trade 2 61 101 1] \<and> Engine_UpdateID e' = 9"
proof -
  obtain e where e: "Engine_New sampleConfig noCaps zeroRand (Inr sampleSnapshot) = Inr e" "has_room_for 3 (en_book e)"
    using sample_engine by blast
  let ?xs = "[(zeroTime, sample_trade 1 0 100 1, False), (zeroTime, sample_trade 2 61 101 1, True)]"
  have room: "has_room_for (length ?xs) (en_book e)" using has_room_for_mono [OF e(2), of 2] by (simp add: numeral_2_eq_2)
  obtain e' where "engine_trades ?xs e = Some e'" "Engine_UpdateID e' = ob_UpdateID sampleSnapshot + of_nat (length ?xs)"
    "RecentTrades 1 e' = rev (last_n (nat 1) (last_n (nat (cfg_RecentTradesCap (withDefaults sampleConfig))) (trades_in ?xs)))"
    using Engine_refines_trades [OF e(1) sampleSnapshot_ok zeroRand_ok room, of 1 zeroTime] by auto
  with e show ?thesis
    by (auto simp: sampleSnapshot_def Book_Snapshot_def sampleBook_def trades_in_def withDefaults_def sampleConfig_def last_n_def)
qed

section \<open>Publication\<close>

text \<open>
  State first, then events. A published trade on a sound engine publishes, in this order, the
  candles it closed, one book window, the candles it changed and the trade; the window is exactly the
  one a reader of the updated engine is served, with its epoch and update id, and every changed candle
  is the active candle of an aggregator of the updated engine: a subscriber never sees pre-trade values.
\<close>

lemma applyTrade_publication:
  assumes "engine_refines s depth tcap ts e" "has_room (en_book e)"
  shows "\<exists>e' w changed closed_cs. applyTrade now t True e = Some e'
    \<and> en_out e' = en_out e @ map (candle_event EventCandleClosed) closed_cs @ [book_event w]
         @ map (candle_event EventCandleChanged) changed @ [trade_event t]
    \<and> bw_Bids w = bw_Bids (Engine_BookWindow now e') \<and> bw_Asks w = bw_Asks (Engine_BookWindow now e')
    \<and> bw_Epoch w = bw_Epoch (Engine_BookWindow now e') \<and> bw_UpdateID w = Engine_UpdateID e'
    \<and> Engine_UpdateID e' = Engine_UpdateID e + 1
    \<and> (\<forall>c\<in>set changed. \<exists>a\<in>set (en_aggregators e'). c = ag_active a)"
proof -
  have "has_room_for (Suc 0) (en_book e)" using assms(2) by (simp add: has_room_for_def has_room_def)
  then obtain e' m ch cl where r: "applyTrade now t True e = Some e'" "mu_LastUpdate m = bk_updateID (en_book e')"
    "mu_Epoch m = bk_epoch (en_book e')" "(mu_Bids m, mu_Asks m) = windowLocked (en_book e')"
    "set ch \<subseteq> ag_active ` set (en_aggregators e')" "bk_updateID (en_book e') = bk_updateID (en_book e) + 1"
    "en_out e' = en_out e @ map (candle_event EventCandleClosed) cl
       @ [book_event (window_of_mutation ''trade'' m)] @ map (candle_event EventCandleChanged) ch @ [trade_event t]"
    using applyTrade_ok [OF assms(1), of 0 now t True] by auto
  then show ?thesis
    by (intro exI [of _ e'] exI [of _ "window_of_mutation ''trade'' m"] exI [of _ ch] exI [of _ cl])
      (auto simp: window_of_mutation_def Engine_BookWindow_def Engine_UpdateID_def simp flip: r(4))
qed

section \<open>Warmup and live trading\<close>

lemma same_state_eq: "same_state a b \<longleftrightarrow> b = a\<lparr>en_out := en_out b, en_rec := en_rec b\<rparr>"
  unfolding same_state_def by (cases a; cases b) auto

lemma same_stateE:
  assumes "same_state a b"
  obtains os rs where "b = a\<lparr>en_out := os, en_rec := rs\<rparr>"
  using assms unfolding same_state_eq by blast

lemma same_stateI: "same_state a (a\<lparr>en_out := os, en_rec := rs\<rparr>)"
  by (simp add: same_state_def)

lemma apply_aggregators_same:
  assumes "same_state a b"
  shows "rel_option (\<lambda>(as1, ch1, cl1, e1) (as2, ch2, cl2, e2). as1 = as2 \<and> ch1 = ch2 \<and> cl1 = cl2 \<and> same_state e1 e2
      \<and> en_out e1 = en_out a) (apply_aggregators now t ags a) (apply_aggregators now t ags b)"
  using assms
proof (induction ags arbitrary: a b rule: list.induct)
  case (Cons x ags)
  show ?case
  proof (cases "Agg_Apply t x")
    case (Some r)
    obtain x' changed finished where r: "r = (x', changed, finished)" using prod_cases3 by blast
    define f where "f e = (case finished of None \<Rightarrow> e
      | Some c \<Rightarrow> (case Candle_Validate c of Inl err \<Rightarrow> recordInvariant now err t e | Inr _ \<Rightarrow> e))" for e
    obtain os rs where b: "b = a\<lparr>en_out := os, en_rec := rs\<rparr>" using same_stateE [OF Cons.prems] .
    have fs: "same_state (f a) (f b)" "en_out (f a) = en_out a"
      by (auto simp: f_def b recordInvariant_def engine_record_def same_state_def split: option.splits sum.splits)
    show ?thesis
      using Cons.IH [OF fs(1)] fs(2)
      by (auto simp: Some r f_def [symmetric] Let_def option.rel_sel split: option.splits)
  qed simp
qed simp

lemma emit_trade_same:
  assumes "same_state a b"
  shows "same_state a (emit_trade t m ch cl b)"
  by (rule same_state_trans [OF assms emit_trade_same_state])

lemma same_state_sym: "same_state a b \<Longrightarrow> same_state b a"
  unfolding same_state_def by (cases a; cases b) auto

text \<open>The logs do not influence the state, and a silent application publishes nothing.\<close>

lemma applyTrade_same:
  assumes "same_state a b"
  shows "rel_option (\<lambda>e1 e2. same_state e1 e2 \<and> en_out e1 = en_out a) (applyTrade now t False a) (applyTrade now t emit b)"
proof (cases "ApplyTrade t (en_rng a) (en_book a)")
  case None
  then show ?thesis using same_state_fields [OF assms] by (simp add: applyTrade_def)
next
  case (Some r)
  obtain bk m rn where r: "r = (bk, m, rn)" using prod_cases3 by blast
  define upd where "upd e = e\<lparr>en_eventIndex := en_eventIndex e + 1, en_lastPrice := tr_Price t, en_book := bk, en_rng := rn\<rparr>" for e :: Engine
  define fin where "fin as e = e\<lparr>en_aggregators := as, en_summary := Summary_Apply t (en_summary e),
      en_trades := Tape_Push t (en_trades e)\<rparr>" for as and e :: Engine
  have u: "same_state (upd a) (upd b)" "en_out (upd a) = en_out a" "en_aggregators (upd b) = en_aggregators (upd a)"
    using assms by (auto simp: upd_def same_state_def intro: same_stateE)
  have fin: "same_state (fin as e1) (fin as e2)" "en_out (fin as e1) = en_out e1" if "same_state e1 e2" for as e1 e2
    using that by (auto simp: fin_def same_state_def intro: same_stateE)
  have sb: "ApplyTrade t (en_rng b) (en_book b) = Some (bk, m, rn)" using same_state_fields [OF assms] Some r by simp
  have rec: "same_state (recordInvariant now err t (upd a)) (recordInvariant now err t (upd b))"
    "en_out (recordInvariant now err t (upd a)) = en_out a" for err
    using same_state_trans [OF same_state_sym [OF same_state_logs(3)] same_state_trans [OF u(1) same_state_logs(3)]] u(2)
    by (simp_all add: recordInvariant_def)
  show ?thesis
    unfolding applyTrade_def Some r sb option.case prod.case Let_def upd_def [symmetric]
    using apply_aggregators_same [OF u(1), of now t "en_aggregators (upd a)"] rec fin emit_trade_same
    by (auto simp: u(2,3) fin_def [symmetric] option.rel_sel split: option.splits)
qed

lemma applyEvent_same:
  assumes "same_state a b"
  shows "rel_option (\<lambda>e1 e2. same_state e1 e2 \<and> en_out e1 = en_out a) (applyEvent now ev False a) (applyEvent now ev emit b)"
proof (cases ev)
  case (TradeEvent t)
  then show ?thesis using applyTrade_same [OF assms] by (simp add: applyEvent_def)
next
  case (BookDeltaEvent d)
  obtain os rs where b: "b = a\<lparr>en_out := os, en_rec := rs\<rparr>" using same_stateE [OF assms] .
  show ?thesis
    by (auto simp: BookDeltaEvent applyEvent_def applyProviderDelta_def b Let_def engine_record_def engine_publish_def
        same_state_def split: prod.splits sum.splits)
next
  case (HeartbeatEvent x)
  then show ?thesis using assms by (simp add: applyEvent_def)
next
  case (FaultEvent x y z)
  obtain os rs where b: "b = a\<lparr>en_out := os, en_rec := rs\<rparr>" using same_stateE [OF assms] .
  show ?thesis by (simp add: FaultEvent applyEvent_def b engine_record_def same_state_def)
qed

lemma apply_aggregators_state:
  "apply_aggregators now t ags e = Some (as, ch, cl, e') \<Longrightarrow> same_state e e'"
proof (induction ags arbitrary: e as ch cl rule: list.induct)
  case (Cons x ags)
  obtain x' changed finished as' ch' cl' where r: "Agg_Apply t x = Some (x', changed, finished)"
    "apply_aggregators now t ags (case finished of None \<Rightarrow> e
      | Some c \<Rightarrow> (case Candle_Validate c of Inl err \<Rightarrow> recordInvariant now err t e | Inr _ \<Rightarrow> e)) = Some (as', ch', cl', e')"
    using Cons.prems by (auto simp: Let_def split: option.splits prod.splits)
  from Cons.IH [OF r(2)] show ?case
    by (auto split: option.splits sum.splits intro: same_state_trans [OF same_state_logs(3)])
qed simp

lemma same_state_state: "same_state a b \<Longrightarrow> en_state b = en_state a"
  using same_state_fields(8) by (auto simp: engine_config_def)

lemma applyTrade_state:
  assumes "applyTrade now t emit e = Some e'"
  shows "en_state e' = en_state e"
proof -
  obtain bk m rn where a: "ApplyTrade t (en_rng e) (en_book e) = Some (bk, m, rn)"
    using assms by (auto simp: applyTrade_def split: option.splits)
  define e1 where "e1 = e\<lparr>en_eventIndex := en_eventIndex e + 1, en_lastPrice := tr_Price t, en_book := bk, en_rng := rn\<rparr>"
  have e1: "en_state e1 = en_state e" by (simp add: e1_def)
  from assms show ?thesis
    unfolding applyTrade_def a option.case prod.case Let_def e1_def [symmetric]
    by (auto simp: e1 split: option.splits if_splits dest!: apply_aggregators_state
        dest: same_state_state simp: same_state_state [OF emit_trade_same_state] same_state_state [OF same_state_logs(3)])
qed

lemma applyEvent_state: "applyEvent now ev emit e = Some e' \<Longrightarrow> en_state e' = en_state e"
  by (auto simp: applyEvent_def applyProviderDelta_def engine_record_def engine_publish_def Let_def applyTrade_state
      split: MarketEvent.splits prod.splits sum.splits if_splits)

text \<open>
  C35. Warmup is live trading without an audience. When the stream holds as many events as the warmup
  budget, the warmup loop ends without an error, consumes exactly that many, publishes nothing, and
  leaves the same state (book, candles, summary, tape, counters and random stream) as the live loop of
  \<^verbatim>\<open>Run\<close> on the same events; one panics exactly when the other does.
\<close>

theorem Warmup_equals_live:
  assumes "budget \<le> length evs" "en_state e \<noteq> StatePaused"
  shows "rel_option (\<lambda>(e1, rest, err) (e2, res). same_state e1 e2 \<and> rest = drop budget evs \<and> err = None \<and> res = None
           \<and> en_out e1 = en_out e)
      (warmup_loop now budget None evs e) (run_loop (map (\<lambda>ev. (now, StreamEvent ev)) (take budget evs)) e)"
proof -
  have "rel_option (\<lambda>(e1, rest, err) (e2, res). same_state e1 e2 \<and> rest = drop budget evs \<and> err = None \<and> res = None
           \<and> en_out e1 = en_out a)
      (warmup_loop now budget None evs a) (run_loop (map (\<lambda>ev. (now, StreamEvent ev)) (take budget evs)) b)"
    if "same_state a b" "en_state b \<noteq> StatePaused" for a b
    using that assms(1)
  proof (induction budget arbitrary: evs a b)
    case (Suc n)
    then obtain ev rest where evs: "evs = ev # rest" by (cases evs) auto
    note rel = applyEvent_same [OF Suc.prems(1), of now ev True]
    show ?case
    proof (cases "applyEvent now ev False a")
      case None
      with rel have "applyEvent now ev True b = None" by (auto simp: option.rel_sel)
      with None Suc.prems(2) show ?thesis by (simp add: evs run_step_def)
    next
      case (Some a')
      with rel obtain b' where b': "applyEvent now ev True b = Some b'" "same_state a' b'" "en_out a' = en_out a"
        by (auto simp: option.rel_sel)
      have "en_state b' \<noteq> StatePaused" using applyEvent_state [OF b'(1)] Suc.prems(2) by simp
      from Suc.IH [OF b'(2) this, of rest] show ?thesis
        using Some b' Suc.prems by (simp add: evs run_step_def)
    qed
  qed simp
  from this [OF same_state_refl assms(2)] show ?thesis .
qed

theorem Warmup_equals_live_witness:
  "\<exists>e e1. Engine_New sampleConfig noCaps zeroRand (Inr sampleSnapshot) = Inr e
     \<and> warmup_loop zeroTime 1 None [HeartbeatEvent zeroTime, HeartbeatEvent zeroTime] e = Some (e1, [HeartbeatEvent zeroTime], None)
     \<and> en_out e1 = en_out e"
proof -
  obtain e where e: "Engine_New sampleConfig noCaps zeroRand (Inr sampleSnapshot) = Inr e"
    using sample_engine by blast
  then have "en_state e \<noteq> StatePaused"
    by (auto simp: Engine_New_def new_engine_def Let_def split: sum.splits prod.splits)
  from Warmup_equals_live [OF _ this, of 1 "[HeartbeatEvent zeroTime, HeartbeatEvent zeroTime]" zeroTime] e
  show ?thesis by (auto simp: option.rel_sel applyEvent_def)
qed


section \<open>Reset\<close>

text \<open>
  A reset gives a fresh market in a new epoch: with a valid snapshot it succeeds, the engine
  refines the empty sequence of trades again (no candles, an empty tape and summary, event count zero,
  a valid book made of the snapshot), the epoch of the engine and of the book is the next one, the
  lifecycle state is kept, and exactly one status event announces it. When the provider has no
  snapshot nothing changes and the error is returned.
\<close>

lemma Engine_Reset_fresh:
  assumes "engine_refines s depth tcap ts e" "snapshot_ok snap" "0 < bk_maxLevels (en_book e)"
  shows "(\<exists>e'. Engine_Reset now (Inr snap) e = (e', None)
      \<and> engine_refines s depth tcap [] e' \<and> LastPrice e' = lv_Price (hd (ob_Bids snap))
      \<and> en_epoch e' = en_epoch e + 1 \<and> bk_epoch (en_book e') = en_epoch e' \<and> Engine_UpdateID e' = ob_UpdateID snap
      \<and> bk_bids (en_book e') = take (bk_maxLevels (en_book e)) (ob_Bids snap)
      \<and> bk_asks (en_book e') = take (bk_maxLevels (en_book e)) (ob_Asks snap)
      \<and> en_state e' = en_state e
      \<and> en_out e' = en_out e @ [(mkEvent EventMarketStatus)\<lparr>ev_Status := Some \<lparr>st_State = en_state e, st_Epoch = en_epoch e + 1,
           st_Message = ''market reset'', st_At = now\<rparr>\<rparr>])
    \<and> Engine_Reset now (Inl err) e = (e, Some (ErrSnapshotFailed err))"
proof -
  define b where "b = (en_book e)\<lparr>bk_epoch := en_epoch e + 1, bk_updateID := ob_UpdateID snap,
      bk_bids := take (bk_maxLevels (en_book e)) (ob_Bids snap), bk_asks := take (bk_maxLevels (en_book e)) (ob_Asks snap)\<rparr>"
  note i = Install_ok [OF assms(2,3), of "en_epoch e + 1" "ob_UpdateID snap"]
  have inst: "Install (en_epoch e + 1) (ob_UpdateID snap) (ob_Bids snap) (ob_Asks snap) (en_book e) = (b, Inr ())"
    using i(1) by (simp add: b_def)
  have inv: "book_inv b" using i by (simp add: inst)
  have ne: "ob_Bids snap \<noteq> []" using assms(2) by (auto simp: snapshot_ok_def Snapshot_Validate_iff sides_valid_def)
  have t: "tape_inv (Tape_Reset (en_trades e))" "tape_entries (Tape_Reset (en_trades e)) = []"
    "tape_cap (Tape_Reset (en_trades e)) = tcap"
    using assms(1) Tape_Reset_inv [of "en_trades e"] by (simp_all add: engine_refines_def)
  have a: "list_all2 (\<lambda>iv a. agg_refines s iv (effective_depth iv depth) [] a) Intervals (map Agg_Reset (en_aggregators e))"
    using assms(1) by (auto simp: engine_refines_def list_all2_map2 intro: list_all2_mono Agg_Reset_refines)
  define e' where "e' = fst (Engine_Reset now (Inr snap) e)"
  have r: "Engine_Reset now (Inr snap) e = (e', None)"
    by (simp add: e'_def Engine_Reset_def inst Let_def)
  have f: "en_book e' = b" "en_rng e' = en_rng e" "en_aggregators e' = map Agg_Reset (en_aggregators e)"
    "en_summary e' = Summary_Reset (en_summary e)" "en_trades e' = Tape_Reset (en_trades e)" "en_eventIndex e' = 0"
    "en_lastPrice e' = 0" "en_epoch e' = en_epoch e + 1" "en_state e' = en_state e"
    "en_out e' = en_out e @ [(mkEvent EventMarketStatus)\<lparr>ev_Status := Some \<lparr>st_State = en_state e, st_Epoch = en_epoch e + 1,
           st_Message = ''market reset'', st_At = now\<rparr>\<rparr>]"
    by (simp_all add: e'_def Engine_Reset_def inst Let_def publishStatus_def engine_publish_def engine_record_def)
  have ref: "engine_refines s depth tcap [] e'"
    using assms(1) inv a t by (simp add: engine_refines_def f Summary_Reset_fresh)
  have "LastPrice e' = lv_Price (hd (ob_Bids snap))"
    using ne assms(3) Tape_Last_entries [OF t(1)] by (simp add: LastPrice_def f t(2) Book_BestBid_def b_def)
  then show ?thesis using r ref f by (auto simp: b_def Engine_UpdateID_def Engine_Reset_def)
qed

text \<open>
  Two gaps in the epoch bookkeeping. An engine bootstrapped on a snapshot of epoch 1 (as the
  replay provider serves it) starts with engine epoch 0, so its first reset installs the new book under
  the book's old epoch 1: no session can tell that the book was replaced. And a reset whose snapshot
  \<^verbatim>\<open>Install\<close> rejects returns the error after the engine's epoch has been advanced, so the epoch
  the engine reports is not the epoch of the book it still serves.
\<close>

lemma Engine_Reset_epoch_gaps:
  assumes "Engine_New cfg caps r (Inr snap) = Inr e" "snapshot_ok snap" "ob_Epoch snap = 1"
    and "snapshot_ok snap'" "ob_Bids bad = [] \<or> ob_Asks bad = []"
  shows "(\<exists>e'. Engine_Reset now (Inr snap') e = (e', None) \<and> bk_epoch (en_book e') = bk_epoch (en_book e))
    \<and> (\<exists>e'. Engine_Reset now (Inr bad) e = (e', Some (ErrInstall ErrEmptyBook)) \<and> en_book e' = en_book e
         \<and> en_epoch e' = en_epoch e + 1)"
proof -
  define e0 where "e0 = new_engine (withDefaults cfg) caps r"
  have lv0: "0 < bk_maxLevels (en_book e0)" by (simp add: e0_def new_engine_def NewOrderBook_levels)
  have e: "en_epoch e = 0" "bk_epoch (en_book e) = 1" "0 < bk_maxLevels (en_book e)"
    using assms(1,3) Install_ok(1) [OF assms(2) lv0, of "ob_Epoch snap" "ob_UpdateID snap"] lv0
    by (auto simp: Engine_New_def e0_def [symmetric] Let_def) (simp_all add: e0_def new_engine_def)
  have bad: "Install 1 (ob_UpdateID bad) (ob_Bids bad) (ob_Asks bad) (en_book e) = (en_book e, Inl ErrEmptyBook)"
    using assms(5) by (simp add: Install_def)
  show ?thesis
    using Install_ok(1) [OF assms(4) e(3), of 1 "ob_UpdateID snap'"] bad e
    by (auto simp: Engine_Reset_def Let_def publishStatus_def engine_publish_def engine_record_def)
qed

end
