(* ===== verification/Session.thy ===== *)
theory Session
  imports Protocol Coalescer Engine
begin

text \<open>
  \<^verbatim>\<open>internal/delivery/session.go\<close>: one connected client. The delivery loop, the reader and the
  writer are sequences of steps on one session state; a step runs one case of a loop's
  \<^verbatim>\<open>select\<close> to its end.

  Conventions. The engines are values that the steps read; a pointer to an engine is the id of its
  market, and the bus of every market is part of the state. The clock is read once per step. The calls
  to the recorder are logged in \<open>ss_rec\<close>, those to \<^verbatim>\<open>OnHello\<close> in \<open>ss_hellos\<close>; the
  process counters and the logger are left out. A blocking send on the outbound queue is decided by how
  many frames the writer takes in the meantime: \<open>ss_waits\<close> holds these numbers for the sends to
  come, and no frame is taken once it is empty. A text built by \<^verbatim>\<open>fmt\<close> is its format and its
  arguments. \<^term>\<open>None\<close> is a panic.
\<close>

section \<open>Data\<close>

type_synonym text_msg = "string \<times> msg_arg list"

fun State_String :: "State \<Rightarrow> string" where
  "State_String StateStarting = ''STARTING''"
| "State_String StateWarming = ''WARMING''"
| "State_String StateLive = ''LIVE''"
| "State_String StatePaused = ''PAUSED''"
| "State_String StateDegraded = ''DEGRADED''"
| "State_String StateStopped = ''STOPPED''"

fun Reason_String :: "TierReason \<Rightarrow> string" where
  "Reason_String ReasonGoodHealth = ''GOOD_HEALTH''"
| "Reason_String ReasonHighRTT = ''HIGH_RTT''"
| "Reason_String ReasonHighJitter = ''HIGH_JITTER''"
| "Reason_String ReasonMissingReports = ''MISSING_REPORTS''"
| "Reason_String ReasonForcedOverride = ''FORCED_OVERRIDE''"
| "Reason_String ReasonRecovery = ''RECOVERY''"
| "Reason_String ReasonInitialAssignment = ''INITIAL''"

text \<open>The rows handed to the recorder (\<^verbatim>\<open>observability/telemetry.go\<close>).\<close>

record LatencySample =
  ls_SessionID :: string
  ls_Seq :: int
  ls_RTTMs :: rat
  ls_JitterMs :: rat
  ls_Samples :: int
  ls_ClientTimeMs :: int
  ls_ServerTime :: gotime
  ls_Capped :: bool
  ls_MissedPong :: bool

record HealthReportRow =
  hrr_SessionID :: string
  hrr_ReceivedAt :: gotime
  hrr_RTTMs :: rat
  hrr_JitterMs :: rat
  hrr_AgeSinceLastMs :: int
  hrr_Band :: string

record TierTransitionRow =
  ttr_SessionID :: string
  ttr_At :: gotime
  ttr_From :: string
  ttr_To :: string
  ttr_Reason :: string
  ttr_RTTMs :: rat
  ttr_JitterMs :: rat
  ttr_Streak :: int
  ttr_Override :: string

record DeliveryWindow =
  dw_SessionID :: string
  dw_WindowStart :: gotime
  dw_WindowMs :: int
  dw_Tier :: string
  dw_TargetRate :: rat
  dw_EffectiveRate :: rat
  dw_CandleUpdates :: int
  dw_TradeMessages :: int
  dw_BookDeltas :: int
  dw_HealthMessages :: int
  dw_Coalesced :: int
  dw_Suppressed :: int
  dw_BytesSent :: int

record BookSyncEvent =
  bse_At :: gotime
  bse_SessionID :: string
  bse_Scope :: string
  bse_Event :: string
  bse_Epoch :: u64
  bse_FromUpdateID :: u64
  bse_ToUpdateID :: u64
  bse_GapSize :: int
  bse_DurationMs :: int
  bse_Attempt :: int

record ProtocolEvent =
  pev_At :: gotime
  pev_SessionID :: string
  pev_Kind :: string
  pev_Detail :: text_msg
  pev_Count :: int

record SessionRow =
  srw_SessionID :: string
  srw_Symbol :: string
  srw_Interval :: string
  srw_ConnectedAt :: gotime
  srw_DisconnectedAt :: "gotime option"
  srw_DisconnectReason :: string
  srw_InitialTier :: string
  srw_FinalTier :: string
  srw_OverrideTier :: string
  srw_UptimeMs :: int
  srw_MessagesSent :: int
  srw_MessagesReceived :: int
  srw_BytesSent :: int
  srw_ProtocolErrors :: int

record FaultInjectionRow =
  fir_At :: gotime
  fir_SessionID :: string
  fir_Fault :: string
  fir_Parameters :: text_msg
  fir_Applied :: bool

datatype session_row =
    RecordLatency LatencySample
  | RecordHealthReport HealthReportRow
  | RecordTierTransition TierTransitionRow
  | RecordDeliveryWindow DeliveryWindow
  | RecordBookEvent BookSyncEvent
  | RecordProtocolEvent ProtocolEvent
  | RecordSessionStart SessionRow
  | RecordSessionEnd SessionRow
  | RecordFaultInjection FaultInjectionRow

record FaultConfig =
  fc_SkipBookDeltas :: int
  fc_DuplicateDelta :: bool
  fc_ReverseDeltas :: bool
  fc_MalformedFrames :: int
  fc_WriteDelay :: int
  fc_WriteJitter :: int
  fc_HoldWrites :: int
  fc_SkipCandleClosed :: bool

definition noFaults :: FaultConfig where
  "noFaults =
     \<lparr>fc_SkipBookDeltas = 0, fc_DuplicateDelta = False, fc_ReverseDeltas = False, fc_MalformedFrames = 0,
      fc_WriteDelay = 0, fc_WriteJitter = 0, fc_HoldWrites = 0, fc_SkipCandleClosed = False\<rparr>"

record outbound =
  out_data :: Envelope
  out_kind :: MessageType
  out_critical :: bool

record deliveryWindow =
  win_tier :: DeliveryTier
  win_candleUpdates :: int
  win_tradeMessages :: int
  win_bookDeltas :: int
  win_healthMessages :: int
  win_coalesced :: int
  win_suppressed :: int
  win_bytes :: int

definition newWindow :: "DeliveryTier \<Rightarrow> deliveryWindow" where
  "newWindow t =
     \<lparr>win_tier = t, win_candleUpdates = 0, win_tradeMessages = 0, win_bookDeltas = 0, win_healthMessages = 0,
      win_coalesced = 0, win_suppressed = 0, win_bytes = 0\<rparr>"

text \<open>
  The configuration. A registry is the list of the market ids it serves (\<^term>\<open>None\<close>: the nil
  registry), a Go set of channels the list of its members. \<open>sc_Logger\<close> and \<open>sc_OnHello\<close> say
  whether these pointers are set.
\<close>

record SessionConfig =
  sc_ID :: string
  sc_ShortID :: string
  sc_Symbol :: Symbol
  sc_Interval :: interval
  sc_Channels :: "string list option"
  sc_Policy :: "Policy option"
  sc_Registry :: "string list option"
  sc_OutboundCapacity :: int
  sc_WriteTimeout :: int
  sc_ClientMsgPerSec :: int
  sc_BookWindow :: int
  sc_HistoryLimit :: int
  sc_TradesLimit :: int
  sc_DebugControls :: bool
  sc_Logger :: bool
  sc_OnHello :: bool

text \<open>The state. \<open>ss_taken\<close> are the frames the writer took during blocking sends and still has to
  write, \<open>ss_wire\<close> what was written to the socket: a frame, or the invalid frame of a fault.\<close>

record Session =
  ss_cfg :: SessionConfig
  ss_Channels :: "string list"
  ss_Policy :: Policy
  ss_engine :: "string option"
  ss_sub :: "nat option"
  ss_tierMachine :: TierMachine
  ss_health :: HealthTracker
  ss_coalescer :: Coalescer
  ss_outbound :: "outbound list"
  ss_commands :: "ClientMessage list"
  ss_retune :: bool
  ss_started :: bool
  ss_cancelled :: bool
  ss_done :: bool
  ss_dropped :: int
  ss_writeFails :: int
  ss_closeReason :: string
  ss_window :: deliveryWindow
  ss_windowStarted :: gotime
  ss_messagesSent :: int
  ss_messagesReceived :: int
  ss_bytesSent :: int
  ss_protocolErrors :: int
  ss_lastSeq :: u64
  ss_lastReportAgeMs :: int
  ss_lastEffectiveRate :: int
  ss_faults :: FaultConfig
  ss_lastDelta :: "Envelope option"
  ss_heldDelta :: "Envelope option"
  ss_connectedAt :: gotime
  ss_flushEvery :: int
  ss_buses :: "string \<Rightarrow> Bus"
  ss_rec :: "session_row list"
  ss_hellos :: "string list"
  ss_waits :: "nat list"
  ss_taken :: "outbound list"
  ss_wire :: "outbound option list"
  ss_closed :: bool

record world =
  w_now :: gotime
  w_json :: json_encoder
  w_engines :: "string \<rightharpoonup> Engine"

text \<open>What \<^verbatim>\<open>NewSession\<close> makes of its configuration.\<close>

definition session_config :: "SessionConfig \<Rightarrow> SessionConfig" where
  "session_config c =
     c\<lparr>sc_BookWindow := (if sc_BookWindow c < 10 then 15 else sc_BookWindow c),
       sc_OutboundCapacity := (if sc_OutboundCapacity c \<le> 0 then 256 else sc_OutboundCapacity c),
       sc_WriteTimeout := (if sc_WriteTimeout c \<le> 0 then 5 * second else sc_WriteTimeout c),
       sc_ClientMsgPerSec := (if sc_ClientMsgPerSec c \<le> 0 then 20 else sc_ClientMsgPerSec c),
       sc_HistoryLimit := (if sc_HistoryLimit c \<le> 0 then 500 else sc_HistoryLimit c),
       sc_TradesLimit := (if sc_TradesLimit c \<le> 0 then 50 else sc_TradesLimit c),
       sc_Interval := (if sc_Interval c = [] then Interval1m else sc_Interval c)\<rparr>"

definition NewSession :: "SessionConfig \<Rightarrow> string option \<Rightarrow> gotime \<Rightarrow> (string \<Rightarrow> Bus) \<Rightarrow> Session" where
  "NewSession c engine now buses =
     (let p = (case sc_Policy c of None \<Rightarrow> sessionPolicy | Some p \<Rightarrow> p);
          tm = NewTierMachine p
      in \<lparr>ss_cfg = session_config c,
          ss_Channels = (case sc_Channels c of None \<Rightarrow> DefaultChannels | Some cs \<Rightarrow> cs),
          ss_Policy = p, ss_engine = engine, ss_sub = None, ss_tierMachine = tm, ss_health = NewHealthTracker p,
          ss_coalescer = NewCoalescer (sc_Symbol c), ss_outbound = [], ss_commands = [], ss_retune = False,
          ss_started = False, ss_cancelled = False, ss_done = False, ss_dropped = 0, ss_writeFails = 0,
          ss_closeReason = ''unknown'', ss_window = newWindow (tier tm), ss_windowStarted = now,
          ss_messagesSent = 0, ss_messagesReceived = 0, ss_bytesSent = 0, ss_protocolErrors = 0, ss_lastSeq = 0,
          ss_lastReportAgeMs = 0, ss_lastEffectiveRate = 0, ss_faults = noFaults, ss_lastDelta = None,
          ss_heldDelta = None, ss_connectedAt = now, ss_flushEvery = 0, ss_buses = buses, ss_rec = [],
          ss_hellos = [], ss_waits = [], ss_taken = [], ss_wire = [], ss_closed = False\<rparr>)"


section \<open>Control surface\<close>

definition Session_Override :: "Session \<Rightarrow> string" where
  "Session_Override s = (case override (ss_tierMachine s) of None \<Rightarrow> [] | Some t \<Rightarrow> Tier_String t)"

definition ApplyFaults :: "FaultConfig \<Rightarrow> Session \<Rightarrow> Session" where
  "ApplyFaults f s = s\<lparr>ss_faults := f\<rparr>"

text \<open>When both a slot and the closed channel are ready, \<^verbatim>\<open>select\<close> takes either.\<close>

definition InjectCommand :: "bool \<Rightarrow> ClientMessage \<Rightarrow> Session \<Rightarrow> Session \<times> bool" where
  "InjectCommand prefer_done msg s =
     (if length (ss_commands s) < 64 \<and> \<not> (ss_done s \<and> prefer_done)
      then (s\<lparr>ss_commands := ss_commands s @ [msg]\<rparr>, True) else (s, False))"

definition Drop :: "string \<Rightarrow> Session \<Rightarrow> Session" where
  "Drop r s = s\<lparr>ss_closeReason := r, ss_cancelled := ss_cancelled s \<or> ss_started s\<rparr>"


section \<open>Records\<close>

definition log_row :: "session_row \<Rightarrow> Session \<Rightarrow> Session" where
  "log_row r s = s\<lparr>ss_rec := ss_rec s @ [r]\<rparr>"

definition recordSessionStart :: "Session \<Rightarrow> Session" where
  "recordSessionStart s =
     log_row (RecordSessionStart
       \<lparr>srw_SessionID = sc_ID (ss_cfg s), srw_Symbol = sym_ID (sc_Symbol (ss_cfg s)),
        srw_Interval = sc_Interval (ss_cfg s), srw_ConnectedAt = ss_connectedAt s, srw_DisconnectedAt = None,
        srw_DisconnectReason = [], srw_InitialTier = Tier_String (tier (ss_tierMachine s)), srw_FinalTier = [],
        srw_OverrideTier = [], srw_UptimeMs = 0, srw_MessagesSent = 0, srw_MessagesReceived = 0, srw_BytesSent = 0,
        srw_ProtocolErrors = 0\<rparr>) s"

definition Milliseconds :: "int \<Rightarrow> int" where
  "Milliseconds d = d sdiv 1000000"

definition recordSessionEnd :: "world \<Rightarrow> string \<Rightarrow> Session \<Rightarrow> Session" where
  "recordSessionEnd W r s =
     log_row (RecordSessionEnd
       \<lparr>srw_SessionID = sc_ID (ss_cfg s), srw_Symbol = sym_ID (sc_Symbol (ss_cfg s)),
        srw_Interval = sc_Interval (ss_cfg s), srw_ConnectedAt = ss_connectedAt s, srw_DisconnectedAt = Some (w_now W),
        srw_DisconnectReason = r, srw_InitialTier = [], srw_FinalTier = Tier_String (tier (ss_tierMachine s)),
        srw_OverrideTier = Session_Override s,
        srw_UptimeMs = Milliseconds (Time_Sub (w_now W) (ss_connectedAt s)), srw_MessagesSent = ss_messagesSent s,
        srw_MessagesReceived = ss_messagesReceived s, srw_BytesSent = ss_bytesSent s,
        srw_ProtocolErrors = ss_protocolErrors s\<rparr>) s"

definition recordBookEvent :: "world \<Rightarrow> Engine \<Rightarrow> string \<Rightarrow> u64 \<Rightarrow> u64 \<Rightarrow> int \<Rightarrow> int \<Rightarrow> Session \<Rightarrow> Session" where
  "recordBookEvent W e event from_u to_u gapSize attempt s =
     log_row (RecordBookEvent
       \<lparr>bse_At = w_now W, bse_SessionID = sc_ID (ss_cfg s), bse_Scope = ''SESSION'', bse_Event = event,
        bse_Epoch = en_epoch e, bse_FromUpdateID = from_u, bse_ToUpdateID = to_u, bse_GapSize = gapSize,
        bse_DurationMs = 0, bse_Attempt = attempt\<rparr>) s"

definition recordProtocolEvent :: "world \<Rightarrow> string \<Rightarrow> text_msg \<Rightarrow> Session \<Rightarrow> Session" where
  "recordProtocolEvent W kind d s =
     log_row (RecordProtocolEvent
       \<lparr>pev_At = w_now W, pev_SessionID = sc_ID (ss_cfg s), pev_Kind = kind, pev_Detail = d, pev_Count = 1\<rparr>) s"

definition recordFault :: "world \<Rightarrow> string \<Rightarrow> text_msg \<Rightarrow> Session \<Rightarrow> Session" where
  "recordFault W fault d s =
     log_row (RecordFaultInjection
       \<lparr>fir_At = w_now W, fir_SessionID = sc_ID (ss_cfg s), fir_Fault = fault, fir_Parameters = d, fir_Applied = True\<rparr>) s"

definition channelList :: "string list \<Rightarrow> string list" where
  "channelList channels = filter (\<lambda>c. c \<in> set channels) Channels"

definition kindForCode :: "ErrorCode \<Rightarrow> string" where
  "kindForCode code =
     (case code of
        CodeMalformedFrame \<Rightarrow> ''MALFORMED_FRAME''
      | CodeUnknownMessageType \<Rightarrow> ''UNKNOWN_TYPE''
      | CodeRateLimited \<Rightarrow> ''RATE_LIMITED''
      | _ \<Rightarrow> ''VALIDATION_FAILED'')"


section \<open>The outbound queue\<close>

definition capacity :: "Session \<Rightarrow> nat" where
  "capacity s = nat (sc_OutboundCapacity (ss_cfg s))"

definition push :: "outbound \<Rightarrow> Session \<Rightarrow> Session" where
  "push m s = s\<lparr>ss_outbound := ss_outbound s @ [m]\<rparr>"

text \<open>The writer takes frames while a send blocks.\<close>

definition writer_takes :: "nat \<Rightarrow> Session \<Rightarrow> Session" where
  "writer_takes n s = s\<lparr>ss_taken := ss_taken s @ take n (ss_outbound s), ss_outbound := drop n (ss_outbound s)\<rparr>"

definition enqueue :: "outbound \<Rightarrow> Session \<Rightarrow> Session \<times> bool" where
  "enqueue msg s =
     (if length (ss_outbound s) < capacity s then (push msg s, True)
      else if out_critical msg then
        (case ss_waits s of
           [] \<Rightarrow> (s, False)
         | n # ws \<Rightarrow>
             let s' = writer_takes n (s\<lparr>ss_waits := ws\<rparr>)
             in if length (ss_outbound s') < capacity s then (push msg s', True) else (s', False))
      else (s\<lparr>ss_dropped := wrap64 (ss_dropped s + 1)\<rparr>, False))"

definition nextSeq :: "Session \<Rightarrow> Session" where
  "nextSeq s = s\<lparr>ss_lastSeq := ss_lastSeq s + 1\<rparr>"

text \<open>A frame with the next sequence number, when the payload can be encoded.\<close>

definition make_frame :: "world \<Rightarrow> MessageType \<Rightarrow> payload \<Rightarrow> Session \<Rightarrow> Session \<times> Envelope option" where
  "make_frame W kind p s =
     (let s1 = nextSeq s in (s1, Encode (w_json W) kind (ss_lastSeq s1) (w_now W) p))"

definition enqueueFrame :: "world \<Rightarrow> MessageType \<Rightarrow> payload \<Rightarrow> bool \<Rightarrow> Session \<Rightarrow> Session \<times> bool" where
  "enqueueFrame W kind p critical s =
     (case make_frame W kind p s of
        (s1, None) \<Rightarrow> (s1, False)
      | (s1, Some f) \<Rightarrow> enqueue \<lparr>out_data = f, out_kind = kind, out_critical = critical\<rparr> s1)"

definition enqueueCritical :: "world \<Rightarrow> MessageType \<Rightarrow> payload \<Rightarrow> Session \<Rightarrow> Session \<times> bool" where
  "enqueueCritical W kind p s = enqueueFrame W kind p True s"

definition send :: "world \<Rightarrow> MessageType \<Rightarrow> payload \<Rightarrow> bool \<Rightarrow> Session \<Rightarrow> Session" where
  "send W kind p critical s = fst (enqueueFrame W kind p critical s)"

definition sendError :: "world \<Rightarrow> ProtoError \<Rightarrow> Session \<Rightarrow> Session" where
  "sendError W perr s =
     send W TypeError (PError (ErrorPayloadFrom (Some perr))) True
       (s\<lparr>ss_protocolErrors := wrap64 (ss_protocolErrors s + 1)\<rparr>)"

definition UnixMilli :: "gotime \<Rightarrow> int" where
  "UnixMilli t = instant t div 10 ^ 6"

definition sendPong :: "world \<Rightarrow> PingMsg \<Rightarrow> Session \<Rightarrow> Session" where
  "sendPong W ping s =
     send W TypePong
       (PPong \<lparr>po_ID = pi_ID ping, po_ClientTimeMs = pi_ClientTimeMs ping, po_ServerTimeMs = UnixMilli (w_now W)\<rparr>) True s"

definition welcomePayload :: "world \<Rightarrow> Engine \<Rightarrow> Session \<Rightarrow> WelcomePayload" where
  "welcomePayload W e s =
     (let t = pol_Thresholds (ss_Policy s); r = pol_TargetRate (ss_Policy s) in
      \<lparr>wp_SessionID = sc_ID (ss_cfg s), wp_ShortID = sc_ShortID (ss_cfg s), wp_Symbol = sym_ID (sc_Symbol (ss_cfg s)),
       wp_Epoch = en_epoch e, wp_EngineState = State_String (en_state e), wp_ServerTime = FormatTime (w_now W),
       wp_ProtocolMin = Version, wp_ProtocolMax = Version, wp_Intervals = IntervalIDs, wp_Channels = Channels,
       wp_HeartbeatMs = ClientHeartbeatInterval sdiv 1000000,
       wp_TierRates = map (\<lambda>t. (Tier_String t, r t)) [TierFull, TierDegraded, TierMinimal],
       wp_TierThresholds =
         \<lparr>wt_FullMaxRTTMs = FullMaxRTTMs t, wt_FullMaxJitterMs = FullMaxJitterMs t,
          wt_MinimalMinRTTMs = MinimalMinRTTMs t, wt_MinimalMinJitterMs = MinimalMinJitterMs t,
          wt_DegradeStreak = DegradeStreak t, wt_RecoverStreak = RecoverStreak t,
          wt_ReportHoldMs = Milliseconds (ReportHold t), wt_ReportDegradeMs = Milliseconds (ReportDegrade t)\<rparr>\<rparr>)"

datatype run_error = ErrNoEngine | ErrEncodeWelcome | ErrQueueWelcome

definition sendWelcome :: "world \<Rightarrow> Engine \<Rightarrow> Session \<Rightarrow> Session \<times> run_error option" where
  "sendWelcome W e s =
     (case make_frame W TypeWelcome (PWelcome (welcomePayload W e s)) s of
        (s1, None) \<Rightarrow> (s1, Some ErrEncodeWelcome)
      | (s1, Some f) \<Rightarrow>
          let (s2, ok) = enqueue \<lparr>out_data = f, out_kind = TypeWelcome, out_critical = True\<rparr> s1
          in (s2, if ok then None else Some ErrQueueWelcome))"

definition cut :: "int \<Rightarrow> 'a list \<Rightarrow> 'a list" where
  "cut n xs = (if int (length xs) > n then take (nat n) xs else xs)"

definition sendSnapshot :: "world \<Rightarrow> Engine \<Rightarrow> Session \<Rightarrow> Session" where
  "sendSnapshot W e s =
     (let b = Engine_Book (w_now W) e;
          n = sc_BookWindow (ss_cfg s);
          b = b\<lparr>ob_Bids := cut n (ob_Bids b), ob_Asks := cut n (ob_Asks b)\<rparr>;
          s1 = send W TypeOrderBookSnapshot (PSnapshot (SnapshotPayloadFrom (sc_Symbol (ss_cfg s)) b)) True s;
          s2 = s1\<lparr>ss_coalescer := SnapshotSent (ob_Epoch b) (ob_UpdateID b) (ss_coalescer s1)\<rparr>
      in log_row (RecordBookEvent
           \<lparr>bse_At = w_now W, bse_SessionID = sc_ID (ss_cfg s), bse_Scope = ''SESSION'', bse_Event = ''SNAPSHOT_APPLIED'',
            bse_Epoch = ob_Epoch b, bse_FromUpdateID = 0, bse_ToUpdateID = ob_UpdateID b, bse_GapSize = 0,
            bse_DurationMs = Milliseconds (Time_Sub (w_now W) (w_now W)), bse_Attempt = 0\<rparr>) s2)"

definition requestResync :: "world \<Rightarrow> Engine \<Rightarrow> string \<Rightarrow> Session \<Rightarrow> Session" where
  "requestResync W e r s =
     (let s1 = recordProtocolEvent W ''SLOW_CONSUMER'' (r, []) s
      in sendSnapshot W e (s1\<lparr>ss_coalescer := Coalescer_Reset (ss_coalescer s1)\<rparr>))"

definition candle_update :: "Session \<Rightarrow> Candle \<Rightarrow> CandleUpdatePayload" where
  "candle_update s candle =
     \<lparr>cu_Symbol = sym_ID (sc_Symbol (ss_cfg s)), cu_Interval = cd_Interval candle,
      cu_Candle = CandlePayloadFrom (sc_Symbol (ss_cfg s)) candle True, cu_SourceSequence = cd_SourceSequence candle,
      cu_Active = True\<rparr>"

definition sendCandleUpdate :: "world \<Rightarrow> Candle \<Rightarrow> Session \<Rightarrow> Session" where
  "sendCandleUpdate W candle s = send W TypeCandleUpdate (PCandleUpdate (candle_update s candle)) False s"

definition sendCandleClosed :: "world \<Rightarrow> Engine \<Rightarrow> Candle \<Rightarrow> Session \<Rightarrow> Session" where
  "sendCandleClosed W e candle s =
     (let p = \<lparr>cc_Symbol = sym_ID (sc_Symbol (ss_cfg s)), cc_Interval = cd_Interval candle,
               cc_Candle = CandlePayloadFrom (sc_Symbol (ss_cfg s)) candle False, cc_Epoch = en_epoch e\<rparr>;
          (s1, ok) = enqueueCritical W TypeCandleClosed (PCandleClosed p) s
      in if ok then s1
         else requestResync W e ''candle close undeliverable''
                (recordProtocolEvent W ''SLOW_CONSUMER'' (''candle close could not be delivered'', []) s1))"

definition sendMarketStatus :: "world \<Rightarrow> MarketStatus \<Rightarrow> Session \<Rightarrow> Session" where
  "sendMarketStatus W st s =
     send W TypeMarketStatus
       (PMarketStatus \<lparr>sta_State = State_String (st_State st), sta_Epoch = st_Epoch st, sta_Message = st_Message st,
          sta_At = FormatTime (st_At st)\<rparr>) True s"

definition sendHealth :: "world \<Rightarrow> Engine \<Rightarrow> Session \<Rightarrow> Session" where
  "sendHealth W e s =
     (let h = Health_Snapshot (w_now W) (ss_health s);
          (c, coalesced, suppressed) = Stats (ss_coalescer s);
          s1 = s\<lparr>ss_coalescer := c\<rparr>;
          tm = ss_tierMachine s
      in send W TypeHealth
           (PHealth \<lparr>hp_Tier = Tier_String (tier tm), hp_Override = Session_Override s,
              hp_Reason = Reason_String (reason tm), hp_TargetRatePerSec = pol_TargetRate (ss_Policy s) (tier tm),
              hp_EffectiveRatePerSec = f64_div (f64_of_int (ss_lastEffectiveRate s)) 1000,
              hp_RTTMs = hs_RTTMs h, hp_JitterMs = hs_JitterMs h, hp_LastReportAgeMs = Milliseconds (hs_Age h),
              hp_UptimeMs = Milliseconds (Time_Sub (w_now W) (ss_connectedAt s)), hp_BookEpoch = en_epoch e,
              hp_BookUpdateID = Engine_UpdateID e, hp_CoalescedCount = coalesced, hp_SuppressedCount = suppressed,
              hp_QueuedMessages = length (ss_outbound s), hp_DroppedMessages = ss_dropped s\<rparr>) False s1)"


section \<open>Events of the bound market\<close>

definition tradeBatchLimit :: "Session \<Rightarrow> int" where
  "tradeBatchLimit s = (case tier (ss_tierMachine s) of TierFull \<Rightarrow> 0 | TierDegraded \<Rightarrow> 20 | _ \<Rightarrow> 1)"

definition handleEvent :: "world \<Rightarrow> Engine \<Rightarrow> Event \<Rightarrow> Session \<Rightarrow> Session" where
  "handleEvent W e ev s =
     (case ev_Kind ev of
        EventBookWindow \<Rightarrow>
          (case ev_Book ev of
             None \<Rightarrow> s
           | Some b \<Rightarrow>
               let s1 = s\<lparr>ss_coalescer := OnBookWindow (bw_Epoch b) (bw_UpdateID b) (bw_Bids b) (bw_Asks b) (ss_coalescer s)\<rparr>
               in if NeedsSnapshot (ss_coalescer s1) then sendSnapshot W e s1 else s1)
      | EventCandleChanged \<Rightarrow>
          (case ev_Candle ev of
             None \<Rightarrow> s
           | Some c \<Rightarrow> if cd_Interval c = sc_Interval (ss_cfg s) then s\<lparr>ss_coalescer := OnCandle c (ss_coalescer s)\<rparr> else s)
      | EventCandleClosed \<Rightarrow>
          (case ev_Candle ev of
             None \<Rightarrow> s
           | Some c \<Rightarrow>
               if cd_Interval c \<noteq> sc_Interval (ss_cfg s) then s
               else if fc_SkipCandleClosed (ss_faults s)
               then recordFault W ''skip_candle_closed'' (''suppressed a candle close'', [])
                      (s\<lparr>ss_faults := (ss_faults s)\<lparr>fc_SkipCandleClosed := False\<rparr>\<rparr>)
               else sendCandleClosed W e c s)
      | EventTrade \<Rightarrow>
          (case ev_Trade ev of
             None \<Rightarrow> s
           | Some t \<Rightarrow>
               if ChannelTrades \<in> set (ss_Channels s)
               then s\<lparr>ss_coalescer := OnTrade (tradeBatchLimit s) t (ss_coalescer s)\<rparr> else s)
      | EventMarketStatus \<Rightarrow>
          (case ev_Status ev of None \<Rightarrow> s | Some st \<Rightarrow> sendMarketStatus W st s))"


section \<open>Flushing\<close>

text \<open>The first part of \<^verbatim>\<open>flushBook\<close>: a pending gap fault makes the next range discontiguous.\<close>

definition skip_deltas :: "world \<Rightarrow> Engine \<Rightarrow> Session \<Rightarrow> Session" where
  "skip_deltas W e s =
     (let n = fc_SkipBookDeltas (ss_faults s);
          s1 = s\<lparr>ss_faults := (ss_faults s)\<lparr>fc_SkipBookDeltas := 0\<rparr>\<rparr>
      in if n > 0 then
           let (c, sent) = InjectGap (ss_coalescer s1);
               s2 = recordFault W ''book_gap'' (''skipped %d update ids'', [ArgI (uint sent)]) (s1\<lparr>ss_coalescer := c\<rparr>)
           in recordBookEvent W e ''GAP_DETECTED'' 0 (Engine_UpdateID e) (sint sent) 0 s2
         else s1)"

definition delta_out :: "Envelope \<Rightarrow> bool \<Rightarrow> outbound" where
  "delta_out f critical = \<lparr>out_data = f, out_kind = TypeOrderBookDelta, out_critical = critical\<rparr>"

text \<open>The second part: what happens to an encoded delta.\<close>

definition emit_delta :: "world \<Rightarrow> Engine \<Rightarrow> book_delta \<Rightarrow> Envelope \<Rightarrow> Session \<Rightarrow> Session" where
  "emit_delta W e d f s =
     (if fc_ReverseDeltas (ss_faults s) then
        recordFault W ''out_of_order_delta'' (''held a delta to reverse the pair'', [])
          (s\<lparr>ss_faults := (ss_faults s)\<lparr>fc_ReverseDeltas := False\<rparr>, ss_heldDelta := Some f\<rparr>)
      else case ss_heldDelta s of
        Some held \<Rightarrow>
          let s1 = fst (enqueue (delta_out f False) (s\<lparr>ss_heldDelta := None\<rparr>));
              s2 = fst (enqueue (delta_out held True) s1)
          in recordFault W ''out_of_order_delta'' (''sent the held delta after its successor'', []) s2
      | None \<Rightarrow>
          let (s1, ok) = enqueue (delta_out f True) s in
          if \<not> ok then
            requestResync W e ''outbound queue full for a book delta''
              (recordBookEvent W e ''RECOVERY_STARTED'' (de_first d) (de_last d) 0 0 s1)
          else
            let s2 = s1\<lparr>ss_coalescer := fst (Stats (ss_coalescer s1))\<rparr> in
            if fc_DuplicateDelta (ss_faults s2) then
              let s3 = recordFault W ''duplicate_delta'' (''re-sent the previous delta'', [])
                         (s2\<lparr>ss_faults := (ss_faults s2)\<lparr>fc_DuplicateDelta := False\<rparr>\<rparr>)
              in fst (enqueue (delta_out f True) s3)
            else s2\<lparr>ss_lastDelta := Some f\<rparr>)"

definition flushBook :: "world \<Rightarrow> Engine \<Rightarrow> Session \<Rightarrow> Session" where
  "flushBook W e s =
     (let s1 = skip_deltas W e s in
      case TakeBookDelta (ss_coalescer s1) of
        (c, None) \<Rightarrow> s1\<lparr>ss_coalescer := c\<rparr>
      | (c, Some d) \<Rightarrow>
          let s2 = s1\<lparr>ss_coalescer := c\<rparr>;
              p = DeltaPayloadFrom (sc_Symbol (ss_cfg s2)) (de_epoch d) (de_first d) (de_last d) (de_bids d) (de_asks d)
          in case make_frame W TypeOrderBookDelta (PDelta p) s2 of
               (s3, None) \<Rightarrow> s3
             | (s3, Some f) \<Rightarrow> emit_delta W e d f s3)"

definition suppress :: "int \<Rightarrow> Session \<Rightarrow> Session" where
  "suppress n s = s\<lparr>ss_window := (ss_window s)\<lparr>win_suppressed := wrap64 (win_suppressed (ss_window s) + n)\<rparr>\<rparr>"

text \<open>The loop of \<^verbatim>\<open>flushCandles\<close>; every round takes a candle out of the coalescer.\<close>

lemma TakeCandle_less: "TakeCandle iv c = (c', Some cd) \<Longrightarrow> length (co_candles c') < length (co_candles c)"
proof -
  assume a: "TakeCandle iv c = (c', Some cd)"
  then have "co_candles c' = AList.delete iv (co_candles c)" "iv \<in> fst ` set (co_candles c)"
    by (auto simp: TakeCandle_def split: option.splits dest: map_of_SomeD intro: rev_image_eqI)
  then show ?thesis unfolding AList.delete_eq by (force intro: length_filter_less)
qed

lemma make_frame_coalescer: "make_frame W k p s = (s', f) \<Longrightarrow> ss_coalescer s' = ss_coalescer s"
  by (auto simp: make_frame_def nextSeq_def Let_def)

lemma enqueue_coalescer: "enqueue m s = (s', ok) \<Longrightarrow> ss_coalescer s' = ss_coalescer s"
  by (auto simp: enqueue_def push_def writer_takes_def Let_def split: if_splits list.splits)

function flush_candles :: "world \<Rightarrow> Session \<Rightarrow> Session" where
  "flush_candles W s =
     (case TakeCandle (sc_Interval (ss_cfg s)) (ss_coalescer s) of
        (c, None) \<Rightarrow> s\<lparr>ss_coalescer := c\<rparr>
      | (c, Some candle) \<Rightarrow>
          let s1 = s\<lparr>ss_coalescer := c\<rparr> in
          case make_frame W TypeCandleUpdate (PCandleUpdate (candle_update s1 candle)) s1 of
            (s2, None) \<Rightarrow> flush_candles W s2
          | (s2, Some f) \<Rightarrow>
              let (s3, ok) = enqueue \<lparr>out_data = f, out_kind = TypeCandleUpdate, out_critical = False\<rparr> s2
              in if ok then flush_candles W s3
                 else suppress 1 (s3\<lparr>ss_coalescer := OnCandle candle (ss_coalescer s3)\<rparr>))"
  by pat_completeness auto

termination
  by (relation "measure (\<lambda>(_, s). length (co_candles (ss_coalescer s)))")
    (auto dest!: TakeCandle_less [OF sym] enqueue_coalescer [OF sym] make_frame_coalescer [OF sym])

declare flush_candles.simps [simp del]

definition flushCandles :: "world \<Rightarrow> Session \<Rightarrow> Session" where
  "flushCandles W s = (if ChannelCandles \<in> set (ss_Channels s) then flush_candles W s else s)"

fun flush_each_trade :: "world \<Rightarrow> Trade list \<Rightarrow> Session \<Rightarrow> Session" where
  "flush_each_trade W [] s = s"
| "flush_each_trade W (t # ts) s =
     (case make_frame W TypeTrade (PTrade (TradePayloadFrom (sc_Symbol (ss_cfg s)) t)) s of
        (s1, None) \<Rightarrow> flush_each_trade W ts s1
      | (s1, Some f) \<Rightarrow>
          let (s2, ok) = enqueue \<lparr>out_data = f, out_kind = TypeTrade, out_critical = False\<rparr> s1
          in if ok then flush_each_trade W ts s2 else suppress (int (length (t # ts))) s2)"

definition flushTrades :: "world \<Rightarrow> Session \<Rightarrow> Session" where
  "flushTrades W s =
     (if ChannelTrades \<notin> set (ss_Channels s) then s
      else
        let (c, trades, omitted, ok) = TakeTrades (ss_coalescer s);
            s1 = s\<lparr>ss_coalescer := c\<rparr>
        in if \<not> ok then s1
           else if tier (ss_tierMachine s1) = TierFull then flush_each_trade W trades s1
           else
             let p = \<lparr>tb_Symbol = sym_ID (sc_Symbol (ss_cfg s1)),
                      tb_Trades = map (TradePayloadFrom (sc_Symbol (ss_cfg s1))) trades,
                      tb_Compacted = (omitted > 0), tb_OmittedCount = omitted\<rparr>
             in case make_frame W TypeTradeBatch (PTradeBatch p) s1 of
                  (s2, None) \<Rightarrow> s2
                | (s2, Some f) \<Rightarrow>
                    let (s3, ok) = enqueue \<lparr>out_data = f, out_kind = TypeTradeBatch, out_critical = False\<rparr> s2
                    in if ok then s3 else suppress (int (length trades)) s3)"

definition flush :: "world \<Rightarrow> Engine \<Rightarrow> Session \<Rightarrow> Session" where
  "flush W e s = flushTrades W (flushCandles W (flushBook W e s))"

definition flushSummary :: "world \<Rightarrow> Engine \<Rightarrow> Session \<Rightarrow> Session option" where
  "flushSummary W e s =
     (if ChannelSummary \<notin> set (ss_Channels s) then Some s
      else case Engine_Summary (w_now W) e of
             None \<Rightarrow> None
           | Some m \<Rightarrow> Some (send W TypeMarketSummary (PSummary (SummaryPayloadFrom (sc_Symbol (ss_cfg s)) m)) False s))"


section \<open>Commands\<close>

text \<open>\<^verbatim>\<open>resolveMarket\<close>: the id of the engine and its symbol.\<close>

definition resolveMarket :: "string \<Rightarrow> Session \<Rightarrow> (string \<times> Symbol) option" where
  "resolveMarket i s =
     (case Lookup i of
        Inl _ \<Rightarrow> None
      | Inr symb \<Rightarrow>
          (case sc_Registry (ss_cfg s) of
             Some ids \<Rightarrow> if sym_ID symb \<in> set ids then Some (sym_ID symb, symb) else None
           | None \<Rightarrow> if ss_engine s = Some (sym_ID symb) then Some (sym_ID symb, symb) else None))"

definition subscribe_bus :: "string \<Rightarrow> Session \<Rightarrow> Session" where
  "subscribe_bus m s =
     (let (b, p) = Bus_Subscribe (''sess:'' @ sc_ShortID (ss_cfg s)) (sc_OutboundCapacity (ss_cfg s)) (ss_buses s m)
      in s\<lparr>ss_buses := (ss_buses s)(m := b), ss_sub := Some p\<rparr>)"

definition unsubscribe_bus :: "Session \<Rightarrow> Session" where
  "unsubscribe_bus s =
     (case (ss_sub s, ss_engine s) of
        (Some p, Some m) \<Rightarrow> s\<lparr>ss_buses := (ss_buses s)(m := Unsubscribe p (ss_buses s m))\<rparr>
      | _ \<Rightarrow> s)"

definition bindEngine :: "string \<Rightarrow> Symbol \<Rightarrow> Session \<Rightarrow> Session" where
  "bindEngine m symb s =
     (let s1 = unsubscribe_bus s;
          s2 = s1\<lparr>ss_engine := Some m, ss_cfg := (ss_cfg s1)\<lparr>sc_Symbol := symb\<rparr>, ss_coalescer := NewCoalescer symb\<rparr>
      in subscribe_bus m s2)"

text \<open>The changes of an accepted subscription, and the frames that follow it.\<close>

definition accept_subscription :: "string \<Rightarrow> Symbol \<Rightarrow> interval \<Rightarrow> string list option \<Rightarrow> Session \<Rightarrow> Session" where
  "accept_subscription m symb iv channels s =
     (let s1 = (case channels of None \<Rightarrow> s | Some cs \<Rightarrow> s\<lparr>ss_Channels := cs @ [ChannelHealth]\<rparr>);
          s2 = s1\<lparr>ss_cfg := (ss_cfg s1)\<lparr>sc_Interval := iv\<rparr>\<rparr>
      in if ss_engine s2 \<noteq> Some m then bindEngine m symb s2 else s2)"

definition greet :: "world \<Rightarrow> Engine \<Rightarrow> Symbol \<Rightarrow> interval \<Rightarrow> Session \<Rightarrow> Session option" where
  "greet W e symb iv s =
     (let s1 = sendSnapshot W e s;
          s2 = send W TypeSubscribed
                 (PSubscribed \<lparr>sbp_Symbol = sym_ID symb, sbp_Interval = iv,
                    sbp_Channels = channelList (ss_Channels s1), sbp_Epoch = en_epoch e\<rparr>) False s1;
          (active, has) = ActiveCandle iv e;
          s3 = (if has then sendCandleUpdate W active s2 else s2)
      in flushSummary W e s3)"

definition handleSubscribe :: "world \<Rightarrow> string \<Rightarrow> string \<Rightarrow> string list option \<Rightarrow> Session \<Rightarrow> Session option" where
  "handleSubscribe W symbol_id iv_id channels s =
     (case resolveMarket symbol_id s of
        None \<Rightarrow> Some (sendError W (NewError CodeUnsupportedSymbol ''%s is not a market this server serves'' [ArgS symbol_id]) s)
      | Some (m, symb) \<Rightarrow>
          (case ParseInterval iv_id of
             Inl _ \<Rightarrow> Some (sendError W (NewError CodeUnsupportedInterval ''interval %q is not supported'' [ArgS iv_id]) s)
           | Inr iv \<Rightarrow>
               (case List.find (\<lambda>c. \<not> ValidChannel c) (elems channels) of
                  Some c \<Rightarrow> Some (sendError W (NewError CodeUnsupportedChannel ''channel %q is not supported'' [ArgS c]) s)
                | None \<Rightarrow>
                    (case w_engines W m of
                       None \<Rightarrow> None
                     | Some e \<Rightarrow> greet W e symb iv (accept_subscription m symb iv channels s)))))"

definition onTierChanged :: "world \<Rightarrow> Engine \<Rightarrow> TierTransition \<Rightarrow> Session \<Rightarrow> Session" where
  "onTierChanged W e tr s =
     (let tr = tr\<lparr>tt_SessionID := sc_ID (ss_cfg s),
                  tt_Override := (case override (ss_tierMachine s) of Some t \<Rightarrow> Tier_String t | None \<Rightarrow> tt_Override tr)\<rparr>;
          s1 = log_row (RecordTierTransition
                 \<lparr>ttr_SessionID = sc_ID (ss_cfg s), ttr_At = tt_At tr, ttr_From = Tier_String (tt_From tr),
                  ttr_To = Tier_String (tt_To tr), ttr_Reason = Reason_String (tt_Reason tr), ttr_RTTMs = tt_RTTMs tr,
                  ttr_JitterMs = tt_JitterMs tr, ttr_Streak = tt_Streak tr, ttr_Override = tt_Override tr\<rparr>) s
      in sendHealth W e (s1\<lparr>ss_retune := True\<rparr>))"

definition handleLatencyReport :: "world \<Rightarrow> Engine \<Rightarrow> LatencyReportMsg \<Rightarrow> Session \<Rightarrow> Session" where
  "handleLatencyReport W e m s =
     (let now = w_now W;
          rep = \<lparr>hr_RTTMs = lr_RTTMs m, hr_JitterMs = lr_JitterMs m, hr_Samples = lr_Samples m,
                 hr_ClientTimeMs = lr_ClientTimeMs m, hr_ReceivedAt = now\<rparr>;
          s1 = s\<lparr>ss_health := Ingest rep (ss_health s)\<rparr>;
          h = Health_Snapshot now (ss_health s1);
          s2 = log_row (RecordHealthReport
                 \<lparr>hrr_SessionID = sc_ID (ss_cfg s), hrr_ReceivedAt = now, hrr_RTTMs = lr_RTTMs m,
                  hrr_JitterMs = lr_JitterMs m, hrr_AgeSinceLastMs = Milliseconds (hs_Age h),
                  hrr_Band = HealthBand_String (pol_Classify (ss_Policy s) (lr_RTTMs m) (lr_JitterMs m))\<rparr>) s1;
          s3 = log_row (RecordLatency
                 \<lparr>ls_SessionID = sc_ID (ss_cfg s), ls_Seq = hs_TotalReports h, ls_RTTMs = lr_RTTMs m,
                  ls_JitterMs = lr_JitterMs m, ls_Samples = lr_Samples m, ls_ClientTimeMs = lr_ClientTimeMs m,
                  ls_ServerTime = now, ls_Capped = (lr_Capped m > 0), ls_MissedPong = (lr_MissedPongs m > 0)\<rparr>) s2;
          s4 = (if lr_MissedPongs m > 0
                then recordProtocolEvent W ''MISSED_PONG'' (''%d missed pongs'', [ArgI (lr_MissedPongs m)]) s3 else s3);
          (tm, tr) = Observe rep now (ss_tierMachine s4);
          s5 = s4\<lparr>ss_tierMachine := tm\<rparr>
      in if tt_Changed tr then onTierChanged W e tr s5 else s5)"

text \<open>\<^verbatim>\<open>Error.Error\<close>: the code and the message.\<close>

definition Error_text :: "ProtoError \<Rightarrow> text_msg" where
  "Error_text err = (Code_String (pe_Code err) @ '': '' @ fst (pe_Message err), snd (pe_Message err))"

definition handleTierOverride :: "world \<Rightarrow> Engine \<Rightarrow> string \<Rightarrow> Session \<Rightarrow> Session" where
  "handleTierOverride W e v s =
     (if \<not> sc_DebugControls (ss_cfg s)
      then sendError W (NewError CodeDebugDisabled ''tier override is disabled on this build'' []) s
      else case ParseTierOrAuto v of
             Inl err \<Rightarrow> sendError W ((NewError CodeTierOverrideRejected [] [])\<lparr>pe_Message := Error_text err\<rparr>) s
           | Inr t \<Rightarrow>
               let (tm, tr) = (case t of None \<Rightarrow> ClearOverride (w_now W) (ss_tierMachine s)
                                | Some t \<Rightarrow> Force t (w_now W) (ss_tierMachine s));
                   s1 = s\<lparr>ss_tierMachine := tm\<rparr>
               in if tt_Changed tr then onTierChanged W e tr s1 else sendHealth W e s1)"

definition handleCommand :: "world \<Rightarrow> Engine \<Rightarrow> ClientMessage \<Rightarrow> Session \<Rightarrow> Session option" where
  "handleCommand W e msg s =
     (case msg of
        Hello m \<Rightarrow>
          if \<not> sc_Logger (ss_cfg s) then None
          else Some (if sc_OnHello (ss_cfg s) then s\<lparr>ss_hellos := ss_hellos s @ [he_DeviceID m]\<rparr> else s)
      | Subscribe m \<Rightarrow> handleSubscribe W (su_Symbol m) (su_Interval m) (su_Channels m) s
      | Unsubscribe_msg cs \<Rightarrow>
          Some (send W TypeUnsubscribed (PUnsubscribed cs) False
                  (s\<lparr>ss_Channels := filter (\<lambda>c. c \<notin> set (elems cs)) (ss_Channels s)\<rparr>))
      | SetInterval iv \<Rightarrow> handleSubscribe W (sym_ID (sc_Symbol (ss_cfg s))) iv None s
      | LatencyReport m \<Rightarrow> Some (handleLatencyReport W e m s)
      | TierOverride v \<Rightarrow> Some (handleTierOverride W e v s)
      | Ping _ \<Rightarrow> Some s)"


section \<open>The delivery loop\<close>

definition Seconds :: "int \<Rightarrow> rat" where
  "Seconds d = f64_add (f64_of_int (d sdiv second)) (f64_div (f64_of_int (d smod second)) (10 ^ 9))"

definition recordDeliveryWindow :: "world \<Rightarrow> Session \<Rightarrow> Session" where
  "recordDeliveryWindow W s =
     (let elapsed = Time_Sub (w_now W) (ss_windowStarted s); w = ss_window s; t = tier (ss_tierMachine s) in
      if elapsed \<le> 0 then s
      else
        let effective = f64_div (f64_of_int (win_candleUpdates w)) (Seconds elapsed);
            s1 = log_row (RecordDeliveryWindow
                   \<lparr>dw_SessionID = sc_ID (ss_cfg s), dw_WindowStart = ss_windowStarted s,
                    dw_WindowMs = Milliseconds elapsed, dw_Tier = Tier_String t,
                    dw_TargetRate = pol_TargetRate (ss_Policy s) t, dw_EffectiveRate = effective,
                    dw_CandleUpdates = win_candleUpdates w, dw_TradeMessages = win_tradeMessages w,
                    dw_BookDeltas = win_bookDeltas w, dw_HealthMessages = win_healthMessages w,
                    dw_Coalesced = win_coalesced w, dw_Suppressed = win_suppressed w, dw_BytesSent = win_bytes w\<rparr>) s
        in s1\<lparr>ss_lastEffectiveRate := f64_to_int (f64_mul effective 1000), ss_window := newWindow t,
              ss_windowStarted := w_now W\<rparr>)"

definition watchdog :: "world \<Rightarrow> Engine \<Rightarrow> Session \<Rightarrow> Session" where
  "watchdog W e s =
     (let age = hs_Age (Health_Snapshot (w_now W) (ss_health s));
          (tm, tr) = OnMissingReports age (w_now W) (ss_tierMachine s);
          s1 = s\<lparr>ss_tierMachine := tm\<rparr>;
          s2 = (if tt_Changed tr then onTierChanged W e tr s1 else s1)
      in s2\<lparr>ss_lastReportAgeMs := Milliseconds (hs_Age (Health_Snapshot (w_now W) (ss_health s2)))\<rparr>)"

text \<open>
  The cases of the loop's \<^verbatim>\<open>select\<close>. A case that is not ready is never taken: a step for it
  leaves the state alone. The result says whether the loop goes on.
\<close>

datatype delivery_input =
    CtxDone | CommandReady | SubDone | EventReady | FlushTick | HealthTick | WatchdogTick | SummaryTick
  | KeepaliveTick | WindowTick | RetuneReady

definition own_sub :: "Session \<Rightarrow> Subscription option" where
  "own_sub s =
     (case (ss_engine s, ss_sub s) of (Some m, Some p) \<Rightarrow> bus_heap (ss_buses s m) p | _ \<Rightarrow> None)"

definition take_event :: "Session \<Rightarrow> (Event \<times> Session) option" where
  "take_event s =
     (case (ss_engine s, ss_sub s, own_sub s) of
        (Some m, Some p, Some sb) \<Rightarrow>
          (case sub_ch sb of
             [] \<Rightarrow> None
           | ev # _ \<Rightarrow> Some (ev, s\<lparr>ss_buses := (ss_buses s)(m := Bus_receive p (ss_buses s m))\<rparr>))
      | _ \<Rightarrow> None)"

definition go_on :: "Session \<Rightarrow> Session \<times> bool" where
  "go_on s = (s, True)"

definition delivery_step :: "world \<Rightarrow> delivery_input \<Rightarrow> Session \<Rightarrow> (Session \<times> bool) option" where
  "delivery_step W inp s =
     (case Option.bind (ss_engine s) (w_engines W) of
        None \<Rightarrow> None
      | Some e \<Rightarrow>
          (case inp of
             CtxDone \<Rightarrow> Some (s, \<not> ss_cancelled s)
           | CommandReady \<Rightarrow>
               (case ss_commands s of
                  [] \<Rightarrow> Some (go_on s)
                | msg # rest \<Rightarrow> map_option go_on (handleCommand W e msg (s\<lparr>ss_commands := rest\<rparr>)))
           | SubDone \<Rightarrow> Some (s, \<not> (case own_sub s of None \<Rightarrow> False | Some sb \<Rightarrow> sub_done sb))
           | EventReady \<Rightarrow>
               (case take_event s of None \<Rightarrow> Some (go_on s) | Some (ev, s1) \<Rightarrow> Some (go_on (handleEvent W e ev s1)))
           | FlushTick \<Rightarrow> Some (go_on (flush W e s))
           | HealthTick \<Rightarrow> Some (go_on (sendHealth W e s))
           | WatchdogTick \<Rightarrow> Some (go_on (watchdog W e s))
           | SummaryTick \<Rightarrow> map_option go_on (flushSummary W e s)
           | KeepaliveTick \<Rightarrow> Some (go_on (send W TypePing (PPing (UnixMilli (w_now W))) False s))
           | WindowTick \<Rightarrow> Some (go_on (recordDeliveryWindow W s))
           | RetuneReady \<Rightarrow>
               Some (go_on (if ss_retune s
                            then s\<lparr>ss_retune := False,
                                   ss_flushEvery := pol_FlushInterval (ss_Policy s) (tier (ss_tierMachine s))\<rparr>
                            else s))))"

fun deliveryLoop_from :: "(world \<times> delivery_input) list \<Rightarrow> Session \<Rightarrow> (Session \<times> bool) option" where
  "deliveryLoop_from [] s = Some (s, True)"
| "deliveryLoop_from ((W, inp) # rest) s =
     (case delivery_step W inp s of
        None \<Rightarrow> None
      | Some (s1, continue) \<Rightarrow> if continue then deliveryLoop_from rest s1 else Some (s1, False))"

definition deliveryLoop :: "(world \<times> delivery_input) list \<Rightarrow> Session \<Rightarrow> (Session \<times> bool) option" where
  "deliveryLoop inputs s =
     deliveryLoop_from inputs (s\<lparr>ss_flushEvery := pol_FlushInterval (ss_Policy s) (tier (ss_tierMachine s))\<rparr>)"


section \<open>The reader\<close>

record rateLimiter =
  rl_limit :: int
  rl_window :: gotime
  rl_count :: int

definition newRateLimiter :: "int \<Rightarrow> rateLimiter" where
  "newRateLimiter limit = \<lparr>rl_limit = limit, rl_window = \<lparr>instant = zero_instant, zone = UTC\<rparr>, rl_count = 0\<rparr>"

definition allow :: "gotime \<Rightarrow> rateLimiter \<Rightarrow> rateLimiter \<times> bool" where
  "allow now r =
     (let r1 = (if IsZero (rl_window r) \<or> Time_Sub now (rl_window r) \<ge> second
                then r\<lparr>rl_window := now, rl_count := 0\<rparr> else r);
          r2 = r1\<lparr>rl_count := wrap64 (rl_count r1 + 1)\<rparr>
      in (r2, rl_count r2 \<le> rl_limit r2))"

datatype read_error = DeadlineExceeded | Canceled | OtherReadError

definition classifyReadError :: "read_error \<Rightarrow> string" where
  "classifyReadError err =
     (case err of DeadlineExceeded \<Rightarrow> ''read_timeout'' | Canceled \<Rightarrow> ''context_canceled'' | _ \<Rightarrow> ''read_error'')"

text \<open>
  One round of \<^verbatim>\<open>readLoop\<close> on what \<^verbatim>\<open>ReadMessage\<close> returns. Every error of
  \<^verbatim>\<open>DecodeClientMessage\<close> is a \<^verbatim>\<open>*protocol.Error\<close>, so the branch for other errors is
  never taken. \<open>stops\<close> says that the context is done when the command queue is full.
\<close>

definition read_step ::
  "world \<Rightarrow> json_decoder \<Rightarrow> bool \<Rightarrow> read_error + string \<Rightarrow> rateLimiter \<times> Session \<Rightarrow> (rateLimiter \<times> Session) \<times> bool" where
  "read_step W J stops r st =
     (let (rl, s) = st in
      case r of
        Inl err \<Rightarrow>
          let s1 = (if err = Canceled then s else s\<lparr>ss_closeReason := classifyReadError err\<rparr>)
          in ((rl, Drop ''read_error'' s1), False)
      | Inr bytes \<Rightarrow>
          let s1 = s\<lparr>ss_messagesReceived := wrap64 (ss_messagesReceived s + 1)\<rparr>;
              (rl1, ok) = allow (w_now W) rl
          in if \<not> ok then
               ((rl1, sendError W (NewError CodeRateLimited ''too many messages, slow down'' [])
                  (recordProtocolEvent W ''RATE_LIMITED'' (''client exceeded the message rate'', []) s1)), True)
             else case DecodeClientMessage J bytes of
               Inl perr \<Rightarrow>
                 let s2 = s1\<lparr>ss_protocolErrors := wrap64 (ss_protocolErrors s1 + 1)\<rparr>;
                     s3 = recordProtocolEvent W (kindForCode (pe_Code perr)) (pe_Message perr) s2;
                     s4 = sendError W perr s3
                 in if pe_Fatal perr then
                      ((rl1, Drop (Code_String (pe_Code perr))
                         (s4\<lparr>ss_closeReason := ''protocol_fatal:'' @ Code_String (pe_Code perr)\<rparr>)), False)
                    else ((rl1, s4), True)
             | Inr (Ping m) \<Rightarrow> ((rl1, sendPong W m s1), True)
             | Inr msg \<Rightarrow>
                 if length (ss_commands s1) < 64 then ((rl1, s1\<lparr>ss_commands := ss_commands s1 @ [msg]\<rparr>), True)
                 else if stops then ((rl1, s1), False)
                 else ((rl1, recordProtocolEvent W ''RATE_LIMITED'' (''command queue full'', []) s1), True))"


section \<open>The writer\<close>

text \<open>
  What the environment does to one write: whether \<^verbatim>\<open>select\<close> prefers the end of the context to
  a waiting frame, and the errors, if any, of the two waits (the context ends during one of them) and of
  the two writes to the socket.
\<close>

record write_outcome =
  wo_stop :: bool
  wo_hold :: "string option"
  wo_delay :: "string option"
  wo_invalid :: "string option"
  wo_frame :: "string option"

definition count_frame :: "MessageType \<Rightarrow> deliveryWindow \<Rightarrow> deliveryWindow" where
  "count_frame k w =
     (if k = TypeCandleUpdate then w\<lparr>win_candleUpdates := wrap64 (win_candleUpdates w + 1)\<rparr>
      else if k = TypeTrade \<or> k = TypeTradeBatch then w\<lparr>win_tradeMessages := wrap64 (win_tradeMessages w + 1)\<rparr>
      else if k = TypeOrderBookDelta then w\<lparr>win_bookDeltas := wrap64 (win_bookDeltas w + 1)\<rparr>
      else if k = TypeHealth then w\<lparr>win_healthMessages := wrap64 (win_healthMessages w + 1)\<rparr>
      else w)"

definition release_hold :: "Session \<Rightarrow> Session" where
  "release_hold s = s\<lparr>ss_faults := (ss_faults s)\<lparr>fc_HoldWrites := 0\<rparr>\<rparr>"

definition consume_malformed :: "world \<Rightarrow> Session \<Rightarrow> Session" where
  "consume_malformed W s =
     recordFault W ''malformed_frame'' (''wrote an invalid frame'', [])
       (s\<lparr>ss_faults := (ss_faults s)\<lparr>fc_MalformedFrames := wrap64 (fc_MalformedFrames (ss_faults s) - 1)\<rparr>\<rparr>)"

definition put_invalid :: "Session \<Rightarrow> Session" where
  "put_invalid s = s\<lparr>ss_wire := ss_wire s @ [None]\<rparr>"

definition put_frame :: "world \<Rightarrow> outbound \<Rightarrow> Session \<Rightarrow> Session" where
  "put_frame W msg s =
     (let n = je_size (w_json W) (out_data msg); w = count_frame (out_kind msg) (ss_window s)
      in s\<lparr>ss_wire := ss_wire s @ [Some msg], ss_messagesSent := wrap64 (ss_messagesSent s + 1),
           ss_bytesSent := wrap64 (ss_bytesSent s + n), ss_window := w\<lparr>win_bytes := wrap64 (win_bytes w + n)\<rparr>\<rparr>)"

definition writeWithFaults :: "world \<Rightarrow> write_outcome \<Rightarrow> outbound \<Rightarrow> Session \<Rightarrow> Session \<times> string option" where
  "writeWithFaults W wo msg s =
     (let f = ss_faults s;
          s1 = (if fc_HoldWrites f > 0 then release_hold s else s)
      in if fc_HoldWrites f > 0 \<and> wo_hold wo \<noteq> None then (s1, wo_hold wo)
         else if (fc_WriteDelay f > 0 \<or> fc_WriteJitter f > 0) \<and> wo_delay wo \<noteq> None then (s1, wo_delay wo)
         else
           let s2 = (if fc_MalformedFrames f > 0 then consume_malformed W s1 else s1)
           in if fc_MalformedFrames f > 0 \<and> wo_invalid wo \<noteq> None then (s2, wo_invalid wo)
              else
                let s3 = (if fc_MalformedFrames f > 0 then put_invalid s2 else s2)
                in if wo_frame wo \<noteq> None then (s3, wo_frame wo) else (put_frame W msg s3, None))"

definition next_frame :: "Session \<Rightarrow> (outbound \<times> Session) option" where
  "next_frame s =
     (case ss_taken s of
        m # rest \<Rightarrow> Some (m, s\<lparr>ss_taken := rest\<rparr>)
      | [] \<Rightarrow> (case ss_outbound s of [] \<Rightarrow> None | m # rest \<Rightarrow> Some (m, s\<lparr>ss_outbound := rest\<rparr>)))"

text \<open>One round of \<^verbatim>\<open>writeLoop\<close>; it waits while the queue is empty.\<close>

definition write_step :: "world \<Rightarrow> write_outcome \<Rightarrow> Session \<Rightarrow> Session \<times> bool" where
  "write_step W wo s =
     (if ss_cancelled s \<and> wo_stop wo then (s, False) else
      case next_frame s of
        None \<Rightarrow> (s, True)
      | Some (msg, s1) \<Rightarrow>
          (case writeWithFaults W wo msg s1 of
             (s2, Some err) \<Rightarrow>
               let s3 = recordProtocolEvent W ''SLOW_CONSUMER'' (err, []) (s2\<lparr>ss_writeFails := wrap64 (ss_writeFails s2 + 1)\<rparr>)
               in (Drop ''slow_consumer'' (s3\<lparr>ss_closeReason := ''slow_consumer''\<rparr>), False)
           | (s2, None) \<Rightarrow> (s2\<lparr>ss_writeFails := 0\<rparr>, True)))"


section \<open>Start and end\<close>

definition Run_start :: "world \<Rightarrow> Session \<Rightarrow> Session \<times> run_error option" where
  "Run_start W s =
     (let s0 = s\<lparr>ss_started := True\<rparr> in
      case ss_engine s0 of
        None \<Rightarrow> (s0\<lparr>ss_cancelled := True, ss_done := True\<rparr>, Some ErrNoEngine)
      | Some m \<Rightarrow>
          (case w_engines W m of
             None \<Rightarrow> (s0\<lparr>ss_cancelled := True, ss_done := True\<rparr>, Some ErrNoEngine)
           | Some e \<Rightarrow> sendWelcome W e (recordSessionStart (subscribe_bus m s0))))"

text \<open>The deferred calls, in the order they run.\<close>

definition Run_end :: "world \<Rightarrow> Session \<Rightarrow> Session" where
  "Run_end W s =
     (let r = ss_closeReason s;
          s1 = recordSessionEnd W r s;
          s2 = send W TypeGoodbye (PGoodbye r) True s1;
          s3 = unsubscribe_bus (s2\<lparr>ss_closed := True\<rparr>)
      in s3\<lparr>ss_done := True, ss_cancelled := True\<rparr>)"


section \<open>What sending leaves alone\<close>

text \<open>The frames accepted by the queue and not yet written, oldest first.\<close>

definition pending :: "Session \<Rightarrow> outbound list" where
  "pending s = ss_taken s @ ss_outbound s"

text \<open>
  An operation that only sends: it appends to the frames accepted so far, keeps the queue within its
  capacity, and touches neither the configuration nor the state of the other loops.
\<close>

definition delivers :: "Session \<Rightarrow> Session \<Rightarrow> bool" where
  "delivers s s' =
     (ss_cfg s' = ss_cfg s \<and> ss_Channels s' = ss_Channels s \<and> ss_Policy s' = ss_Policy s \<and> ss_engine s' = ss_engine s
      \<and> ss_sub s' = ss_sub s \<and> ss_tierMachine s' = ss_tierMachine s \<and> ss_health s' = ss_health s
      \<and> ss_commands s' = ss_commands s \<and> ss_cancelled s' = ss_cancelled s \<and> ss_started s' = ss_started s
      \<and> ss_buses s' = ss_buses s \<and> ss_wire s' = ss_wire s \<and> co_symbol (ss_coalescer s') = co_symbol (ss_coalescer s)
      \<and> prefix (pending s) (pending s') \<and> (length (ss_outbound s) \<le> capacity s \<longrightarrow> length (ss_outbound s') \<le> capacity s))"

lemma delivers_refl: "delivers s s"
  by (simp add: delivers_def)

lemma delivers_trans: "delivers a b \<Longrightarrow> delivers b c \<Longrightarrow> delivers a c"
  unfolding delivers_def capacity_def by (metis prefix_order.trans)

text \<open>Updates that are not about the queue.\<close>

lemma delivers_update:
  "delivers s (log_row r s)" "delivers s (s\<lparr>ss_faults := f\<rparr>)" "delivers s (s\<lparr>ss_heldDelta := h\<rparr>)"
  "delivers s (s\<lparr>ss_lastDelta := h\<rparr>)" "delivers s (s\<lparr>ss_retune := rt\<rparr>)" "delivers s (suppress n s)"
  "delivers s (s\<lparr>ss_protocolErrors := k\<rparr>)" "delivers s (nextSeq s)"
  by (simp_all add: delivers_def log_row_def suppress_def nextSeq_def pending_def)

lemma delivers_coalescer: "co_symbol c = co_symbol (ss_coalescer s) \<Longrightarrow> delivers s (s\<lparr>ss_coalescer := c\<rparr>)"
  by (simp add: delivers_def pending_def)

lemma co_symbol_simps [simp]:
  "co_symbol (OnBookWindow e u b a c) = co_symbol c" "co_symbol (OnCandle cd c) = co_symbol c"
  "co_symbol (OnTrade n t c) = co_symbol c" "co_symbol (fst (TakeBookDelta c)) = co_symbol c"
  "co_symbol (fst (TakeCandle iv c)) = co_symbol c" "co_symbol (fst (TakeTrades c)) = co_symbol c"
  "co_symbol (SnapshotSent e u c) = co_symbol c" "co_symbol (fst (InjectGap c)) = co_symbol c"
  "co_symbol (Coalescer_Reset c) = co_symbol c" "co_symbol (fst (Stats c)) = co_symbol c" "co_symbol (NewCoalescer y) = y"
  by (simp_all add: OnBookWindow_def OnCandle_def OnTrade_def TakeBookDelta_def TakeCandle_def TakeTrades_def
      SnapshotSent_def InjectGap_def Coalescer_Reset_def Stats_def NewCoalescer_def Let_def split: option.splits)

lemma take_drop_snoc: "take n xs @ drop n xs @ ys = xs @ ys"
  by (simp flip: append_assoc)

lemma delivers_enqueue: "delivers s (fst (enqueue m s))"
  by (auto simp: delivers_def enqueue_def push_def writer_takes_def pending_def capacity_def take_drop_snoc Let_def
      split: list.splits)

lemma delivers_frame: "delivers s (fst (make_frame W k p s))"
  by (simp add: make_frame_def Let_def delivers_update)

lemma delivers_enqueueFrame: "delivers s (fst (enqueueFrame W k p cr s))"
  unfolding enqueueFrame_def
  by (auto split: prod.split option.split intro: delivers_trans [OF _ delivers_enqueue]
      dest: arg_cong [where f = fst] simp: make_frame_def Let_def delivers_update)

lemma delivers_send: "delivers s (send W k p cr s)"
  by (simp add: send_def delivers_enqueueFrame)

lemma delivers_sendError: "delivers s (sendError W e s)"
  unfolding sendError_def by (rule delivers_trans [OF delivers_update(7) delivers_send])

lemma delivers_sendSnapshot: "delivers s (sendSnapshot W e s)"
  unfolding sendSnapshot_def Let_def
  by (rule delivers_trans [OF delivers_send delivers_trans [OF delivers_coalescer delivers_update(1)]]) simp

lemma delivers_requestResync: "delivers s (requestResync W e r s)"
  unfolding requestResync_def Let_def recordProtocolEvent_def
  by (rule delivers_trans [OF delivers_update(1) delivers_trans [OF delivers_coalescer delivers_sendSnapshot]])
    (simp add: log_row_def)

lemma delivers_sendHealth: "delivers s (sendHealth W e s)"
proof -
  have "delivers s (s\<lparr>ss_coalescer := fst (Stats (ss_coalescer s))\<rparr>)" by (rule delivers_coalescer) simp
  then show ?thesis unfolding sendHealth_def Let_def Stats_def fst_conv prod.case by (rule delivers_trans [OF _ delivers_send])
qed

lemma delivers_sendCandleClosed: "delivers s (sendCandleClosed W e c s)"
proof -
  obtain s1 ok where e: "enqueueCritical W TypeCandleClosed (PCandleClosed
      \<lparr>cc_Symbol = sym_ID (sc_Symbol (ss_cfg s)), cc_Interval = cd_Interval c,
       cc_Candle = CandlePayloadFrom (sc_Symbol (ss_cfg s)) c False, cc_Epoch = en_epoch e\<rparr>) s = (s1, ok)" by fastforce
  have d: "delivers s s1" using delivers_enqueueFrame [of s W] e unfolding enqueueCritical_def by (metis fst_conv)
  have "delivers s (requestResync W e r (recordProtocolEvent W k t s1))" for r k t
    unfolding recordProtocolEvent_def
    by (rule delivers_trans [OF d delivers_trans [OF delivers_update(1) delivers_requestResync]])
  with d show ?thesis by (simp add: sendCandleClosed_def Let_def e)
qed

lemma delivers_onTierChanged: "delivers s (onTierChanged W e tr s)"
  unfolding onTierChanged_def Let_def
  by (rule delivers_trans [OF delivers_update(1) delivers_trans [OF delivers_update(5) delivers_sendHealth]])

lemma delivers_handleEvent: "delivers s (handleEvent W e ev s)"
proof -
  have w: "delivers s (sendSnapshot W e (s\<lparr>ss_coalescer := OnBookWindow ep u b a (ss_coalescer s)\<rparr>))" for ep u b a
    by (rule delivers_trans [OF delivers_coalescer delivers_sendSnapshot]) simp
  have f: "delivers s (recordFault W k t (s\<lparr>ss_faults := x\<rparr>))" for k t x
    unfolding recordFault_def by (rule delivers_trans [OF delivers_update(2) delivers_update(1)])
  show ?thesis
    unfolding handleEvent_def
    by (cases "ev_Kind ev")
      (auto simp: Let_def sendMarketStatus_def w f delivers_refl delivers_coalescer delivers_send delivers_sendCandleClosed
        split: option.split)
qed


lemma delivers_skip_deltas: "delivers s (skip_deltas W e s)"
proof -
  have "delivers s (recordBookEvent W e ev a b g t (recordFault W k m (s\<lparr>ss_faults := f, ss_coalescer := fst (InjectGap c)\<rparr>)))"
    if "co_symbol c = co_symbol (ss_coalescer s)" for ev a b g t k m f c
    unfolding recordBookEvent_def recordFault_def
    by (rule delivers_trans [OF delivers_update(2) delivers_trans [OF delivers_coalescer
          delivers_trans [OF delivers_update(1) delivers_update(1)]]]) (simp add: that)
  then show ?thesis
    by (auto simp: skip_deltas_def Let_def delivers_update InjectGap_def)
qed

lemma delivers_emit_delta: "delivers s (emit_delta W e d f s)"
proof -
  obtain s1 ok where e: "enqueue (delta_out f True) s = (s1, ok)" by fastforce
  have d1: "delivers s s1" using delivers_enqueue [of s "delta_out f True"] by (simp add: e)
  let ?s2 = "s1\<lparr>ss_coalescer := fst (Stats (ss_coalescer s1))\<rparr>"
  have d2: "delivers s ?s2" by (rule delivers_trans [OF d1 delivers_coalescer]) simp
  have d3: "delivers s (fst (enqueue m (recordFault W k t (?s2\<lparr>ss_faults := x\<rparr>))))" for m k t x
    unfolding recordFault_def
    by (rule delivers_trans [OF d2 delivers_trans [OF delivers_update(2) delivers_trans [OF delivers_update(1) delivers_enqueue]]])
  have d4: "delivers s (requestResync W e r (recordBookEvent W e ev a b g t s1))" for r ev a b g t
    unfolding recordBookEvent_def
    by (rule delivers_trans [OF d1 delivers_trans [OF delivers_update(1) delivers_requestResync]])
  have d5: "delivers s (recordFault W k t (fst (enqueue m (fst (enqueue m' (s\<lparr>ss_heldDelta := h\<rparr>))))))" for k t m m' h
    unfolding recordFault_def
    by (rule delivers_trans [OF delivers_update(3) delivers_trans [OF delivers_enqueue
          delivers_trans [OF delivers_enqueue delivers_update(1)]]])
  have d6: "delivers s (recordFault W k t (s\<lparr>ss_faults := x, ss_heldDelta := h\<rparr>))" for k t x h
    unfolding recordFault_def
    by (rule delivers_trans [OF delivers_update(2) delivers_trans [OF delivers_update(3) delivers_update(1)]])
  show ?thesis
    unfolding emit_delta_def e prod.case Let_def
    by (auto intro: d3 d4 d5 d6 delivers_trans [OF d2 delivers_update(4)] split: option.split)
qed

lemma delivers_flushBook: "delivers s (flushBook W e s)"
proof -
  define s1 where "s1 = skip_deltas W e s"
  obtain c r where t: "TakeBookDelta (ss_coalescer s1) = (c, r)" by fastforce
  then have c: "co_symbol c = co_symbol (ss_coalescer s1)" by (metis co_symbol_simps(4) fst_conv)
  have d: "delivers s (s1\<lparr>ss_coalescer := c\<rparr>)"
    unfolding s1_def by (rule delivers_trans [OF delivers_skip_deltas delivers_coalescer]) (simp add: c flip: s1_def)
  show ?thesis
  proof (cases r)
    case None
    then show ?thesis using d by (simp add: flushBook_def t Let_def flip: s1_def)
  next
    case (Some x)
    let ?s2 = "s1\<lparr>ss_coalescer := c\<rparr>"
    let ?p = "PDelta (DeltaPayloadFrom (sc_Symbol (ss_cfg ?s2)) (de_epoch x) (de_first x) (de_last x) (de_bids x) (de_asks x))"
    obtain s3 f where m: "make_frame W TypeOrderBookDelta ?p ?s2 = (s3, f)" by fastforce
    have d3: "delivers s s3" using delivers_trans [OF d delivers_frame [of _ W TypeOrderBookDelta ?p]] by (simp only: m fst_conv)
    have eq: "flushBook W e s = (case f of None \<Rightarrow> s3 | Some g \<Rightarrow> emit_delta W e x g s3)"
      unfolding flushBook_def s1_def [symmetric] t Some Let_def prod.case option.case m ..
    show ?thesis
      using d3 delivers_trans [OF d3 delivers_emit_delta] by (cases f) (simp_all add: eq)
  qed
qed

lemma delivers_flush_candles: "delivers s (flush_candles W s)"
proof (induction W s rule: flush_candles.induct)
  case (1 W s)
  obtain c r where t: "TakeCandle (sc_Interval (ss_cfg s)) (ss_coalescer s) = (c, r)" by fastforce
  then have "co_symbol c = co_symbol (ss_coalescer s)" by (metis co_symbol_simps(5) fst_conv)
  then have d: "delivers s (s\<lparr>ss_coalescer := c\<rparr>)" by (rule delivers_coalescer)
  show ?case
  proof (cases r)
    case None
    then show ?thesis using d by (simp add: t flush_candles.simps [of W s])
  next
    case (Some cd)
    obtain s2 f where m: "make_frame W TypeCandleUpdate (PCandleUpdate (candle_update (s\<lparr>ss_coalescer := c\<rparr>) cd))
        (s\<lparr>ss_coalescer := c\<rparr>) = (s2, f)" by fastforce
    have d2: "delivers s s2" using delivers_trans [OF d delivers_frame [of _ W]] m by (metis fst_conv)
    show ?thesis
    proof (cases f)
      case None
      then show ?thesis
        using delivers_trans [OF d2 "1.IH"(1) [OF t [symmetric] Some refl m [symmetric]]]
        by (simp add: flush_candles.simps [of W s] t Some m Let_def)
    next
      case (Some g)
      let ?o = "\<lparr>out_data = g, out_kind = TypeCandleUpdate, out_critical = False\<rparr>"
      obtain s3 ok where q: "enqueue ?o s2 = (s3, ok)" by fastforce
      have d3: "delivers s s3" using delivers_trans [OF d2 delivers_enqueue [of _ ?o]] q by simp
      have d4: "delivers s (suppress 1 (s3\<lparr>ss_coalescer := OnCandle cd (ss_coalescer s3)\<rparr>))"
        by (rule delivers_trans [OF d3 delivers_trans [OF delivers_coalescer delivers_update(6)]]) simp
      show ?thesis
        using delivers_trans [OF d3 "1.IH"(2) [OF t [symmetric] \<open>r = Some cd\<close> refl m [symmetric] Some q [symmetric] refl]] d4
        by (cases ok) (simp_all add: flush_candles.simps [of W s] t \<open>r = Some cd\<close> m Some q Let_def)
    qed
  qed
qed

lemma delivers_flush_each_trade: "delivers s (flush_each_trade W ts s)"
proof (induction W ts s rule: flush_each_trade.induct)
  case (2 W t ts s)
  obtain s1 f where m: "make_frame W TypeTrade (PTrade (TradePayloadFrom (sc_Symbol (ss_cfg s)) t)) s = (s1, f)" by fastforce
  have d: "delivers s s1" using delivers_frame [of s W] m by (metis fst_conv)
  show ?case
  proof (cases f)
    case None
    then show ?thesis using delivers_trans [OF d "2.IH"(1) [OF m [symmetric]]] by (simp add: m)
  next
    case (Some g)
    let ?o = "\<lparr>out_data = g, out_kind = TypeTrade, out_critical = False\<rparr>"
    obtain s2 ok where q: "enqueue ?o s1 = (s2, ok)" by fastforce
    have d2: "delivers s s2" using delivers_trans [OF d delivers_enqueue [of _ ?o]] q by simp
    show ?thesis
      using delivers_trans [OF d2 "2.IH"(2) [OF m [symmetric] Some q [symmetric] refl]] delivers_trans [OF d2 delivers_update(6)]
      by (cases ok) (simp_all add: m Some q Let_def)
  qed
qed (simp add: delivers_refl)

lemma delivers_flushTrades: "delivers s (flushTrades W s)"
proof -
  obtain c ts om ok where t: "TakeTrades (ss_coalescer s) = (c, ts, om, ok)" by (metis prod_cases4)
  then have "co_symbol c = co_symbol (ss_coalescer s)" by (metis co_symbol_simps(6) fst_conv)
  then have d: "delivers s (s\<lparr>ss_coalescer := c\<rparr>)" by (rule delivers_coalescer)
  let ?s1 = "s\<lparr>ss_coalescer := c\<rparr>"
  let ?p = "PTradeBatch \<lparr>tb_Symbol = sym_ID (sc_Symbol (ss_cfg ?s1)), tb_Trades = map (TradePayloadFrom (sc_Symbol (ss_cfg ?s1))) ts,
      tb_Compacted = (om > 0), tb_OmittedCount = om\<rparr>"
  obtain s2 f where m: "make_frame W TypeTradeBatch ?p ?s1 = (s2, f)" by fastforce
  have d2: "delivers s s2" using delivers_trans [OF d delivers_frame [of _ W TypeTradeBatch ?p]] by (simp only: m fst_conv)
  define b where "b = (case f of None \<Rightarrow> s2
      | Some g \<Rightarrow> (let (s3, ok) = enqueue \<lparr>out_data = g, out_kind = TypeTradeBatch, out_critical = False\<rparr> s2
                  in if ok then s3 else suppress (int (length ts)) s3))"
  have db: "delivers s b"
  proof (cases f)
    case (Some g)
    let ?o = "\<lparr>out_data = g, out_kind = TypeTradeBatch, out_critical = False\<rparr>"
    obtain s3 ok' where q: "enqueue ?o s2 = (s3, ok')" by fastforce
    have d3: "delivers s s3" using delivers_trans [OF d2 delivers_enqueue [of _ ?o]] by (simp only: q fst_conv)
    show ?thesis using d3 delivers_trans [OF d3 delivers_update(6)] by (simp add: b_def Some q)
  qed (simp add: b_def d2)
  have "flushTrades W s = (if ChannelTrades \<notin> set (ss_Channels s) then s else if \<not> ok then ?s1
      else if tier (ss_tierMachine ?s1) = TierFull then flush_each_trade W ts ?s1 else b)"
    unfolding flushTrades_def t Let_def prod.case m b_def ..
  then show ?thesis
    using d db delivers_refl delivers_trans [OF d delivers_flush_each_trade] by simp
qed

lemma delivers_flush: "delivers s (flush W e s)"
proof -
  have c: "delivers x (flushCandles W x)" for x by (simp add: flushCandles_def delivers_refl delivers_flush_candles)
  show ?thesis unfolding flush_def by (rule delivers_trans [OF delivers_flushBook delivers_trans [OF c delivers_flushTrades]])
qed

lemma delivers_flushSummary: "flushSummary W e s = Some s' \<Longrightarrow> delivers s s'"
  by (auto simp: flushSummary_def delivers_refl delivers_send split: if_splits option.splits)


lemma delivers_greet_frames:
  "delivers s (let s1 = sendSnapshot W e s; s2 = send W k (p s1) cr s1 in if b then sendCandleUpdate W cd s2 else s2)"
  unfolding Let_def sendCandleUpdate_def
  using delivers_trans [OF delivers_sendSnapshot delivers_send]
    delivers_trans [OF delivers_trans [OF delivers_sendSnapshot delivers_send] delivers_send] by simp

lemma delivers_greet: "greet W e symb iv s = Some s' \<Longrightarrow> delivers s s'"
  using delivers_trans [OF delivers_greet_frames delivers_flushSummary]
  by (auto simp: greet_def Let_def case_prod_unfold)

lemma delivers_Channels: "delivers s s' \<Longrightarrow> ss_Channels s' = ss_Channels s"
  by (simp add: delivers_def)

lemmas Channels_kept = delivers_send [THEN delivers_Channels] delivers_sendSnapshot [THEN delivers_Channels]

lemma greet_without_summary: "ChannelSummary \<notin> set (ss_Channels s) \<Longrightarrow> \<exists>s'. greet W e symb iv s = Some s'"
  by (simp add: greet_def flushSummary_def sendCandleUpdate_def Channels_kept Let_def case_prod_unfold)

end
