(* ===== verification/Session_Run.thy ===== *)
theory Session_Run
  imports Session
begin

text \<open>
  Runs of a session: the steps of its delivery loop, its reader and its writer in any order, with the
  debug API and the markets in between, and what holds in every state they reach. Then the rate limiter
  of the reader, the flushes, and the paths on which the session resynchronises its client.
\<close>

section \<open>Steps\<close>

datatype session_input =
    DeliverIn world delivery_input
  | ReadIn world json_decoder bool "read_error + string"
  | WriteIn world write_outcome
  | InjectIn bool ClientMessage
  | FaultsIn FaultConfig
  | DropIn string
  | MarketsIn "string \<Rightarrow> Bus"
  | PatienceIn "nat list"

fun session_step :: "session_input \<Rightarrow> rateLimiter \<times> Session \<Rightarrow> (rateLimiter \<times> Session) option" where
  "session_step (DeliverIn W i) (r, s) = map_option (\<lambda>x. (r, fst x)) (delivery_step W i s)"
| "session_step (ReadIn W J stops d) (r, s) = Some (fst (read_step W J stops d (r, s)))"
| "session_step (WriteIn W wo) (r, s) = Some (r, fst (write_step W wo s))"
| "session_step (InjectIn b m) (r, s) = Some (r, fst (InjectCommand b m s))"
| "session_step (FaultsIn f) (r, s) = Some (r, ApplyFaults f s)"
| "session_step (DropIn why) (r, s) = Some (r, Drop why s)"
| "session_step (MarketsIn bs) (r, s) = Some (r, s\<lparr>ss_buses := bs\<rparr>)"
| "session_step (PatienceIn ns) (r, s) = Some (r, s\<lparr>ss_waits := ns\<rparr>)"

text \<open>A configuration the manager builds: a roster market, a known interval, known channels.\<close>

definition config_ok :: "SessionConfig \<Rightarrow> bool" where
  "config_ok c = (sc_Symbol c \<in> set AllSymbols \<and> (sc_Interval c = [] \<or> Interval_Valid (sc_Interval c))
     \<and> set (elems (sc_Channels c)) \<subseteq> set Channels)"

inductive session_reachable :: "SessionConfig \<Rightarrow> rateLimiter \<times> Session \<Rightarrow> bool" for c where
  start: "config_ok c \<Longrightarrow> Run_start W (NewSession c (Some (sym_ID (sc_Symbol c))) now buses) = (s, None)
     \<Longrightarrow> session_reachable c (newRateLimiter (sc_ClientMsgPerSec (ss_cfg s)), s)"
| step: "session_reachable c st \<Longrightarrow> session_step i st = Some st' \<Longrightarrow> session_reachable c st'"

definition session_ok :: "Session \<Rightarrow> bool" where
  "session_ok s =
     (0 < capacity s \<and> length (ss_outbound s) \<le> capacity s \<and> length (ss_commands s) \<le> 64
      \<and> tier_reachable (ss_Policy s) (ss_tierMachine s) \<and> Interval_Valid (sc_Interval (ss_cfg s))
      \<and> set (ss_Channels s) \<subseteq> set Channels \<and> sc_Symbol (ss_cfg s) \<in> set AllSymbols
      \<and> ss_engine s = Some (sym_ID (sc_Symbol (ss_cfg s))) \<and> co_symbol (ss_coalescer s) = sc_Symbol (ss_cfg s))"

text \<open>The frames that were accepted by the queue, in order: those on the wire, then those waiting.\<close>

definition written :: "Session \<Rightarrow> outbound list" where
  "written s = List.map_filter id (ss_wire s)"

definition stream :: "Session \<Rightarrow> outbound list" where
  "stream s = written s @ pending s"

definition advances :: "Session \<Rightarrow> Session \<Rightarrow> bool" where
  "advances s s' = ((session_ok s \<longrightarrow> session_ok s') \<and> ss_wire s' = ss_wire s \<and> prefix (pending s) (pending s'))"

lemma advances_trans: "advances a b \<Longrightarrow> advances b c \<Longrightarrow> advances a c"
  unfolding advances_def by (metis prefix_order.trans)

lemma delivers_advances: "delivers s s' \<Longrightarrow> advances s s'"
  by (auto simp: advances_def delivers_def session_ok_def capacity_def)

lemma advances_stream: "advances s s' \<Longrightarrow> prefix (stream s) (stream s')"
  by (simp add: advances_def stream_def written_def)

lemma advances_tier:
  "advances s (s\<lparr>ss_tierMachine := fst (tier_step e (ss_tierMachine s))\<rparr>)"
  by (auto simp: advances_def session_ok_def pending_def capacity_def tier_reachable.step)

lemma advances_neutral:
  "advances s (s\<lparr>ss_health := h\<rparr>)" "advances s (s\<lparr>ss_lastReportAgeMs := a\<rparr>)" "advances s (s\<lparr>ss_hellos := hs\<rparr>)"
  "advances s (s\<lparr>ss_buses := bs\<rparr>)" "advances s (s\<lparr>ss_waits := ws\<rparr>)" "advances s (s\<lparr>ss_faults := f\<rparr>)"
  "advances s (s\<lparr>ss_retune := rt, ss_flushEvery := k\<rparr>)" "advances s (s\<lparr>ss_messagesReceived := n\<rparr>)"
  "advances s (s\<lparr>ss_closeReason := cr\<rparr>)" "advances s (Drop why s)" "advances s s"
  "advances s (s\<lparr>ss_lastEffectiveRate := er, ss_window := w, ss_windowStarted := t\<rparr>)"
  by (simp_all add: advances_def session_ok_def pending_def capacity_def Drop_def)

lemma advances_commands: "length cs \<le> 64 \<Longrightarrow> advances s (s\<lparr>ss_commands := cs\<rparr>)"
  by (simp add: advances_def session_ok_def pending_def capacity_def)

lemma advances_channels: "(set (ss_Channels s) \<subseteq> set Channels \<longrightarrow> set cs \<subseteq> set Channels) \<Longrightarrow> advances s (s\<lparr>ss_Channels := cs\<rparr>)"
  by (simp add: advances_def session_ok_def pending_def capacity_def)

lemma advances_interval: "Interval_Valid iv \<Longrightarrow> advances s (s\<lparr>ss_cfg := (ss_cfg s)\<lparr>sc_Interval := iv\<rparr>\<rparr>)"
  by (simp add: advances_def session_ok_def pending_def capacity_def)

lemma advances_bindEngine:
  assumes "symb \<in> set AllSymbols" "m = sym_ID symb"
  shows "advances s (bindEngine m symb s)"
  using assms
  by (auto simp: advances_def session_ok_def pending_def capacity_def bindEngine_def unsubscribe_bus_def subscribe_bus_def
      NewCoalescer_def Let_def split: prod.split option.split)


section \<open>Every operation keeps the session sound\<close>

lemma resolveMarket_Some: "resolveMarket i s = Some (m, symb) \<Longrightarrow> symb \<in> set AllSymbols \<and> m = sym_ID symb"
  by (auto simp: resolveMarket_def dest: Lookup_Inr split: sum.splits option.splits if_splits)

lemma advances_accept:
  assumes "symb \<in> set AllSymbols" "m = sym_ID symb" "Interval_Valid iv" "set (elems channels) \<subseteq> set Channels"
  shows "advances s (accept_subscription m symb iv channels s)"
proof -
  define s1 where "s1 = (case channels of None \<Rightarrow> s | Some cs \<Rightarrow> s\<lparr>ss_Channels := cs @ [ChannelHealth]\<rparr>)"
  have a1: "advances s s1"
  proof (cases channels)
    case (Some cs)
    with assms(4) have "set (cs @ [ChannelHealth]) \<subseteq> set Channels" by (simp add: elems_def Channels_def)
    then show ?thesis unfolding s1_def Some option.case by (intro advances_channels) blast
  qed (simp add: s1_def advances_neutral)
  have a2: "advances s (s1\<lparr>ss_cfg := (ss_cfg s1)\<lparr>sc_Interval := iv\<rparr>\<rparr>)"
    by (rule advances_trans [OF a1 advances_interval [OF assms(3)]])
  show ?thesis
    unfolding accept_subscription_def s1_def [symmetric] Let_def
    using a2 advances_trans [OF a2 advances_bindEngine [OF assms(1,2)]] by simp
qed

lemma handleSubscribe_cases:
  assumes "handleSubscribe W i iv_id channels s = Some s'"
  obtains (rejected) e where "s' = sendError W e s"
  | (accepted) m symb iv e where "resolveMarket i s = Some (m, symb)" "ParseInterval iv_id = Inr iv"
      "set (elems channels) \<subseteq> set Channels" "w_engines W m = Some e"
      "greet W e symb iv (accept_subscription m symb iv channels s) = Some s'"
  using assms
  by (auto simp: handleSubscribe_def find_None ValidChannel_iff subset_iff split: option.splits sum.splits)

lemma advances_handleSubscribe:
  assumes "handleSubscribe W i iv_id channels s = Some s'"
  shows "advances s s'"
  using assms
proof (cases rule: handleSubscribe_cases)
  case (accepted m symb iv e)
  have "iv = iv_id" using accepted(2) by (auto simp: ParseInterval_def find_Some_iff split: option.splits)
  then have "Interval_Valid iv" using ParseInterval_Valid [OF accepted(2)] by simp
  then show ?thesis
    using resolveMarket_Some [OF accepted(1)] accepted(3)
    by (intro advances_trans [OF advances_accept delivers_advances [OF delivers_greet [OF accepted(5)]]]) simp_all
qed (simp add: delivers_advances [OF delivers_sendError])

lemma advances_tierChange:
  assumes "tier_step ev (ss_tierMachine s) = (tm, tr)"
  shows "advances s (s\<lparr>ss_tierMachine := tm\<rparr>)" "advances s (onTierChanged W e tr (s\<lparr>ss_tierMachine := tm\<rparr>))"
    "advances s (sendHealth W e (s\<lparr>ss_tierMachine := tm\<rparr>))"
proof -
  show a: "advances s (s\<lparr>ss_tierMachine := tm\<rparr>)" using advances_tier [of s ev] by (simp add: assms)
  show "advances s (onTierChanged W e tr (s\<lparr>ss_tierMachine := tm\<rparr>))"
    by (rule advances_trans [OF a delivers_advances [OF delivers_onTierChanged]])
  show "advances s (sendHealth W e (s\<lparr>ss_tierMachine := tm\<rparr>))"
    by (rule advances_trans [OF a delivers_advances [OF delivers_sendHealth]])
qed

lemma advances_handleLatencyReport: "advances s (handleLatencyReport W e m s)"
proof -
  define rep where "rep = \<lparr>hr_RTTMs = lr_RTTMs m, hr_JitterMs = lr_JitterMs m, hr_Samples = lr_Samples m,
      hr_ClientTimeMs = lr_ClientTimeMs m, hr_ReceivedAt = w_now W\<rparr>"
  obtain a b s4 where s4: "s4 = (if lr_MissedPongs m > 0
        then recordProtocolEvent W ''MISSED_PONG'' (''%d missed pongs'', [ArgI (lr_MissedPongs m)])
          (log_row b (log_row a (s\<lparr>ss_health := Ingest rep (ss_health s)\<rparr>)))
        else log_row b (log_row a (s\<lparr>ss_health := Ingest rep (ss_health s)\<rparr>)))"
    and eq: "handleLatencyReport W e m s = (let (tm, tr) = Observe rep (w_now W) (ss_tierMachine s4);
        s5 = s4\<lparr>ss_tierMachine := tm\<rparr> in if tt_Changed tr then onTierChanged W e tr s5 else s5)"
    unfolding handleLatencyReport_def Let_def rep_def by blast
  have "delivers (s\<lparr>ss_health := Ingest rep (ss_health s)\<rparr>) s4"
    unfolding s4 recordProtocolEvent_def
    using delivers_trans [OF delivers_update(1) delivers_update(1)]
      delivers_trans [OF delivers_trans [OF delivers_update(1) delivers_update(1)] delivers_update(1)] by simp
  then have a4: "advances s s4" by (rule advances_trans [OF advances_neutral(1) delivers_advances])
  obtain tm tr where o: "tier_step (EvReport rep (w_now W)) (ss_tierMachine s4) = (tm, tr)" by fastforce
  show ?thesis
    using o advances_trans [OF a4 advances_tierChange(1) [OF o]] advances_trans [OF a4 advances_tierChange(2) [OF o]]
    by (simp add: eq Let_def)
qed

lemma advances_handleTierOverride: "advances s (handleTierOverride W e v s)"
proof -
  have err: "advances s (sendError W x s)" for x by (rule delivers_advances [OF delivers_sendError])
  show ?thesis
  proof (cases "ParseTierOrAuto v")
    case (Inl x)
    then show ?thesis by (simp add: handleTierOverride_def err)
  next
    case (Inr t)
    define ev where "ev = (case t of None \<Rightarrow> EvClear (w_now W) | Some t \<Rightarrow> EvForce t (w_now W))"
    have ts: "(case t of None \<Rightarrow> ClearOverride (w_now W) (ss_tierMachine s) | Some t \<Rightarrow> Force t (w_now W) (ss_tierMachine s))
        = tier_step ev (ss_tierMachine s)" by (cases t) (simp_all add: ev_def)
    obtain tm tr where o: "tier_step ev (ss_tierMachine s) = (tm, tr)" by fastforce
    show ?thesis
      using advances_tierChange [OF o] by (simp add: handleTierOverride_def Inr ts o err Let_def)
  qed
qed

lemma advances_handleCommand: "handleCommand W e msg s = Some s' \<Longrightarrow> advances s s'"
proof (cases msg)
  case (Unsubscribe_msg cs)
  have "advances s (s\<lparr>ss_Channels := filter (\<lambda>c. c \<notin> set (elems cs)) (ss_Channels s)\<rparr>)"
    by (rule advances_channels) auto
  then show "handleCommand W e msg s = Some s' \<Longrightarrow> advances s s'"
    using Unsubscribe_msg advances_trans [OF _ delivers_advances [OF delivers_send]] by (auto simp: handleCommand_def)
qed (auto simp: handleCommand_def advances_neutral advances_handleSubscribe advances_handleLatencyReport
    advances_handleTierOverride split: if_splits)

lemma advances_watchdog: "advances s (watchdog W e s)"
proof -
  define age where "age = hs_Age (Health_Snapshot (w_now W) (ss_health s))"
  obtain tm tr where o: "tier_step (EvSilence age (w_now W)) (ss_tierMachine s) = (tm, tr)" by fastforce
  show ?thesis
    using o advances_trans [OF advances_tierChange(1) [OF o] advances_neutral(2)]
      advances_trans [OF advances_tierChange(2) [OF o] advances_neutral(2)]
    by (simp add: watchdog_def age_def Let_def)
qed

lemma advances_recordDeliveryWindow: "advances s (recordDeliveryWindow W s)"
proof -
  have "advances s ((log_row r s)\<lparr>ss_lastEffectiveRate := er, ss_window := w, ss_windowStarted := t\<rparr>)" for r er w t
    by (rule advances_trans [OF delivers_advances [OF delivers_update(1)] advances_neutral(12)])
  then show ?thesis by (simp add: recordDeliveryWindow_def Let_def advances_neutral)
qed

lemma advances_delivery_step: "delivery_step W i s = Some (s', go) \<Longrightarrow> session_ok s \<Longrightarrow> advances s s'"
proof -
  assume step: "delivery_step W i s = Some (s', go)" and ok: "session_ok s"
  then obtain e where e: "Option.bind (ss_engine s) (w_engines W) = Some e"
    by (auto simp: delivery_step_def split: option.splits)
  note st = step [unfolded delivery_step_def e option.case]
  show ?thesis
  proof (cases i)
    case CommandReady
    show ?thesis
    proof (cases "ss_commands s")
      case (Cons msg rest)
      then have "length rest \<le> 64" using ok by (simp add: session_ok_def)
      moreover have "handleCommand W e msg (s\<lparr>ss_commands := rest\<rparr>) = Some s'"
        using st CommandReady Cons by (auto simp: go_on_def)
      ultimately show ?thesis by (metis advances_commands advances_handleCommand advances_trans)
    qed (use st CommandReady in \<open>simp add: go_on_def advances_neutral\<close>)
  next
    case EventReady
    show ?thesis
    proof (cases "take_event s")
      case (Some x)
      obtain ev s1 where x: "x = (ev, s1)" by fastforce
      have "\<exists>bs. s1 = s\<lparr>ss_buses := bs\<rparr>"
        using Some by (auto simp: take_event_def x split: option.splits list.splits)
      moreover have "s' = handleEvent W e ev s1" using st EventReady Some x by (simp add: go_on_def)
      ultimately show ?thesis
        using advances_trans [OF advances_neutral(4) delivers_advances [OF delivers_handleEvent]] by blast
    qed (use st EventReady in \<open>simp add: go_on_def advances_neutral\<close>)
  next
    case SummaryTick
    then show ?thesis using st by (auto simp: go_on_def dest: delivers_flushSummary delivers_advances)
  qed (use st in \<open>auto simp: go_on_def advances_neutral advances_watchdog advances_recordDeliveryWindow
      delivers_advances delivers_flush delivers_sendHealth delivers_send split: if_splits\<close>)
qed


lemma advances_read_step:
  assumes "session_ok s" "read_step W J stops d (r, s) = ((r', s'), go)"
  shows "advances s s'"
proof (cases d)
  case (Inl err)
  then show ?thesis
    using assms(2) advances_neutral(10) [of s] advances_trans [OF advances_neutral(9) advances_neutral(10)]
    by (auto simp: read_step_def Let_def split: if_splits)
next
  case (Inr bytes)
  define s1 where "s1 = s\<lparr>ss_messagesReceived := wrap64 (ss_messagesReceived s + 1)\<rparr>"
  obtain rl ok where al: "allow (w_now W) r = (rl, ok)" by fastforce
  have a1: "advances s s1" unfolding s1_def by (rule advances_neutral)
  have len: "length (ss_commands s1) \<le> 64" using assms(1) by (simp add: s1_def session_ok_def)
  have rec: "delivers s1 (recordProtocolEvent W k t s1)" for k t unfolding recordProtocolEvent_def by (rule delivers_update)
  have err: "delivers s1 (sendError W x (recordProtocolEvent W k t s1))" for x k t
    by (rule delivers_trans [OF rec delivers_sendError])
  have err2: "delivers s1 (sendError W x (recordProtocolEvent W k t (s1\<lparr>ss_protocolErrors := n\<rparr>)))" for x k t n
    unfolding recordProtocolEvent_def
    by (rule delivers_trans [OF delivers_update(7) delivers_trans [OF delivers_update(1) delivers_sendError]])
  have fatal: "advances s1 (Drop v ((sendError W x (recordProtocolEvent W k t (s1\<lparr>ss_protocolErrors := n\<rparr>)))\<lparr>ss_closeReason := u\<rparr>))"
    for x k t n u v
    by (rule advances_trans [OF delivers_advances [OF err2] advances_trans [OF advances_neutral(9) advances_neutral(10)]])
  note rs = assms(2) [unfolded read_step_def Inr sum.case Let_def prod.case al s1_def [symmetric]]
  have "advances s1 s'"
  proof (cases "DecodeClientMessage J bytes")
    case (Inl x)
    then show ?thesis
      using rs by (auto simp: err [THEN delivers_advances] err2 [THEN delivers_advances] fatal split: if_splits)
  next
    case m: (Inr msg)
    have q: "advances s1 (s1\<lparr>ss_commands := ss_commands s1 @ [msg]\<rparr>)" if "length (ss_commands s1) < 64"
      using that by (intro advances_commands) simp
    show ?thesis
    proof (cases "\<exists>x. msg = Ping x")
      case True
      then show ?thesis
        using rs m
        by (auto simp: sendPong_def err [THEN delivers_advances] delivers_send [THEN delivers_advances] split: if_splits)
    next
      case False
      then show ?thesis
        using rs m q
        by (cases msg) (auto simp: err [THEN delivers_advances] rec [THEN delivers_advances] advances_neutral(11) split: if_splits)
    qed
  qed
  then show ?thesis by (rule advances_trans [OF a1])
qed

lemma advances_InjectCommand: "advances s (fst (InjectCommand b m s))"
  using advances_commands [of "ss_commands s @ [m]" s] by (simp add: InjectCommand_def advances_neutral)

text \<open>The writer takes the oldest waiting frame, and writes it or gives up.\<close>

definition write_effect :: "outbound list \<Rightarrow> Session \<Rightarrow> Session \<Rightarrow> bool" where
  "write_effect ms s s' = (pending s' = pending s \<and> ss_started s' = ss_started s \<and> (session_ok s \<longrightarrow> session_ok s')
     \<and> written s' = written s @ ms)"

lemma write_effect_trans: "write_effect ms s s1 \<Longrightarrow> write_effect ms' s1 s2 \<Longrightarrow> write_effect (ms @ ms') s s2"
  by (simp add: write_effect_def)

lemma write_effect_parts:
  "write_effect [] s s" "write_effect [] s (release_hold s)" "write_effect [] s (consume_malformed W s)"
  "write_effect [] s (put_invalid s)" "write_effect [msg] s (put_frame W msg s)"
  by (simp_all add: write_effect_def release_hold_def consume_malformed_def put_invalid_def put_frame_def recordFault_def
      log_row_def Let_def pending_def session_ok_def capacity_def written_def List.map_filter_def)

lemma writeWithFaults_effect:
  assumes "writeWithFaults W wo msg s = (s', r)"
  shows "write_effect (if r = None then [msg] else []) s s'"
proof -
  define s1 where "s1 = (if fc_HoldWrites (ss_faults s) > 0 then release_hold s else s)"
  define s2 where "s2 = (if fc_MalformedFrames (ss_faults s) > 0 then consume_malformed W s1 else s1)"
  define s3 where "s3 = (if fc_MalformedFrames (ss_faults s) > 0 then put_invalid s2 else s2)"
  have e1: "write_effect [] s s1" by (simp add: s1_def write_effect_parts)
  have e2: "write_effect [] s s2"
    using write_effect_trans [OF e1 write_effect_parts(3)] e1 by (simp add: s2_def)
  have e3: "write_effect [] s s3"
    using write_effect_trans [OF e2 write_effect_parts(4)] e2 by (simp add: s3_def)
  have e4: "write_effect [msg] s (put_frame W msg s3)"
    using write_effect_trans [OF e3 write_effect_parts(5)] by simp
  have "(s', r) \<in> {(s1, r) | r. r \<noteq> None} \<union> {(s2, r) | r. r \<noteq> None} \<union> {(s3, r) | r. r \<noteq> None} \<union> {(put_frame W msg s3, None)}"
    unfolding assms [symmetric] writeWithFaults_def Let_def s1_def [symmetric] s2_def [symmetric] s3_def [symmetric] by simp
  then show ?thesis using e1 e2 e3 e4 by auto
qed

lemma next_frame_Some:
  assumes "next_frame s = Some (msg, s1)"
  shows "pending s = msg # pending s1" "session_ok s \<Longrightarrow> session_ok s1" "ss_started s1 = ss_started s" "written s1 = written s"
  using assms by (auto simp: next_frame_def pending_def session_ok_def capacity_def written_def split: list.splits)

lemma write_step_cases:
  assumes "write_step W wo s = (s', go)"
  shows "session_ok s \<Longrightarrow> session_ok s'"
    and "stream s' = stream s
      \<or> (\<exists>m rest. pending s = m # rest \<and> pending s' = rest \<and> written s' = written s \<and> \<not> go
           \<and> ss_closeReason s' = ''slow_consumer'' \<and> (ss_started s \<longrightarrow> ss_cancelled s'))"
proof -
  consider (same) "s' = s"
    | (sent) msg s1 s2 where "next_frame s = Some (msg, s1)" "writeWithFaults W wo msg s1 = (s2, None)" "s' = s2\<lparr>ss_writeFails := 0\<rparr>"
    | (failed) msg s1 s2 err where "next_frame s = Some (msg, s1)" "writeWithFaults W wo msg s1 = (s2, Some err)" "\<not> go"
        "s' = Drop ''slow_consumer'' ((recordProtocolEvent W ''SLOW_CONSUMER'' (err, [])
            (s2\<lparr>ss_writeFails := wrap64 (ss_writeFails s2 + 1)\<rparr>))\<lparr>ss_closeReason := ''slow_consumer''\<rparr>)"
  proof (cases "ss_cancelled s \<and> wo_stop wo \<or> next_frame s = None")
    case True
    then have "s' = s" using assms by (auto simp: write_step_def split: if_splits)
    then show ?thesis by (rule same)
  next
    case False
    then obtain msg s1 where n: "next_frame s = Some (msg, s1)" by (metis option.exhaust prod.exhaust)
    obtain s2 r where w: "writeWithFaults W wo msg s1 = (s2, r)" by fastforce
    note eq = assms [unfolded write_step_def n option.case prod.case w Let_def]
    show ?thesis
    proof (cases r)
      case None
      then show ?thesis using eq False w by (intro sent [OF n]) auto
    next
      case (Some err)
      then show ?thesis using eq False w by (intro failed [OF n]) auto
    qed
  qed
  then have "(session_ok s \<longrightarrow> session_ok s') \<and> (stream s' = stream s
      \<or> (\<exists>m rest. pending s = m # rest \<and> pending s' = rest \<and> written s' = written s \<and> \<not> go
           \<and> ss_closeReason s' = ''slow_consumer'' \<and> (ss_started s \<longrightarrow> ss_cancelled s')))"
  proof cases
    case sent
    note n = next_frame_Some [OF sent(1)] and w = writeWithFaults_effect [OF sent(2)]
    have "session_ok s2 \<longrightarrow> session_ok s'" "pending s' = pending s2" "written s' = written s2"
      using sent(3) by (simp_all add: session_ok_def pending_def written_def capacity_def)
    then show ?thesis using n w by (simp add: stream_def write_effect_def)
  next
    case failed
    note n = next_frame_Some [OF failed(1)] and w = writeWithFaults_effect [OF failed(2)]
    have "session_ok s2 \<longrightarrow> session_ok s'" "pending s' = pending s2" "written s' = written s2"
      "ss_closeReason s' = ''slow_consumer''" "ss_started s2 \<longrightarrow> ss_cancelled s'"
      using failed(4) by (simp_all add: Drop_def recordProtocolEvent_def log_row_def session_ok_def pending_def written_def capacity_def)
    then show ?thesis using n w failed(3) by (simp add: write_effect_def)
  qed simp
  then show "session_ok s \<Longrightarrow> session_ok s'"
    and "stream s' = stream s
      \<or> (\<exists>m rest. pending s = m # rest \<and> pending s' = rest \<and> written s' = written s \<and> \<not> go
           \<and> ss_closeReason s' = ''slow_consumer'' \<and> (ss_started s \<longrightarrow> ss_cancelled s'))" by blast+
qed

lemma session_step_advances:
  assumes "session_step i (r, s) = Some (r', s')" "session_ok s" "\<And>W wo. i \<noteq> WriteIn W wo"
  shows "advances s s'"
proof (cases i)
  case (DeliverIn W x)
  then obtain go where "delivery_step W x s = Some (s', go)" using assms(1) by auto
  then show ?thesis using assms(2) by (rule advances_delivery_step)
next
  case (ReadIn W J stops d)
  then obtain go where "read_step W J stops d (r, s) = ((r', s'), go)"
    using assms(1) by (metis option.inject prod.collapse session_step.simps(2))
  then show ?thesis by (rule advances_read_step [OF assms(2)])
next
  case (InjectIn b m)
  then show ?thesis using assms(1) advances_InjectCommand by auto
qed (use assms in \<open>auto simp: ApplyFaults_def advances_neutral\<close>)

lemma session_step_ok:
  assumes "session_step i (r, s) = Some (r', s')" "session_ok s"
  shows "session_ok s'"
proof (cases "\<exists>W wo. i = WriteIn W wo")
  case True
  then obtain W wo where "s' = fst (write_step W wo s)" using assms(1) by auto
  then show ?thesis using write_step_cases(1) [of W wo s] assms(2) by (metis prod.collapse)
next
  case False
  then show ?thesis using session_step_advances [OF assms] assms(2) by (auto simp: advances_def)
qed

lemma Run_start_ok:
  assumes "config_ok c" "Run_start W (NewSession c (Some (sym_ID (sc_Symbol c))) now buses) = (s, None)"
  shows "session_ok s"
proof -
  define s0 where "s0 = (NewSession c (Some (sym_ID (sc_Symbol c))) now buses)\<lparr>ss_started := True\<rparr>"
  define s1 where "s1 = recordSessionStart (subscribe_bus (sym_ID (sc_Symbol c)) s0)"
  obtain e where sw: "sendWelcome W e s1 = (s, None)"
    using assms(2) unfolding Run_start_def s0_def [symmetric]
    by (auto simp: s0_def [symmetric] s1_def s0_def NewSession_def Let_def split: option.splits)
  have "delivers s1 s"
  proof -
    obtain s2 f where m: "make_frame W TypeWelcome (PWelcome (welcomePayload W e s1)) s1 = (s2, f)" by fastforce
    then obtain g where "f = Some g" and q: "fst (enqueue \<lparr>out_data = g, out_kind = TypeWelcome, out_critical = True\<rparr> s2) = s"
      using sw by (cases f) (auto simp: sendWelcome_def Let_def split: prod.splits)
    then show ?thesis using delivers_trans [OF delivers_frame delivers_enqueue] m by (metis fst_conv)
  qed
  moreover have "session_ok s1"
    using assms(1)
    by (auto simp: s1_def s0_def session_ok_def NewSession_def recordSessionStart_def log_row_def subscribe_bus_def
        Bus_Subscribe_def Let_def capacity_def session_config_def config_ok_def NewCoalescer_def tier_reachable.start
        Interval1m_valid DefaultChannels_def Channels_def elems_def
        split: option.splits)
  ultimately show ?thesis using delivers_advances by (auto simp: advances_def)
qed

lemma session_reachable_ok: "session_reachable c st \<Longrightarrow> session_ok (snd st)"
proof (induction rule: session_reachable.induct)
  case (start W now buses s)
  then show ?case using Run_start_ok by simp
next
  case (step st i st')
  then show ?case using session_step_ok by (cases st; cases st') auto
qed


text \<open>
  C12. What holds in every state of a session, however its delivery loop, its reader, its writer, the
  debug API and the markets interleave: the outbound queue is within its capacity and the command queue
  within 64; the effective tier is the override when one is set and the automatic tier otherwise; the
  interval and the channels are known ones; and the symbol that scales every payload, the engine the
  session is bound to and the market of its coalescer are one and the same roster market.
\<close>

theorem Session_invariant:
  assumes "session_reachable c (r, s)"
  shows "length (ss_outbound s) \<le> nat (sc_OutboundCapacity (ss_cfg s)) \<and> length (ss_commands s) \<le> 64
    \<and> tier (ss_tierMachine s) = (case override (ss_tierMachine s) of None \<Rightarrow> autoTier (ss_tierMachine s) | Some t \<Rightarrow> t)
    \<and> Interval_Valid (sc_Interval (ss_cfg s)) \<and> set (ss_Channels s) \<subseteq> set Channels
    \<and> sc_Symbol (ss_cfg s) \<in> set AllSymbols \<and> ss_engine s = Some (sym_ID (sc_Symbol (ss_cfg s)))
    \<and> co_symbol (ss_coalescer s) = sc_Symbol (ss_cfg s)"
proof -
  have ok: "session_ok s" using session_reachable_ok [OF assms] by simp
  then show ?thesis
    using tier_reachable_inv [of "ss_Policy s" "ss_tierMachine s"] by (simp add: session_ok_def capacity_def tier_inv_def)
qed

definition sampleSessionConfig :: SessionConfig where
  "sampleSessionConfig =
     \<lparr>sc_ID = ''sess_1'', sc_ShortID = ''1'', sc_Symbol = BTCUSDT, sc_Interval = Interval1m, sc_Channels = None, sc_Policy = None,
      sc_Registry = Some [''BTCUSDT'', ''ETHUSDT''], sc_OutboundCapacity = 2, sc_WriteTimeout = 0, sc_ClientMsgPerSec = 0,
      sc_BookWindow = 0, sc_HistoryLimit = 0, sc_TradesLimit = 0, sc_DebugControls = True, sc_Logger = True, sc_OnHello = True\<rparr>"

definition sampleWorld :: "Engine \<Rightarrow> world" where
  "sampleWorld e =
     \<lparr>w_now = \<lparr>instant = 0, zone = UTC\<rparr>, w_json = \<lparr>je_fails = (\<lambda>_. False), je_size = (\<lambda>_. 100)\<rparr>,
      w_engines = [''BTCUSDT'' \<mapsto> e]\<rparr>"

definition sampleSession :: "Engine \<Rightarrow> Session" where
  "sampleSession e = fst (Run_start (sampleWorld e) (NewSession sampleSessionConfig (Some ''BTCUSDT'') (w_now (sampleWorld e)) (\<lambda>_. NewBus)))"

lemma sampleSession_start:
  "Run_start (sampleWorld e) (NewSession sampleSessionConfig (Some ''BTCUSDT'') (w_now (sampleWorld e)) (\<lambda>_. NewBus))
     = (sampleSession e, None)"
  "map (env_Seq \<circ> out_data) (ss_outbound (sampleSession e)) = [1]" "ss_taken (sampleSession e) = []" "ss_wire (sampleSession e) = []"
  "capacity (sampleSession e) = 2" "ss_sub (sampleSession e) = Some 0" "ss_engine (sampleSession e) = Some ''BTCUSDT''"
  "ss_lastSeq (sampleSession e) = 1"
  by (simp_all add: sampleSession_def sampleWorld_def sampleSessionConfig_def Run_start_def NewSession_def sendWelcome_def
      recordSessionStart_def log_row_def subscribe_bus_def Bus_Subscribe_def NewBus_def make_frame_def nextSeq_def Encode_def
      enqueue_def push_def capacity_def session_config_def Let_def)

lemma sampleConfig_ok: "config_ok sampleSessionConfig"
  by (simp add: config_ok_def sampleSessionConfig_def AllSymbols_def elems_def Interval1m_valid)

lemma sampleSession_reachable:
  "session_reachable sampleSessionConfig (newRateLimiter (sc_ClientMsgPerSec (ss_cfg (sampleSession e))), sampleSession e)"
proof -
  have "sym_ID (sc_Symbol sampleSessionConfig) = ''BTCUSDT''" by (simp add: sampleSessionConfig_def BTCUSDT_def)
  then show ?thesis using session_reachable.start [OF sampleConfig_ok, of "sampleWorld e"] sampleSession_start(1) [of e] by metis
qed

theorem Session_invariant_witness:
  "\<exists>e r. session_reachable sampleSessionConfig (r, sampleSession e) \<and> length (ss_outbound (sampleSession e)) = 1
     \<and> ss_engine (sampleSession e) = Some (sym_ID (sc_Symbol (ss_cfg (sampleSession e))))"
proof -
  fix e
  note r = sampleSession_reachable [of e]
  have "length (ss_outbound (sampleSession e)) = 1" using arg_cong [OF sampleSession_start(2) [of e], of length] by simp
  then show ?thesis using r Session_invariant [OF r] by blast
qed

text \<open>
  C13. The queue neither loses nor reorders what it accepted. Take everything the queue ever accepted in
  order, the frames written to the socket and then those waiting: every step of a session leaves this
  sequence as it is or appends to it, with one exception, a failed write, which loses the frame being
  written, leaves everything else in place, and ends the session as a slow consumer.
\<close>

theorem Session_stream_fifo:
  assumes "session_reachable c (r, s)" "session_step i (r, s) = Some (r', s')"
  shows "prefix (stream s) (stream s')
    \<or> (\<exists>W wo m rest. i = WriteIn W wo \<and> pending s = m # rest \<and> pending s' = rest \<and> written s' = written s
         \<and> \<not> snd (write_step W wo s) \<and> ss_closeReason s' = ''slow_consumer'' \<and> (ss_started s \<longrightarrow> ss_cancelled s'))"
proof (cases "\<exists>W wo. i = WriteIn W wo")
  case True
  then obtain W wo go where i: "i = WriteIn W wo" and w: "write_step W wo s = (s', go)"
    using assms(2) by (metis option.inject prod.collapse prod.inject session_step.simps(3))
  then show ?thesis using write_step_cases(2) [OF w] by fastforce
next
  case False
  have "session_ok s" using session_reachable_ok [OF assms(1)] by simp
  then show ?thesis using session_step_advances [OF assms(2)] advances_stream False by blast
qed

lemma keepalive_step:
  "\<exists>s'. session_step (DeliverIn (sampleWorld e) KeepaliveTick) (r, sampleSession e) = Some (r, s')
     \<and> map (env_Seq \<circ> out_data) (stream s') = [1, 2]"
proof -
  have cap: "length (ss_outbound (sampleSession e)) < capacity (nextSeq (sampleSession e))"
    using arg_cong [OF sampleSession_start(2) [of e], of length] sampleSession_start(5) [of e] by (simp add: nextSeq_def capacity_def)
  show ?thesis
    using cap sampleSession_start(2-4,7,8) [of e]
    by (simp add: delivery_step_def sampleWorld_def go_on_def send_def enqueueFrame_def make_frame_def Encode_def enqueue_def
        push_def nextSeq_def stream_def pending_def written_def List.map_filter_def Let_def)
qed

theorem Session_stream_fifo_witness:
  "\<exists>e r s'. session_step (DeliverIn (sampleWorld e) KeepaliveTick) (r, sampleSession e) = Some (r, s')
     \<and> prefix (stream (sampleSession e)) (stream s') \<and> length (stream s') = 2"
proof -
  fix e
  define r where "r = newRateLimiter (sc_ClientMsgPerSec (ss_cfg (sampleSession e)))"
  have re: "session_reachable sampleSessionConfig (r, sampleSession e)" unfolding r_def by (rule sampleSession_reachable)
  obtain s' where s': "session_step (DeliverIn (sampleWorld e) KeepaliveTick) (r, sampleSession e) = Some (r, s')"
    "map (env_Seq \<circ> out_data) (stream s') = [1, 2]" using keepalive_step [of e r] by (elim exE conjE)
  have "length (stream s') = 2" using arg_cong [OF s'(2), of length] by simp
  then show ?thesis using Session_stream_fifo [OF re s'(1)] s'(1) by blast
qed

end
