(* ===== verification/Session_Delivery.thy ===== *)
theory Session_Delivery
  imports Session_Run
begin

text \<open>
  What one operation of a session does for its client: the candle flush, the move to another market,
  the recovery from a full queue, and the book as the client decodes it from the frames.
\<close>

section \<open>Frames\<close>

text \<open>The frame the session builds next for a payload.\<close>

definition next_envelope :: "world \<Rightarrow> MessageType \<Rightarrow> payload \<Rightarrow> Session \<Rightarrow> Envelope" where
  "next_envelope W k p s =
     \<lparr>env_Type = k, env_Version = Version, env_ServerTime = FormatTime (w_now W), env_Seq = ss_lastSeq s + 1, env_Payload = p\<rparr>"

lemma make_frame_Some: "\<not> je_fails (w_json W) p \<Longrightarrow> make_frame W k p s = (nextSeq s, Some (next_envelope W k p s))"
  by (simp add: make_frame_def Encode_def next_envelope_def nextSeq_def Let_def)

lemma enqueue_room: "length (ss_outbound s) < capacity s \<Longrightarrow> enqueue m s = (push m s, True)"
  by (simp add: enqueue_def)

lemma enqueue_full_plain:
  "capacity s \<le> length (ss_outbound s) \<Longrightarrow> \<not> out_critical m \<Longrightarrow> enqueue m s = (s\<lparr>ss_dropped := wrap64 (ss_dropped s + 1)\<rparr>, False)"
  by (simp add: enqueue_def)

lemma enqueue_full_critical:
  "capacity s \<le> length (ss_outbound s) \<Longrightarrow> out_critical m \<Longrightarrow> ss_waits s = [] \<Longrightarrow> enqueue m s = (s, False)"
  by (simp add: enqueue_def)

lemma capacity_simps [simp]:
  "capacity (nextSeq s) = capacity s" "capacity (s\<lparr>ss_coalescer := c\<rparr>) = capacity s" "capacity (log_row r s) = capacity s"
  "capacity (s\<lparr>ss_faults := f\<rparr>) = capacity s" "capacity (push m s) = capacity s"
  by (simp_all add: capacity_def nextSeq_def log_row_def push_def)


section \<open>Candles\<close>

text \<open>
  The newest candle is never lost. When a candle of the subscribed interval is waiting, a flush
  either appends exactly one frame with that candle to the queue and leaves nothing waiting, or, with
  the queue full, queues nothing, keeps that candle for the next flush, and counts one suppressed and
  one dropped message.
\<close>

lemma flushCandles_newest:
  assumes "ChannelCandles \<in> set (ss_Channels s)"
    and cd: "map_of (co_candles (ss_coalescer s)) (sc_Interval (ss_cfg s)) = Some cd" "cd_Interval cd = sc_Interval (ss_cfg s)"
    and enc: "\<not> je_fails (w_json W) (PCandleUpdate (candle_update s cd))"
  shows "if length (ss_outbound s) < capacity s
     then pending (flushCandles W s) = pending s @
            [\<lparr>out_data = next_envelope W TypeCandleUpdate (PCandleUpdate (candle_update s cd)) s,
              out_kind = TypeCandleUpdate, out_critical = False\<rparr>]
          \<and> map_of (co_candles (ss_coalescer (flushCandles W s))) (sc_Interval (ss_cfg s)) = None
     else pending (flushCandles W s) = pending s
          \<and> map_of (co_candles (ss_coalescer (flushCandles W s))) (sc_Interval (ss_cfg s)) = Some cd
          \<and> win_suppressed (ss_window (flushCandles W s)) = wrap64 (win_suppressed (ss_window s) + 1)
          \<and> ss_dropped (flushCandles W s) = wrap64 (ss_dropped s + 1)"
proof -
  define iv where "iv = sc_Interval (ss_cfg s)"
  define c where "c = (ss_coalescer s)\<lparr>co_candles := AList.delete iv (co_candles (ss_coalescer s))\<rparr>"
  have t: "TakeCandle iv (ss_coalescer s) = (c, Some cd)" using cd by (simp add: TakeCandle_def c_def iv_def)
  have gone: "map_of (co_candles c) iv = None" by (simp add: c_def delete_conv)
  define s2 where "s2 = nextSeq (s\<lparr>ss_coalescer := c\<rparr>)"
  define m where "m = \<lparr>out_data = next_envelope W TypeCandleUpdate (PCandleUpdate (candle_update s cd)) s,
      out_kind = TypeCandleUpdate, out_critical = False\<rparr>"
  have fr: "make_frame W TypeCandleUpdate (PCandleUpdate (candle_update (s\<lparr>ss_coalescer := c\<rparr>) cd)) (s\<lparr>ss_coalescer := c\<rparr>)
      = (s2, Some (out_data m))"
    using make_frame_Some [of W _ TypeCandleUpdate "s\<lparr>ss_coalescer := c\<rparr>"] enc
    by (simp add: candle_update_def s2_def m_def next_envelope_def)
  have eq: "flushCandles W s = (let (s3, ok) = enqueue m s2 in
      if ok then flush_candles W s3 else suppress 1 (s3\<lparr>ss_coalescer := OnCandle cd (ss_coalescer s3)\<rparr>))"
    using assms(1) by (simp add: flushCandles_def flush_candles.simps [of W s] t [unfolded iv_def] fr Let_def) (simp add: m_def)
  have out: "ss_outbound s2 = ss_outbound s" "capacity s2 = capacity s" "ss_coalescer s2 = c" "ss_cfg s2 = ss_cfg s"
    by (simp_all add: s2_def nextSeq_def capacity_def)
  show ?thesis
  proof (cases "length (ss_outbound s) < capacity s")
    case True
    then have q: "enqueue m s2 = (push m s2, True)" by (simp add: enqueue_room out)
    have "TakeCandle iv (ss_coalescer (push m s2)) = (c, None)" using gone by (simp add: TakeCandle_def push_def out)
    moreover have "sc_Interval (ss_cfg (push m s2)) = iv" by (simp add: iv_def push_def out)
    ultimately have "flush_candles W (push m s2) = (push m s2)\<lparr>ss_coalescer := c\<rparr>"
      by (simp add: flush_candles.simps [of W "push m s2"])
    then show ?thesis using True gone
      by (simp add: eq q) (simp add: pending_def push_def s2_def nextSeq_def m_def iv_def)
  next
    case False
    then have q: "enqueue m s2 = (s2\<lparr>ss_dropped := wrap64 (ss_dropped s2 + 1)\<rparr>, False)"
      by (intro enqueue_full_plain) (simp_all add: out m_def)
    have "map_of (co_candles (OnCandle cd c)) iv = Some cd"
      using gone cd(2) by (simp add: OnCandle_def iv_def update_conv)
    then show ?thesis using False
      by (simp add: eq q) (simp add: pending_def suppress_def s2_def nextSeq_def iv_def)
  qed
qed


definition candle_session :: "Engine \<Rightarrow> Session" where
  "candle_session e = (sampleSession e)\<lparr>ss_coalescer :=
     OnCandle (zeroCandle\<lparr>cd_Interval := Interval1m\<rparr>) (ss_coalescer (sampleSession e))\<rparr>"

lemma sampleSession_data:
  "ss_Channels (sampleSession e) = DefaultChannels" "ss_cfg (sampleSession e) = session_config sampleSessionConfig"
  "ss_coalescer (sampleSession e) = NewCoalescer BTCUSDT" "ss_waits (sampleSession e) = []" "ss_faults (sampleSession e) = noFaults"
  "ss_heldDelta (sampleSession e) = None" "length (ss_outbound (sampleSession e)) = 1"
  by (simp_all add: sampleSession_def sampleWorld_def sampleSessionConfig_def Run_start_def NewSession_def sendWelcome_def
      recordSessionStart_def log_row_def subscribe_bus_def Bus_Subscribe_def NewBus_def make_frame_def nextSeq_def Encode_def
      enqueue_def push_def capacity_def session_config_def Let_def)

section \<open>Moving to another market\<close>

text \<open>
  A subscription to another market moves the session completely. After a successful subscription
  the session is bound to the engine, the symbol and the interval it named; its old mailbox is closed
  and removed from the old market's bus; it has one new, empty, open mailbox, added to the new market's
  bus; no other bus is touched; and the coalescer belongs to the new market.
\<close>

lemma handleSubscribe_rebinds:
  assumes "resolveMarket i s = Some (m, symb)" "ParseInterval iv_id = Inr iv" "\<forall>c\<in>set (elems channels). ValidChannel c"
    and "ss_engine s = Some m0" "m0 \<noteq> m" "ss_sub s = Some p" "bus_heap (ss_buses s m0) p = Some sb"
    and "handleSubscribe W i iv_id channels s = Some s'"
  shows "ss_engine s' = Some m \<and> sc_Symbol (ss_cfg s') = symb \<and> sc_Interval (ss_cfg s') = iv \<and> co_symbol (ss_coalescer s') = symb
    \<and> p \<notin> set (bus_subs (ss_buses s' m0)) \<and> bus_heap (ss_buses s' m0) p = Some (sub_close sb)
    \<and> (\<exists>q sb'. ss_sub s' = Some q \<and> q = bus_next (ss_buses s m) \<and> bus_subs (ss_buses s' m) = bus_subs (ss_buses s m) @ [q]
         \<and> own_sub s' = Some sb' \<and> sub_ch sb' = [] \<and> \<not> sub_done sb')
    \<and> (\<forall>x. x \<noteq> m0 \<longrightarrow> x \<noteq> m \<longrightarrow> ss_buses s' x = ss_buses s x)"
proof -
  define s1 where "s1 = (case channels of None \<Rightarrow> s | Some cs \<Rightarrow> s\<lparr>ss_Channels := cs @ [ChannelHealth]\<rparr>)"
  define s2 where "s2 = s1\<lparr>ss_cfg := (ss_cfg s1)\<lparr>sc_Interval := iv\<rparr>\<rparr>"
  define s3 where "s3 = bindEngine m symb s2"
  have s2: "ss_engine s2 = Some m0" "ss_sub s2 = Some p" "ss_buses s2 = ss_buses s" "sc_Interval (ss_cfg s2) = iv"
    using assms(4,6) by (cases channels; simp add: s2_def s1_def)+
  have acc: "accept_subscription m symb iv channels s = s3"
    unfolding accept_subscription_def s1_def [symmetric] s2_def [symmetric] Let_def using s2(1) assms(5) by (simp add: s3_def)
  have ch: "List.find (\<lambda>c. \<not> ValidChannel c) (elems channels) = None" using assms(3) by (simp add: find_None)
  obtain e where "greet W e symb iv s3 = Some s'"
    using assms(8) by (auto simp: handleSubscribe_def assms(1,2) ch acc split: option.splits)
  then have d: "delivers s3 s'" by (rule delivers_greet)
  have s3: "ss_engine s3 = Some m" "sc_Symbol (ss_cfg s3) = symb" "sc_Interval (ss_cfg s3) = iv" "co_symbol (ss_coalescer s3) = symb"
    "ss_sub s3 = Some (bus_next (ss_buses s m))" "ss_buses s3 = (ss_buses s)(m0 := Unsubscribe p (ss_buses s m0),
       m := fst (Bus_Subscribe (''sess:'' @ sc_ShortID (ss_cfg s2)) (sc_OutboundCapacity (ss_cfg s2)) (ss_buses s m)))"
    using s2 assms(5) by (simp_all add: s3_def bindEngine_def unsubscribe_bus_def subscribe_bus_def Bus_Subscribe_def Let_def)
  show ?thesis
    using d s3 assms(5,7)
    by (auto simp: delivers_def own_sub_def Unsubscribe_def Bus_Subscribe_def Let_def)
qed

section \<open>Book deltas\<close>

lemma word_less_inc: "a < b \<Longrightarrow> b + 1 \<noteq> 0 \<Longrightarrow> a + 1 < b + (1 :: 'a::len word)"
  using inc_le [of a b] unatSuc [of b] by (simp add: word_less_nat_alt word_le_nat_alt add.commute)

definition delta_payload :: "Session \<Rightarrow> book_delta \<Rightarrow> payload" where
  "delta_payload s d = PDelta (DeltaPayloadFrom (sc_Symbol (ss_cfg s)) (de_epoch d) (de_first d) (de_last d) (de_bids d) (de_asks d))"

definition delta_frame :: "world \<Rightarrow> Session \<Rightarrow> book_delta \<Rightarrow> outbound" where
  "delta_frame W s d = delta_out (next_envelope W TypeOrderBookDelta (delta_payload s d) s) True"

lemma skip_deltas_none: "ss_faults s = noFaults \<Longrightarrow> skip_deltas W e s = s"
  by (simp add: skip_deltas_def noFaults_def Let_def)

lemma flushBook_idle: "ss_faults s = noFaults \<Longrightarrow> TakeBookDelta (ss_coalescer s) = (c, None) \<Longrightarrow> flushBook W e s = s\<lparr>ss_coalescer := c\<rparr>"
  by (simp add: flushBook_def skip_deltas_none)

lemma flushBook_delta:
  assumes "ss_faults s = noFaults" "ss_heldDelta s = None" "TakeBookDelta (ss_coalescer s) = (c, Some d)"
    "\<not> je_fails (w_json W) (delta_payload s d)"
  shows "flushBook W e s =
    (let (s1, ok) = enqueue (delta_frame W s d) (nextSeq (s\<lparr>ss_coalescer := c\<rparr>)) in
     if ok then s1\<lparr>ss_coalescer := fst (Stats (ss_coalescer s1)), ss_lastDelta := Some (out_data (delta_frame W s d))\<rparr>
     else requestResync W e ''outbound queue full for a book delta''
            (recordBookEvent W e ''RECOVERY_STARTED'' (de_first d) (de_last d) 0 0 s1))"
proof -
  have m: "make_frame W TypeOrderBookDelta (delta_payload s d) (s\<lparr>ss_coalescer := c\<rparr>)
      = (nextSeq (s\<lparr>ss_coalescer := c\<rparr>), Some (out_data (delta_frame W s d)))"
    using make_frame_Some [OF assms(4)] by (simp add: delta_frame_def delta_out_def next_envelope_def)
  have eq: "flushBook W e s = emit_delta W e d (out_data (delta_frame W s d)) (nextSeq (s\<lparr>ss_coalescer := c\<rparr>))"
    using m by (simp add: flushBook_def skip_deltas_none assms(1,3) delta_payload_def Let_def)
  have f: "ss_faults (nextSeq (s\<lparr>ss_coalescer := c\<rparr>)) = noFaults" "ss_heldDelta (nextSeq (s\<lparr>ss_coalescer := c\<rparr>)) = None"
    using assms(1,2) by (simp_all add: nextSeq_def)
  obtain s1 ok where q: "enqueue (delta_frame W s d) (nextSeq (s\<lparr>ss_coalescer := c\<rparr>)) = (s1, ok)" by fastforce
  have "ss_faults s1 = noFaults"
    using q f(1) by (auto simp: enqueue_def push_def writer_takes_def Let_def split: if_splits list.splits)
  moreover have "delta_out (out_data (delta_frame W s d)) True = delta_frame W s d" by (simp add: delta_frame_def delta_out_def)
  ultimately show ?thesis
    unfolding eq emit_delta_def f by (simp add: q noFaults_def Let_def)
qed



definition full_session :: "Engine \<Rightarrow> Session" where
  "full_session e = (sampleSession e)\<lparr>ss_outbound := ss_outbound (sampleSession e) @ ss_outbound (sampleSession e),
     ss_coalescer := OnBookWindow 0 9 [level 98 6] [level 101 4] (NewCoalescer BTCUSDT)\<rparr>"




section \<open>The book the client decodes\<close>

text \<open>The book frames among the frames of a session, as a client of the symbol reads them.\<close>

definition client_frame :: "Symbol \<Rightarrow> payload \<Rightarrow> book_frame list" where
  "client_frame symb p =
     (case p of
        PDelta q \<Rightarrow>
          (case (those (map (parse_level symb) (op_Bids q)), those (map (parse_level symb) (op_Asks q))) of
             (Some bids, Some asks) \<Rightarrow>
               [FDelta \<lparr>de_epoch = op_Epoch q, de_first = op_FirstUpdateID q, de_last = op_LastUpdateID q, de_bids = bids, de_asks = asks\<rparr>]
           | _ \<Rightarrow> [])
      | PSnapshot q \<Rightarrow>
          (case (those (map (parse_level symb) (sp_Bids q)), those (map (parse_level symb) (sp_Asks q))) of
             (Some bids, Some asks) \<Rightarrow> [FSnapshot (sp_Epoch q) (sp_UpdateID q) bids asks]
           | _ \<Rightarrow> [])
      | _ \<Rightarrow> [])"

definition client_frames :: "Symbol \<Rightarrow> outbound list \<Rightarrow> book_frame list" where
  "client_frames symb ms = concat (map (\<lambda>m. client_frame symb (env_Payload (out_data m))) ms)"

lemma client_frames_append [simp]: "client_frames symb (xs @ ys) = client_frames symb xs @ client_frames symb ys"
  by (simp add: client_frames_def)

lemma those_Some [simp]: "those (map Some xs) = Some xs"
  by (induction xs) simp_all

lemma client_frame_delta:
  assumes "symb \<in> set AllSymbols" "wire_safe (de_bids d)" "wire_safe (de_asks d)"
  shows "client_frame symb (PDelta (DeltaPayloadFrom symb (de_epoch d) (de_first d) (de_last d) (de_bids d) (de_asks d))) = [FDelta d]"
  using assms by (simp add: client_frame_def DeltaPayloadFrom_def Levels_roundtrip del: map_map)

text \<open>The levels of a delta are on the wire what they are in the coalescer.\<close>

lemma delta_wire_safe:
  assumes "coalescer_ok c" "TakeBookDelta c = (c', Some d)"
    "wire_safe (map snd (co_bids c))" "wire_safe (map snd (co_sentBids c))"
    "wire_safe (map snd (co_asks c))" "wire_safe (map snd (co_sentAsks c))"
  shows "wire_safe (de_bids d)" "wire_safe (de_asks d)"
proof -
  have d: "set (de_bids d) = set (diffLevels (co_bids c) (co_sentBids c))" "set (de_asks d) = set (diffLevels (co_asks c) (co_sentAsks c))"
    using assms(2) by (auto simp: TakeBookDelta_def Let_def split: if_splits)
  have ok: "lmap_ok (co_bids c)" "lmap_ok (co_sentBids c)" "lmap_ok (co_asks c)" "lmap_ok (co_sentAsks c)"
    using assms(1) by (simp_all add: coalescer_ok_def)
  have safe: "\<bar>lv_Price l\<bar> \<le> maxSafeMagnitude \<and> \<bar>lv_Quantity l\<bar> \<le> maxSafeMagnitude"
    if "lmap_ok cur" "lmap_ok sent" "wire_safe (map snd cur)" "wire_safe (map snd sent)" "l \<in> set (diffLevels cur sent)" for cur sent l
  proof -
    have "map_of cur (lv_Price l) = Some l \<or> (\<exists>x. map_of sent (lv_Price l) = Some x) \<and> lv_Quantity l = 0"
      using that(5) diffLevels_mem [OF that(1,2)] by auto
    then show ?thesis
    proof
      assume "map_of cur (lv_Price l) = Some l"
      then have "l \<in> set (map snd cur)" by (force dest: map_of_SomeD)
      then show ?thesis using that(3) by (auto simp: wire_safe_def)
    next
      assume "(\<exists>x. map_of sent (lv_Price l) = Some x) \<and> lv_Quantity l = 0"
      then obtain x where x: "map_of sent (lv_Price l) = Some x" "lv_Quantity l = 0" by blast
      then have "x \<in> set (map snd sent)" "lv_Price x = lv_Price l" using lmap_okD [OF that(2)] by (force dest: map_of_SomeD)+
      then show ?thesis using that(4) x(2) by (auto simp: wire_safe_def maxSafeMagnitude_def)
    qed
  qed
  show "wire_safe (de_bids d)" "wire_safe (de_asks d)"
    unfolding wire_safe_def d using safe [OF ok(1,2) assms(3,4)] safe [OF ok(3,4) assms(5,6)] by blast+
qed

text \<open>
  A flush with room for the delta: the client that has received everything accepted by the queue holds
  exactly the window the coalescer recorded.
\<close>

lemma flushBook_catches_up:
  assumes "ss_faults s = noFaults" "ss_heldDelta s = None" "length (ss_outbound s) < capacity s"
    and enc: "\<forall>p. \<not> je_fails (w_json W) p" and roster: "sc_Symbol (ss_cfg s) = symb" "symb \<in> set AllSymbols"
    and inv: "session_inv (ss_coalescer s) (client_frames symb (pending s)) cl"
    and dirty: "co_bookDirty (ss_coalescer s)" "\<not> co_needsSnapshot (ss_coalescer s)"
      "co_updateID (ss_coalescer s) > co_clientApplied (ss_coalescer s)"
    and safe: "wire_safe (map snd (co_bids (ss_coalescer s)))" "wire_safe (map snd (co_sentBids (ss_coalescer s)))"
      "wire_safe (map snd (co_asks (ss_coalescer s)))" "wire_safe (map snd (co_sentAsks (ss_coalescer s)))"
  shows "session_inv (ss_coalescer (flushBook W e s)) (client_frames symb (pending (flushBook W e s))) cl
    \<and> cl_rejected (fold client_recv (client_frames symb (pending (flushBook W e s))) cl) = 0
    \<and> cl_epoch (fold client_recv (client_frames symb (pending (flushBook W e s))) cl) = co_epoch (ss_coalescer s)
    \<and> cl_bids (fold client_recv (client_frames symb (pending (flushBook W e s))) cl) = qmap (co_bids (ss_coalescer s))
    \<and> cl_asks (fold client_recv (client_frames symb (pending (flushBook W e s))) cl) = qmap (co_asks (ss_coalescer s))"
proof -
  obtain c r where t: "TakeBookDelta (ss_coalescer s) = (c, r)" by fastforce
  have ok: "coalescer_ok (ss_coalescer s)" using inv by (simp add: session_inv_def)
  note up = TakeBookDelta_caught_up [OF ok dirty t]
  have key: "session_inv (ss_coalescer (flushBook W e s)) (client_frames symb (pending (flushBook W e s))) cl
    \<and> co_sentBids (ss_coalescer (flushBook W e s)) = co_sentBids c \<and> co_sentAsks (ss_coalescer (flushBook W e s)) = co_sentAsks c
    \<and> co_epoch (ss_coalescer (flushBook W e s)) = co_epoch c \<and> co_needsSnapshot (ss_coalescer (flushBook W e s)) = co_needsSnapshot c"
  proof (cases r)
    case None
    have "session_inv c (client_frames symb (pending s)) cl"
      using TakeBookDelta_None [of "ss_coalescer s" c] t None inv by (auto intro: session_inv_same_book)
    then show ?thesis using t None by (simp add: flushBook_idle [OF assms(1)] pending_def)
  next
    case (Some d)
    note ts = t [unfolded Some]
    have q: "enqueue (delta_frame W s d) (nextSeq (s\<lparr>ss_coalescer := c\<rparr>)) = (push (delta_frame W s d) (nextSeq (s\<lparr>ss_coalescer := c\<rparr>)), True)"
      using assms(3) by (intro enqueue_room) (simp add: nextSeq_def capacity_def)
    define x where "x = push (delta_frame W s d) (nextSeq (s\<lparr>ss_coalescer := c\<rparr>))"
    have x: "ss_coalescer x = c" "pending x = pending s @ [delta_frame W s d]" by (simp_all add: x_def pending_def push_def nextSeq_def)
    have "flushBook W e s = x\<lparr>ss_coalescer := fst (Stats (ss_coalescer x)), ss_lastDelta := Some (out_data (delta_frame W s d))\<rparr>"
      using flushBook_delta [OF assms(1,2) ts, of W e] enc by (simp add: q flip: x_def)
    then have fb: "ss_coalescer (flushBook W e s) = fst (Stats c)" "pending (flushBook W e s) = pending s @ [delta_frame W s d]"
      using x by (simp_all add: pending_def)
    have "client_frames symb [delta_frame W s d] = [FDelta d]"
      using client_frame_delta [OF roster(2) delta_wire_safe [OF ok ts safe]] roster(1)
      by (simp add: client_frames_def delta_frame_def delta_out_def next_envelope_def delta_payload_def)
    then have "session_inv c (client_frames symb (pending (flushBook W e s))) cl"
      using session_inv_flush [OF inv ts] by (simp add: fb(2))
    then show ?thesis using session_inv_same_book [of c] by (simp add: fb(1) Stats_def)
  qed
  moreover have "mirrors (ss_coalescer (flushBook W e s)) (fold client_recv (client_frames symb (pending (flushBook W e s))) cl)"
    using key up(4) by (simp add: session_inv_def)
  ultimately show ?thesis using up by (simp add: mirrors_def session_inv_def)
qed


text \<open>An event that is not about the book: it leaves the book part of the session and the book frames alone.\<close>

definition same_book :: "Coalescer \<Rightarrow> Coalescer \<Rightarrow> bool" where
  "same_book c c' =
     (co_bids c' = co_bids c \<and> co_asks c' = co_asks c \<and> co_sentBids c' = co_sentBids c \<and> co_sentAsks c' = co_sentAsks c
      \<and> co_epoch c' = co_epoch c \<and> co_clientApplied c' = co_clientApplied c \<and> co_needsSnapshot c' = co_needsSnapshot c
      \<and> co_updateID c' = co_updateID c \<and> co_bookDirty c' = co_bookDirty c)"

definition quiet :: "Symbol \<Rightarrow> nat \<Rightarrow> Session \<Rightarrow> Session \<Rightarrow> bool" where
  "quiet symb n s s' =
     (ss_cfg s' = ss_cfg s \<and> ss_faults s' = ss_faults s \<and> ss_heldDelta s' = ss_heldDelta s
      \<and> client_frames symb (pending s') = client_frames symb (pending s) \<and> length (ss_outbound s') \<le> length (ss_outbound s) + n
      \<and> same_book (ss_coalescer s) (ss_coalescer s'))"

lemma quiet_trans: "quiet symb n s s1 \<Longrightarrow> quiet symb k s1 s2 \<Longrightarrow> quiet symb (n + k) s s2"
  by (simp add: quiet_def same_book_def)

lemma quiet_coalescer:
  "quiet symb 1 s (s\<lparr>ss_coalescer := OnCandle cd (ss_coalescer s)\<rparr>)" "quiet symb 1 s (s\<lparr>ss_coalescer := OnTrade n t (ss_coalescer s)\<rparr>)"
  by (simp_all add: quiet_def same_book_def pending_def OnCandle_def OnTrade_def split: option.split)

lemma quiet_candle_closed:
  assumes "length (ss_outbound s) < capacity s" "\<forall>p. \<not> je_fails (w_json W) p"
  shows "quiet symb 1 s (sendCandleClosed W e cd s)"
proof -
  define p where "p = PCandleClosed \<lparr>cc_Symbol = sym_ID (sc_Symbol (ss_cfg s)), cc_Interval = cd_Interval cd,
      cc_Candle = CandlePayloadFrom (sc_Symbol (ss_cfg s)) cd False, cc_Epoch = en_epoch e\<rparr>"
  define m where "m = \<lparr>out_data = next_envelope W TypeCandleClosed p s, out_kind = TypeCandleClosed, out_critical = True\<rparr>"
  have "make_frame W TypeCandleClosed p s = (nextSeq s, Some (next_envelope W TypeCandleClosed p s))"
    using assms(2) make_frame_Some by blast
  moreover have "enqueue m (nextSeq s) = (push m (nextSeq s), True)"
    using assms(1) by (intro enqueue_room) (simp add: nextSeq_def capacity_def)
  ultimately have "sendCandleClosed W e cd s = push m (nextSeq s)"
    by (simp add: sendCandleClosed_def enqueueCritical_def enqueueFrame_def m_def Let_def flip: p_def)
  then show ?thesis
    by (simp add: quiet_def pending_def push_def nextSeq_def client_frames_def m_def next_envelope_def p_def client_frame_def
        same_book_def)
qed

definition is_book_event :: "Event \<Rightarrow> bool" where
  "is_book_event ev = (ev_Kind ev = EventBookWindow \<or> ev_Kind ev = EventMarketStatus)"

lemma quiet_handleEvent:
  assumes "\<not> is_book_event ev" "ss_faults s = noFaults" "length (ss_outbound s) < capacity s" "\<forall>p. \<not> je_fails (w_json W) p"
  shows "quiet symb 1 s (handleEvent W e ev s)"
proof -
  have refl: "quiet symb 1 s s" by (simp add: quiet_def same_book_def)
  have "\<not> fc_SkipCandleClosed (ss_faults s)" by (simp add: assms(2) noFaults_def)
  then show ?thesis
    using assms(1) refl quiet_coalescer quiet_candle_closed [OF assms(3,4)]
    by (cases "ev_Kind ev") (auto simp: handleEvent_def is_book_event_def split: option.split)
qed

lemma quiet_events:
  assumes "\<forall>ev\<in>set evs. \<not> is_book_event ev" "ss_faults s = noFaults" "length (ss_outbound s) + length evs \<le> capacity s"
    "\<forall>p. \<not> je_fails (w_json W) p"
  shows "quiet symb (length evs) s (fold (handleEvent W e) evs s)"
  using assms
proof (induction evs arbitrary: s)
  case Nil
  then show ?case by (simp add: quiet_def same_book_def)
next
  case (Cons ev evs)
  then have q: "quiet symb 1 s (handleEvent W e ev s)" by (intro quiet_handleEvent) simp_all
  then have "ss_faults (handleEvent W e ev s) = noFaults" "length (ss_outbound (handleEvent W e ev s)) + length evs \<le> capacity (handleEvent W e ev s)"
    using Cons.prems by (simp_all add: quiet_def capacity_def)
  then have "quiet symb (length evs) (handleEvent W e ev s) (fold (handleEvent W e) evs (handleEvent W e ev s))"
    using Cons by simp
  from quiet_trans [OF q this] show ?case by simp
qed

lemma session_inv_window:
  "session_inv c q cl \<Longrightarrow> window_ok bids \<Longrightarrow> window_ok asks \<Longrightarrow> session_inv (OnBookWindow ep u bids asks c) q cl"
  using OnBookWindow_ok [of c bids asks ep u] by (auto simp: session_inv_def mirrors_def OnBookWindow_def Let_def)

lemma handleEvent_window:
  assumes "\<not> co_needsSnapshot (ss_coalescer s)" "bw_Epoch w = co_epoch (ss_coalescer s)"
  shows "handleEvent W e (book_event w) s
    = s\<lparr>ss_coalescer := OnBookWindow (bw_Epoch w) (bw_UpdateID w) (bw_Bids w) (bw_Asks w) (ss_coalescer s)\<rparr>"
  using assms by (simp add: handleEvent_def book_event_def mkEvent_def NeedsSnapshot_def OnBookWindow_def Let_def)

text \<open>
  The events of one trade reach the client: whatever comes before and after the window of the new book,
  the flush that follows brings the client to that window.
\<close>

lemma window_reaches_client:
  assumes s: "ss_faults s = noFaults" "ss_heldDelta s = None" "sc_Symbol (ss_cfg s) = symb" "symb \<in> set AllSymbols"
    and room: "length (ss_outbound s) + length xs + length ys < capacity s" and enc: "\<forall>p. \<not> je_fails (w_json W) p"
    and inv: "session_inv (ss_coalescer s) (client_frames symb (pending s)) cl" "\<not> co_needsSnapshot (ss_coalescer s)"
    and w: "bw_Epoch w = co_epoch (ss_coalescer s)" "bw_UpdateID w > co_updateID (ss_coalescer s)"
      "bw_UpdateID w > co_clientApplied (ss_coalescer s)" "window_ok (bw_Bids w)" "window_ok (bw_Asks w)"
    and safe: "wire_safe (bw_Bids w)" "wire_safe (map snd (co_sentBids (ss_coalescer s)))"
      "wire_safe (bw_Asks w)" "wire_safe (map snd (co_sentAsks (ss_coalescer s)))"
    and evs: "\<forall>ev\<in>set xs. \<not> is_book_event ev" "\<forall>ev\<in>set ys. \<not> is_book_event ev"
  shows "let cl' = fold client_recv (client_frames symb (pending (flushBook W e (fold (handleEvent W e) (xs @ [book_event w] @ ys) s)))) cl
    in cl_rejected cl' = 0 \<and> cl_epoch cl' = bw_Epoch w \<and> cl_bids cl' = levels_map (bw_Bids w) \<and> cl_asks cl' = levels_map (bw_Asks w)"
proof -
  define a where "a = fold (handleEvent W e) xs s"
  define b where "b = handleEvent W e (book_event w) a"
  define z where "z = fold (handleEvent W e) ys b"
  have qa: "quiet symb (length xs) s a" unfolding a_def using evs(1) s(1) room enc by (intro quiet_events) simp_all
  have b: "b = a\<lparr>ss_coalescer := OnBookWindow (bw_Epoch w) (bw_UpdateID w) (bw_Bids w) (bw_Asks w) (ss_coalescer a)\<rparr>"
    unfolding b_def using qa inv(2) w(1) by (intro handleEvent_window) (simp_all add: quiet_def same_book_def)
  have qz: "quiet symb (length ys) b z" unfolding z_def
    using evs(2) s(1) room enc qa by (intro quiet_events) (simp_all add: b quiet_def capacity_def)
  have inv_a: "session_inv (ss_coalescer a) (client_frames symb (pending a)) cl"
    using session_inv_same_book [OF inv(1), of "ss_coalescer a"] qa by (simp add: quiet_def same_book_def)
  have inv_b: "session_inv (ss_coalescer b) (client_frames symb (pending b)) cl"
    using session_inv_window [OF inv_a w(4,5)] by (simp add: b pending_def)
  have cb: "co_bids (ss_coalescer b) = levelMap (bw_Bids w)" "co_asks (ss_coalescer b) = levelMap (bw_Asks w)"
    "co_sentBids (ss_coalescer b) = co_sentBids (ss_coalescer s)" "co_sentAsks (ss_coalescer b) = co_sentAsks (ss_coalescer s)"
    "co_bookDirty (ss_coalescer b)" "\<not> co_needsSnapshot (ss_coalescer b)" "co_epoch (ss_coalescer b) = bw_Epoch w"
    "co_updateID (ss_coalescer b) = bw_UpdateID w" "co_clientApplied (ss_coalescer b) = co_clientApplied (ss_coalescer s)"
    using qa inv(2) w levelMap_ok [OF w(4)] levelMap_ok [OF w(5)]
    by (simp_all add: b OnBookWindow_def quiet_def same_book_def replaceLevels_ok Let_def)
  have snds: "map snd (levelMap (bw_Bids w)) = bw_Bids w" "map snd (levelMap (bw_Asks w)) = bw_Asks w"
    using w(4,5) by (simp_all add: levelMap_eq window_ok_def comp_def)
  have inv_z: "session_inv (ss_coalescer z) (client_frames symb (pending z)) cl"
    using session_inv_same_book [OF inv_b, of "ss_coalescer z"] qz by (simp add: quiet_def same_book_def)
  have zs: "ss_faults z = noFaults" "ss_heldDelta z = None" "length (ss_outbound z) < capacity z" "sc_Symbol (ss_cfg z) = symb"
    using qa qz s room by (simp_all add: quiet_def b capacity_def)
  have cz: "same_book (ss_coalescer b) (ss_coalescer z)" using qz by (simp add: quiet_def)
  have "cl_rejected (fold client_recv (client_frames symb (pending (flushBook W e z))) cl) = 0
    \<and> cl_epoch (fold client_recv (client_frames symb (pending (flushBook W e z))) cl) = co_epoch (ss_coalescer z)
    \<and> cl_bids (fold client_recv (client_frames symb (pending (flushBook W e z))) cl) = qmap (co_bids (ss_coalescer z))
    \<and> cl_asks (fold client_recv (client_frames symb (pending (flushBook W e z))) cl) = qmap (co_asks (ss_coalescer z))"
    using flushBook_catches_up [OF zs(1-3) enc zs(4) s(4) inv_z, of e] cz cb safe snds w(3) unfolding same_book_def by simp
  moreover have "z = fold (handleEvent W e) (xs @ [book_event w] @ ys) s" by (simp add: z_def b_def a_def)
  ultimately show ?thesis
    using cz cb levelMap_ok [OF w(4)] levelMap_ok [OF w(5)] by (simp add: same_book_def Let_def)
qed

end
