(* ===== verification/Rate_Limiter.thy ===== *)
theory Rate_Limiter
  imports Session
begin

text \<open>
  The fixed-window counter of the reader (\<^verbatim>\<open>session.go\<close>, \<^verbatim>\<open>rateLimiter\<close>): what it lets
  through in any second, and whom it never stops.
\<close>

section \<open>The rate limiter\<close>

text \<open>The decisions on a sequence of messages, with the instant of each.\<close>

definition allow_next :: "gotime \<Rightarrow> rateLimiter \<times> (int \<times> bool) list \<Rightarrow> rateLimiter \<times> (int \<times> bool) list" where
  "allow_next t st = (let (r', ok) = allow t (fst st) in (r', snd st @ [(instant t, ok)]))"

definition allow_all :: "gotime list \<Rightarrow> rateLimiter \<Rightarrow> rateLimiter \<times> (int \<times> bool) list" where
  "allow_all ts r = fold allow_next ts (r, [])"

definition sent_in :: "int \<Rightarrow> int \<Rightarrow> (int \<times> bool) list \<Rightarrow> nat" where
  "sent_in a b l = length (filter (\<lambda>(t, _). a \<le> t \<and> t < b) l)"

definition granted_in :: "int \<Rightarrow> int \<Rightarrow> (int \<times> bool) list \<Rightarrow> nat" where
  "granted_in a b l = length (filter (\<lambda>(t, ok). ok \<and> a \<le> t \<and> t < b) l)"

lemma sent_in_simps [simp]:
  "sent_in a b [] = 0" "sent_in a b (l @ [(t, ok)]) = sent_in a b l + (if a \<le> t \<and> t < b then 1 else 0)"
  by (simp_all add: sent_in_def)

lemma granted_in_simps [simp]:
  "granted_in a b [] = 0" "granted_in a b (l @ [(t, ok)]) = granted_in a b l + (if ok \<and> a \<le> t \<and> t < b then 1 else 0)"
  by (simp_all add: granted_in_def)

lemma sent_in_le: "sent_in a b l \<le> length l"
  by (simp add: sent_in_def)

lemma granted_in_split: "a \<le> w \<Longrightarrow> w \<le> b \<Longrightarrow> granted_in a b l = granted_in a w l + granted_in w b l"
  by (induction l rule: rev_induct) (auto split: prod.split)

lemma granted_in_mono: "w \<le> a \<Longrightarrow> b \<le> c \<Longrightarrow> granted_in a b l \<le> granted_in w c l"
  by (induction l rule: rev_induct) (auto split: prod.split)

lemma sent_in_outside: "(\<forall>(t, ok)\<in>set l. t < a) \<Longrightarrow> sent_in a b l = 0" 
  by (auto simp: sent_in_def filter_empty_conv)

lemma granted_in_outside: "(\<forall>(t, ok)\<in>set l. t < a) \<Longrightarrow> granted_in a b l = 0"
  by (auto simp: granted_in_def filter_empty_conv)

text \<open>
  The limiter after some messages: it counts the messages since the start of its window, all of them
  within a second; of those before the window, at most the limit were let through less than a second
  before it.
\<close>

definition limiter_inv :: "int \<Rightarrow> rateLimiter \<Rightarrow> (int \<times> bool) list \<Rightarrow> bool" where
  "limiter_inv limit r l =
     (rl_limit r = limit \<and> (l = [] \<longrightarrow> IsZero (rl_window r))
      \<and> (l \<noteq> [] \<longrightarrow>
          (let w = instant (rl_window r) in
           0 \<le> w \<and> w \<le> MaxInt64 \<and> (\<forall>(t, ok)\<in>set l. t < w + second) \<and> w \<le> fst (last l) \<and> rl_count r = int (sent_in w (w + second) l)
           \<and> int (granted_in w (w + second) l) \<le> min limit (rl_count r)
           \<and> (\<forall>a > w - second. int (granted_in a w l) \<le> limit)))
      \<and> (\<forall>a. int (granted_in a (a + second) l) \<le> 2 * limit)
      \<and> ((\<forall>a. int (sent_in a (a + second) l) \<le> limit) \<longrightarrow> (\<forall>(t, ok)\<in>set l. ok)))"

lemma limiter_invI:
  assumes "rl_limit r = limit" "l \<noteq> []" "instant (rl_window r) = w" "0 \<le> w" "w \<le> MaxInt64"
    "\<forall>(t, ok)\<in>set l. t < w + second" "w \<le> fst (last l)" "rl_count r = int (sent_in w (w + second) l)"
    "int (granted_in w (w + second) l) \<le> min limit (rl_count r)"
    "\<And>a. a > w - second \<Longrightarrow> int (granted_in a w l) \<le> limit" "\<And>a. int (granted_in a (a + second) l) \<le> 2 * limit"
    "\<forall>a. int (sent_in a (a + second) l) \<le> limit \<Longrightarrow> \<forall>(t, ok)\<in>set l. ok"
  shows "limiter_inv limit r l"
  unfolding limiter_inv_def Let_def assms(3) using assms by blast

definition starts_window :: "gotime \<Rightarrow> rateLimiter \<Rightarrow> bool" where
  "starts_window t r = (IsZero (rl_window r) \<or> Time_Sub t (rl_window r) \<ge> second)"

lemma starts_window_iff:
  assumes inv: "limiter_inv limit r l" and t: "0 \<le> instant t" "instant t \<le> MaxInt64"
  shows "starts_window t r \<longleftrightarrow> l = [] \<or> instant t \<ge> instant (rl_window r) + second"
proof (cases "l = []")
  case True
  then show ?thesis using inv by (simp add: starts_window_def limiter_inv_def)
next
  case False
  then have w: "0 \<le> instant (rl_window r)" "instant (rl_window r) \<le> MaxInt64" using inv by (auto simp: limiter_inv_def Let_def)
  then have "Time_Sub t (rl_window r) = instant t - instant (rl_window r)"
    using t by (auto simp: Time_Sub_def MinInt64_def MaxInt64_def)
  then show ?thesis using False w(1) by (auto simp: starts_window_def IsZero_def zero_instant_def)
qed

lemma limiter_new_window:
  assumes inv: "limiter_inv limit r l" and lim: "0 \<le> limit" and t: "0 \<le> instant t" "instant t \<le> MaxInt64"
    and al: "allow t r = (r', ok)" and new: "starts_window t r"
  shows "limiter_inv limit r' (l @ [(instant t, ok)])"
proof -
  define w where "w = instant (rl_window r)"
  have sec: "0 < second" by simp
  have fr: "l = [] \<or> instant t \<ge> w + second" using starts_window_iff [OF inv t] new by (simp add: w_def)
  have r': "r' = r\<lparr>rl_window := t, rl_count := 1\<rparr>" "ok = (1 \<le> limit)"
    using al new inv by (auto simp: allow_def starts_window_def Let_def limiter_inv_def wrap64_def)
  have out: "\<forall>(u, ok)\<in>set l. u < instant t"
  proof (cases "l = []")
    case False
    then have "\<forall>(u, ok)\<in>set l. u < w + second" using inv by (auto simp: limiter_inv_def Let_def w_def)
    then show ?thesis using fr False by fastforce
  qed simp
  have old: "int (granted_in a (instant t) l) \<le> limit" if "a > instant t - second" for a
  proof (cases "l = []")
    case False
    then have "granted_in a (instant t) l \<le> granted_in w (w + second) l + granted_in (w + second) (instant t) l"
      using granted_in_mono [of w a "instant t" "instant t" l] granted_in_split [of w "w + second" "instant t" l] fr that sec
      by simp
    moreover have "granted_in (w + second) (instant t) l = 0"
      using inv False by (intro granted_in_outside) (auto simp: limiter_inv_def Let_def w_def)
    moreover have "int (granted_in w (w + second) l) \<le> limit" using inv False by (auto simp: limiter_inv_def Let_def w_def)
    ultimately show ?thesis by simp
  qed (simp add: lim)
  have two: "int (granted_in a (a + second) (l @ [(instant t, ok)])) \<le> 2 * limit" for a
  proof (cases "ok \<and> a \<le> instant t \<and> instant t < a + second")
    case True
    then have "granted_in a (a + second) l = granted_in a (instant t) l"
      using granted_in_split [of a "instant t" "a + second" l] granted_in_outside [OF out] by simp
    then show ?thesis using True old [of a] r'(2) by simp
  next
    case False
    then show ?thesis using inv by (auto simp: limiter_inv_def)
  qed
  have all: "(\<forall>(t, ok)\<in>set (l @ [(instant t, ok)]). ok)" if s: "\<forall>a. int (sent_in a (a + second) (l @ [(instant t, ok)])) \<le> limit"
  proof -
    have "int (sent_in a (a + second) l) \<le> limit" for a using s [rule_format, of a] by (simp split: if_splits)
    then have "\<forall>(t, ok)\<in>set l. ok" using inv by (auto simp: limiter_inv_def)
    moreover have "1 \<le> limit" using s [rule_format, of "instant t"] sec by simp
    ultimately show ?thesis by (simp add: r'(2))
  qed
  have g: "granted_in (instant t) (instant t + second) l = 0" "sent_in (instant t) (instant t + second) l = 0"
    using granted_in_outside [OF out] sent_in_outside [OF out] by simp_all
  have lm: "rl_limit r = limit" using inv by (simp add: limiter_inv_def)
  show ?thesis
  proof (rule limiter_invI [of _ _ _ "instant t"])
    show "\<forall>(u, x)\<in>set (l @ [(instant t, ok)]). u < instant t + second" using out by fastforce
  qed (use two all old g t lm lim r' in \<open>simp_all\<close>)
qed

lemma limiter_same_window:
  assumes inv: "limiter_inv limit r l" and lim: "0 \<le> limit" and t: "0 \<le> instant t" "instant t \<le> MaxInt64"
    and late: "l \<noteq> [] \<longrightarrow> fst (last l) \<le> instant t" and len: "int (length l) < MaxInt64"
    and al: "allow t r = (r', ok)" and old: "\<not> starts_window t r"
  shows "limiter_inv limit r' (l @ [(instant t, ok)])"
proof -
  define w where "w = instant (rl_window r)"
  have sec: "0 < second" by simp
  have cnt: "wrap64 (int n + 1) = int n + 1" if "n \<le> length l" for n
    using that len by (intro wrap64_id) (simp add: in_i64_def MinInt64_def)
  have ne: "l \<noteq> []" and lt: "instant t < w + second" using starts_window_iff [OF inv t] old by (auto simp: w_def)
  note i = inv [unfolded limiter_inv_def Let_def w_def [symmetric]]
  have j: "rl_limit r = limit" "0 \<le> w" "w \<le> MaxInt64" "\<forall>(u, x)\<in>set l. u < w + second"
    "\<And>a. a > w - second \<Longrightarrow> int (granted_in a w l) \<le> limit" and k: "rl_count r = int (sent_in w (w + second) l)"
    and wl: "w \<le> fst (last l)" and gl: "int (granted_in w (w + second) l) \<le> min limit (rl_count r)"
    and tw: "\<And>a. int (granted_in a (a + second) l) \<le> 2 * limit"
    and al': "(\<forall>a. int (sent_in a (a + second) l) \<le> limit) \<longrightarrow> (\<forall>(t, ok)\<in>set l. ok)" using i ne by blast+
  have r': "r' = r\<lparr>rl_count := rl_count r + 1\<rparr>" "ok = (rl_count r + 1 \<le> limit)"
    using al old cnt [OF sent_in_le, of w "w + second"] j(1) k unfolding allow_def Let_def starts_window_def [symmetric] by auto
  have wt: "w \<le> instant t" using wl ne late by auto
  have g: "int (granted_in w (w + second) (l @ [(instant t, ok)])) \<le> min limit (rl_count r + 1)"
    using gl r'(2) by auto
  have two: "int (granted_in a (a + second) (l @ [(instant t, ok)])) \<le> 2 * limit" for a
  proof (cases "ok \<and> a \<le> instant t \<and> instant t < a + second")
    case True
    show ?thesis
    proof (cases "a \<le> w")
      case True
      have "granted_in a (a + second) (l @ [(instant t, ok)]) \<le> granted_in a (w + second) (l @ [(instant t, ok)])"
        using True by (intro granted_in_mono) simp_all
      also have "\<dots> = granted_in a w (l @ [(instant t, ok)]) + granted_in w (w + second) (l @ [(instant t, ok)])"
        using True sec by (intro granted_in_split) simp_all
      also have "granted_in a w (l @ [(instant t, ok)]) = granted_in a w l" using wt by simp
      finally have "int (granted_in a (a + second) (l @ [(instant t, ok)])) \<le> int (granted_in a w l)
          + int (granted_in w (w + second) (l @ [(instant t, ok)]))" by simp
      moreover have "int (granted_in a w l) \<le> limit" using j(5) [of a] \<open>ok \<and> _\<close> wt by simp
      ultimately show ?thesis using g by simp
    next
      case False
      have "granted_in a (a + second) (l @ [(instant t, ok)]) \<le> granted_in w (a + second) (l @ [(instant t, ok)])"
        using False by (intro granted_in_mono) simp_all
      also have "\<dots> = granted_in w (w + second) (l @ [(instant t, ok)]) + granted_in (w + second) (a + second) (l @ [(instant t, ok)])"
        using False sec by (intro granted_in_split) simp_all
      also have "granted_in (w + second) (a + second) (l @ [(instant t, ok)]) = 0"
        using j(4) lt by (intro granted_in_outside) auto
      finally show ?thesis using g lim by simp
    qed
  next
    case False
    then show ?thesis using tw [of a] by auto
  qed
  have all: "(\<forall>(t, ok)\<in>set (l @ [(instant t, ok)]). ok)" if s: "\<forall>a. int (sent_in a (a + second) (l @ [(instant t, ok)])) \<le> limit"
  proof -
    have "int (sent_in a (a + second) l) \<le> limit" for a using s [rule_format, of a] by (simp split: if_splits)
    then have "\<forall>(t, ok)\<in>set l. ok" using al' by blast
    moreover have "rl_count r + 1 \<le> limit" using s [rule_format, of w] wt lt k by simp
    ultimately show ?thesis by (simp add: r'(2))
  qed
  show ?thesis
  proof (rule limiter_invI [of _ _ _ w])
    show "int (granted_in a w (l @ [(instant t, ok)])) \<le> limit" if "a > w - second" for a
      using j(5) [OF that] wt by simp
  qed (use two all g j(1-4) wt lt k r' in \<open>simp_all add: w_def\<close>)
qed

lemma allow_all_snoc: "allow_all (ts @ [t]) r = allow_next t (allow_all ts r)"
  by (simp add: allow_all_def)

lemma allow_all_times: "map fst (snd (allow_all ts r)) = map instant ts"
proof (induction ts rule: rev_induct)
  case Nil
  then show ?case by (simp add: allow_all_def)
next
  case (snoc t ts)
  then show ?case by (simp add: allow_all_snoc allow_next_def case_prod_unfold Let_def)
qed

lemma allow_all_inv:
  assumes "sorted (map instant ts)" "\<forall>t\<in>set ts. 0 \<le> instant t \<and> instant t \<le> MaxInt64" "0 \<le> limit" "int (length ts) \<le> MaxInt64"
  shows "limiter_inv limit (fst (allow_all ts (newRateLimiter limit))) (snd (allow_all ts (newRateLimiter limit)))"
  using assms
proof (induction ts rule: rev_induct)
  case Nil
  then show ?case by (simp add: allow_all_def limiter_inv_def newRateLimiter_def IsZero_def)
next
  case (snoc t ts)
  define st where "st = allow_all ts (newRateLimiter limit)"
  obtain r' ok where al: "allow t (fst st) = (r', ok)" by fastforce
  have times: "map fst (snd st) = map instant ts" by (simp add: st_def allow_all_times)
  have inv: "limiter_inv limit (fst st) (snd st)" using snoc by (simp add: st_def sorted_append)
  have "fst (last (snd st)) = instant (last ts)" if "snd st \<noteq> []"
    using that times by (metis last_map map_is_Nil_conv)
  then have late: "snd st \<noteq> [] \<longrightarrow> fst (last (snd st)) \<le> instant t"
    using snoc.prems(1) times by (cases "ts = []") (auto simp: sorted_append)
  have len: "int (length (snd st)) < MaxInt64" using snoc.prems(4) arg_cong [OF times, of length] by simp
  have t: "0 \<le> instant t" "instant t \<le> MaxInt64" using snoc.prems(2) by simp_all
  have "limiter_inv limit r' (snd st @ [(instant t, ok)])"
    using limiter_new_window [OF inv snoc.prems(3) t al] limiter_same_window [OF inv snoc.prems(3) t late len al] by blast
  then show ?case by (simp add: allow_all_snoc allow_next_def al flip: st_def)
qed

text \<open>
  C14. What the reader's rate limiter promises. For messages in the order of the clock (up to the year
  2262), in any second at most twice the configured number of messages is let through, wherever that
  second starts; and a client that never sends more than the configured number of messages in any
  second has every message let through.
\<close>

theorem rateLimiter_bounds:
  assumes "sorted (map instant ts)" "\<forall>t\<in>set ts. 0 \<le> instant t \<and> instant t \<le> MaxInt64" "0 \<le> limit" "int (length ts) \<le> MaxInt64"
    and "snd (allow_all ts (newRateLimiter limit)) = decisions"
  shows "map fst decisions = map instant ts \<and> int (granted_in a (a + second) decisions) \<le> 2 * limit
    \<and> ((\<forall>a. int (sent_in a (a + second) decisions) \<le> limit) \<longrightarrow> (\<forall>(t, ok)\<in>set decisions. ok))"
  using allow_all_inv [OF assms(1-4)] allow_all_times [of ts "newRateLimiter limit"] unfolding assms(5)
  by (simp add: limiter_inv_def)

definition at_ms :: "int \<Rightarrow> gotime" where
  "at_ms n = \<lparr>instant = n * 1000000, zone = UTC\<rparr>"

theorem rateLimiter_bounds_witness:
  "snd (allow_all [at_ms 0, at_ms 900, at_ms 950, at_ms 1000] (newRateLimiter 2))
     = [(0, True), (900000000, True), (950000000, False), (1000000000, True)]
   \<and> int (granted_in 900000000 1900000000 [(0, True), (900000000, True), (950000000, False), (1000000000, True)]) \<le> 4"
proof -
  let ?ts = "[at_ms 0, at_ms 900, at_ms 950, at_ms 1000]"
  have d: "snd (allow_all ?ts (newRateLimiter 2)) = [(0, True), (900000000, True), (950000000, False), (1000000000, True)]"
    by (simp add: allow_all_def allow_next_def allow_def newRateLimiter_def at_ms_def IsZero_def zero_instant_def Time_Sub_def
        MinInt64_def MaxInt64_def wrap64_def)
  have "sorted (map instant ?ts)" "\<forall>t\<in>set ?ts. 0 \<le> instant t \<and> instant t \<le> MaxInt64" "int (length ?ts) \<le> MaxInt64"
    by (simp_all add: at_ms_def MaxInt64_def)
  from rateLimiter_bounds [OF this(1,2) _ this(3) d, of 900000000] show ?thesis using d by simp
qed

end
