(* ===== verification/Metrics_Queue.thy ===== *)
theory Metrics_Queue
  imports Session
begin

text \<open>
  \<^verbatim>\<open>internal/metrics/queue.go\<close> and the batch of \<^verbatim>\<open>internal/metrics/repository.go\<close>: the
  records a producer hands to the metrics store, the bounded drop-oldest queue they wait in, and their
  grouping into one batch per commit. The queue refines the list of the newest records: a push appends
  and drops the oldest of a full queue, a drain takes from the front.

  A \<^verbatim>\<open>record\<close> has one pointer set; it is a value of a datatype, and the zero record is
  \<open>NoRecord\<close>. The wake-up channel of capacity one is whether it holds a signal.
\<close>

section \<open>Records and batches\<close>

record SessionWrite =
  sw_Row :: SessionRow
  sw_End :: bool

record CandleCloseRow =
  ccr_Symbol :: string
  ccr_Interval :: string
  ccr_StartTime :: gotime
  ccr_Open :: string
  ccr_High :: string
  ccr_Low :: string
  ccr_Close :: string
  ccr_Volume :: string
  ccr_TradeCount :: int
  ccr_ClosedAt :: gotime
  ccr_Epoch :: u64

datatype metric_record =
    NoRecord
  | Rec_latency LatencySample
  | Rec_health HealthReportRow
  | Rec_tier TierTransitionRow
  | Rec_delivery DeliveryWindow
  | Rec_book BookSyncEvent
  | Rec_protocol ProtocolEvent
  | Rec_session SessionWrite
  | Rec_engine EngineEvent
  | Rec_candle CandleCloseRow
  | Rec_fault FaultInjectionRow

record Batch =
  bt_Latency :: "LatencySample list"
  bt_Health :: "HealthReportRow list"
  bt_Tiers :: "TierTransitionRow list"
  bt_Delivery :: "DeliveryWindow list"
  bt_BookEvents :: "BookSyncEvent list"
  bt_Protocol :: "ProtocolEvent list"
  bt_Sessions :: "SessionWrite list"
  bt_EngineEvts :: "EngineEvent list"
  bt_CandleClose :: "CandleCloseRow list"
  bt_Faults :: "FaultInjectionRow list"

definition emptyBatch :: Batch where
  "emptyBatch =
     \<lparr>bt_Latency = [], bt_Health = [], bt_Tiers = [], bt_Delivery = [], bt_BookEvents = [], bt_Protocol = [],
      bt_Sessions = [], bt_EngineEvts = [], bt_CandleClose = [], bt_Faults = []\<rparr>"

definition Batch_Len :: "Batch \<Rightarrow> nat" where
  "Batch_Len b =
     length (bt_Latency b) + length (bt_Health b) + length (bt_Tiers b) + length (bt_Delivery b)
     + length (bt_BookEvents b) + length (bt_Protocol b) + length (bt_Sessions b) + length (bt_EngineEvts b)
     + length (bt_CandleClose b) + length (bt_Faults b)"

fun batch_add :: "metric_record \<Rightarrow> Batch \<Rightarrow> Batch" where
  "batch_add NoRecord b = b"
| "batch_add (Rec_latency r) b = b\<lparr>bt_Latency := bt_Latency b @ [r]\<rparr>"
| "batch_add (Rec_health r) b = b\<lparr>bt_Health := bt_Health b @ [r]\<rparr>"
| "batch_add (Rec_tier r) b = b\<lparr>bt_Tiers := bt_Tiers b @ [r]\<rparr>"
| "batch_add (Rec_delivery r) b = b\<lparr>bt_Delivery := bt_Delivery b @ [r]\<rparr>"
| "batch_add (Rec_book r) b = b\<lparr>bt_BookEvents := bt_BookEvents b @ [r]\<rparr>"
| "batch_add (Rec_protocol r) b = b\<lparr>bt_Protocol := bt_Protocol b @ [r]\<rparr>"
| "batch_add (Rec_session r) b = b\<lparr>bt_Sessions := bt_Sessions b @ [r]\<rparr>"
| "batch_add (Rec_engine r) b = b\<lparr>bt_EngineEvts := bt_EngineEvts b @ [r]\<rparr>"
| "batch_add (Rec_candle r) b = b\<lparr>bt_CandleClose := bt_CandleClose b @ [r]\<rparr>"
| "batch_add (Rec_fault r) b = b\<lparr>bt_Faults := bt_Faults b @ [r]\<rparr>"

definition toBatch :: "metric_record list \<Rightarrow> Batch" where
  "toBatch rs = fold batch_add rs emptyBatch"

text \<open>Two batches one after the other: table by table.\<close>

definition batch_append :: "Batch \<Rightarrow> Batch \<Rightarrow> Batch" where
  "batch_append a b =
     \<lparr>bt_Latency = bt_Latency a @ bt_Latency b, bt_Health = bt_Health a @ bt_Health b, bt_Tiers = bt_Tiers a @ bt_Tiers b,
      bt_Delivery = bt_Delivery a @ bt_Delivery b, bt_BookEvents = bt_BookEvents a @ bt_BookEvents b,
      bt_Protocol = bt_Protocol a @ bt_Protocol b, bt_Sessions = bt_Sessions a @ bt_Sessions b,
      bt_EngineEvts = bt_EngineEvts a @ bt_EngineEvts b, bt_CandleClose = bt_CandleClose a @ bt_CandleClose b,
      bt_Faults = bt_Faults a @ bt_Faults b\<rparr>"

lemma batch_append_empty [simp]: "batch_append b emptyBatch = b" "batch_append emptyBatch b = b"
  by (simp_all add: batch_append_def emptyBatch_def)

lemma batch_add_append: "batch_add r (batch_append a b) = batch_append a (batch_add r b)"
  by (cases r) (simp_all add: batch_append_def)

lemma fold_batch_add: "fold batch_add rs (batch_append a b) = batch_append a (fold batch_add rs b)"
  by (induction rs arbitrary: b) (simp_all add: batch_add_append)

lemma toBatch_append: "toBatch (xs @ ys) = batch_append (toBatch xs) (toBatch ys)"
  using fold_batch_add [of ys "toBatch xs" emptyBatch] by (simp add: toBatch_def)

lemma toBatch_Nil [simp]: "toBatch [] = emptyBatch"
  by (simp add: toBatch_def)

lemma Batch_Len_append [simp]: "Batch_Len (batch_append a b) = Batch_Len a + Batch_Len b"
  by (simp add: Batch_Len_def batch_append_def)

lemma Batch_Len_empty [simp]: "Batch_Len emptyBatch = 0"
  by (simp add: Batch_Len_def emptyBatch_def)

lemma Batch_Len_single: "Batch_Len (toBatch [r]) = (if r = NoRecord then 0 else 1)"
  by (cases r) (simp_all add: Batch_Len_def toBatch_def emptyBatch_def)

lemma Batch_Len_toBatch: "NoRecord \<notin> set rs \<Longrightarrow> Batch_Len (toBatch rs) = length rs"
proof (induction rs)
  case (Cons r rs)
  then show ?case
    using toBatch_append [of "[r]" rs] by (auto simp: Batch_Len_single)
qed simp


section \<open>The queue\<close>

record recordQueue =
  rq_buf :: "metric_record list"
  rq_head :: nat
  rq_count :: nat
  rq_signal :: bool

definition newRecordQueue :: "int \<Rightarrow> recordQueue" where
  "newRecordQueue cap =
     \<lparr>rq_buf = replicate (nat (if cap < 1 then 1 else cap)) NoRecord, rq_head = 0, rq_count = 0,
      rq_signal = False\<rparr>"

definition drop_oldest :: "recordQueue \<Rightarrow> recordQueue" where
  "drop_oldest q = q\<lparr>rq_buf := (rq_buf q)[rq_head q := NoRecord], rq_head := (rq_head q + 1) mod length (rq_buf q),
     rq_count := rq_count q - 1\<rparr>"

definition queue_push :: "metric_record \<Rightarrow> recordQueue \<Rightarrow> recordQueue \<times> bool" where
  "queue_push r q =
     (let dropped = (rq_count q = length (rq_buf q));
          q1 = (if dropped then drop_oldest q else q)
      in (q1\<lparr>rq_buf := (rq_buf q1)[(rq_head q1 + rq_count q1) mod length (rq_buf q1) := r],
             rq_count := rq_count q1 + 1, rq_signal := True\<rparr>, \<not> dropped))"

fun drain_loop :: "nat \<Rightarrow> recordQueue \<Rightarrow> recordQueue \<times> metric_record list" where
  "drain_loop 0 q = (q, [])"
| "drain_loop (Suc n) q =
     (case drain_loop n (drop_oldest q) of (q', out) \<Rightarrow> (q', rq_buf q ! rq_head q # out))"

definition Drain :: "int \<Rightarrow> recordQueue \<Rightarrow> recordQueue \<times> metric_record list" where
  "Drain limit q =
     (if rq_count q = 0 \<or> limit \<le> 0 then (q, [])
      else drain_loop (nat (if limit > int (rq_count q) then int (rq_count q) else limit)) q)"

lemma drain_loop_count:
  "rq_count (fst (drain_loop k q)) = rq_count q - k" "length (snd (drain_loop k q)) = k"
  by (induction k arbitrary: q) (simp_all add: drop_oldest_def case_prod_beta)

lemma Drain_count: "rq_count (fst (Drain limit q)) + length (snd (Drain limit q)) = rq_count q"
  by (simp add: Drain_def drain_loop_count nat_le_iff)

definition queue_Depth :: "recordQueue \<Rightarrow> nat" where
  "queue_Depth q = rq_count q"


section \<open>The queue refines a list\<close>

definition queue_inv :: "recordQueue \<Rightarrow> bool" where
  "queue_inv q \<longleftrightarrow> rq_head q < length (rq_buf q) \<and> rq_count q \<le> length (rq_buf q)"

definition queue_cap :: "recordQueue \<Rightarrow> nat" where
  "queue_cap q = length (rq_buf q)"

definition queue_entries :: "recordQueue \<Rightarrow> metric_record list" where
  "queue_entries q = ring_list (rq_buf q) (rq_head q) (rq_count q)"

lemma length_queue_entries [simp]: "length (queue_entries q) = rq_count q"
  by (simp add: queue_entries_def)

lemma newRecordQueue_ok:
  "queue_inv (newRecordQueue c)" "queue_entries (newRecordQueue c) = []" "queue_cap (newRecordQueue c) = nat (max 1 c)"
  by (auto simp: newRecordQueue_def queue_inv_def queue_entries_def queue_cap_def)

lemma ring_list_update_next:
  assumes "start < length buf" "n < length buf"
  shows "ring_list (buf[start := x]) (Suc start mod length buf) n = ring_list buf (Suc start mod length buf) n"
proof -
  let ?m = "length buf"
  have "(Suc start mod ?m + i) mod ?m \<noteq> start" if "i < n" for i
  proof
    assume "(Suc start mod ?m + i) mod ?m = start"
    then have "(start + Suc i) mod ?m = (start + 0) mod ?m" using assms(1) by (simp add: mod_add_left_eq)
    then show False
      using ring_index_inj [of "Suc i" ?m 0 start] that assms by (cases buf) auto
  qed
  then show ?thesis
    unfolding ring_list_def length_list_update by (intro map_cong refl nth_list_update_neq) (auto dest: sym)
qed

lemma drop_oldest_ok:
  assumes "queue_inv q" "0 < rq_count q"
  shows "queue_inv (drop_oldest q)" "queue_cap (drop_oldest q) = queue_cap q" "rq_signal (drop_oldest q) = rq_signal q"
    "rq_count (drop_oldest q) = rq_count q - 1"
    "queue_entries q = rq_buf q ! rq_head q # queue_entries (drop_oldest q)"
proof -
  have ix: "rq_head q < length (rq_buf q)" "rq_count q - 1 < length (rq_buf q)"
    using assms by (auto simp: queue_inv_def)
  show "queue_entries q = rq_buf q ! rq_head q # queue_entries (drop_oldest q)"
    using ring_list_pop [OF assms(2) ix(1)] ring_list_update_next [OF ix, of NoRecord]
    by (simp add: queue_entries_def drop_oldest_def)
  show "queue_inv (drop_oldest q)"
    using assms mod_less_of_less [OF ix(1), of "Suc (rq_head q)"] by (auto simp: queue_inv_def drop_oldest_def)
qed (simp_all add: queue_cap_def drop_oldest_def)

lemma queue_push_room:
  assumes "queue_inv q" "rq_count q < queue_cap q"
  shows "queue_inv (fst (queue_push r q))" "queue_cap (fst (queue_push r q)) = queue_cap q"
    "queue_entries (fst (queue_push r q)) = queue_entries q @ [r]" "snd (queue_push r q)"
  using assms ring_list_push [of "rq_count q" "rq_buf q" "rq_head q" r]
  by (simp_all add: queue_push_def queue_inv_def queue_entries_def queue_cap_def Let_def)

lemma queue_push_full:
  assumes "queue_inv q" "rq_count q = queue_cap q"
  shows "fst (queue_push r q) = fst (queue_push r (drop_oldest q))" "\<not> snd (queue_push r q)"
proof -
  have "0 < rq_count q" using assms by (auto simp: queue_inv_def queue_cap_def)
  then have "rq_count (drop_oldest q) \<noteq> length (rq_buf (drop_oldest q))"
    using drop_oldest_ok(2,4) [OF assms(1)] assms(2) unfolding queue_cap_def by linarith
  then show "fst (queue_push r q) = fst (queue_push r (drop_oldest q))" "\<not> snd (queue_push r q)"
    using assms(2) by (simp_all add: queue_push_def queue_cap_def Let_def)
qed

lemma queue_push_ok:
  assumes "queue_inv q"
  shows "queue_inv (fst (queue_push r q))" "queue_cap (fst (queue_push r q)) = queue_cap q"
    "queue_entries (fst (queue_push r q)) = last_n (queue_cap q) (queue_entries q @ [r])"
    "snd (queue_push r q) \<longleftrightarrow> rq_count q < queue_cap q"
proof -
  have le: "rq_count q \<le> queue_cap q" using assms by (simp add: queue_inv_def queue_cap_def)
  have "queue_inv (fst (queue_push r q)) \<and> queue_cap (fst (queue_push r q)) = queue_cap q
    \<and> queue_entries (fst (queue_push r q)) = last_n (queue_cap q) (queue_entries q @ [r])
    \<and> (snd (queue_push r q) \<longleftrightarrow> rq_count q < queue_cap q)"
  proof (cases "rq_count q < queue_cap q")
    case True
    then show ?thesis using queue_push_room [OF assms True] by simp
  next
    case False
    with le have full: "rq_count q = queue_cap q" by simp
    then have pos: "0 < rq_count q" using assms by (auto simp: queue_inv_def queue_cap_def)
    note d = drop_oldest_ok [OF assms pos]
    have "rq_count (drop_oldest q) < queue_cap (drop_oldest q)" using d(2,4) full pos by simp
    note p = queue_push_room [OF d(1) this, of r]
    have "last_n (queue_cap q) (queue_entries q @ [r]) = tl (queue_entries q) @ [r]"
      using full pos by (intro last_n_snoc_full) simp_all
    then show ?thesis using queue_push_full [OF assms full, of r] p d full by simp
  qed
  then show "queue_inv (fst (queue_push r q))" "queue_cap (fst (queue_push r q)) = queue_cap q"
    "queue_entries (fst (queue_push r q)) = last_n (queue_cap q) (queue_entries q @ [r])"
    "snd (queue_push r q) \<longleftrightarrow> rq_count q < queue_cap q"
    by simp_all
qed

interpretation record_queue: bounded_log queue_inv queue_cap queue_entries "\<lambda>r q. fst (queue_push r q)"
  by unfold_locales (simp_all add: queue_push_ok, simp add: queue_inv_def queue_cap_def)

lemma drain_loop_ok:
  assumes "queue_inv q" "n \<le> rq_count q" "drain_loop n q = (q', out)"
  shows "queue_inv q' \<and> queue_cap q' = queue_cap q \<and> out = take n (queue_entries q) \<and> queue_entries q' = drop n (queue_entries q)"
  using assms
proof (induction n arbitrary: q q' out)
  case (Suc n)
  note d = drop_oldest_ok [OF Suc.prems(1)]
  from Suc.prems(3) obtain out' where "drain_loop n (drop_oldest q) = (q', out')" "out = rq_buf q ! rq_head q # out'"
    by (auto split: prod.splits)
  with Suc.IH [of "drop_oldest q" q' out'] Suc.prems(2) d show ?case by simp
qed simp

lemma Drain_ok:
  assumes "queue_inv q" "Drain limit q = (q', out)"
  shows "queue_inv q'" "queue_cap q' = queue_cap q" "out = take (nat limit) (queue_entries q)"
    "queue_entries q' = drop (nat limit) (queue_entries q)"
proof -
  let ?n = "min (nat limit) (rq_count q)"
  have "drain_loop ?n q = (q', out)"
    using assms(2) by (cases "limit \<le> 0 \<or> rq_count q = 0") (auto simp: Drain_def min_def split: if_splits)
  from drain_loop_ok [OF assms(1) _ this]
  show "queue_inv q'" "queue_cap q' = queue_cap q" "out = take (nat limit) (queue_entries q)"
    "queue_entries q' = drop (nat limit) (queue_entries q)"
    by (simp_all add: min_def take_all_iff split: if_splits)
qed

end
