(* ===== verification/Metrics_Store.thy ===== *)
theory Metrics_Store
  imports Metrics_Queue
begin

text \<open>
  \<^verbatim>\<open>internal/metrics/recorder.go\<close> and \<^verbatim>\<open>internal/metrics/writer.go\<close>: the store that takes
  records from the engine and the sessions without blocking, and the writer that commits them in batches
  to a repository. What a run of the store satisfies is in \<open>Metrics_Flow\<close>.

  Conventions. A repository is a record of the operations its driver provides on a state \<^typ>\<open>'r\<close>; an
  operation may fail in any state. The queue, the repository and the writer are set together by
  \<^verbatim>\<open>Open\<close> (\<open>st_open\<close>). What producers record between two pulls of the writer, and whether the
  context of a request has ended, are explicit (\<open>arrival\<close>). The time an operation takes, and the Unix
  second of a record, are arguments; the logger is left out, except the rate-limited overflow warning
  (\<open>st_warned\<close>).
\<close>

section \<open>Configuration\<close>

record MetricsConfig =
  mc_Enabled :: bool
  mc_Driver :: string
  mc_DSN :: string
  mc_QueueCapacity :: int
  mc_BatchSize :: int
  mc_FlushInterval :: int
  mc_RetentionEnabled :: bool
  mc_RetentionLatency :: int
  mc_RetentionEvents :: int
  mc_RetentionSessions :: int
  mc_PruneInterval :: int
  mc_PruneBatch :: int

definition or_default :: "int \<Rightarrow> int \<Rightarrow> int" where
  "or_default x d = (if x \<le> 0 then d else x)"

definition MetricsConfig_withDefaults :: "MetricsConfig \<Rightarrow> MetricsConfig" where
  "MetricsConfig_withDefaults c =
     c\<lparr>mc_Driver := (if TrimSpace (mc_Driver c) = [] then ''sqlite'' else mc_Driver c),
       mc_QueueCapacity := or_default (mc_QueueCapacity c) 4096,
       mc_BatchSize := or_default (mc_BatchSize c) 128,
       mc_FlushInterval := or_default (mc_FlushInterval c) (250 * 10 ^ 6),
       mc_RetentionLatency := or_default (mc_RetentionLatency c) (24 * hour_ns),
       mc_RetentionEvents := or_default (mc_RetentionEvents c) (7 * 24 * hour_ns),
       mc_RetentionSessions := or_default (mc_RetentionSessions c) (90 * 24 * hour_ns),
       mc_PruneInterval := or_default (mc_PruneInterval c) (10 * minute_ns),
       mc_PruneBatch := or_default (mc_PruneBatch c) 5000\<rparr>"

datatype metrics_error =
    ErrDSNRequired
  | ErrUnknownDriver string
  | ErrNoRepository
  | ErrBatchWrite string string
  | ErrFlushContext
  | ErrRepository string

definition MetricsConfig_validate :: "MetricsConfig \<Rightarrow> metrics_error option" where
  "MetricsConfig_validate c =
     (if \<not> mc_Enabled c then None
      else if mc_Driver c = ''sqlite'' then (if TrimSpace (mc_DSN c) = [] then Some ErrDSNRequired else None)
      else if mc_Driver c = ''memory'' then None
      else Some (ErrUnknownDriver (mc_Driver c)))"

record Retention =
  rt_Enabled :: bool
  rt_Latency :: int
  rt_Events :: int
  rt_Sessions :: int

record WriterOptions =
  wo_BatchSize :: int
  wo_FlushInterval :: int
  wo_RetryBackoff :: int
  wo_Retention :: Retention
  wo_PruneInterval :: int
  wo_PruneBatch :: int
  wo_CheckpointInterval :: int

definition WriterOptions_withDefaults :: "WriterOptions \<Rightarrow> WriterOptions" where
  "WriterOptions_withDefaults w =
     w\<lparr>wo_BatchSize := or_default (wo_BatchSize w) 128,
       wo_FlushInterval := or_default (wo_FlushInterval w) (250 * 10 ^ 6),
       wo_RetryBackoff := or_default (wo_RetryBackoff w) (50 * 10 ^ 6),
       wo_PruneInterval := or_default (wo_PruneInterval w) (10 * minute_ns),
       wo_PruneBatch := or_default (wo_PruneBatch w) 5000,
       wo_CheckpointInterval := or_default (wo_CheckpointInterval w) (5 * minute_ns)\<rparr>"


section \<open>The store\<close>

record 'r Repository =
  rp_WriteBatch :: "Batch \<Rightarrow> 'r \<Rightarrow> 'r \<times> string option"
  rp_Prune :: "(gotime \<Rightarrow> Retention \<Rightarrow> int \<Rightarrow> 'r \<Rightarrow> 'r \<times> int \<times> string option) option"
  rp_Checkpoint :: "('r \<Rightarrow> 'r \<times> string option) option"
  rp_Configure :: "WriterOptions \<Rightarrow> WriterOptions"
  rp_SchemaVersion :: "'r \<Rightarrow> int"
  rp_Close :: "'r \<Rightarrow> 'r \<times> string option"

record 'r Store =
  st_cfg :: MetricsConfig
  st_open :: bool
  st_repo :: "'r option"
  st_queue :: recordQueue
  st_opts :: WriterOptions
  st_pending :: "metric_record list"
  st_pulls :: u64
  st_lastErr :: "metrics_error option"
  st_done :: bool
  st_dropped :: int
  st_writeFailures :: int
  st_rowsWritten :: int
  st_prunedRows :: int
  st_lastFlushMs :: int
  st_lastWarnUnix :: int
  st_closed :: bool
  st_writeErr :: "metrics_error option"
  st_warned :: "int list"

definition store_options :: "MetricsConfig \<Rightarrow> WriterOptions" where
  "store_options c =
     \<lparr>wo_BatchSize = mc_BatchSize c, wo_FlushInterval = mc_FlushInterval c, wo_RetryBackoff = 0,
      wo_Retention = \<lparr>rt_Enabled = mc_RetentionEnabled c, rt_Latency = mc_RetentionLatency c,
        rt_Events = mc_RetentionEvents c, rt_Sessions = mc_RetentionSessions c\<rparr>,
      wo_PruneInterval = mc_PruneInterval c, wo_PruneBatch = mc_PruneBatch c, wo_CheckpointInterval = 0\<rparr>"

definition startWriter :: "'r Repository \<Rightarrow> MetricsConfig \<Rightarrow> WriterOptions" where
  "startWriter D c = WriterOptions_withDefaults (rp_Configure D (store_options c))"

definition Store_Open :: "'r Repository \<Rightarrow> (MetricsConfig \<Rightarrow> metrics_error + 'r) \<Rightarrow> MetricsConfig \<Rightarrow> metrics_error + 'r Store" where
  "Store_Open D openRepository c0 =
     (let c = MetricsConfig_withDefaults c0;
          s = \<lparr>st_cfg = c, st_open = False, st_repo = None, st_queue = newRecordQueue (mc_QueueCapacity c),
               st_opts = startWriter D c, st_pending = [], st_pulls = 0, st_lastErr = None, st_done = False,
               st_dropped = 0, st_writeFailures = 0, st_rowsWritten = 0, st_prunedRows = 0, st_lastFlushMs = 0,
               st_lastWarnUnix = 0, st_closed = False, st_writeErr = None, st_warned = []\<rparr>
      in case MetricsConfig_validate c of
           Some e \<Rightarrow> Inl e
         | None \<Rightarrow>
             if \<not> mc_Enabled c then Inr s
             else (case openRepository c of Inl e \<Rightarrow> Inl e | Inr r \<Rightarrow> Inr (s\<lparr>st_open := True, st_repo := Some r\<rparr>)))"


section \<open>Recording\<close>

text \<open>An overflow is warned about at most once a minute.\<close>

definition noteDrop :: "int \<Rightarrow> 'r Store \<Rightarrow> 'r Store" where
  "noteDrop now s =
     (let s1 = s\<lparr>st_dropped := st_dropped s + 1\<rparr>; prev = st_lastWarnUnix s
      in if prev \<noteq> 0 \<and> now - prev < 60 then s1
         else s1\<lparr>st_lastWarnUnix := now, st_warned := st_warned s @ [now]\<rparr>)"

definition Store_enqueue :: "int \<Rightarrow> metric_record \<Rightarrow> 'r Store \<Rightarrow> 'r Store" where
  "Store_enqueue now r s =
     (if \<not> mc_Enabled (st_cfg s) then s
      else if st_closed s then noteDrop now s
      else if \<not> st_open s then s
      else (case queue_push r (st_queue s) of (q, ok) \<Rightarrow>
        let s1 = s\<lparr>st_queue := q\<rparr> in if ok then s1 else noteDrop now s1))"

fun session_record :: "session_row \<Rightarrow> metric_record" where
  "session_record (RecordLatency v) = Rec_latency v"
| "session_record (RecordHealthReport v) = Rec_health v"
| "session_record (RecordTierTransition v) = Rec_tier v"
| "session_record (RecordDeliveryWindow v) = Rec_delivery v"
| "session_record (RecordBookEvent v) = Rec_book v"
| "session_record (RecordProtocolEvent v) = Rec_protocol v"
| "session_record (RecordSessionStart v) = Rec_session \<lparr>sw_Row = v, sw_End = False\<rparr>"
| "session_record (RecordSessionEnd v) = Rec_session \<lparr>sw_Row = v, sw_End = True\<rparr>"
| "session_record (RecordFaultInjection v) = Rec_fault v"

definition Sprint_int :: "int \<Rightarrow> string" where
  "Sprint_int x = (if x < 0 then CHR ''-'' # FormatUint (nat (- x)) else FormatUint (nat x))"

definition candle_close_row :: "gotime \<Rightarrow> Candle \<Rightarrow> CandleCloseRow" where
  "candle_close_row now c =
     (let fmt = (case Lookup (cd_Symbol c) of Inr y \<Rightarrow> FormatPrice y | Inl _ \<Rightarrow> Sprint_int);
          fmtq = (case Lookup (cd_Symbol c) of Inr y \<Rightarrow> FormatQty y | Inl _ \<Rightarrow> Sprint_int)
      in \<lparr>ccr_Symbol = cd_Symbol c, ccr_Interval = cd_Interval c, ccr_StartTime = cd_StartTime c,
          ccr_Open = fmt (cd_Open c), ccr_High = fmt (cd_High c), ccr_Low = fmt (cd_Low c),
          ccr_Close = fmt (cd_Close c), ccr_Volume = fmtq (cd_Volume c), ccr_TradeCount = cd_TradeCount c,
          ccr_ClosedAt = to_utc now, ccr_Epoch = 0\<rparr>)"

fun engine_record_of :: "gotime \<Rightarrow> record_call \<Rightarrow> metric_record" where
  "engine_record_of now (RecordEngineEvent v) = Rec_engine (if IsZero (ee_At v) then v\<lparr>ee_At := to_utc now\<rparr> else v)"
| "engine_record_of now (RecordCandleClose c) = Rec_candle (candle_close_row now c)"

definition Store_QueueDepth :: "'r Store \<Rightarrow> nat" where
  "Store_QueueDepth s = (if st_open s then queue_Depth (st_queue s) else 0)"

record Health =
  hl_Driver :: string
  hl_Status :: string
  hl_QueueDepth :: nat
  hl_Capacity :: int
  hl_DroppedTotal :: int
  hl_WriteFailures :: int
  hl_RowsWritten :: int
  hl_LastFlushMs :: int
  hl_SchemaVersion :: int

definition driverNameOrDisabled :: "string \<Rightarrow> string" where
  "driverNameOrDisabled d = (if TrimSpace d = [] then ''memory'' else d)"

definition Store_Health :: "'r Repository \<Rightarrow> 'r Store \<Rightarrow> Health" where
  "Store_Health D s =
     (let h = \<lparr>hl_Driver = mc_Driver (st_cfg s), hl_Status = ''ok'', hl_QueueDepth = Store_QueueDepth s,
               hl_Capacity = mc_QueueCapacity (st_cfg s), hl_DroppedTotal = st_dropped s,
               hl_WriteFailures = st_writeFailures s, hl_RowsWritten = st_rowsWritten s,
               hl_LastFlushMs = st_lastFlushMs s, hl_SchemaVersion = 0\<rparr>
      in if \<not> mc_Enabled (st_cfg s)
         then h\<lparr>hl_Driver := driverNameOrDisabled (mc_Driver (st_cfg s)), hl_Status := ''disabled'', hl_Capacity := 0\<rparr>
         else h\<lparr>hl_SchemaVersion := (case st_repo s of None \<Rightarrow> 0 | Some r \<Rightarrow> rp_SchemaVersion D r),
                hl_Status := (if st_writeErr s \<noteq> None then ''degraded'' else ''ok'')\<rparr>)"


section \<open>The writer\<close>

abbreviation maxDrainPerBatch :: nat where "maxDrainPerBatch \<equiv> 10000"

definition pull :: "'r Store \<Rightarrow> 'r Store \<times> nat" where
  "pull s =
     (case Drain (int maxDrainPerBatch) (st_queue s) of (q, rs) \<Rightarrow>
        (s\<lparr>st_pulls := st_pulls s + 1, st_queue := q, st_pending := st_pending s @ rs\<rparr>, length rs))"

definition takePending :: "int \<Rightarrow> 'r Store \<Rightarrow> 'r Store \<times> Batch" where
  "takePending n s =
     (if n \<le> 0 \<or> st_pending s = [] then (s, emptyBatch)
      else let m = (if n > int (length (st_pending s)) then length (st_pending s) else nat n)
           in (s\<lparr>st_pending := drop m (st_pending s)\<rparr>, toBatch (take m (st_pending s))))"

definition succeeded :: "Batch \<Rightarrow> 'r Store \<Rightarrow> 'r Store" where
  "succeeded b s = s\<lparr>st_rowsWritten := st_rowsWritten s + int (Batch_Len b), st_writeErr := None\<rparr>"

definition commit_failed :: "metrics_error \<Rightarrow> 'r Store \<Rightarrow> 'r Store" where
  "commit_failed e s = s\<lparr>st_lastErr := Some e, st_writeFailures := st_writeFailures s + 1, st_writeErr := Some e\<rparr>"

definition commit_batch :: "'r Repository \<Rightarrow> Batch \<Rightarrow> 'r Store \<Rightarrow> 'r Store \<times> metrics_error option" where
  "commit_batch D b s =
     (case st_repo s of
        None \<Rightarrow> (s, Some ErrNoRepository)
      | Some r \<Rightarrow>
          (case rp_WriteBatch D b r of
             (r1, None) \<Rightarrow> (succeeded b (s\<lparr>st_repo := Some r1\<rparr>), None)
           | (r1, Some e1) \<Rightarrow>
               (case rp_WriteBatch D b r1 of
                  (r2, None) \<Rightarrow> (succeeded b (s\<lparr>st_repo := Some r2\<rparr>), None)
                | (r2, Some e2) \<Rightarrow>
                    (commit_failed (ErrBatchWrite e1 e2) (s\<lparr>st_repo := Some r2\<rparr>), Some (ErrBatchWrite e1 e2)))))"

lemma commit_batch_keeps [simp]:
  "st_pending (fst (commit_batch D b s)) = st_pending s" "st_queue (fst (commit_batch D b s)) = st_queue s"
  "st_opts (fst (commit_batch D b s)) = st_opts s" "st_dropped (fst (commit_batch D b s)) = st_dropped s"
  "st_closed (fst (commit_batch D b s)) = st_closed s" "st_open (fst (commit_batch D b s)) = st_open s"
  "st_cfg (fst (commit_batch D b s)) = st_cfg s" "st_done (fst (commit_batch D b s)) = st_done s"
  by (simp_all add: commit_batch_def succeeded_def commit_failed_def split: option.split prod.split)

lemma commit_batch_pending: "(s2, e) = commit_batch D b s \<Longrightarrow> st_pending s2 = st_pending s"
  by (metis commit_batch_keeps(1) fst_conv)

lemma takePending_pending: "(s1, b) = takePending n s \<Longrightarrow> st_pending s1 = drop (nat n) (st_pending s)"
  by (auto simp: takePending_def Let_def split: if_splits)

text \<open>
  The inner loop of \<^verbatim>\<open>drain\<close>: full batches. The options went through \<open>WriterOptions_withDefaults\<close>, so
  the batch size is positive.
\<close>

definition latest :: "metrics_error option \<Rightarrow> metrics_error option \<Rightarrow> metrics_error option" where
  "latest failure e = (if e = None then failure else e)"

definition batchSize :: "'r Store \<Rightarrow> nat" where
  "batchSize s = nat (wo_BatchSize (st_opts s))"

function commit_full :: "'r Repository \<Rightarrow> nat \<Rightarrow> metrics_error option \<Rightarrow> 'r Store \<Rightarrow> nat \<times> metrics_error option \<times> 'r Store" where
  "commit_full D written failure s =
     (if 0 < batchSize s \<and> batchSize s \<le> length (st_pending s)
      then let (s1, b) = takePending (wo_BatchSize (st_opts s)) s;
               (s2, e) = commit_batch D b s1
           in commit_full D (written + Batch_Len b) (latest failure e) s2
      else (written, failure, s))"
  by pat_completeness auto
termination
  by (relation "measure (\<lambda>(D, w, f, s). length (st_pending s))") (auto simp: batchSize_def dest!: commit_batch_pending takePending_pending)

declare commit_full.simps [simp del]

text \<open>What happens before a pull: the records that arrive, each with its Unix second, and whether the
  context of the request is found ended after it.\<close>

type_synonym arrival = "(int \<times> metric_record) list \<times> bool"

definition arrive :: "(int \<times> metric_record) list \<Rightarrow> 'r Store \<Rightarrow> 'r Store" where
  "arrive rs s = fold (\<lambda>(now, r). Store_enqueue now r) rs s"


lemma Store_enqueue_keeps [simp]:
  "st_pending (Store_enqueue now r s) = st_pending s" "st_opts (Store_enqueue now r s) = st_opts s"
  "st_repo (Store_enqueue now r s) = st_repo s" "st_closed (Store_enqueue now r s) = st_closed s"
  "st_open (Store_enqueue now r s) = st_open s" "st_cfg (Store_enqueue now r s) = st_cfg s"
  "st_rowsWritten (Store_enqueue now r s) = st_rowsWritten s" "st_writeFailures (Store_enqueue now r s) = st_writeFailures s"
  "st_done (Store_enqueue now r s) = st_done s"
  by (simp_all add: Store_enqueue_def noteDrop_def Let_def split: prod.split)

lemma arrive_Nil [simp]: "arrive [] s = s"
  by (simp add: arrive_def)

lemma arrive_Cons: "arrive ((now, r) # rs) s = arrive rs (Store_enqueue now r s)"
  by (simp add: arrive_def)

lemma arrive_keeps [simp]:
  "st_pending (arrive rs s) = st_pending s" "st_opts (arrive rs s) = st_opts s" "st_repo (arrive rs s) = st_repo s"
  "st_closed (arrive rs s) = st_closed s" "st_open (arrive rs s) = st_open s" "st_cfg (arrive rs s) = st_cfg s"
  "st_rowsWritten (arrive rs s) = st_rowsWritten s" "st_writeFailures (arrive rs s) = st_writeFailures s"
  "st_done (arrive rs s) = st_done s"
  unfolding arrive_def by (induction rs arbitrary: s) (auto split: prod.split)

lemma commit_full_step:
  "0 < batchSize s \<Longrightarrow> batchSize s \<le> length (st_pending s) \<Longrightarrow>
    commit_full D w f s =
      (let b = toBatch (take (batchSize s) (st_pending s));
           r = commit_batch D b (s\<lparr>st_pending := drop (batchSize s) (st_pending s)\<rparr>)
       in commit_full D (w + Batch_Len b) (latest f (snd r)) (fst r))"
  by (subst commit_full.simps) (auto simp: takePending_def batchSize_def Let_def case_prod_beta)

lemma commit_full_stop: "batchSize s = 0 \<or> length (st_pending s) < batchSize s \<Longrightarrow> commit_full D w f s = (w, f, s)"
  by (subst commit_full.simps) auto

lemma commit_full_keeps:
  "st_queue (snd (snd (commit_full D w f s))) = st_queue s \<and> st_opts (snd (snd (commit_full D w f s))) = st_opts s
    \<and> (batchSize s = 0 \<or> length (st_pending (snd (snd (commit_full D w f s)))) < batchSize s)"
proof (induction "length (st_pending s)" arbitrary: w f s rule: less_induct)
  case less
  show ?case
  proof (cases "0 < batchSize s \<and> batchSize s \<le> length (st_pending s)")
    case True
    define u where "u = fst (commit_batch D (toBatch (take (batchSize s) (st_pending s)))
      (s\<lparr>st_pending := drop (batchSize s) (st_pending s)\<rparr>))"
    have u: "st_queue u = st_queue s" "st_opts u = st_opts s" "batchSize u = batchSize s"
      "length (st_pending u) < length (st_pending s)"
      using True by (auto simp: u_def batchSize_def)
    show ?thesis
      using less.hyps [OF u(4)] True u by (simp add: commit_full_step Let_def flip: u_def)
  next
    case False
    then show ?thesis by (auto simp: commit_full_stop not_le)
  qed
qed

lemma pull_count: "rq_count (st_queue (fst (pull s))) + snd (pull s) = rq_count (st_queue s)"
  using Drain_count [of "int maxDrainPerBatch" "st_queue s"] by (simp add: pull_def case_prod_beta)

lemma pull_keeps [simp]:
  "st_opts (fst (pull s)) = st_opts s" "st_repo (fst (pull s)) = st_repo s" "st_closed (fst (pull s)) = st_closed s"
  "st_open (fst (pull s)) = st_open s" "st_cfg (fst (pull s)) = st_cfg s" "st_rowsWritten (fst (pull s)) = st_rowsWritten s"
  "st_writeFailures (fst (pull s)) = st_writeFailures s" "st_dropped (fst (pull s)) = st_dropped s"
  "st_done (fst (pull s)) = st_done s"
  by (simp_all add: pull_def case_prod_beta)

lemma pull_pending: "length (st_pending (fst (pull s))) = length (st_pending s) + snd (pull s)"
  by (simp add: pull_def case_prod_beta)

text \<open>The loop of \<^verbatim>\<open>drain\<close>. A list of arrivals that is used up means that nothing arrives any more.\<close>

fun next_arrival :: "arrival list \<Rightarrow> arrival" where
  "next_arrival [] = ([], False)"
| "next_arrival (a # env) = a"

function drain_rounds :: "'r Repository \<Rightarrow> bool \<Rightarrow> nat \<Rightarrow> metrics_error option \<Rightarrow> arrival list \<Rightarrow> 'r Store
    \<Rightarrow> metrics_error option \<times> arrival list \<times> 'r Store" where
  "drain_rounds D every written failure env s =
     (if written < maxDrainPerBatch
      then let (w1, f1, s1) = commit_full D written failure s
           in if \<not> every then (f1, env, s1)
              else let (rs, ended) = next_arrival env;
                       (s2, pulled) = pull (arrive rs s1)
                   in if pulled = 0 \<and> (batchSize s2 = 0 \<or> length (st_pending s2) < batchSize s2) then (f1, tl env, s2)
                      else drain_rounds D every (if ended then maxDrainPerBatch else w1) f1 (tl env) s2
      else (failure, env, s))"
  by pat_completeness auto
termination
proof (relation "measures [\<lambda>(D, every, w, f, env, s). length env, \<lambda>(D, every, w, f, env, s). rq_count (st_queue s)]", goal_cases)
  case (2 D every w f env s cf w1 fs f1 s1 na rs ended pl s2 pulled)
  have "snd (snd (commit_full D w f s)) = s1" using 2 by (metis snd_conv)
  with commit_full_keeps [of D w f s] have cf: "st_queue s1 = st_queue s" "st_opts s1 = st_opts s"
    "batchSize s = 0 \<or> length (st_pending s1) < batchSize s"
    by simp_all
  show ?case
  proof (cases env)
    case Nil
    then have rs: "rs = []" using 2 by auto
    have p: "rq_count (st_queue s2) + pulled = rq_count (st_queue s)" "length (st_pending s2) = length (st_pending s1) + pulled"
      "st_opts s2 = st_opts s"
      using pull_count [of s1] pull_keeps(1) [of s1] pull_pending [of s1] cf 2 rs by (metis arrive_Nil fst_conv snd_conv)+
    have "pulled \<noteq> 0"
      using 2 p cf by (auto simp: batchSize_def)
    then show ?thesis using Nil p by simp
  qed (use 2 in simp)
qed simp

declare drain_rounds.simps [simp del]

definition commit_rest :: "'r Repository \<Rightarrow> 'r Store \<Rightarrow> 'r Store \<times> metrics_error option" where
  "commit_rest D s = (case takePending (int (length (st_pending s))) s of (s1, b) \<Rightarrow> commit_batch D b s1)"

text \<open>The result is the state, the error, and what has not arrived yet.\<close>

type_synonym 'r drained = "'r Store \<times> metrics_error option \<times> arrival list"

definition drain :: "'r Repository \<Rightarrow> bool \<Rightarrow> arrival list \<Rightarrow> int \<Rightarrow> 'r Store \<Rightarrow> 'r drained" where
  "drain D every env ms s =
     (let (f, env', s1) = drain_rounds D every 0 None env s;
          (s2, e) = (if st_pending s1 = [] then (s1, None) else commit_rest D s1)
      in (s2\<lparr>st_lastFlushMs := ms\<rparr>, latest f e, env'))"

definition Writer_prune :: "'r Repository \<Rightarrow> gotime \<Rightarrow> 'r Store \<Rightarrow> 'r Store" where
  "Writer_prune D now s =
     (case (rp_Prune D, st_repo s) of
        (Some p, Some r) \<Rightarrow>
          (case p now (wo_Retention (st_opts s)) (wo_PruneBatch (st_opts s)) r of (r', n, err) \<Rightarrow>
             let s1 = s\<lparr>st_repo := Some r'\<rparr>
             in if err \<noteq> None \<or> n = 0 then s1 else s1\<lparr>st_prunedRows := st_prunedRows s + n\<rparr>)
      | _ \<Rightarrow> s)"

definition Writer_checkpoint :: "'r Repository \<Rightarrow> 'r Store \<Rightarrow> 'r Store" where
  "Writer_checkpoint D s =
     (case (rp_Checkpoint D, st_repo s) of
        (Some c, Some r) \<Rightarrow> s\<lparr>st_repo := Some (fst (c r))\<rparr>
      | _ \<Rightarrow> s)"

text \<open>
  One round of \<^verbatim>\<open>start\<close> that does not end the loop: it pulls, commits when a batch is full, and otherwise
  takes what its \<^verbatim>\<open>select\<close> finds ready. A flush request goes before the filling of batches.
\<close>

datatype writer_input = FlushRequest | FlushTimer | PruneTick gotime | CheckpointTick

definition writer_round :: "'r Repository \<Rightarrow> writer_input \<Rightarrow> arrival list \<Rightarrow> int \<Rightarrow> 'r Store \<Rightarrow> 'r drained" where
  "writer_round D i env ms s =
     (let s1 = fst (pull s)
      in if i = FlushRequest then drain D True env ms s1
         else if wo_BatchSize (st_opts s1) \<le> int (length (st_pending s1)) then drain D False env ms s1
         else (case i of
                 FlushRequest \<Rightarrow> drain D True env ms s1
               | FlushTimer \<Rightarrow> drain D False env ms s1
               | PruneTick now \<Rightarrow> (Writer_prune D now s1, None, env)
               | CheckpointTick \<Rightarrow> (Writer_checkpoint D s1, None, env)))"

lemma takePending_all: "takePending (int (length (st_pending s))) s = (s\<lparr>st_pending := []\<rparr>, toBatch (st_pending s))"
  by (cases "st_pending s = []") (simp_all add: takePending_def)

lemma commit_batch_after: "(s', e) = commit_batch D b s \<Longrightarrow> s' = fst (commit_batch D b s)"
  by (metis fst_conv)

lemma finish_measure:
  assumes "0 < Batch_Len (toBatch (st_pending (fst (pull s))))"
  shows "rq_count (st_queue (fst (pull s))) < rq_count (st_queue s) + length (st_pending s)"
proof -
  have "st_pending (fst (pull s)) \<noteq> []" using assms by auto
  then have "0 < length (st_pending s) + snd (pull s)" by (metis length_greater_0_conv pull_pending)
  then show ?thesis using pull_count [of s] by linarith
qed

text \<open>\<open>ended\<close> says, after every commit of \<^verbatim>\<open>finish\<close>, whether its three seconds are over.\<close>

function finish :: "'r Repository \<Rightarrow> nat \<Rightarrow> bool list \<Rightarrow> 'r Store \<Rightarrow> 'r Store" where
  "finish D written ended s =
     (if written < maxDrainPerBatch
      then let s1 = fst (pull s)
           in if st_pending s1 = [] \<and> queue_Depth (st_queue s1) = 0 then s1
              else let (s2, b) = takePending (int (length (st_pending s1))) s1
                   in if Batch_Len b = 0 then s2
                      else let (s3, e) = commit_batch D b s2
                           in if e \<noteq> None \<or> (ended \<noteq> [] \<and> hd ended) then s3
                              else finish D (written + Batch_Len b) (tl ended) s3
      else s)"
  by pat_completeness auto
termination
  by (relation "measure (\<lambda>(D, w, ended, s). rq_count (st_queue s) + length (st_pending s))")
    (auto simp: takePending_all finish_measure dest!: commit_batch_after)

declare finish.simps [simp del]

lemma drain_timer:
  "drain D False env ms s =
     (let c = commit_full D 0 None s; s1 = snd (snd c);
          r = (if st_pending s1 = [] then (s1, None) else commit_rest D s1)
      in ((fst r)\<lparr>st_lastFlushMs := ms\<rparr>, latest (fst (snd c)) (snd r), env))"
  by (simp add: drain_def drain_rounds.simps case_prod_beta Let_def)

lemma commit_rest_keeps [simp]:
  "st_pending (fst (commit_rest D s)) = []" "st_queue (fst (commit_rest D s)) = st_queue s"
  by (simp_all add: commit_rest_def takePending_all)

lemma drain_timer_empties:
  "st_pending (fst (drain D False env ms s)) = []" "st_queue (fst (drain D False env ms s)) = st_queue s"
  using commit_full_keeps [of D 0 None s] by (simp_all add: drain_timer Let_def)

text \<open>The end of the loop once its context is cancelled: a full batch is still committed first.\<close>

function stop_writer :: "'r Repository \<Rightarrow> bool list \<Rightarrow> int \<Rightarrow> 'r Store \<Rightarrow> 'r Store" where
  "stop_writer D ended ms s =
     (let s1 = fst (pull s)
      in if 0 < batchSize s1 \<and> wo_BatchSize (st_opts s1) \<le> int (length (st_pending s1))
         then stop_writer D ended ms (fst (drain D False [] ms s1))
         else (finish D 0 ended s1)\<lparr>st_done := True\<rparr>)"
  by pat_completeness auto
termination
proof (relation "measure (\<lambda>(D, ended, ms, s). rq_count (st_queue s) + length (st_pending s))", goal_cases)
  case (2 D ended ms s s1)
  then show ?case
    using pull_count [of s] pull_pending [of s] by (simp add: drain_timer_empties batchSize_def)
qed simp

declare stop_writer.simps [simp del]


section \<open>Flush and close\<close>

text \<open>A caller of \<^verbatim>\<open>flush\<close> may give up before the writer takes its request or before it answers.\<close>

datatype flush_wait = NotTaken | NotAwaited | Awaited

definition writer_flush :: "'r Repository \<Rightarrow> flush_wait \<Rightarrow> arrival list \<Rightarrow> int \<Rightarrow> 'r Store \<Rightarrow> 'r Store \<times> metrics_error option" where
  "writer_flush D w env ms s =
     (if st_done s then (s, None)
      else (case w of
              NotTaken \<Rightarrow> (s, Some ErrFlushContext)
            | NotAwaited \<Rightarrow> (fst (writer_round D FlushRequest env ms s), Some ErrFlushContext)
            | Awaited \<Rightarrow> (case writer_round D FlushRequest env ms s of (t, e, _) \<Rightarrow> (t, e))))"

definition Store_Flush :: "'r Repository \<Rightarrow> flush_wait \<Rightarrow> arrival list \<Rightarrow> int \<Rightarrow> 'r Store \<Rightarrow> 'r Store \<times> metrics_error option" where
  "Store_Flush D w env ms s =
     (if \<not> mc_Enabled (st_cfg s) \<or> \<not> st_open s then (s, None) else writer_flush D w env ms s)"

definition Store_Close :: "'r Repository \<Rightarrow> flush_wait \<Rightarrow> arrival list \<Rightarrow> bool list \<Rightarrow> int \<Rightarrow> 'r Store \<Rightarrow> 'r Store \<times> metrics_error option" where
  "Store_Close D w env ended ms s =
     (if st_closed s then (s, None)
      else let s0 = s\<lparr>st_closed := True\<rparr>;
               (s1, e1) = (if st_open s0 then (case writer_flush D w env ms s0 of (t, e) \<Rightarrow> (stop_writer D ended ms t, e)) else (s0, None));
               (s2, e2) = (case st_repo s1 of
                             None \<Rightarrow> (s1, None)
                           | Some r \<Rightarrow> (case rp_Close D r of (r', e) \<Rightarrow> (s1\<lparr>st_repo := Some r'\<rparr>, map_option ErrRepository e)))
           in (s2, if e1 \<noteq> None then e1 else e2))"

text \<open>A run of the store: calls of producers and rounds of the writer, in any order, until it is closed.\<close>

datatype store_event = Record int metric_record | Round writer_input "arrival list" int

definition store_step :: "'r Repository \<Rightarrow> store_event \<Rightarrow> 'r Store \<Rightarrow> 'r Store" where
  "store_step D ev s =
     (case ev of
        Record now r \<Rightarrow> Store_enqueue now r s
      | Round i env ms \<Rightarrow>
          (case (if st_open s \<and> \<not> st_done s then writer_round D i env ms s else (s, None, env)) of
             (t, _, env') \<Rightarrow> fold (arrive \<circ> fst) env' t))"


end
