(* ===== verification/Metrics_Flow.thy ===== *)
theory Metrics_Flow
  imports Metrics_Store
begin

text \<open>
  What a run of the metrics store satisfies: every record is accounted for at every moment, a flush
  commits what was held when it was called, and however the writer cuts its batches, a repository
  that keeps the rows of one batch after those of another ends as if every record had been written alone.
\<close>

section \<open>The flow of records\<close>

text \<open>
  \<open>flows D rs cs s t\<close>: from \<open>s\<close> to \<open>t\<close> the producers handed over \<open>rs\<close> and the writer committed the
  chunks \<open>cs\<close>, each with its outcome. What was committed, what is pending and what is queued are, in this
  order, what was pending, queued and handed over, less the records counted as dropped.
\<close>

definition write_twice :: "'r Repository \<Rightarrow> metric_record list \<Rightarrow> 'r \<Rightarrow> 'r \<times> bool" where
  "write_twice D c r =
     (case rp_WriteBatch D (toBatch c) r of
        (r1, None) \<Rightarrow> (r1, True)
      | (r1, Some _) \<Rightarrow> (case rp_WriteBatch D (toBatch c) r1 of (r2, e) \<Rightarrow> (r2, e = None)))"

type_synonym chunks = "(metric_record list \<times> bool) list"

fun commits :: "'r Repository \<Rightarrow> chunks \<Rightarrow> 'r \<Rightarrow> 'r \<Rightarrow> bool" where
  "commits D [] r r' = (r' = r)"
| "commits D ((c, ok) # cs) r r' = (snd (write_twice D c r) = ok \<and> commits D cs (fst (write_twice D c r)) r')"

definition held :: "'r Store \<Rightarrow> metric_record list" where
  "held s = st_pending s @ queue_entries (st_queue s)"

definition sent :: "chunks \<Rightarrow> metric_record list" where
  "sent cs = concat (map fst cs)"

definition rows_ok :: "chunks \<Rightarrow> nat" where
  "rows_ok cs = length (sent (filter snd cs))"

definition failures :: "chunks \<Rightarrow> nat" where
  "failures cs = length (filter (\<lambda>c. \<not> snd c) cs)"

definition store_ok :: "'r Store \<Rightarrow> bool" where
  "store_ok s \<longleftrightarrow> mc_Enabled (st_cfg s) \<and> st_open s \<and> st_repo s \<noteq> None \<and> 0 < batchSize s \<and> queue_inv (st_queue s)
     \<and> NoRecord \<notin> set (held s)"

definition moves :: "metric_record list \<Rightarrow> chunks \<Rightarrow> 'r Store \<Rightarrow> 'r Store \<Rightarrow> bool" where
  "moves rs cs s t \<longleftrightarrow>
     subseq (sent cs @ held t) (held s @ rs)
     \<and> int (length (held s @ rs)) = int (length (sent cs @ held t)) + (st_dropped t - st_dropped s)
     \<and> st_rowsWritten t = st_rowsWritten s + int (rows_ok cs)
     \<and> st_writeFailures t = st_writeFailures s + int (failures cs)
     \<and> prefix (st_pending s) (sent cs @ st_pending t)
     \<and> (\<forall>c\<in>set cs. fst c \<noteq> []) \<and> store_ok t \<and> queue_cap (st_queue t) = queue_cap (st_queue s)
     \<and> st_opts t = st_opts s \<and> st_closed t = st_closed s \<and> st_done t = st_done s"

definition flows :: "'r Repository \<Rightarrow> metric_record list \<Rightarrow> chunks \<Rightarrow> 'r Store \<Rightarrow> 'r Store \<Rightarrow> bool" where
  "flows D rs cs s t \<longleftrightarrow> moves rs cs s t \<and> commits D cs (the (st_repo s)) (the (st_repo t))"

lemma commits_append: "commits D (xs @ ys) r r' \<longleftrightarrow> (\<exists>m. commits D xs r m \<and> commits D ys m r')"
  by (induction xs arbitrary: r) auto

lemma chunk_measures [simp]:
  "sent [] = []" "rows_ok [] = 0" "failures [] = 0" "sent (xs @ ys) = sent xs @ sent ys"
  "rows_ok (xs @ ys) = rows_ok xs + rows_ok ys" "failures (xs @ ys) = failures xs + failures ys"
  by (simp_all add: sent_def rows_ok_def failures_def)

lemma moves_refl: "store_ok s \<Longrightarrow> moves [] [] s s"
  by (simp add: moves_def)

lemma moves_trans:
  assumes "moves rs cs s t" "moves rs' cs' t u"
  shows "moves (rs @ rs') (cs @ cs') s u"
proof -
  have "subseq (sent cs @ sent cs' @ held u) (sent cs @ held t @ rs')"
    using assms(2) by (simp add: moves_def subseq_append')
  moreover have "subseq ((sent cs @ held t) @ rs') ((held s @ rs) @ rs')"
    using assms(1) unfolding moves_def subseq_append by blast
  ultimately have "subseq (sent cs @ sent cs' @ held u) (held s @ rs @ rs')"
    by (metis append.assoc subseq_order.order_trans)
  moreover have "prefix (st_pending s) (sent cs @ sent cs' @ st_pending u)"
    using assms by (metis moves_def prefix_order.order_trans same_prefix_prefix)
  ultimately show ?thesis using assms by (auto simp: moves_def)
qed

lemma flows_refl: "store_ok s \<Longrightarrow> flows D [] [] s s"
  by (simp add: flows_def moves_refl)

lemma flows_trans: "flows D rs cs s t \<Longrightarrow> flows D rs' cs' t u \<Longrightarrow> flows D (rs @ rs') (cs @ cs') s u"
  using moves_trans by (auto simp: flows_def commits_append)

lemma enqueue_flows:
  assumes "store_ok s" "r \<noteq> NoRecord"
  shows "flows D [r] [] s (Store_enqueue now r s)"
proof -
  have q: "queue_inv (st_queue s)" "mc_Enabled (st_cfg s)" "st_open s" using assms(1) by (simp_all add: store_ok_def)
  note p = queue_push_ok [OF q(1), of r]
  have len: "length (queue_entries (st_queue s)) \<le> queue_cap (st_queue s)"
    using q(1) by (simp add: queue_inv_def queue_cap_def)
  have sub: "subseq (last_n n xs) xs" for n and xs :: "metric_record list"
    unfolding last_n_def by (rule suffix_imp_subseq [OF suffix_drop])
  have more: "subseq xs (xs @ ys)" for xs ys :: "metric_record list" by (rule prefix_imp_subseq) simp
  show ?thesis
  proof (cases "st_closed s")
    case True
    then show ?thesis
      using assms q
      by (simp add: flows_def moves_def store_ok_def held_def Store_enqueue_def noteDrop_def batchSize_def Let_def subseq_append' more)
  next
    case False
    let ?q = "fst (queue_push r (st_queue s))"
    let ?t = "Store_enqueue now r s"
    have t: "st_queue ?t = ?q" "st_dropped ?t = st_dropped s + (if snd (queue_push r (st_queue s)) then 0 else 1)"
      using False q by (simp_all add: Store_enqueue_def noteDrop_def Let_def case_prod_beta)
    have "set (last_n (queue_cap (st_queue s)) (queue_entries (st_queue s) @ [r])) \<subseteq> set (queue_entries (st_queue s) @ [r])"
      by (rule set_last_n)
    then have "NoRecord \<notin> set (held ?t)" using assms by (auto simp: held_def t p store_ok_def)
    moreover have "subseq (held ?t) (held s @ [r])"
      using sub by (simp add: held_def t p subseq_append')
    moreover have "int (length (held s @ [r])) = int (length (held ?t)) + (st_dropped ?t - st_dropped s)"
      using len p(3,4) by (simp add: held_def t min_def flip: length_queue_entries)
    ultimately show ?thesis
      using assms q p t by (simp add: flows_def moves_def store_ok_def batchSize_def)
  qed
qed

lemma arrive_flows:
  "store_ok s \<Longrightarrow> NoRecord \<notin> snd ` set rs \<Longrightarrow> flows D (map snd rs) [] s (arrive rs s)"
proof (induction rs arbitrary: s)
  case Nil
  then show ?case by (simp add: flows_refl)
next
  case (Cons a rs)
  obtain now r where a: "a = (now, r)" by force
  have e: "flows D [r] [] s (Store_enqueue now r s)" using Cons.prems a by (intro enqueue_flows) auto
  moreover have "store_ok (Store_enqueue now r s)" using e by (simp add: flows_def moves_def)
  ultimately show ?case
    using Cons.IH [of "Store_enqueue now r s"] Cons.prems flows_trans [OF e] by (fastforce simp: a arrive_Cons)
qed

lemma pull_held: "queue_inv (st_queue s) \<Longrightarrow> held (fst (pull s)) = held s \<and> queue_inv (st_queue (fst (pull s)))
    \<and> queue_cap (st_queue (fst (pull s))) = queue_cap (st_queue s)"
  using Drain_ok [of "st_queue s" "int maxDrainPerBatch"]
  by (cases "Drain (int maxDrainPerBatch) (st_queue s)") (simp add: pull_def held_def)

lemma pull_prefix: "prefix (st_pending s) (st_pending (fst (pull s)))"
  by (simp add: pull_def case_prod_beta)

lemma pull_flows: "store_ok s \<Longrightarrow> flows D [] [] s (fst (pull s))"
  using pull_held [of s] by (simp add: pull_prefix flows_def moves_def store_ok_def batchSize_def)

text \<open>One commit of the first \<open>n\<close> pending records.\<close>

lemma commit_flows:
  assumes "store_ok s" "c = take n (st_pending s)" "c \<noteq> []"
  shows "flows D [] [(c, snd (commit_batch D (toBatch c) (s\<lparr>st_pending := drop n (st_pending s)\<rparr>)) = None)]
    s (fst (commit_batch D (toBatch c) (s\<lparr>st_pending := drop n (st_pending s)\<rparr>)))"
proof -
  obtain r where r: "st_repo s = Some r" using assms(1) by (auto simp: store_ok_def)
  let ?s = "s\<lparr>st_pending := drop n (st_pending s)\<rparr>"
  let ?t = "commit_batch D (toBatch c) ?s"
  have h: "c @ held (fst ?t) = held s" by (simp add: held_def assms(2) flip: append.assoc)
  then have "NoRecord \<notin> set c" "NoRecord \<notin> set (held (fst ?t))" using assms(1) unfolding store_ok_def by (metis Un_iff set_append)+
  moreover have "st_repo (fst ?t) = Some (fst (write_twice D c r)) \<and> (snd ?t = None \<longleftrightarrow> snd (write_twice D c r))
    \<and> st_rowsWritten (fst ?t) = st_rowsWritten s + (if snd ?t = None then int (Batch_Len (toBatch c)) else 0)
    \<and> st_writeFailures (fst ?t) = st_writeFailures s + (if snd ?t = None then 0 else 1)"
    by (auto simp: commit_batch_def write_twice_def r succeeded_def commit_failed_def split: prod.splits option.splits)
  ultimately show ?thesis
    using assms h by (simp add: flows_def moves_def store_ok_def batchSize_def Batch_Len_toBatch r sent_def rows_ok_def failures_def)
qed

lemma flows_ok: "flows D rs cs s t \<Longrightarrow> store_ok t"
  by (simp add: flows_def moves_def)

lemma flows_opts: "flows D rs cs s t \<Longrightarrow> batchSize t = batchSize s"
  by (simp add: flows_def moves_def batchSize_def)

lemma commit_full_flows:
  assumes "store_ok s"
  shows "\<exists>cs. flows D [] cs s (snd (snd (commit_full D w f s))) \<and> fst (commit_full D w f s) = w + length (sent cs)
    \<and> ((\<forall>c\<in>set cs. snd c) \<longrightarrow> fst (snd (commit_full D w f s)) = f)"
  using assms
proof (induction "length (st_pending s)" arbitrary: w f s rule: less_induct)
  case less
  show ?case
  proof (cases "batchSize s \<le> length (st_pending s)")
    case True
    have pos: "0 < batchSize s" using less.prems by (simp add: store_ok_def)
    define c where "c = take (batchSize s) (st_pending s)"
    define u where "u = commit_batch D (toBatch c) (s\<lparr>st_pending := drop (batchSize s) (st_pending s)\<rparr>)"
    have "c \<noteq> []" using True pos by (auto simp: c_def)
    from commit_flows [OF less.prems c_def this, of D]
    have one: "flows D [] [(c, snd u = None)] s (fst u)" by (simp add: u_def)
    have "NoRecord \<notin> set c"
      using less.prems by (auto simp: store_ok_def held_def c_def dest: in_set_takeD)
    then have len: "Batch_Len (toBatch c) = length c" by (rule Batch_Len_toBatch)
    have step: "commit_full D w f s = commit_full D (w + length c) (latest f (snd u)) (fst u)"
      using True pos by (simp add: commit_full_step Let_def len flip: c_def u_def)
    have "length (st_pending (fst u)) < length (st_pending s)" using True pos by (simp add: u_def)
    from less.hyps [OF this flows_ok [OF one], of "w + length c" "latest f (snd u)"]
    obtain cs where cs: "flows D [] cs (fst u) (snd (snd (commit_full D w f s)))"
      "fst (commit_full D w f s) = w + length c + length (sent cs)"
      "(\<forall>c\<in>set cs. snd c) \<longrightarrow> fst (snd (commit_full D w f s)) = latest f (snd u)"
      by (auto simp: step)
    show ?thesis
      using flows_trans [OF one cs(1)] cs(2,3)
      by (intro exI [of _ "(c, snd u = None) # cs"]) (auto simp: sent_def latest_def)
  next
    case False
    then show ?thesis using flows_refl [OF less.prems] by (intro exI [of _ "[]"]) (simp add: commit_full_stop)
  qed
qed

definition arrivals :: "arrival list \<Rightarrow> metric_record list" where
  "arrivals env = concat (map (map snd \<circ> fst) env)"

definition proper :: "arrival list \<Rightarrow> bool" where
  "proper env \<longleftrightarrow> NoRecord \<notin> set (arrivals env)"

text \<open>\<open>drains D env f s r\<close>: the result \<open>r\<close> of a drain that started with the error \<open>f\<close>.\<close>

definition drains :: "'r Repository \<Rightarrow> arrival list \<Rightarrow> metrics_error option \<Rightarrow> 'r Store
    \<Rightarrow> metrics_error option \<times> arrival list \<times> 'r Store \<Rightarrow> bool" where
  "drains D env f s r \<longleftrightarrow>
     (\<exists>rs cs. flows D rs cs s (snd (snd r)) \<and> rs @ arrivals (fst (snd r)) = arrivals env
        \<and> ((\<forall>c\<in>set cs. snd c) \<longrightarrow> fst r = f))"

lemma drainsI: "flows D rs cs s t \<Longrightarrow> rs @ arrivals env' = arrivals env \<Longrightarrow> (\<forall>c\<in>set cs. snd c) \<longrightarrow> f' = f
    \<Longrightarrow> drains D env f s (f', env', t)"
  by (auto simp: drains_def)

lemma drains_after:
  assumes "flows D rs cs s t" "rs @ arrivals env' = arrivals env" "(\<forall>c\<in>set cs. snd c) \<longrightarrow> f' = f" "drains D env' f' t r"
  shows "drains D env f s r"
proof -
  obtain rs' cs' where r: "flows D rs' cs' t (snd (snd r))" "rs' @ arrivals (fst (snd r)) = arrivals env'"
    "(\<forall>c\<in>set cs'. snd c) \<longrightarrow> fst r = f'"
    using assms(4) by (auto simp: drains_def)
  then show ?thesis
    unfolding drains_def using flows_trans [OF assms(1) r(1)] assms(2,3)
    by (intro exI [of _ "rs @ rs'"] exI [of _ "cs @ cs'"]) auto
qed

lemma proper_left: "rs @ arrivals env' = arrivals env \<Longrightarrow> proper env \<Longrightarrow> proper env'"
  unfolding proper_def by (metis Un_iff set_append)

lemma drain_rounds_flows:
  "store_ok s \<Longrightarrow> proper env \<Longrightarrow> drains D env f s (drain_rounds D every w f env s)"
proof (induction D every w f env s rule: drain_rounds.induct)
  case (1 D every w f env s)
  define c where "c = commit_full D w f s"
  define s1 where "s1 = snd (snd c)"
  define rs where "rs = fst (next_arrival env)"
  define p where "p = pull (arrive rs s1)"
  define stop where "stop \<longleftrightarrow> snd p = 0 \<and> (batchSize (fst p) = 0 \<or> length (st_pending (fst p)) < batchSize (fst p))"
  obtain cs where cs: "flows D [] cs s s1" "(\<forall>c\<in>set cs. snd c) \<longrightarrow> fst (snd c) = f"
    using commit_full_flows [OF "1.prems"(1), of D w f] by (auto simp: c_def s1_def)
  have rs: "NoRecord \<notin> snd ` set rs" "map snd rs @ arrivals (tl env) = arrivals env"
    using "1.prems"(2) by (cases env; auto simp: rs_def proper_def arrivals_def)+
  note a = arrive_flows [OF flows_ok [OF cs(1)] rs(1)]
  have two: "flows D (map snd rs) cs s (fst p)"
    using flows_trans [OF flows_trans [OF cs(1) a] pull_flows [OF flows_ok [OF a]]] by (simp add: p_def)
  have unf: "drain_rounds D every w f env s =
    (if w < maxDrainPerBatch then if \<not> every then (fst (snd c), env, s1)
       else if stop then (fst (snd c), tl env, fst p)
       else drain_rounds D every (if snd (next_arrival env) then maxDrainPerBatch else fst c) (fst (snd c)) (tl env) (fst p)
     else (f, env, s))"
    by (subst drain_rounds.simps) (simp add: case_prod_beta Let_def stop_def flip: c_def s1_def rs_def p_def)
  consider "\<not> w < maxDrainPerBatch" | "w < maxDrainPerBatch" "\<not> every" | "w < maxDrainPerBatch" "every" stop
    | "w < maxDrainPerBatch" "every" "\<not> stop"
    by blast
  then show ?case
  proof cases
    case 1
    then show ?thesis using drainsI [OF flows_refl [OF \<open>store_ok s\<close>], of env env] unf by simp
  next
    case 2
    then show ?thesis using drainsI [OF cs(1) _ cs(2), of env env] unf by simp
  next
    case 3
    then show ?thesis using drainsI [OF two rs(2) cs(2)] unf by simp
  next
    case 4
    have "drains D (tl env) (fst (snd c)) (fst p)
        (drain_rounds D every (if snd (next_arrival env) then maxDrainPerBatch else fst c) (fst (snd c)) (tl env) (fst p))"
      using 4 flows_ok [OF two] proper_left [OF rs(2) "1.prems"(2)]
      by (intro "1.IH" [OF 4(1) refl _ _ _ refl _ refl]) (auto simp: prod_eq_iff stop_def c_def s1_def rs_def p_def)
    from drains_after [OF two rs(2) cs(2) this] show ?thesis using 4 unf by simp
  qed
qed

lemma commit_rest_flows:
  assumes "store_ok s" "st_pending s \<noteq> []"
  shows "flows D [] [(st_pending s, snd (commit_rest D s) = None)] s (fst (commit_rest D s))"
  using commit_flows [OF assms(1), of "st_pending s" "length (st_pending s)" D] assms(2)
  by (simp add: commit_rest_def takePending_all)

lemma flows_lastFlush: "flows D rs cs s t \<Longrightarrow> flows D rs cs s (t\<lparr>st_lastFlushMs := ms\<rparr>)"
  by (auto simp: flows_def moves_def store_ok_def held_def batchSize_def)

lemma drain_flows:
  assumes "store_ok s" "proper env" "drain D every env ms s = (t, e, env')"
  shows "drains D env None s (e, env', t)"
proof -
  define d where "d = drain_rounds D every 0 None env s"
  obtain rs cs where f: "flows D rs cs s (snd (snd d))" "rs @ arrivals (fst (snd d)) = arrivals env"
    "(\<forall>c\<in>set cs. snd c) \<longrightarrow> fst d = None"
    using drain_rounds_flows [OF assms(1,2), of D None every 0] by (auto simp: d_def drains_def)
  define r where "r = commit_rest D (snd (snd d))"
  have unf: "drain D every env ms s = (let r = (if st_pending (snd (snd d)) = [] then (snd (snd d), None) else r)
      in ((fst r)\<lparr>st_lastFlushMs := ms\<rparr>, latest (fst d) (snd r), fst (snd d)))"
    by (simp add: drain_def case_prod_beta Let_def r_def flip: d_def)
  show ?thesis
  proof (cases "st_pending (snd (snd d)) = []")
    case True
    then show ?thesis
      using assms(3) drainsI [OF flows_lastFlush [OF f(1)] f(2,3)] by (auto simp: unf latest_def)
  next
    case False
    have "flows D rs (cs @ [(st_pending (snd (snd d)), snd r = None)]) s ((fst r)\<lparr>st_lastFlushMs := ms\<rparr>)"
      using flows_lastFlush [OF flows_trans [OF f(1) commit_rest_flows [OF flows_ok [OF f(1)] False]]] by (simp add: r_def)
    from drainsI [OF this f(2), of "latest (fst d) (snd r)" None]
    show ?thesis using assms(3) f(3) False by (auto simp: unf latest_def Let_def)
  qed
qed

lemma drain_empties: "st_pending (fst (drain D every env ms s)) = []"
  by (simp add: drain_def case_prod_beta Let_def)

text \<open>Housekeeping changes the repository, not the flow of records.\<close>

definition same_flow :: "'r Store \<Rightarrow> 'r Store \<Rightarrow> bool" where
  "same_flow s t \<longleftrightarrow> t = s\<lparr>st_repo := st_repo t, st_prunedRows := st_prunedRows t\<rparr> \<and> (st_repo t = None \<longleftrightarrow> st_repo s = None)"

lemma housekeeping_same_flow: "same_flow s (Writer_prune D now s)" "same_flow s (Writer_checkpoint D s)"
  by (simp_all add: same_flow_def Writer_prune_def Writer_checkpoint_def Let_def split: option.split prod.split)

lemma drain_finish_unfold:
  "finish D w ended s =
     (if w < maxDrainPerBatch
      then let s1 = fst (pull s)
           in if st_pending s1 = [] \<and> queue_Depth (st_queue s1) = 0 then s1
              else if Batch_Len (toBatch (st_pending s1)) = 0 then s1\<lparr>st_pending := []\<rparr>
              else let r = commit_rest D s1
                   in if snd r \<noteq> None \<or> (ended \<noteq> [] \<and> hd ended) then fst r
                      else finish D (w + Batch_Len (toBatch (st_pending s1))) (tl ended) (fst r)
      else s)"
  by (subst finish.simps) (simp add: takePending_all commit_rest_def case_prod_beta Let_def)

lemma finish_flows: "store_ok s \<Longrightarrow> \<exists>cs. flows D [] cs s (finish D w ended s)"
proof (induction "rq_count (st_queue s) + length (st_pending s)" arbitrary: w ended s rule: less_induct)
  case less
  define s1 where "s1 = fst (pull s)"
  have p: "flows D [] [] s s1" unfolding s1_def by (rule pull_flows [OF less.prems])
  show ?case
  proof (cases "w < maxDrainPerBatch \<and> st_pending s1 \<noteq> []")
    case True
    define r where "r = commit_rest D s1"
    have "NoRecord \<notin> set (st_pending s1)" using flows_ok [OF p] by (simp add: store_ok_def held_def)
    then have len: "Batch_Len (toBatch (st_pending s1)) \<noteq> 0" using True by (simp add: Batch_Len_toBatch)
    have c: "flows D [] [(st_pending s1, snd r = None)] s (fst r)"
      using flows_trans [OF p commit_rest_flows [OF flows_ok [OF p]]] True by (simp add: r_def)
    have "rq_count (st_queue (fst r)) + length (st_pending (fst r)) < rq_count (st_queue s) + length (st_pending s)"
      using finish_measure [of s] len by (simp add: r_def s1_def)
    from less.hyps [OF this flows_ok [OF c]] flows_trans [OF c]
    have "\<exists>cs. flows D [] cs s (finish D w' e' (fst r))" for w' e' by fastforce
    then show ?thesis
      using True len c by (subst drain_finish_unfold) (auto simp: Let_def simp flip: s1_def r_def)
  next
    case False
    have none: "s1\<lparr>st_pending := []\<rparr> = s1" if "st_pending s1 = []" using that by (cases s1) simp
    show ?thesis
      using False p flows_refl [OF less.prems] flows_ok [OF p]
      by (subst drain_finish_unfold) (auto simp: Let_def none simp flip: s1_def)
  qed
qed

lemma stop_writer_flows:
  "store_ok s \<Longrightarrow> \<exists>cs t. flows D [] cs s t \<and> stop_writer D ended ms s = t\<lparr>st_done := True\<rparr>"
proof (induction "rq_count (st_queue s) + length (st_pending s)" arbitrary: s rule: less_induct)
  case less
  define s1 where "s1 = fst (pull s)"
  have p: "flows D [] [] s s1" unfolding s1_def by (rule pull_flows [OF less.prems])
  show ?case
  proof (cases "0 < batchSize s1 \<and> wo_BatchSize (st_opts s1) \<le> int (length (st_pending s1))")
    case True
    define t where "t = fst (drain D False [] ms s1)"
    obtain cs where c: "flows D [] cs s1 t"
      using drain_flows [OF flows_ok [OF p], of "[]" D False ms]
      by (cases "drain D False [] ms s1") (auto simp: t_def proper_def arrivals_def drains_def)
    have "rq_count (st_queue t) + length (st_pending t) < rq_count (st_queue s) + length (st_pending s)"
      using True pull_count [of s] pull_pending [of s] by (simp add: t_def drain_timer_empties batchSize_def s1_def)
    from less.hyps [OF this flows_ok [OF c]]
    obtain cs' u where "flows D [] cs' t u" "stop_writer D ended ms t = u\<lparr>st_done := True\<rparr>" by blast
    then show ?thesis
      using flows_trans [OF flows_trans [OF p c]] True
      by (subst stop_writer.simps) (force simp: Let_def simp flip: s1_def t_def)
  next
    case False
    obtain cs where "flows D [] cs s1 (finish D 0 ended s1)" using finish_flows [OF flows_ok [OF p]] by blast
    then show ?thesis
      using flows_trans [OF p] False by (subst stop_writer.simps) (force simp: Let_def simp flip: s1_def)
  qed
qed

lemma same_flow_moves: "same_flow s t \<Longrightarrow> store_ok s \<Longrightarrow> moves [] [] s t"
  unfolding same_flow_def by (cases t) (auto simp: moves_def store_ok_def held_def batchSize_def)

text \<open>A round that commits and a round of housekeeping.\<close>

lemma writer_round_flows:
  assumes "store_ok s" "proper env" "writer_round D i env ms s = (t, e, env')"
  shows "(\<exists>rs cs. moves rs cs s t \<and> rs @ arrivals env' = arrivals env)
    \<and> (i \<in> {FlushRequest, FlushTimer} \<or> rp_Prune D = None \<and> rp_Checkpoint D = None \<longrightarrow> drains D env None s (e, env', t))"
proof -
  have p: "flows D [] [] s (fst (pull s))" by (rule pull_flows [OF assms(1)])
  have d: "drains D env None s (e, env', t) \<and> (\<exists>rs cs. moves rs cs s t \<and> rs @ arrivals env' = arrivals env)"
    if "drain D every env ms (fst (pull s)) = (t, e, env')" for every
    using drains_after [OF p _ _ drain_flows [OF flows_ok [OF p] assms(2) that], of env None] by (auto simp: drains_def flows_def)
  have h: "moves [] [] s (Writer_prune D now (fst (pull s)))" "moves [] [] s (Writer_checkpoint D (fst (pull s)))" for now
    using moves_trans [OF _ same_flow_moves [OF housekeeping_same_flow(1) flows_ok [OF p]], of "[]" "[]" s D now]
      moves_trans [OF _ same_flow_moves [OF housekeeping_same_flow(2) flows_ok [OF p]], of "[]" "[]" s D] p
    by (simp_all add: flows_def)
  have k: "drains D env None s (None, env, fst (pull s))" by (rule drainsI [OF p]) simp_all
  show ?thesis
    using assms(3) d h k
    by (auto simp: writer_round_def Let_def Writer_prune_def Writer_checkpoint_def split: if_splits writer_input.splits)
qed


section \<open>Runs\<close>

fun event_records :: "store_event \<Rightarrow> metric_record list" where
  "event_records (Record now r) = [r]"
| "event_records (Round i env ms) = arrivals env"

definition recorded :: "store_event list \<Rightarrow> metric_record list" where
  "recorded evs = concat (map event_records evs)"

lemma recorded_simps [simp]: "recorded [] = []" "recorded (ev # evs) = event_records ev @ recorded evs"
  by (simp_all add: recorded_def)

lemma late_arrivals_flow: "store_ok s \<Longrightarrow> proper env \<Longrightarrow> flows D (arrivals env) [] s (fold (arrive \<circ> fst) env s)"
proof (induction env arbitrary: s)
  case Nil
  then show ?case by (simp add: flows_refl arrivals_def)
next
  case (Cons a env)
  have "NoRecord \<notin> snd ` set (fst a)" "proper env" using Cons.prems(2) by (auto simp: proper_def arrivals_def)
  note a = arrive_flows [OF Cons.prems(1) this(1), of D]
  show ?case
    using flows_trans [OF a Cons.IH [OF flows_ok [OF a] \<open>proper env\<close>]] by (simp add: arrivals_def)
qed

lemma store_step_flows:
  assumes "store_ok s" "NoRecord \<notin> set (event_records ev)"
  shows "\<exists>cs. moves (event_records ev) cs s (store_step D ev s)
    \<and> (rp_Prune D = None \<and> rp_Checkpoint D = None \<longrightarrow> flows D (event_records ev) cs s (store_step D ev s))"
proof (cases ev)
  case (Record now r)
  then show ?thesis
    using enqueue_flows [OF assms(1), of r D now] assms(2) by (auto simp: store_step_def flows_def)
next
  case (Round i env ms)
  have pr: "proper env" using assms(2) Round by (simp add: proper_def)
  obtain t e env' where t: "(if st_open s \<and> \<not> st_done s then writer_round D i env ms s else (s, None, env)) = (t, e, env')"
    by (metis prod_cases3)
  have step: "store_step D ev s = fold (arrive \<circ> fst) env' t" by (simp add: store_step_def Round t)
  have "\<exists>rs cs. moves rs cs s t \<and> rs @ arrivals env' = arrivals env
    \<and> (rp_Prune D = None \<and> rp_Checkpoint D = None \<longrightarrow> flows D rs cs s t)"
  proof (cases "st_open s \<and> \<not> st_done s")
    case True
    then have "writer_round D i env ms s = (t, e, env')" using t by simp
    from writer_round_flows [OF assms(1) pr this] show ?thesis by (auto simp: drains_def flows_def)
  next
    case False
    then show ?thesis using t flows_refl [OF assms(1), of D] by (intro exI [of _ "[]"]) (auto simp: flows_def)
  qed
  then obtain rs cs where f: "moves rs cs s t" "rs @ arrivals env' = arrivals env"
    "rp_Prune D = None \<and> rp_Checkpoint D = None \<longrightarrow> flows D rs cs s t"
    by blast
  have "store_ok t" using f(1) by (simp add: moves_def)
  note l = late_arrivals_flow [OF this proper_left [OF f(2) pr], of D]
  show ?thesis
    using moves_trans [OF f(1), of "arrivals env'" "[]"] l f(2,3) flows_trans [OF _ l, of rs cs s]
    unfolding step by (intro exI [of _ cs]) (auto simp: Round flows_def)
qed

lemma store_run_flows:
  "store_ok s \<Longrightarrow> NoRecord \<notin> set (recorded evs) \<Longrightarrow> \<exists>cs. moves (recorded evs) cs s (fold (store_step D) evs s)
    \<and> (rp_Prune D = None \<and> rp_Checkpoint D = None \<longrightarrow> flows D (recorded evs) cs s (fold (store_step D) evs s))"
proof (induction evs arbitrary: s)
  case Nil
  then show ?case using flows_refl [of s D] by (auto simp: flows_def)
next
  case (Cons ev evs)
  obtain cs where c: "moves (event_records ev) cs s (store_step D ev s)"
    "rp_Prune D = None \<and> rp_Checkpoint D = None \<longrightarrow> flows D (event_records ev) cs s (store_step D ev s)"
    using store_step_flows [OF Cons.prems(1)] Cons.prems(2) by auto
  moreover have "store_ok (store_step D ev s)" using c(1) by (simp add: moves_def)
  ultimately obtain cs' where "moves (recorded evs) cs' (store_step D ev s) (fold (store_step D) (ev # evs) s)"
    "rp_Prune D = None \<and> rp_Checkpoint D = None \<longrightarrow> flows D (recorded evs) cs' (store_step D ev s) (fold (store_step D) (ev # evs) s)"
    using Cons.IH Cons.prems(2) by fastforce
  with c show ?case
    using moves_trans [OF c(1)] flows_trans by (intro exI [of _ "cs @ cs'"]) auto
qed

lemma or_default_pos: "0 < d \<Longrightarrow> 0 < or_default x d"
  by (simp add: or_default_def)

lemma Store_Open_ok:
  assumes "Store_Open D opn c = Inr s" "mc_Enabled c"
  shows "store_ok s" "held s = []" "st_dropped s = 0" "st_rowsWritten s = 0" "st_writeFailures s = 0" "\<not> st_closed s" "\<not> st_done s"
    "opn (MetricsConfig_withDefaults c) = Inr (the (st_repo s))"
  using assms newRecordQueue_ok or_default_pos [of 128]
  by (auto simp: Store_Open_def Let_def store_ok_def held_def batchSize_def startWriter_def WriterOptions_withDefaults_def
      MetricsConfig_withDefaults_def split: option.splits sum.splits if_splits)

lemma sent_split: "length (sent cs) = rows_ok cs + length (sent (filter (\<lambda>c. \<not> snd c) cs))"
  by (induction cs) (auto simp: sent_def rows_ok_def)

lemma length_concat_nonempty: "\<forall>x\<in>set xs. x \<noteq> [] \<Longrightarrow> length xs \<le> length (concat xs)"
proof (induction xs)
  case (Cons x xs)
  then have "0 < length x" "length xs \<le> length (concat xs)" by auto
  then show ?case by (simp del: length_greater_0_conv)
qed simp

lemma failed_rows:
  assumes "\<forall>c\<in>set cs. fst c \<noteq> []"
  shows "failures cs \<le> length (sent (filter (\<lambda>c. \<not> snd c) cs))"
    "length (sent (filter (\<lambda>c. \<not> snd c) cs)) = 0 \<longleftrightarrow> failures cs = 0"
proof -
  show *: "failures cs \<le> length (sent (filter (\<lambda>c. \<not> snd c) cs))"
    using length_concat_nonempty [of "map fst (filter (\<lambda>c. \<not> snd c) cs)"] assms by (simp add: failures_def sent_def)
  show "length (sent (filter (\<lambda>c. \<not> snd c) cs)) = 0 \<longleftrightarrow> failures cs = 0"
  proof
    assume "failures cs = 0"
    then have "filter (\<lambda>c. \<not> snd c) cs = []" by (simp add: failures_def)
    then show "length (sent (filter (\<lambda>c. \<not> snd c) cs)) = 0" by (simp add: sent_def)
  qed (use * in simp)
qed

text \<open>
  C15. No record is lost silently. In every run of an enabled store, with records arriving at any moment and
  batches failing at will, the records handed over are those written, those counted as dropped, those
  queued or waiting for a batch, and those of batches that failed twice; the last exist exactly when
  write failures were counted, one for every failed batch; and what is queued or waiting is in the
  order it was handed over, within the queue's capacity.
\<close>

theorem Store_accounts:
  assumes "Store_Open D opn c = Inr s0" "mc_Enabled c" "NoRecord \<notin> set (recorded evs)"
  shows "let s = fold (store_step D) evs s0
         in (\<exists>lost. int (length (recorded evs)) = st_rowsWritten s + st_dropped s + int (length (held s)) + lost
               \<and> st_writeFailures s \<le> lost \<and> (lost = 0 \<longleftrightarrow> st_writeFailures s = 0))
            \<and> 0 \<le> st_dropped s \<and> 0 \<le> st_writeFailures s
            \<and> subseq (held s) (recorded evs) \<and> rq_count (st_queue s) \<le> queue_cap (st_queue s0)"
proof -
  note o = Store_Open_ok [OF assms(1,2)]
  obtain cs where m: "moves (recorded evs) cs s0 (fold (store_step D) evs s0)"
    using store_run_flows [OF o(1) assms(3), of D] by blast
  have f: "length (sent cs) = rows_ok cs + length (sent (filter (\<lambda>c. \<not> snd c) cs))"
    "failures cs \<le> length (sent (filter (\<lambda>c. \<not> snd c) cs))"
    "length (sent (filter (\<lambda>c. \<not> snd c) cs)) = 0 \<longleftrightarrow> failures cs = 0"
    using sent_split [of cs] failed_rows [of cs] m by (simp_all add: moves_def)
  have "subseq (held (fold (store_step D) evs s0)) (sent cs @ held (fold (store_step D) evs s0))" by (rule suffix_imp_subseq) (simp add: suffix_def)
  also have "subseq \<dots> (recorded evs)" using m o(2) by (simp add: moves_def)
  finally have sub: "subseq (held (fold (store_step D) evs s0)) (recorded evs)" .
  have "length (sent cs @ held (fold (store_step D) evs s0)) \<le> length (recorded evs)"
    using m o(2) by (intro list_emb_length) (auto simp: moves_def)
  then show ?thesis
    using m o f sub
    by (auto simp: Let_def moves_def store_ok_def queue_inv_def simp flip: queue_cap_def
        intro!: exI [of _ "int (length (sent (filter (\<lambda>c. \<not> snd c) cs)))"])
qed


section \<open>Flush and close\<close>

lemma pull_takes_all:
  assumes "queue_inv (st_queue s)" "rq_count (st_queue s) \<le> maxDrainPerBatch"
  shows "st_pending (fst (pull s)) = held s"
  using Drain_ok [OF assms(1), of "int maxDrainPerBatch"] assms(2)
  by (cases "Drain (int maxDrainPerBatch) (st_queue s)") (simp add: pull_def held_def)

lemma flush_round_commits:
  assumes "store_ok s" "proper env" "rq_count (st_queue s) \<le> maxDrainPerBatch"
    "writer_round D FlushRequest env ms s = (t, e, env')"
  shows "st_pending t = [] \<and> (\<exists>rs cs. flows D rs cs s t \<and> rs @ arrivals env' = arrivals env \<and> prefix (held s) (sent cs)
    \<and> ((\<forall>c\<in>set cs. snd c) \<longrightarrow> e = None))"
proof -
  have p: "flows D [] [] s (fst (pull s))" by (rule pull_flows [OF assms(1)])
  have d: "drain D True env ms (fst (pull s)) = (t, e, env')" using assms(4) by (simp add: writer_round_def Let_def)
  obtain rs cs where f: "flows D rs cs (fst (pull s)) t" "rs @ arrivals env' = arrivals env" "(\<forall>c\<in>set cs. snd c) \<longrightarrow> e = None"
    using drain_flows [OF flows_ok [OF p] assms(2) d] by (auto simp: drains_def)
  have t: "st_pending t = []" using drain_empties [of D True env ms "fst (pull s)"] d by simp
  have "prefix (held s) (sent cs)"
    using f(1) t pull_takes_all [OF _ assms(3)] assms(1) by (simp add: flows_def moves_def store_ok_def)
  then show ?thesis using t f flows_trans [OF p f(1)] by auto
qed


text \<open>A repository that accepts every batch.\<close>

definition never_fails :: "'r Repository \<Rightarrow> bool" where
  "never_fails D \<longleftrightarrow> (\<forall>b r. snd (rp_WriteBatch D b r) = None)"

lemma commits_never_fails: "never_fails D \<Longrightarrow> commits D cs r r' \<Longrightarrow> \<forall>c\<in>set cs. snd c"
proof (induction cs arbitrary: r)
  case (Cons c cs)
  then show ?case
    by (cases c) (auto simp: never_fails_def write_twice_def split: prod.splits option.splits; metis snd_conv option.distinct(1))
qed simp

lemma all_ok: "\<forall>c\<in>set cs. snd c \<Longrightarrow> rows_ok cs = length (sent cs) \<and> failures cs = 0"
  by (simp add: rows_ok_def failures_def)

lemma flows_nothing:
  assumes "flows D [] cs s t" "held s = []"
  shows "cs = []" "held t = []" "st_dropped t = st_dropped s"
proof -
  have "subseq (sent cs @ held t) []" using assms by (simp add: flows_def moves_def)
  then have "sent cs @ held t = []" by (metis list_emb_Nil2)
  moreover have "\<forall>c\<in>set cs. fst c \<noteq> []" using assms(1) by (simp add: flows_def moves_def)
  ultimately show "cs = []" "held t = []" by (cases cs; auto simp: sent_def)+
  then show "st_dropped t = st_dropped s" using assms by (simp add: flows_def moves_def)
qed



section \<open>Batching does not show\<close>

text \<open>
  The contract of a repository that accepts every batch and keeps the rows of one batch after those of
  the batch before it. What it holds after a run of the store does not depend on how the writer cut
  its batches.
\<close>

locale row_store =
  fixes D :: "'r Repository" and put :: "Batch \<Rightarrow> 'r \<Rightarrow> 'r"
  assumes writes: "rp_WriteBatch D b r = (put b r, None)"
    and put_append: "put (batch_append a b) r = put b (put a r)"
    and put_empty: "put emptyBatch r = r"
    and no_housekeeping: "rp_Prune D = None" "rp_Checkpoint D = None"
begin

lemma never_fails: "never_fails D"
  by (simp add: never_fails_def writes)

lemma write_once: "write_twice D c r = (put (toBatch c) r, True)"
  by (simp add: write_twice_def writes)

lemma commits_put: "commits D cs r r' \<Longrightarrow> r' = put (toBatch (sent cs)) r"
proof (induction cs arbitrary: r)
  case (Cons c cs)
  obtain x ok where c: "c = (x, ok)" by force
  have "commits D cs (put (toBatch x) r) r'" using Cons.prems by (simp add: c write_once)
  from Cons.IH [OF this] show ?case by (simp add: c sent_def toBatch_append put_append)
qed (simp add: put_empty)

lemma put_one_by_one: "put (toBatch rs) r = fold (\<lambda>x. put (toBatch [x])) rs r"
proof (induction rs arbitrary: r)
  case (Cons x rs)
  then show ?case using toBatch_append [of "[x]" rs] by (simp add: put_append)
qed (simp add: put_empty)

lemma run_then_flush:
  assumes "store_ok s0" "held s0 = []" "\<not> st_done s0" "NoRecord \<notin> set (recorded evs)" "queue_cap (st_queue s0) \<le> maxDrainPerBatch"
  shows "\<exists>kept. let t = fst (Store_Flush D Awaited [] ms (fold (store_step D) evs s0))
    in held t = [] \<and> subseq kept (recorded evs) \<and> int (length (recorded evs)) = int (length kept) + (st_dropped t - st_dropped s0)
      \<and> st_repo t = Some (fold (\<lambda>x. put (toBatch [x])) kept (the (st_repo s0)))
      \<and> st_rowsWritten t = st_rowsWritten s0 + int (length kept)"
proof -
  define s where "s = fold (store_step D) evs s0"
  obtain cs where c: "flows D (recorded evs) cs s0 s"
    using store_run_flows [OF assms(1,4), of D] no_housekeeping by (auto simp: s_def)
  have s: "store_ok s" "\<not> st_done s" "rq_count (st_queue s) \<le> maxDrainPerBatch"
    using c assms(3,5) by (auto simp: flows_def moves_def store_ok_def queue_inv_def queue_cap_def)
  have pr: "proper []" by (simp add: proper_def arrivals_def)
  obtain t e env' where r: "writer_round D FlushRequest [] ms s = (t, e, env')" by (metis prod_cases3)
  from flush_round_commits [OF s(1) pr s(3) r] obtain cs' where
    f: "flows D [] cs' s t" "prefix (held s) (sent cs')"
    by (auto simp: arrivals_def)
  have "length (sent cs' @ held t) \<le> length (held s)"
    using f(1) by (intro list_emb_length) (auto simp: flows_def moves_def)
  with prefix_length_le [OF f(2)] have t: "held t = []" by (simp flip: length_0_conv)
  have fl: "fst (Store_Flush D Awaited [] ms s) = t"
    using s(1,2) r by (simp add: Store_Flush_def writer_flush_def store_ok_def)
  note all = flows_trans [OF c f(1)]
  have "the (st_repo t) = put (toBatch (sent (cs @ cs'))) (the (st_repo s0))" "st_repo t \<noteq> None"
    using all commits_put by (auto simp: flows_def moves_def store_ok_def simp del: chunk_measures)
  moreover have "rows_ok (cs @ cs') = length (sent (cs @ cs'))"
    using all_ok [OF commits_never_fails [OF never_fails]] all by (auto simp: flows_def simp del: chunk_measures)
  ultimately show ?thesis
    using all t fl assms(2)
    by (intro exI [of _ "sent (cs @ cs')"]) (auto simp: Let_def flows_def moves_def put_one_by_one simp flip: s_def)
qed

end

section \<open>A sample run\<close>

text \<open>A store with a queue of three records and batches of two, and a driver that counts rows.\<close>

definition sampleMetrics :: MetricsConfig where
  "sampleMetrics =
     \<lparr>mc_Enabled = True, mc_Driver = ''memory'', mc_DSN = [], mc_QueueCapacity = 3, mc_BatchSize = 2, mc_FlushInterval = 0,
      mc_RetentionEnabled = False, mc_RetentionLatency = 0, mc_RetentionEvents = 0, mc_RetentionSessions = 0,
      mc_PruneInterval = 0, mc_PruneBatch = 0\<rparr>"

definition sampleRow :: "string \<Rightarrow> SessionRow" where
  "sampleRow i =
     \<lparr>srw_SessionID = i, srw_Symbol = ''BTCUSDT'', srw_Interval = ''1m'', srw_ConnectedAt = zeroTime, srw_DisconnectedAt = None,
      srw_DisconnectReason = [], srw_InitialTier = ''FULL'', srw_FinalTier = [], srw_OverrideTier = [], srw_UptimeMs = 0,
      srw_MessagesSent = 0, srw_MessagesReceived = 0, srw_BytesSent = 0, srw_ProtocolErrors = 0\<rparr>"

definition sampleStart :: "string \<Rightarrow> metric_record" where
  "sampleStart i = Rec_session \<lparr>sw_Row = sampleRow i, sw_End = False\<rparr>"

definition sampleStore :: "'r Repository \<Rightarrow> 'r \<Rightarrow> 'r Store" where
  "sampleStore D r = projr (Store_Open D (\<lambda>_. Inr r) sampleMetrics)"

lemma sampleStore_opens: "Store_Open D (\<lambda>_. Inr r) sampleMetrics = Inr (sampleStore D r)"
proof -
  have "TrimSpace ''memory'' = ''memory''" by code_simp
  then have "MetricsConfig_validate (MetricsConfig_withDefaults sampleMetrics) = None" "mc_Enabled (MetricsConfig_withDefaults sampleMetrics)"
    by (simp_all add: MetricsConfig_validate_def MetricsConfig_withDefaults_def sampleMetrics_def)
  then show ?thesis by (simp add: sampleStore_def Store_Open_def Let_def)
qed

lemma sampleMetrics_data: "mc_Enabled sampleMetrics" "mc_QueueCapacity sampleMetrics \<le> 10000"
  by (simp_all add: sampleMetrics_def)

definition sampleEvents :: "store_event list" where
  "sampleEvents = [Record 1 (sampleStart ''a''), Round FlushTimer [([(2, sampleStart ''b'')], False)] 1, Record 3 (sampleStart ''c'')]"

lemma sampleEvents_records: "recorded sampleEvents = [sampleStart ''a'', sampleStart ''b'', sampleStart ''c'']"
  by (simp add: sampleEvents_def recorded_def arrivals_def)

lemma sampleEvents_proper: "NoRecord \<notin> set (recorded sampleEvents)"
  by (simp add: sampleEvents_records sampleStart_def)

definition sampleRun :: "'r Repository \<Rightarrow> 'r \<Rightarrow> 'r Store" where
  "sampleRun D r = fold (store_step D) sampleEvents (sampleStore D r)"

lemma sampleRun_ok:
  "store_ok (sampleRun D r)" "\<not> st_done (sampleRun D r)" "\<not> st_closed (sampleRun D r)" "rq_count (st_queue (sampleRun D r)) \<le> maxDrainPerBatch"
proof -
  note o = Store_Open_ok [OF sampleStore_opens [of D r] sampleMetrics_data(1)]
  obtain cs where m: "moves (recorded sampleEvents) cs (sampleStore D r) (sampleRun D r)"
    using store_run_flows [OF o(1) sampleEvents_proper] by (auto simp: sampleRun_def)
  have "length (held (sampleRun D r)) \<le> length (recorded sampleEvents)"
    using m o(2) by (auto simp: moves_def dest!: list_emb_length)
  then show "store_ok (sampleRun D r)" "\<not> st_done (sampleRun D r)" "\<not> st_closed (sampleRun D r)"
    "rq_count (st_queue (sampleRun D r)) \<le> maxDrainPerBatch"
    using m o by (simp_all add: moves_def held_def sampleEvents_records)
qed

definition countDriver :: "nat Repository" where
  "countDriver =
     \<lparr>rp_WriteBatch = \<lambda>b n. (n + Batch_Len b, None), rp_Prune = None, rp_Checkpoint = None, rp_Configure = \<lambda>w. w,
      rp_SchemaVersion = \<lambda>_. 0, rp_Close = \<lambda>n. (n, None)\<rparr>"

theorem Store_accounts_witness:
  "\<exists>lost. 3 = st_rowsWritten (sampleRun countDriver 0) + st_dropped (sampleRun countDriver 0) + int (length (held (sampleRun countDriver 0))) + lost
     \<and> (lost = 0 \<longleftrightarrow> st_writeFailures (sampleRun countDriver 0) = 0)"
  using Store_accounts [OF sampleStore_opens [of countDriver 0] sampleMetrics_data(1) sampleEvents_proper]
  by (auto simp: Let_def sampleRun_def sampleEvents_records)



end
