(* ===== verification/Metrics_Memory.thy ===== *)
theory Metrics_Memory
  imports Metrics_Flow
begin

text \<open>
  \<^verbatim>\<open>internal/metrics/memory/repository.go\<close>: the in-memory driver of the metrics store. Its writes keep rows
  in arrival order and merge the start and the end of a session into one row; it provides the contract
  of \<open>row_store\<close>, so that what a run of the store leaves in it does not depend on the batches.

  A stable sort by time is \<^term>\<open>sort_key\<close>; a map of counters is a function.
\<close>

section \<open>The repository\<close>

record MemRepository =
  mm_latency :: "LatencySample list"
  mm_health :: "HealthReportRow list"
  mm_tiers :: "TierTransitionRow list"
  mm_delivery :: "DeliveryWindow list"
  mm_bookEvents :: "BookSyncEvent list"
  mm_protocol :: "ProtocolEvent list"
  mm_engineEvts :: "EngineEvent list"
  mm_candleClose :: "CandleCloseRow list"
  mm_faults :: "FaultInjectionRow list"
  mm_sessions :: "string \<rightharpoonup> SessionRow"
  mm_sessionAt :: "string list"

definition NewRepository :: MemRepository where
  "NewRepository =
     \<lparr>mm_latency = [], mm_health = [], mm_tiers = [], mm_delivery = [], mm_bookEvents = [], mm_protocol = [],
      mm_engineEvts = [], mm_candleClose = [], mm_faults = [], mm_sessions = Map.empty, mm_sessionAt = []\<rparr>"

definition putSessionLocked :: "SessionRow \<Rightarrow> MemRepository \<Rightarrow> MemRepository" where
  "putSessionLocked row r =
     r\<lparr>mm_sessionAt := (if mm_sessions r (srw_SessionID row) = None then mm_sessionAt r @ [srw_SessionID row] else mm_sessionAt r),
       mm_sessions := (mm_sessions r)(srw_SessionID row \<mapsto> row)\<rparr>"

definition close_row :: "SessionRow \<Rightarrow> SessionRow \<Rightarrow> SessionRow" where
  "close_row row existing =
     existing\<lparr>srw_DisconnectedAt := (if srw_DisconnectedAt row \<noteq> None then srw_DisconnectedAt row else srw_DisconnectedAt existing),
       srw_DisconnectReason := (if srw_DisconnectReason row \<noteq> [] then srw_DisconnectReason row else srw_DisconnectReason existing),
       srw_FinalTier := (if srw_FinalTier row \<noteq> [] then srw_FinalTier row else srw_FinalTier existing),
       srw_OverrideTier := (if srw_OverrideTier row \<noteq> [] then srw_OverrideTier row else srw_OverrideTier existing),
       srw_UptimeMs := srw_UptimeMs row, srw_MessagesSent := srw_MessagesSent row,
       srw_MessagesReceived := srw_MessagesReceived row, srw_BytesSent := srw_BytesSent row,
       srw_ProtocolErrors := srw_ProtocolErrors row\<rparr>"

definition endSessionLocked :: "SessionRow \<Rightarrow> MemRepository \<Rightarrow> MemRepository" where
  "endSessionLocked row r =
     (case mm_sessions r (srw_SessionID row) of
        None \<Rightarrow> r
      | Some existing \<Rightarrow> r\<lparr>mm_sessions := (mm_sessions r)(srw_SessionID row \<mapsto> close_row row existing)\<rparr>)"

definition write_session :: "SessionWrite \<Rightarrow> MemRepository \<Rightarrow> MemRepository" where
  "write_session w r = (if sw_End w then endSessionLocked (sw_Row w) r else putSessionLocked (sw_Row w) r)"

definition append_rows :: "Batch \<Rightarrow> MemRepository \<Rightarrow> MemRepository" where
  "append_rows b r =
     r\<lparr>mm_latency := mm_latency r @ bt_Latency b, mm_health := mm_health r @ bt_Health b, mm_tiers := mm_tiers r @ bt_Tiers b,
       mm_delivery := mm_delivery r @ bt_Delivery b, mm_bookEvents := mm_bookEvents r @ bt_BookEvents b,
       mm_protocol := mm_protocol r @ bt_Protocol b, mm_engineEvts := mm_engineEvts r @ bt_EngineEvts b,
       mm_candleClose := mm_candleClose r @ bt_CandleClose b, mm_faults := mm_faults r @ bt_Faults b\<rparr>"

definition Mem_WriteBatch :: "Batch \<Rightarrow> MemRepository \<Rightarrow> MemRepository" where
  "Mem_WriteBatch b r = fold write_session (bt_Sessions b) (append_rows b r)"

definition Mem_UpsertSession :: "SessionRow \<Rightarrow> MemRepository \<Rightarrow> MemRepository" where
  "Mem_UpsertSession = putSessionLocked"

definition Mem_EndSession :: "SessionRow \<Rightarrow> MemRepository \<Rightarrow> MemRepository" where
  "Mem_EndSession = endSessionLocked"

definition Mem_WriterOptions :: "WriterOptions \<Rightarrow> WriterOptions" where
  "Mem_WriterOptions w = w\<lparr>wo_Retention := \<lparr>rt_Enabled = False, rt_Latency = 0, rt_Events = 0, rt_Sessions = 0\<rparr>\<rparr>"

definition memoryDriver :: "MemRepository Repository" where
  "memoryDriver =
     \<lparr>rp_WriteBatch = \<lambda>b r. (Mem_WriteBatch b r, None), rp_Prune = None, rp_Checkpoint = None,
      rp_Configure = Mem_WriterOptions, rp_SchemaVersion = \<lambda>_. 0, rp_Close = \<lambda>_. (NewRepository, None)\<rparr>"


section \<open>Reads\<close>

definition inWindow :: "gotime \<Rightarrow> gotime \<Rightarrow> gotime \<Rightarrow> bool" where
  "inWindow t lo up \<longleftrightarrow> \<not> IsZero t \<and> \<not> (\<not> IsZero lo \<and> Time_Before t lo) \<and> \<not> (\<not> IsZero up \<and> Time_After t up)"

definition countOrOne :: "int \<Rightarrow> int" where
  "countOrOne v = (if v \<le> 0 then 1 else v)"

record SummaryStats =
  sst_TotalSessions :: nat
  sst_ActiveSessions :: nat
  sst_TierDistribution :: "string \<Rightarrow> nat"
  sst_LatencySamples :: nat
  sst_DeliveryWindows :: nat
  sst_CandleCloses :: nat
  sst_TierTransitions :: nat
  sst_EngineEvents :: nat
  sst_Reconnects :: nat
  sst_MalformedMessages :: int
  sst_DuplicateDeltas :: int
  sst_StaleDeltas :: int
  sst_OutOfOrderTrades :: int
  sst_BookRecoveries :: nat
  sst_BookGapsDetected :: nat

definition count_if :: "('a \<Rightarrow> bool) \<Rightarrow> 'a list \<Rightarrow> nat" where
  "count_if P xs = length (filter P xs)"

definition row_tier :: "SessionRow \<Rightarrow> string" where
  "row_tier row = (if srw_FinalTier row \<noteq> [] then srw_FinalTier row else srw_InitialTier row)"

definition session_rows :: "MemRepository \<Rightarrow> SessionRow list" where
  "session_rows r = map (\<lambda>i. the (mm_sessions r i)) (mm_sessionAt r)"

definition protocol_sum :: "gotime \<Rightarrow> gotime \<Rightarrow> string \<Rightarrow> ProtocolEvent list \<Rightarrow> int" where
  "protocol_sum lo up kind ps =
     sum_list (map (countOrOne \<circ> pev_Count) (filter (\<lambda>p. inWindow (pev_At p) lo up \<and> pev_Kind p = kind) ps))"

definition Mem_SummaryStats :: "gotime \<Rightarrow> gotime \<Rightarrow> MemRepository \<Rightarrow> SummaryStats" where
  "Mem_SummaryStats lo up r =
     \<lparr>sst_TotalSessions = length (mm_sessionAt r),
      sst_ActiveSessions = count_if (\<lambda>row. srw_DisconnectedAt row = None) (session_rows r),
      sst_TierDistribution = (\<lambda>t. count_if (\<lambda>row. row_tier row = t \<and> t \<noteq> []) (session_rows r)),
      sst_LatencySamples = length (mm_latency r),
      sst_DeliveryWindows = length (mm_delivery r),
      sst_CandleCloses = count_if (\<lambda>c. inWindow (ccr_ClosedAt c) lo up) (mm_candleClose r),
      sst_TierTransitions = count_if (\<lambda>t. inWindow (ttr_At t) lo up) (mm_tiers r),
      sst_EngineEvents = count_if (\<lambda>e. inWindow (ee_At e) lo up) (mm_engineEvts r),
      sst_Reconnects = count_if (\<lambda>row. srw_DisconnectReason row = ''client_reconnect'' \<or> srw_DisconnectReason row = ''reconnect'') (session_rows r),
      sst_MalformedMessages = protocol_sum lo up ''MALFORMED_FRAME'' (mm_protocol r),
      sst_DuplicateDeltas = protocol_sum lo up ''DUPLICATE_DELTA'' (mm_protocol r),
      sst_StaleDeltas = protocol_sum lo up ''STALE_DELTA'' (mm_protocol r),
      sst_OutOfOrderTrades = protocol_sum lo up ''OUT_OF_ORDER_TRADE'' (mm_protocol r),
      sst_BookRecoveries = count_if (\<lambda>b. inWindow (bse_At b) lo up \<and> bse_Event b = ''RECOVERY_STARTED'') (mm_bookEvents r),
      sst_BookGapsDetected = count_if (\<lambda>b. inWindow (bse_At b) lo up \<and> bse_Event b = ''GAP_DETECTED'') (mm_bookEvents r)\<rparr>"

definition limit_rows :: "int \<Rightarrow> 'a list \<Rightarrow> 'a list" where
  "limit_rows limit xs = (if limit > 0 \<and> int (length xs) > limit then take (nat limit) xs else xs)"

record LatencyQuery =
  lq_SessionID :: string
  lq_From :: gotime
  lq_To :: gotime
  lq_Limit :: int

definition Mem_LatencySamples :: "LatencyQuery \<Rightarrow> MemRepository \<Rightarrow> LatencySample list" where
  "Mem_LatencySamples q r =
     limit_rows (lq_Limit q) (sort_key (instant \<circ> ls_ServerTime)
       (filter (\<lambda>x. \<not> (lq_SessionID q \<noteq> [] \<and> ls_SessionID x \<noteq> lq_SessionID q) \<and> inWindow (ls_ServerTime x) (lq_From q) (lq_To q)) (mm_latency r)))"

record EngineEventCounters =
  eec_Total :: nat
  eec_InvariantViolations :: nat

definition Mem_EngineEventCounters :: "gotime \<Rightarrow> gotime \<Rightarrow> MemRepository \<Rightarrow> EngineEventCounters" where
  "Mem_EngineEventCounters lo up r =
     (let evs = filter (\<lambda>e. inWindow (ee_At e) lo up) (mm_engineEvts r)
      in \<lparr>eec_Total = length evs, eec_InvariantViolations = count_if (\<lambda>e. ee_Event e = ''INVARIANT_VIOLATION'') evs\<rparr>)"

text \<open>Newest first, equal times in their order of arrival.\<close>

definition newest_first :: "('a \<Rightarrow> gotime) \<Rightarrow> 'a list \<Rightarrow> 'a list" where
  "newest_first t xs = sort_key (\<lambda>x. - instant (t x)) xs"

definition Mem_TierTransitions :: "gotime \<Rightarrow> gotime \<Rightarrow> int \<Rightarrow> MemRepository \<Rightarrow> TierTransitionRow list" where
  "Mem_TierTransitions lo up limit r =
     limit_rows limit (newest_first ttr_At (filter (\<lambda>t. inWindow (ttr_At t) lo up) (mm_tiers r)))"

definition Mem_Sessions :: "int \<Rightarrow> MemRepository \<Rightarrow> SessionRow list" where
  "Mem_Sessions limit r = limit_rows limit (newest_first srw_ConnectedAt (session_rows r))"

definition Mem_DeliveryWindows :: "string \<Rightarrow> gotime \<Rightarrow> gotime \<Rightarrow> int \<Rightarrow> MemRepository \<Rightarrow> DeliveryWindow list" where
  "Mem_DeliveryWindows sid lo up limit r =
     limit_rows limit (newest_first dw_WindowStart
       (filter (\<lambda>w. \<not> (sid \<noteq> [] \<and> dw_SessionID w \<noteq> sid) \<and> inWindow (dw_WindowStart w) lo up) (mm_delivery r)))"


section \<open>The contract\<close>

lemma write_session_append_rows: "write_session w (append_rows b r) = append_rows b (write_session w r)"
  by (simp add: write_session_def append_rows_def putSessionLocked_def endSessionLocked_def split: option.split)

lemma fold_write_session_append_rows:
  "fold write_session ws (append_rows b r) = append_rows b (fold write_session ws r)"
  by (induction ws arbitrary: r) (simp_all add: write_session_append_rows)

lemma append_rows_append: "append_rows (batch_append a b) r = append_rows b (append_rows a r)"
  by (simp add: append_rows_def batch_append_def)

interpretation memory: row_store memoryDriver Mem_WriteBatch
proof
  fix a b r
  have "bt_Sessions (batch_append a b) = bt_Sessions a @ bt_Sessions b" by (simp add: batch_append_def)
  then show "Mem_WriteBatch (batch_append a b) r = Mem_WriteBatch b (Mem_WriteBatch a r)"
    by (simp add: Mem_WriteBatch_def append_rows_append fold_write_session_append_rows)
  show "Mem_WriteBatch emptyBatch r = r"
    by (simp add: Mem_WriteBatch_def append_rows_def emptyBatch_def)
qed (simp_all add: memoryDriver_def)




section \<open>The rows of a session\<close>

definition mem_ok :: "MemRepository \<Rightarrow> bool" where
  "mem_ok r \<longleftrightarrow> distinct (mm_sessionAt r) \<and> set (mm_sessionAt r) = dom (mm_sessions r)
     \<and> (\<forall>i row. mm_sessions r i = Some row \<longrightarrow> srw_SessionID row = i)"

lemma NewRepository_ok: "mem_ok NewRepository"
  by (simp add: mem_ok_def NewRepository_def)

lemma close_row_SessionID [simp]: "srw_SessionID (close_row row e) = srw_SessionID e"
  by (simp add: close_row_def)

lemma putSessionLocked_ok: "mem_ok r \<Longrightarrow> mem_ok (putSessionLocked row r)"
  by (cases "mm_sessions r (srw_SessionID row) = None") (auto simp: mem_ok_def putSessionLocked_def)

lemma endSessionLocked_ok: "mem_ok r \<Longrightarrow> mem_ok (endSessionLocked row r)"
  by (cases "mm_sessions r (srw_SessionID row)") (auto simp: mem_ok_def endSessionLocked_def)

lemma write_session_ok: "mem_ok r \<Longrightarrow> mem_ok (write_session w r)"
  by (simp add: write_session_def putSessionLocked_ok endSessionLocked_ok)

lemma append_rows_sessions [simp]:
  "mm_sessions (append_rows b r) = mm_sessions r" "mm_sessionAt (append_rows b r) = mm_sessionAt r"
  by (simp_all add: append_rows_def)

lemma Mem_WriteBatch_ok: "mem_ok r \<Longrightarrow> mem_ok (Mem_WriteBatch b r)"
proof -
  have *: "mem_ok r \<Longrightarrow> mem_ok (fold write_session ws r)" for ws r
    by (induction ws arbitrary: r) (simp_all add: write_session_ok)
  assume "mem_ok r"
  then have "mem_ok (append_rows b r)" unfolding mem_ok_def append_rows_sessions .
  then show ?thesis unfolding Mem_WriteBatch_def by (rule *)
qed

text \<open>A record that does not write the row of session \<open>i\<close>.\<close>

definition spares :: "string \<Rightarrow> metric_record \<Rightarrow> bool" where
  "spares i x \<longleftrightarrow> (case x of Rec_session w \<Rightarrow> srw_SessionID (sw_Row w) \<noteq> i | _ \<Rightarrow> True)"

definition write_one :: "metric_record \<Rightarrow> MemRepository \<Rightarrow> MemRepository" where
  "write_one x = Mem_WriteBatch (toBatch [x])"

lemma write_one_session: "write_one (Rec_session w) r = write_session w r"
  by (simp add: write_one_def Mem_WriteBatch_def toBatch_def emptyBatch_def append_rows_def)

lemma write_one_other: "(\<And>w. x \<noteq> Rec_session w) \<Longrightarrow> mm_sessions (write_one x r) = mm_sessions r"
  by (cases x) (auto simp: write_one_def Mem_WriteBatch_def toBatch_def emptyBatch_def)

lemma spares_keeps: "spares i x \<Longrightarrow> mm_sessions (write_one x r) i = mm_sessions r i"
  by (cases x) (auto simp: spares_def write_one_other write_one_session write_session_def putSessionLocked_def endSessionLocked_def
      split: option.splits)

lemma spares_all: "list_all (spares i) xs \<Longrightarrow> mm_sessions (fold write_one xs r) i = mm_sessions r i"
  by (induction xs arbitrary: r) (auto simp: spares_keeps)

lemma fold_write_one_ok: "mem_ok r \<Longrightarrow> mem_ok (fold write_one xs r)"
  by (induction xs arbitrary: r) (auto simp: write_one_def Mem_WriteBatch_ok)

lemma session_rows_iff: "mem_ok r \<Longrightarrow> row \<in> set (session_rows r) \<longleftrightarrow> mm_sessions r (srw_SessionID row) = Some row"
proof
  assume ok: "mem_ok r" and "row \<in> set (session_rows r)"
  then obtain i where "i \<in> dom (mm_sessions r)" "row = the (mm_sessions r i)" by (auto simp: session_rows_def mem_ok_def)
  then have i: "mm_sessions r i = Some row" by auto
  then have "srw_SessionID row = i" using ok by (simp add: mem_ok_def)
  then show "mm_sessions r (srw_SessionID row) = Some row" using i by simp
next
  assume ok: "mem_ok r" and row: "mm_sessions r (srw_SessionID row) = Some row"
  have "srw_SessionID row \<in> set (mm_sessionAt r)" using ok domI [of "mm_sessions r", OF row] unfolding mem_ok_def by blast
  moreover have "row = the (mm_sessions r (srw_SessionID row))" by (simp add: row)
  ultimately show "row \<in> set (session_rows r)" unfolding session_rows_def set_map by (rule rev_image_eqI)
qed

lemma session_rows_ids: "mem_ok r \<Longrightarrow> map srw_SessionID (session_rows r) = mm_sessionAt r"
proof -
  assume ok: "mem_ok r"
  have "srw_SessionID (the (mm_sessions r i)) = i" if "i \<in> set (mm_sessionAt r)" for i
    using that ok by (auto simp: mem_ok_def)
  then show ?thesis by (simp add: session_rows_def map_idI)
qed

lemma filter_distinct_key: "distinct (map f xs) \<Longrightarrow> x \<in> set xs \<Longrightarrow> filter (\<lambda>y. f y = f x) xs = [x]"
proof (induction xs)
  case (Cons y xs)
  show ?case
  proof (cases "x = y")
    case True
    then have "filter (\<lambda>y. f y = f x) xs = []" using Cons.prems(1) by (auto simp: filter_empty_conv image_iff)
    then show ?thesis using True by simp
  next
    case False
    then have "x \<in> set xs" "f y \<noteq> f x" using Cons.prems by (auto simp: image_iff)
    then show ?thesis using Cons by simp
  qed
qed simp

lemma Mem_Sessions_all: "set (Mem_Sessions 0 r) = set (session_rows r)" "length (Mem_Sessions 0 r) = length (mm_sessionAt r)"
  by (simp_all add: Mem_Sessions_def limit_rows_def newest_first_def session_rows_def)

lemma Mem_Sessions_distinct: "mem_ok r \<Longrightarrow> distinct (map srw_SessionID (Mem_Sessions 0 r))"
  using session_rows_ids [of r]
  by (simp add: Mem_Sessions_def limit_rows_def newest_first_def distinct_map)
    (metis distinct_map mem_ok_def)

text \<open>
  The life of a session in the repository. Once the start and later the end of a session are written,
  whatever is written before, between and after for others, the session list has exactly one row
  of this session: its identity comes from the start and its end columns from the end; and ending it did
  not change how many sessions there are.
\<close>

lemma Memory_session_lifecycle:
  assumes "mem_ok r" "mm_sessions r (srw_SessionID a) = None" "srw_SessionID b = srw_SessionID a"
    "list_all (spares (srw_SessionID a)) xs" "list_all (spares (srw_SessionID a)) ys"
  shows "let r' = fold write_one ([Rec_session \<lparr>sw_Row = a, sw_End = False\<rparr>] @ xs @ [Rec_session \<lparr>sw_Row = b, sw_End = True\<rparr>] @ ys) r
         in filter (\<lambda>row. srw_SessionID row = srw_SessionID a) (Mem_Sessions 0 r') = [close_row b a]
            \<and> length (Mem_Sessions 0 r') = sst_TotalSessions (Mem_SummaryStats lo up r') \<and> mem_ok r'"
proof -
  let ?i = "srw_SessionID a"
  define r1 where "r1 = fold write_one xs (write_one (Rec_session \<lparr>sw_Row = a, sw_End = False\<rparr>) r)"
  define r' where "r' = fold write_one ys (write_one (Rec_session \<lparr>sw_Row = b, sw_End = True\<rparr>) r1)"
  have 1: "mm_sessions r1 ?i = Some a"
    using spares_all [OF assms(4)] by (simp add: r1_def write_one_session write_session_def putSessionLocked_def)
  have 2: "mm_sessions r' ?i = Some (close_row b a)"
    using spares_all [OF assms(5)] assms(3) 1 by (simp add: r'_def write_one_session write_session_def endSessionLocked_def)
  have ok: "mem_ok r'"
    unfolding r'_def r1_def by (intro fold_write_one_ok) (simp add: write_one_def Mem_WriteBatch_ok fold_write_one_ok assms(1))
  have "close_row b a \<in> set (Mem_Sessions 0 r')" using ok 2 by (simp add: Mem_Sessions_all session_rows_iff)
  from filter_distinct_key [OF Mem_Sessions_distinct [OF ok] this]
  have one: "filter (\<lambda>row. srw_SessionID row = ?i) (Mem_Sessions 0 r') = [close_row b a]" by simp
  have "fold write_one ([Rec_session \<lparr>sw_Row = a, sw_End = False\<rparr>] @ xs @ [Rec_session \<lparr>sw_Row = b, sw_End = True\<rparr>] @ ys) r = r'"
    by (simp add: r'_def r1_def)
  with one ok show ?thesis by (simp add: Let_def Mem_Sessions_all Mem_SummaryStats_def)
qed


section \<open>A sample run\<close>


lemma NewRepository_sessions: "mm_sessions NewRepository i = None"
  by (simp add: NewRepository_def)

end
