(* ===== verification/Metrics_Query.thy ===== *)
theory Metrics_Query
  imports Metrics_Memory "HOL-Library.AList"
begin

text \<open>
  The read side of the metrics store: \<^verbatim>\<open>internal/metrics/query.go\<close> and the aggregates of
  \<^verbatim>\<open>internal/metrics/repository.go\<close>. Shown: the percentile is the nearest rank, minimum and maximum are
  exact, the latency series partitions the samples into aligned buckets, and every query is bounded.

  The reads of a repository are the operations of a record; each may fail. The clock is an argument, sums
  are rounded to binary64, and the counters of a summary are a list of name and value.
\<close>

section \<open>Aggregates\<close>

record latencyAggregate =
  la_values :: "rat list"
  la_jitter :: "rat list"
  la_sum :: rat
  la_jitSum :: rat
  la_min :: rat
  la_max :: rat

definition emptyAggregate :: latencyAggregate where
  "emptyAggregate = \<lparr>la_values = [], la_jitter = [], la_sum = 0, la_jitSum = 0, la_min = 0, la_max = 0\<rparr>"

definition agg_add :: "rat \<Rightarrow> rat \<Rightarrow> latencyAggregate \<Rightarrow> latencyAggregate" where
  "agg_add rtt jit a =
     (let a1 = (if la_values a = [] then a\<lparr>la_min := rtt, la_max := rtt\<rparr>
                else a\<lparr>la_min := (if rtt < la_min a then rtt else la_min a), la_max := (if rtt > la_max a then rtt else la_max a)\<rparr>)
      in a1\<lparr>la_values := la_values a @ [rtt], la_jitter := la_jitter a @ [jit],
            la_sum := f64_add (la_sum a) rtt, la_jitSum := f64_add (la_jitSum a) jit\<rparr>)"

definition agg_count :: "latencyAggregate \<Rightarrow> nat" where
  "agg_count a = length (la_values a)"

definition agg_avg :: "latencyAggregate \<Rightarrow> rat" where
  "agg_avg a = (if la_values a = [] then 0 else f64_div (la_sum a) (f64_of_int (int (length (la_values a)))))"

definition agg_avgJitter :: "latencyAggregate \<Rightarrow> rat" where
  "agg_avgJitter a = (if la_jitter a = [] then 0 else f64_div (la_jitSum a) (f64_of_int (int (length (la_jitter a)))))"

definition p95 :: "latencyAggregate \<Rightarrow> rat" where
  "p95 a =
     (if la_values a = [] then 0
      else let xs = sort (la_values a);
               rank = (95 * length xs + 99) div 100;
               rank1 = (if rank < 1 then 1 else rank)
           in xs ! (rank1 - 1))"

record RTTStats =
  rs_Samples :: nat
  rs_MinMs :: rat
  rs_AvgMs :: rat
  rs_P95Ms :: rat
  rs_MaxMs :: rat

definition aggregate :: "LatencySample list \<Rightarrow> latencyAggregate" where
  "aggregate xs = fold (\<lambda>x. agg_add (ls_RTTMs x) (ls_JitterMs x)) xs emptyAggregate"

definition rttStats :: "LatencySample list \<Rightarrow> RTTStats" where
  "rttStats xs =
     (if xs = [] then \<lparr>rs_Samples = 0, rs_MinMs = 0, rs_AvgMs = 0, rs_P95Ms = 0, rs_MaxMs = 0\<rparr>
      else let a = aggregate xs
           in \<lparr>rs_Samples = agg_count a, rs_MinMs = la_min a, rs_AvgMs = agg_avg a, rs_P95Ms = p95 a, rs_MaxMs = la_max a\<rparr>)"

definition meanJitter :: "LatencySample list \<Rightarrow> rat" where
  "meanJitter xs =
     (if xs = [] then 0 else f64_div (fold (\<lambda>x sum. f64_add sum (ls_JitterMs x)) xs 0) (f64_of_int (int (length xs))))"

record LatencyBucket =
  lb_Start :: gotime
  lb_End :: gotime
  lb_Count :: nat
  lb_MinMs :: rat
  lb_AvgMs :: rat
  lb_P95Ms :: rat
  lb_MaxMs :: rat
  lb_AvgJitterMs :: rat

definition bucket_key :: "gotime \<Rightarrow> int \<Rightarrow> LatencySample \<Rightarrow> gotime" where
  "bucket_key start width x =
     (let offset = Time_Sub (to_utc (ls_ServerTime x)) start;
          offset1 = (if offset < 0 then 0 else offset)
      in Time_Add start ((offset1 sdiv width) * width))"

definition bucket_add :: "gotime \<Rightarrow> int \<Rightarrow> LatencySample \<Rightarrow> (gotime \<times> latencyAggregate) list \<Rightarrow> (gotime \<times> latencyAggregate) list" where
  "bucket_add start width x byStart =
     (let key = bucket_key start width x;
          agg = (case map_of byStart key of None \<Rightarrow> emptyAggregate | Some a \<Rightarrow> a)
      in AList.update key (agg_add (ls_RTTMs x) (ls_JitterMs x) agg) byStart)"

definition bucket_of :: "int \<Rightarrow> gotime \<Rightarrow> latencyAggregate \<Rightarrow> LatencyBucket" where
  "bucket_of width t a =
     \<lparr>lb_Start = t, lb_End = Time_Add t width, lb_Count = agg_count a, lb_MinMs = la_min a, lb_AvgMs = agg_avg a,
      lb_P95Ms = p95 a, lb_MaxMs = la_max a, lb_AvgJitterMs = agg_avgJitter a\<rparr>"

definition bucketLatency :: "LatencySample list \<Rightarrow> gotime \<Rightarrow> int \<Rightarrow> LatencyBucket list" where
  "bucketLatency xs lo width =
     (if width \<le> 0 \<or> xs = [] then []
      else let start = Truncate (to_utc lo) width;
               byStart = fold (bucket_add start width) xs [];
               starts = sort_key instant (map fst byStart)
           in map (\<lambda>t. bucket_of width t (the (map_of byStart t))) starts)"

definition limitOr :: "int \<Rightarrow> int \<Rightarrow> int \<Rightarrow> int" where
  "limitOr limit def mx = (if limit \<le> 0 then def else if limit > mx then mx else limit)"


section \<open>The nearest rank\<close>

lemma sorted_count_le:
  fixes xs :: "'a::linorder list"
  assumes "sorted xs" "k < length xs"
  shows "k < length (filter (\<lambda>x. x \<le> xs ! k) xs)"
    and "y < xs ! k \<Longrightarrow> length (filter (\<lambda>x. x \<le> y) xs) \<le> k"
proof -
  have "xs ! i \<le> xs ! k" if "i < Suc k" for i
    using sorted_nth_mono [OF assms(1), of i k] that assms(2) by simp
  then have "filter (\<lambda>x. x \<le> xs ! k) (take (Suc k) xs) = take (Suc k) xs"
    using assms by (auto simp: filter_id_conv in_set_conv_nth)
  then have "length (filter (\<lambda>x. x \<le> xs ! k) (take (Suc k) xs @ drop (Suc k) xs)) \<ge> Suc k"
    using assms(2) unfolding filter_append by simp
  then show "k < length (filter (\<lambda>x. x \<le> xs ! k) xs)" unfolding append_take_drop_id by simp
next
  assume y: "y < xs ! k"
  have "y < xs ! (k + i)" if "i < length xs - k" for i
    using less_le_trans [OF y sorted_nth_mono [OF assms(1), of k "k + i"]] that by simp
  then have "filter (\<lambda>x. x \<le> y) (drop k xs) = []"
    by (auto simp: filter_empty_conv in_set_conv_nth not_le)
  then have "length (filter (\<lambda>x. x \<le> y) (take k xs @ drop k xs)) \<le> k"
    unfolding filter_append by (simp add: le_trans [OF length_filter_le])
  then show "length (filter (\<lambda>x. x \<le> y) xs) \<le> k" unfolding append_take_drop_id .
qed

lemma length_filter_sort: "length (filter P (sort xs)) = length (filter P xs)"
  by (metis filter_sort length_sort)

lemma p95_nearest_rank:
  assumes "la_values a \<noteq> []"
  shows "p95 a \<in> set (la_values a)"
    "95 * length (la_values a) \<le> 100 * length (filter (\<lambda>x. x \<le> p95 a) (la_values a))"
    "y < p95 a \<Longrightarrow> 100 * length (filter (\<lambda>x. x \<le> y) (la_values a)) < 95 * length (la_values a)"
proof -
  let ?xs = "sort (la_values a)"
  define n where "n = length (la_values a)"
  define k where "k = (95 * n + 99) div 100 - 1"
  have n: "0 < n" using assms by (simp add: n_def)
  have rank: "1 \<le> (95 * n + 99) div 100" "(95 * n + 99) div 100 \<le> n" using n by linarith+
  have p: "p95 a = ?xs ! k" using assms rank by (simp add: p95_def k_def n_def Let_def)
  have k: "k < length ?xs" using rank by (simp add: k_def n_def)
  show "p95 a \<in> set (la_values a)" using nth_mem [OF k] by (simp add: p)
  note c = sorted_count_le [OF sorted_sort k]
  have "95 * n \<le> 100 * (k + 1)" "100 * k < 95 * n" using rank by (simp_all add: k_def)
  then show "95 * length (la_values a) \<le> 100 * length (filter (\<lambda>x. x \<le> p95 a) (la_values a))"
    "y < p95 a \<Longrightarrow> 100 * length (filter (\<lambda>x. x \<le> y) (la_values a)) < 95 * length (la_values a)"
    using c unfolding p [symmetric] length_filter_sort n_def [symmetric] by (force simp: p)+
qed

lemma aggregate_Nil: "aggregate [] = emptyAggregate"
  by (simp add: aggregate_def)

lemma aggregate_snoc: "aggregate (xs @ [x]) = agg_add (ls_RTTMs x) (ls_JitterMs x) (aggregate xs)"
  by (simp add: aggregate_def)

lemma aggregate_values:
  "la_values (aggregate xs) = map ls_RTTMs xs" "la_jitter (aggregate xs) = map ls_JitterMs xs"
  by (induction xs rule: rev_induct) (simp_all add: aggregate_snoc aggregate_Nil agg_add_def emptyAggregate_def Let_def)

lemma agg_add_extremes:
  "la_values a \<noteq> [] \<Longrightarrow> la_min (agg_add r j a) = min r (la_min a)" "la_values a \<noteq> [] \<Longrightarrow> la_max (agg_add r j a) = max r (la_max a)"
  by (simp_all add: agg_add_def min_def max_def)

lemma aggregate_extremes:
  "xs \<noteq> [] \<Longrightarrow> la_min (aggregate xs) = Min (ls_RTTMs ` set xs) \<and> la_max (aggregate xs) = Max (ls_RTTMs ` set xs)"
proof (induction xs rule: rev_induct)
  case (snoc x xs)
  show ?case
  proof (cases "xs = []")
    case True
    then show ?thesis by (simp add: aggregate_def agg_add_def emptyAggregate_def)
  next
    case False
    then have "la_min (aggregate xs) = Min (ls_RTTMs ` set xs)" "la_max (aggregate xs) = Max (ls_RTTMs ` set xs)"
      using snoc.IH by simp_all
    then show ?thesis
      using False agg_add_extremes [of "aggregate xs"] by (simp add: aggregate_snoc aggregate_values)
  qed
qed simp

text \<open>
  The latency block of the summary is exact: it counts every sample, its minimum and maximum are those of the
  round trips, and its 95th percentile is an observed value that at least 95 of 100 samples do not
  exceed, and the smallest such.
\<close>

lemma rttStats_exact:
  assumes "xs \<noteq> []"
  shows "rs_Samples (rttStats xs) = length xs \<and> rs_MinMs (rttStats xs) = Min (ls_RTTMs ` set xs)
    \<and> rs_MaxMs (rttStats xs) = Max (ls_RTTMs ` set xs) \<and> rs_P95Ms (rttStats xs) \<in> ls_RTTMs ` set xs
    \<and> 95 * length xs \<le> 100 * length (filter (\<lambda>x. ls_RTTMs x \<le> rs_P95Ms (rttStats xs)) xs)
    \<and> (\<forall>y. y < rs_P95Ms (rttStats xs) \<longrightarrow> 100 * length (filter (\<lambda>x. ls_RTTMs x \<le> y) xs) < 95 * length xs)"
proof -
  have ne: "la_values (aggregate xs) \<noteq> []" using assms by (simp add: aggregate_values)
  show ?thesis
    using p95_nearest_rank [OF ne] aggregate_extremes [OF assms] assms
    by (simp add: rttStats_def Let_def agg_count_def aggregate_values filter_map comp_def)
qed


section \<open>The latency series\<close>

lemma bucket_map:
  "distinct (map fst (fold (bucket_add start width) xs [])) \<and>
   map_of (fold (bucket_add start width) xs []) =
     (\<lambda>k. let ys = filter (\<lambda>x. bucket_key start width x = k) xs in if ys = [] then None else Some (aggregate ys))"
proof (induction xs rule: rev_induct)
  case (snoc x xs)
  let ?m = "fold (bucket_add start width) xs []"
  let ?k = "bucket_key start width x"
  have "(case map_of ?m ?k of None \<Rightarrow> emptyAggregate | Some a \<Rightarrow> a) = aggregate (filter (\<lambda>x. bucket_key start width x = ?k) xs)"
    using snoc by (simp add: Let_def aggregate_Nil)
  then have step: "bucket_add start width x ?m = AList.update ?k (aggregate (filter (\<lambda>x. bucket_key start width x = ?k) (xs @ [x]))) ?m"
    by (simp add: bucket_add_def Let_def aggregate_snoc)
  then show ?case using snoc by (auto simp: update_conv' distinct_update Let_def fun_eq_iff)
qed simp

text \<open>A sample not before \<open>start\<close> falls into the bucket of its time.\<close>

lemma bucket_key_spec:
  assumes "0 < width" "zone start = UTC" "instant start \<le> instant (ls_ServerTime x)"
    "instant (ls_ServerTime x) - instant start \<le> MaxInt64"
  shows "zone (bucket_key start width x) = UTC"
    "instant (bucket_key start width x) \<le> instant (ls_ServerTime x)" "instant (ls_ServerTime x) < instant (bucket_key start width x) + width"
    "width dvd instant (bucket_key start width x) - instant start"
proof -
  define d where "d = instant (ls_ServerTime x) - instant start"
  have "Time_Sub (to_utc (ls_ServerTime x)) start = d"
    using assms(3,4) by (simp add: Time_Sub_def to_utc_def d_def MinInt64_def)
  then have k: "instant (bucket_key start width x) = instant start + d div width * width" "zone (bucket_key start width x) = UTC"
    using assms by (simp_all add: bucket_key_def Let_def Time_Add_def sdiv_nonneg d_def)
  show "zone (bucket_key start width x) = UTC" by (rule k)
  show "width dvd instant (bucket_key start width x) - instant start" by (simp add: k)
  have "d div width * width \<le> d" "d < d div width * width + width"
    using assms(1) div_mult_mod_eq [of d width] pos_mod_bound [OF assms(1), of d] pos_mod_sign [OF assms(1), of d] by linarith+
  then show "instant (bucket_key start width x) \<le> instant (ls_ServerTime x)" "instant (ls_ServerTime x) < instant (bucket_key start width x) + width"
    by (simp_all add: k d_def)
qed

lemma gotime_eqI: "instant t = instant u \<Longrightarrow> zone t = zone u \<Longrightarrow> t = (u :: gotime)"
  by (cases t; cases u) simp

lemma multiples_apart:
  fixes a b t w :: int
  assumes "w dvd a - s" "w dvd b - s" "a \<le> t" "t < a + w" "b \<le> t" "t < b + w"
  shows "a = b"
proof -
  have "w dvd a - b" using dvd_diff [OF assms(1,2)] by simp
  moreover have "\<bar>a - b\<bar> < w" using assms(3-6) by linarith
  ultimately show ?thesis by (metis dvd_imp_le_int abs_of_nonneg eq_iff_diff_eq_0 linorder_not_less abs_ge_zero order_le_less_trans abs_of_pos)
qed

definition in_bucket :: "LatencyBucket \<Rightarrow> LatencySample \<Rightarrow> bool" where
  "in_bucket b x \<longleftrightarrow> instant (lb_Start b) \<le> instant (ls_ServerTime x) \<and> instant (ls_ServerTime x) < instant (lb_End b)"

lemma in_bucket_of: "in_bucket (bucket_of width t a) x \<longleftrightarrow> instant t \<le> instant (ls_ServerTime x) \<and> instant (ls_ServerTime x) < instant t + width"
  by (simp add: in_bucket_def bucket_of_def Time_Add_def)

lemma bucketLatency_shape:
  assumes "0 < width" "start = Truncate (to_utc lo) width"
  obtains ts where "distinct ts" "sorted (map instant ts)" "set ts = bucket_key start width ` set xs"
    "bucketLatency xs lo width = map (\<lambda>t. bucket_of width t (aggregate (filter (\<lambda>x. bucket_key start width x = t) xs))) ts"
proof
  let ?m = "fold (bucket_add start width) xs []"
  let ?ts = "sort_key instant (map fst ?m)"
  note bm = bucket_map [of start width xs]
  have dom: "set (map fst ?m) = dom (map_of ?m)" by (simp add: dom_map_of_conv_image_fst)
  show keys: "set ?ts = bucket_key start width ` set xs"
    unfolding set_sort dom using bm by (auto simp: Let_def filter_empty_conv split: if_splits)
  show "distinct ?ts" "sorted (map instant ?ts)" using bm by simp_all
  have "the (map_of ?m t) = aggregate (filter (\<lambda>x. bucket_key start width x = t) xs)" if "t \<in> set ?ts" for t
    using that keys bm by (auto simp: Let_def filter_empty_conv)
  then show "bucketLatency xs lo width = map (\<lambda>t. bucket_of width t (aggregate (filter (\<lambda>x. bucket_key start width x = t) xs))) ?ts"
    using assms by (auto simp: bucketLatency_def Let_def)
qed

lemma key_iff_in_span:
  assumes "0 < width" "zone start = UTC"
    and x: "instant start \<le> instant (ls_ServerTime x)" "instant (ls_ServerTime x) - instant start \<le> MaxInt64"
    and z: "instant start \<le> instant (ls_ServerTime z)" "instant (ls_ServerTime z) - instant start \<le> MaxInt64"
  shows "bucket_key start width x = bucket_key start width z \<longleftrightarrow>
    instant (bucket_key start width z) \<le> instant (ls_ServerTime x) \<and> instant (ls_ServerTime x) < instant (bucket_key start width z) + width"
proof
  note kx = bucket_key_spec [OF assms(1,2) x] and kz = bucket_key_spec [OF assms(1,2) z]
  assume "instant (bucket_key start width z) \<le> instant (ls_ServerTime x) \<and> instant (ls_ServerTime x) < instant (bucket_key start width z) + width"
  then have "instant (bucket_key start width x) = instant (bucket_key start width z)"
    using multiples_apart [OF kx(4) kz(4) kx(2,3)] by simp
  then show "bucket_key start width x = bucket_key start width z" using kx(1) kz(1) by (simp add: gotime_eqI)
qed (use bucket_key_spec(2,3) [OF assms(1,2) x] in simp)

lemma bucketLatency_partition:
  assumes "0 < width" "\<forall>x\<in>set xs. instant lo \<le> instant (ls_ServerTime x) \<and> instant (ls_ServerTime x) - instant (Truncate lo width) \<le> MaxInt64"
  shows "sorted_wrt (<) (map (instant \<circ> lb_Start) (bucketLatency xs lo width))
    \<and> (\<forall>b\<in>set (bucketLatency xs lo width). let ys = filter (in_bucket b) xs
         in instant (lb_End b) = instant (lb_Start b) + width \<and> width dvd instant (lb_Start b) - instant (Truncate lo width)
            \<and> ys \<noteq> [] \<and> lb_Count b = length ys \<and> lb_MinMs b = Min (ls_RTTMs ` set ys) \<and> lb_MaxMs b = Max (ls_RTTMs ` set ys))
    \<and> (\<forall>x\<in>set xs. \<exists>!b. b \<in> set (bucketLatency xs lo width) \<and> in_bucket b x)"
proof -
  define start where "start = Truncate (to_utc lo) width"
  have st: "zone start = UTC" "instant start = instant (Truncate lo width)" "instant start \<le> instant lo"
    using assms(1) by (simp_all add: start_def Truncate_def to_utc_def)
  have dom: "instant start \<le> instant (ls_ServerTime x)" "instant (ls_ServerTime x) - instant start \<le> MaxInt64" if "x \<in> set xs" for x
    using assms(2) that st by force+
  obtain ts where ts: "distinct ts" "sorted (map instant ts)" "set ts = bucket_key start width ` set xs"
    "bucketLatency xs lo width = map (\<lambda>t. bucket_of width t (aggregate (filter (\<lambda>x. bucket_key start width x = t) xs))) ts"
    using bucketLatency_shape [OF assms(1) start_def] by blast
  let ?B = "\<lambda>t. bucket_of width t (aggregate (filter (\<lambda>x. bucket_key start width x = t) xs))"
  have same: "in_bucket (?B t) x \<longleftrightarrow> bucket_key start width x = t" if "x \<in> set xs" "t \<in> set ts" for x t
    using key_iff_in_span [OF assms(1) st(1) dom [OF that(1)]] dom that(2) unfolding ts(3) in_bucket_of by fastforce
  have "inj_on instant (set ts)"
    unfolding ts(3) using bucket_key_spec(1) [OF assms(1) st(1) dom] by (auto intro!: inj_onI gotime_eqI)
  then have asc: "sorted_wrt (<) (map instant ts)"
    using ts(1,2) by (simp add: strict_sorted_iff distinct_map)
  have one: "let ys = filter (in_bucket (?B t)) xs in instant (lb_End (?B t)) = instant (lb_Start (?B t)) + width
      \<and> width dvd instant (lb_Start (?B t)) - instant (Truncate lo width) \<and> ys \<noteq> [] \<and> lb_Count (?B t) = length ys
      \<and> lb_MinMs (?B t) = Min (ls_RTTMs ` set ys) \<and> lb_MaxMs (?B t) = Max (ls_RTTMs ` set ys)" if t: "t \<in> set ts" for t
  proof -
    have f: "filter (in_bucket (?B t)) xs = filter (\<lambda>x. bucket_key start width x = t) xs"
      using same [OF _ t] by (intro filter_cong) auto
    have "filter (\<lambda>x. bucket_key start width x = t) xs \<noteq> []" using t ts(3) by (auto simp: filter_empty_conv)
    moreover have "width dvd instant t - instant start" using t bucket_key_spec(4) [OF assms(1) st(1) dom] unfolding ts(3) by auto
    ultimately show ?thesis
      unfolding f Let_def using aggregate_extremes st(2)
      by (simp add: bucket_of_def Time_Add_def agg_count_def aggregate_values)
  qed
  have uniq: "\<exists>!b. b \<in> set (bucketLatency xs lo width) \<and> in_bucket b x" if "x \<in> set xs" for x
    using that same [OF that] unfolding ts(4) set_map by (auto simp: ts(3))
  show ?thesis using asc one uniq by (simp add: ts(4) comp_def bucket_of_def)
qed


section \<open>Queries\<close>

record 'r Reader =
  rd_SummaryStats :: "gotime \<Rightarrow> gotime \<Rightarrow> 'r \<Rightarrow> string + SummaryStats"
  rd_EngineEventCounters :: "gotime \<Rightarrow> gotime \<Rightarrow> 'r \<Rightarrow> string + EngineEventCounters"
  rd_LatencySamples :: "LatencyQuery \<Rightarrow> 'r \<Rightarrow> string + LatencySample list"
  rd_TierTransitions :: "gotime \<Rightarrow> gotime \<Rightarrow> int \<Rightarrow> 'r \<Rightarrow> string + TierTransitionRow list"
  rd_Sessions :: "int \<Rightarrow> 'r \<Rightarrow> string + SessionRow list"
  rd_DeliveryWindows :: "string \<Rightarrow> gotime \<Rightarrow> gotime \<Rightarrow> int \<Rightarrow> 'r \<Rightarrow> string + DeliveryWindow list"

abbreviation maxQueryRange :: int where "maxQueryRange \<equiv> 24 * hour_ns"
abbreviation maxQueryRows :: int where "maxQueryRows \<equiv> 1000"
abbreviation maxLatencySamples :: int where "maxLatencySamples \<equiv> 200000"

definition clampRange :: "gotime \<Rightarrow> gotime \<Rightarrow> gotime \<Rightarrow> gotime \<times> gotime" where
  "clampRange now lo up =
     (let up1 = (if IsZero up then to_utc now else up);
          lo1 = (if IsZero lo then Time_Add up1 (- maxQueryRange) else lo);
          lo2 = (if Time_Sub up1 lo1 > maxQueryRange then Time_Add up1 (- maxQueryRange) else lo1)
      in (to_utc lo2, to_utc up1))"

text \<open>The range of the two list queries: the last day when neither end is given.\<close>

definition query_range :: "gotime \<Rightarrow> gotime \<Rightarrow> gotime \<Rightarrow> gotime \<times> gotime" where
  "query_range now lo up =
     (if IsZero lo \<and> IsZero up then (Time_Add (to_utc now) (- maxQueryRange), to_utc now) else clampRange now lo up)"

definition readable :: "'r Store \<Rightarrow> 'r option" where
  "readable s = (if mc_Enabled (st_cfg s) then st_repo s else None)"

definition Query_LatencyBuckets :: "'r Reader \<Rightarrow> gotime \<Rightarrow> string \<Rightarrow> gotime \<Rightarrow> gotime \<Rightarrow> int \<Rightarrow> 'r Store \<Rightarrow> string + LatencyBucket list" where
  "Query_LatencyBuckets R now sid lo up width0 s =
     (case readable s of
        None \<Rightarrow> Inr []
      | Some r \<Rightarrow>
          let width = (if width0 \<le> 0 then 5 * second else width0);
              (lo1, up1) = clampRange now lo up
          in if \<not> Time_After up1 lo1 then Inr []
             else (case rd_LatencySamples R \<lparr>lq_SessionID = sid, lq_From = lo1, lq_To = up1, lq_Limit = maxLatencySamples\<rparr> r of
                     Inl e \<Rightarrow> Inl e
                   | Inr xs \<Rightarrow> Inr (bucketLatency xs lo1 width)))"

definition Query_TierTransitions :: "'r Reader \<Rightarrow> gotime \<Rightarrow> gotime \<Rightarrow> gotime \<Rightarrow> int \<Rightarrow> 'r Store \<Rightarrow> string + TierTransitionRow list" where
  "Query_TierTransitions R now lo up limit s =
     (case readable s of
        None \<Rightarrow> Inr []
      | Some r \<Rightarrow> (case query_range now lo up of (lo1, up1) \<Rightarrow> rd_TierTransitions R lo1 up1 (limitOr limit 100 maxQueryRows) r))"

definition Query_Sessions :: "'r Reader \<Rightarrow> int \<Rightarrow> 'r Store \<Rightarrow> string + SessionRow list" where
  "Query_Sessions R limit s =
     (case readable s of None \<Rightarrow> Inr [] | Some r \<Rightarrow> rd_Sessions R (limitOr limit 100 maxQueryRows) r)"

definition Query_DeliveryWindows :: "'r Reader \<Rightarrow> gotime \<Rightarrow> string \<Rightarrow> gotime \<Rightarrow> gotime \<Rightarrow> int \<Rightarrow> 'r Store \<Rightarrow> string + DeliveryWindow list" where
  "Query_DeliveryWindows R now sid lo up limit s =
     (case readable s of
        None \<Rightarrow> Inr []
      | Some r \<Rightarrow> (case query_range now lo up of (lo1, up1) \<Rightarrow> rd_DeliveryWindows R sid lo1 up1 (limitOr limit 100 maxQueryRows) r))"

record MetricsSummary =
  msm_GeneratedAt :: gotime
  msm_UptimeMs :: int
  msm_ActiveSessions :: nat
  msm_TotalSessions :: nat
  msm_TierDistribution :: "string \<Rightarrow> nat"
  msm_RTT :: RTTStats
  msm_JitterMs :: rat
  msm_Reconnects :: nat
  msm_BookRecoveries :: nat
  msm_BookGapsDetected :: nat
  msm_MalformedMessages :: int
  msm_DuplicateDeltas :: int
  msm_StaleDeltas :: int
  msm_OutOfOrderTrades :: int
  msm_TierTransitions :: nat
  msm_CandlesClosed :: nat
  msm_CandleInvariantViolations :: nat
  msm_LatencySamples :: nat
  msm_DeliveryWindows :: nat
  msm_Counters :: "(string \<times> int) list"

definition emptySummary :: "gotime \<Rightarrow> MetricsSummary" where
  "emptySummary now =
     \<lparr>msm_GeneratedAt = to_utc now, msm_UptimeMs = 0, msm_ActiveSessions = 0, msm_TotalSessions = 0, msm_TierDistribution = (\<lambda>_. 0),
      msm_RTT = rttStats [], msm_JitterMs = 0, msm_Reconnects = 0, msm_BookRecoveries = 0, msm_BookGapsDetected = 0,
      msm_MalformedMessages = 0, msm_DuplicateDeltas = 0, msm_StaleDeltas = 0, msm_OutOfOrderTrades = 0, msm_TierTransitions = 0,
      msm_CandlesClosed = 0, msm_CandleInvariantViolations = 0, msm_LatencySamples = 0, msm_DeliveryWindows = 0, msm_Counters = []\<rparr>"

definition fill_summary :: "gotime \<Rightarrow> gotime \<Rightarrow> SummaryStats \<Rightarrow> EngineEventCounters \<Rightarrow> LatencySample list \<Rightarrow> 'r Store \<Rightarrow> MetricsSummary" where
  "fill_summary now opened st ec xs s =
     \<lparr>msm_GeneratedAt = to_utc now, msm_UptimeMs = Milliseconds (Time_Sub now opened), msm_ActiveSessions = sst_ActiveSessions st,
      msm_TotalSessions = sst_TotalSessions st, msm_TierDistribution = sst_TierDistribution st, msm_RTT = rttStats xs,
      msm_JitterMs = meanJitter xs, msm_Reconnects = sst_Reconnects st, msm_BookRecoveries = sst_BookRecoveries st,
      msm_BookGapsDetected = sst_BookGapsDetected st, msm_MalformedMessages = sst_MalformedMessages st,
      msm_DuplicateDeltas = sst_DuplicateDeltas st, msm_StaleDeltas = sst_StaleDeltas st,
      msm_OutOfOrderTrades = sst_OutOfOrderTrades st, msm_TierTransitions = sst_TierTransitions st,
      msm_CandlesClosed = sst_CandleCloses st, msm_CandleInvariantViolations = eec_InvariantViolations ec,
      msm_LatencySamples = sst_LatencySamples st, msm_DeliveryWindows = sst_DeliveryWindows st,
      msm_Counters =
        [(''metrics_dropped_total'', st_dropped s), (''metrics_write_failures_total'', st_writeFailures s),
         (''metrics_rows_written_total'', st_rowsWritten s), (''metrics_pruned_rows_total'', st_prunedRows s),
         (''engine_events_total'', int (eec_Total ec)), (''tier_transitions_total'', int (sst_TierTransitions st)),
         (''malformed_messages_total'', sst_MalformedMessages st), (''candles_closed_total'', int (sst_CandleCloses st)),
         (''orderbook_recoveries_total'', int (sst_BookRecoveries st)), (''orderbook_gaps_total'', int (sst_BookGapsDetected st))]\<rparr>"

definition Query_Summary :: "'r Reader \<Rightarrow> gotime \<Rightarrow> gotime \<Rightarrow> int \<Rightarrow> 'r Store \<Rightarrow> (string option) \<times> MetricsSummary" where
  "Query_Summary R now opened window0 s =
     (case readable s of
        None \<Rightarrow> (None, emptySummary now)
      | Some r \<Rightarrow>
          let window = (if window0 \<le> 0 then 15 * minute_ns else window0);
              up = to_utc now; lo = Time_Add up (- window)
          in (case rd_SummaryStats R lo up r of
                Inl e \<Rightarrow> (Some e, emptySummary now)
              | Inr st \<Rightarrow>
                  (case rd_EngineEventCounters R lo up r of
                     Inl e \<Rightarrow> (Some e, emptySummary now)
                   | Inr ec \<Rightarrow>
                       (case rd_LatencySamples R \<lparr>lq_SessionID = [], lq_From = lo, lq_To = up, lq_Limit = maxLatencySamples\<rparr> r of
                          Inl e \<Rightarrow> (Some e, emptySummary now)
                        | Inr xs \<Rightarrow> (None, fill_summary now opened st ec xs s)))))"

definition memoryReader :: "MemRepository Reader" where
  "memoryReader =
     \<lparr>rd_SummaryStats = \<lambda>lo up r. Inr (Mem_SummaryStats lo up r), rd_EngineEventCounters = \<lambda>lo up r. Inr (Mem_EngineEventCounters lo up r),
      rd_LatencySamples = \<lambda>q r. Inr (Mem_LatencySamples q r), rd_TierTransitions = \<lambda>lo up n r. Inr (Mem_TierTransitions lo up n r),
      rd_Sessions = \<lambda>n r. Inr (Mem_Sessions n r), rd_DeliveryWindows = \<lambda>sid lo up n r. Inr (Mem_DeliveryWindows sid lo up n r)\<rparr>"


section \<open>What the queries return\<close>

lemma clampRange_bounds:
  assumes "clampRange now lo up = (lo1, up1)"
  shows "instant up1 - instant lo1 \<le> maxQueryRange"
proof -
  have far: "instant t - instant u > maxQueryRange \<Longrightarrow> Time_Sub t u > maxQueryRange" for t u
    by (simp add: Time_Sub_def MaxInt64_def)
  define up' where "up' = (if IsZero up then to_utc now else up)"
  define lo' where "lo' = (if IsZero lo then Time_Add up' (- maxQueryRange) else lo)"
  have "lo1 = to_utc (if Time_Sub up' lo' > maxQueryRange then Time_Add up' (- maxQueryRange) else lo')" "up1 = to_utc up'"
    using assms unfolding clampRange_def Let_def up'_def [symmetric] lo'_def [symmetric] by auto
  then show ?thesis using far [of up' lo'] by (auto simp: to_utc_def Time_Add_def not_less [symmetric])
qed

lemma limitOr_bounds: "1 \<le> limitOr n 100 1000" "limitOr n 100 1000 \<le> 1000"
  by (simp_all add: limitOr_def)

lemma length_limit_rows: "0 < n \<Longrightarrow> length (limit_rows n xs) \<le> nat n"
  by (auto simp: limit_rows_def)

text \<open>
  Every query of the in-memory store is bounded, whatever the caller asks for: a list has at most a thousand rows and a range
  spans at most a day; a disabled store answers with nothing.
\<close>

lemma Queries_bounded:
  "(\<exists>xs. Query_Sessions memoryReader n s = Inr xs \<and> length xs \<le> 1000)
   \<and> (\<exists>xs. Query_TierTransitions memoryReader now lo up n s = Inr xs \<and> length xs \<le> 1000)
   \<and> (\<exists>xs. Query_DeliveryWindows memoryReader now sid lo up n s = Inr xs \<and> length xs \<le> 1000)
   \<and> instant (snd (query_range now lo up)) - instant (fst (query_range now lo up)) \<le> maxQueryRange
   \<and> (\<not> mc_Enabled (st_cfg s) \<longrightarrow> Query_Sessions memoryReader n s = Inr [] \<and> Query_LatencyBuckets memoryReader now sid lo up w s = Inr []
        \<and> Query_Summary memoryReader now opened w s = (None, emptySummary now))"
proof -
  have l: "length (limit_rows (limitOr n 100 1000) xs) \<le> 1000" for xs :: "'a list"
    using length_limit_rows [of "limitOr n 100 1000" xs] limitOr_bounds [of n] by linarith
  have r: "instant (snd (query_range now lo up)) - instant (fst (query_range now lo up)) \<le> maxQueryRange"
    using clampRange_bounds [of now lo up] by (cases "clampRange now lo up") (simp add: query_range_def Time_Add_def)
  have "\<exists>xs. Query_Sessions memoryReader n s = Inr xs \<and> length xs \<le> 1000"
    "\<exists>xs. Query_TierTransitions memoryReader now lo up n s = Inr xs \<and> length xs \<le> 1000"
    "\<exists>xs. Query_DeliveryWindows memoryReader now sid lo up n s = Inr xs \<and> length xs \<le> 1000"
    using l
    by (auto simp: Query_Sessions_def Query_TierTransitions_def Query_DeliveryWindows_def memoryReader_def Mem_Sessions_def
        Mem_TierTransitions_def Mem_DeliveryWindows_def split: option.split prod.split)
  then show ?thesis
    using r by (simp add: readable_def Query_Sessions_def Query_LatencyBuckets_def Query_Summary_def)
qed

definition matching :: "string \<Rightarrow> gotime \<Rightarrow> gotime \<Rightarrow> MemRepository \<Rightarrow> LatencySample list" where
  "matching sid lo up r =
     filter (\<lambda>x. (sid = [] \<or> ls_SessionID x = sid) \<and> \<not> IsZero (ls_ServerTime x) \<and> instant lo \<le> instant (ls_ServerTime x) \<and> instant (ls_ServerTime x) \<le> instant up)
       (mm_latency r)"

lemma Mem_LatencySamples_matching:
  assumes "\<not> IsZero lo" "\<not> IsZero up" "int (length (matching sid lo up r)) \<le> n"
  shows "Mem_LatencySamples \<lparr>lq_SessionID = sid, lq_From = lo, lq_To = up, lq_Limit = n\<rparr> r
    = sort_key (instant \<circ> ls_ServerTime) (matching sid lo up r)"
proof -
  have "filter (\<lambda>x. \<not> (sid \<noteq> [] \<and> ls_SessionID x \<noteq> sid) \<and> inWindow (ls_ServerTime x) lo up) (mm_latency r) = matching sid lo up r"
    unfolding matching_def using assms(1,2) by (intro filter_cong) (auto simp: inWindow_def Time_Before_def Time_After_def not_less)
  then show ?thesis using assms(3) by (simp add: Mem_LatencySamples_def limit_rows_def)
qed



section \<open>Samples\<close>

definition sampleLatency :: "int \<Rightarrow> rat \<Rightarrow> LatencySample" where
  "sampleLatency t rtt =
     \<lparr>ls_SessionID = ''a'', ls_Seq = 0, ls_RTTMs = rtt, ls_JitterMs = 0, ls_Samples = 1, ls_ClientTimeMs = 0,
      ls_ServerTime = \<lparr>instant = t, zone = UTC\<rparr>, ls_Capped = False, ls_MissedPong = False\<rparr>"

definition sampleReads :: "MemRepository Store" where
  "sampleReads = (sampleStore memoryDriver NewRepository)\<lparr>st_repo := Some (NewRepository\<lparr>mm_latency := [sampleLatency 3 20, sampleLatency 12 30]\<rparr>)\<rparr>"

lemma sampleReads_readable: "readable sampleReads = Some (NewRepository\<lparr>mm_latency := [sampleLatency 3 20, sampleLatency 12 30]\<rparr>)"
  using Store_Open_ok(1) [OF sampleStore_opens [of memoryDriver NewRepository] sampleMetrics_data(1)]
  by (simp add: readable_def sampleReads_def store_ok_def)


end
