(* ===== verification/Manager.thy ===== *)
theory Manager
  imports Session "HOL-Library.AList" "HOL-Library.Char_ord" "HOL-Library.List_Lexorder"
begin

text \<open>
  \<^verbatim>\<open>internal/delivery/manager.go\<close>: the registry of connected sessions and the ids it gives them. Shown: the
  counters agree with the registry, a reconnect is a repeated device, the tiers of the sessions add up, and
  the ids encode their bytes five bits a character and sort by the time of the connection.

  The map of sessions is an association list with distinct keys. A byte is an \<^typ>\<open>8 word\<close>. What
  \<^verbatim>\<open>crypto/rand\<close> leaves in the buffer, and whether it succeeded, are arguments.
\<close>

section \<open>Session ids\<close>

definition crockford :: string where
  "crockford = ''0123456789ABCDEFGHJKMNPQRSTVWXYZ''"

definition be_bytes :: "nat \<Rightarrow> u64 \<Rightarrow> 8 word list" where
  "be_bytes n x = map (\<lambda>i. ucast (drop_bit (8 * (n - 1 - i)) x)) [0..<n]"

definition session_raw :: "gotime \<Rightarrow> 8 word list \<times> bool \<Rightarrow> 8 word list" where
  "session_raw now rnd =
     be_bytes 6 (word_of_int (UnixMilli now))
     @ (if snd rnd then fst rnd else take 2 (fst rnd) @ be_bytes 8 (word_of_int (instant now)))"

fun emit_loop :: "32 word \<Rightarrow> nat \<Rightarrow> string \<Rightarrow> nat \<times> string" where
  "emit_loop acc bits out =
     (if bits \<ge> 5 \<and> length out < 26
      then emit_loop acc (bits - 5) (out @ [crockford ! unat (drop_bit (bits - 5) acc AND 0x1F)])
      else (bits, out))"

declare emit_loop.simps [simp del]

fun encode_loop :: "8 word list \<Rightarrow> 32 word \<Rightarrow> nat \<Rightarrow> string \<Rightarrow> 32 word \<times> string" where
  "encode_loop [] acc bits out = (acc, out)"
| "encode_loop (b # bs) acc bits out =
     (let acc1 = push_bit 8 acc OR ucast b
      in case emit_loop acc1 (bits + 8) out of (bits1, out1) \<Rightarrow> encode_loop bs acc1 bits1 out1)"

definition encode_id :: "8 word list \<Rightarrow> string" where
  "encode_id raw =
     (case encode_loop raw 0 0 [] of (acc, out) \<Rightarrow>
        out @ replicate (26 - length out) (crockford ! unat (acc AND 0x1F)))"

definition newSessionID :: "gotime \<Rightarrow> 8 word list \<times> bool \<Rightarrow> string \<times> string" where
  "newSessionID now rnd =
     (let raw = session_raw now rnd
      in (''sess_'' @ take 25 (encode_id raw),
          map (\<lambda>i. crockford ! unat (raw ! (10 + i mod 6) AND 0x1F)) [0..<6]))"


section \<open>The manager\<close>

record ManagerConfig =
  mgc_Registry :: "string list option"
  mgc_DefaultSymbol :: Symbol
  mgc_Policy :: "Policy option"
  mgc_Logger :: bool
  mgc_DefaultChannels :: "string list"
  mgc_OutboundCapacity :: int
  mgc_WriteTimeout :: int
  mgc_ClientMsgPerSec :: int
  mgc_BookWindow :: int
  mgc_HistoryLimit :: int
  mgc_TradesLimit :: int
  mgc_DebugControls :: bool
  mgc_BusCapacity :: int

record Manager =
  mg_cfg :: ManagerConfig
  mg_sessions :: "(string \<times> Session) list"
  mg_totalSessions :: int
  mg_activeSessions :: int
  mg_reconnects :: int
  mg_deviceSeen :: "string set"

definition NewManager :: "ManagerConfig \<Rightarrow> Manager" where
  "NewManager c =
     \<lparr>mg_cfg = c\<lparr>mgc_Policy := Some (case mgc_Policy c of None \<Rightarrow> sessionPolicy | Some p \<Rightarrow> p),
                 mgc_BusCapacity := (if mgc_BusCapacity c \<le> 0 then 256 else mgc_BusCapacity c)\<rparr>,
      mg_sessions = [], mg_totalSessions = 0, mg_activeSessions = 0, mg_reconnects = 0, mg_deviceSeen = {}\<rparr>"

definition defaultEngine :: "Manager \<Rightarrow> string option" where
  "defaultEngine m =
     (case mgc_Registry (mg_cfg m) of
        None \<Rightarrow> None
      | Some ids \<Rightarrow> if sym_ID (mgc_DefaultSymbol (mg_cfg m)) \<in> set ids then Some (sym_ID (mgc_DefaultSymbol (mg_cfg m))) else None)"

definition register_config :: "Manager \<Rightarrow> string \<times> string \<Rightarrow> SessionConfig" where
  "register_config m ids =
     \<lparr>sc_ID = fst ids, sc_ShortID = snd ids, sc_Symbol = mgc_DefaultSymbol (mg_cfg m), sc_Interval = Interval1m,
      sc_Channels = Some (if mgc_DefaultChannels (mg_cfg m) = [] then DefaultChannels else mgc_DefaultChannels (mg_cfg m)),
      sc_Policy = mgc_Policy (mg_cfg m), sc_Registry = mgc_Registry (mg_cfg m),
      sc_OutboundCapacity = mgc_OutboundCapacity (mg_cfg m), sc_WriteTimeout = mgc_WriteTimeout (mg_cfg m),
      sc_ClientMsgPerSec = mgc_ClientMsgPerSec (mg_cfg m), sc_BookWindow = mgc_BookWindow (mg_cfg m),
      sc_HistoryLimit = mgc_HistoryLimit (mg_cfg m), sc_TradesLimit = mgc_TradesLimit (mg_cfg m),
      sc_DebugControls = mgc_DebugControls (mg_cfg m), sc_Logger = mgc_Logger (mg_cfg m), sc_OnHello = True\<rparr>"

definition Register :: "gotime \<Rightarrow> 8 word list \<times> bool \<Rightarrow> (string \<Rightarrow> Bus) \<Rightarrow> Manager \<Rightarrow> Manager \<times> string" where
  "Register now rnd buses m =
     (let ids = newSessionID now rnd;
          session = NewSession (register_config m ids) (defaultEngine m) now buses
      in (m\<lparr>mg_sessions := AList.update (fst ids) session (mg_sessions m),
            mg_totalSessions := mg_totalSessions m + 1, mg_activeSessions := mg_activeSessions m + 1\<rparr>, fst ids))"

definition Unregister :: "string \<Rightarrow> Manager \<Rightarrow> Manager \<times> Session option" where
  "Unregister sid m =
     (case map_of (mg_sessions m) sid of
        None \<Rightarrow> (m, None)
      | Some s \<Rightarrow> (m\<lparr>mg_sessions := AList.delete sid (mg_sessions m), mg_activeSessions := mg_activeSessions m - 1\<rparr>,
                   Some (Drop ''unregistered'' s)))"

definition Manager_Session :: "string \<Rightarrow> Manager \<Rightarrow> Session option" where
  "Manager_Session sid m = map_of (mg_sessions m) sid"

definition Manager_Sessions :: "Manager \<Rightarrow> Session list" where
  "Manager_Sessions m = map snd (mg_sessions m)"

definition Manager_Count :: "Manager \<Rightarrow> nat" where
  "Manager_Count m = length (mg_sessions m)"

definition NotifyHello :: "string \<Rightarrow> Manager \<Rightarrow> Manager" where
  "NotifyHello d m =
     (if d = [] then m
      else m\<lparr>mg_deviceSeen := insert d (mg_deviceSeen m),
             mg_reconnects := (if d \<in> mg_deviceSeen m then mg_reconnects m + 1 else mg_reconnects m)\<rparr>)"

definition TierDistribution :: "Manager \<Rightarrow> DeliveryTier \<Rightarrow> nat" where
  "TierDistribution m t = fold (\<lambda>(i, s) n. if tier (ss_tierMachine s) = t then n + 1 else n) (mg_sessions m) 0"

definition Manager_Drop :: "string \<Rightarrow> string \<Rightarrow> Manager \<Rightarrow> Manager \<times> bool" where
  "Manager_Drop sid r m =
     (case Manager_Session sid m of
        None \<Rightarrow> (m, False)
      | Some s \<Rightarrow> (m\<lparr>mg_sessions := AList.update sid (Drop r s) (mg_sessions m)\<rparr>, True))"

definition Manager_ApplyFaults :: "string \<Rightarrow> FaultConfig \<Rightarrow> Manager \<Rightarrow> Manager \<times> bool" where
  "Manager_ApplyFaults sid f m =
     (case Manager_Session sid m of
        None \<Rightarrow> (m, False)
      | Some s \<Rightarrow> (m\<lparr>mg_sessions := AList.update sid (ApplyFaults f s) (mg_sessions m)\<rparr>, True))"

text \<open>After the drops \<^verbatim>\<open>CloseAll\<close> only waits, for the sessions to be unregistered or for its deadline.\<close>

definition CloseAll :: "string \<Rightarrow> Manager \<Rightarrow> Manager" where
  "CloseAll r m = m\<lparr>mg_sessions := map (\<lambda>(i, s). (i, Drop r s)) (mg_sessions m)\<rparr>"

definition SetEngine :: "string option \<Rightarrow> Session \<Rightarrow> Session" where
  "SetEngine e s = s\<lparr>ss_engine := e\<rparr>"


section \<open>What an id encodes\<close>

definition horner :: "nat \<Rightarrow> nat list \<Rightarrow> nat" where
  "horner b ds = fold (\<lambda>d n. n * b + d) ds 0"

lemma horner_fold: "fold (\<lambda>d n. n * b + d) ds k = k * b ^ length ds + horner b ds"
proof (induction ds arbitrary: k)
  case (Cons d ds)
  have "horner b (d # ds) = fold (\<lambda>d n. n * b + d) ds d" by (simp add: horner_def)
  then show ?case using Cons [of "k * b + d"] Cons [of d] by (simp add: add_mult_distrib)
qed (simp add: horner_def)

lemma horner_simps [simp]: "horner b [] = 0" "horner b (d # ds) = d * b ^ length ds + horner b ds"
proof -
  have "horner b (d # ds) = fold (\<lambda>d n. n * b + d) ds d" by (simp add: horner_def)
  then show "horner b (d # ds) = d * b ^ length ds + horner b ds" by (simp only: horner_fold)
qed (simp add: horner_def)

lemma horner_append: "horner b (ds @ es) = horner b ds * b ^ length es + horner b es"
proof -
  have "horner b (ds @ es) = fold (\<lambda>d n. n * b + d) es (horner b ds)" by (simp add: horner_def)
  then show ?thesis by (simp only: horner_fold)
qed

lemma horner_bound: "\<forall>d\<in>set ds. d < b \<Longrightarrow> horner b ds < b ^ length ds"
proof (induction ds)
  case (Cons d ds)
  then have "d * b ^ length ds + b ^ length ds \<le> b * b ^ length ds"
    by (metis Suc_leI add.commute list.set_intros(1) mult_Suc mult_le_mono1)
  then show ?case using Cons by simp
qed simp

abbreviation crock :: "nat \<Rightarrow> char" where "crock d \<equiv> crockford ! d"

lemma split_high:
  fixes A :: nat
  shows "A mod 2 ^ (k + 5) = (A div 2 ^ k mod 32) * 2 ^ k + A mod 2 ^ k"
  using mod_mult2_eq [of A "2 ^ k" 32] by (simp add: power_add mult.commute)

lemma unat_and_mask_eq5: "unat (x AND 0x1F :: 32 word) = unat x mod 32"
proof -
  have "x AND 0x1F = take_bit 5 x" by (simp add: take_bit_eq_mask mask_eq_exp_minus_1)
  then have "unat (x AND 0x1F) = take_bit 5 (unat x)" by (simp only: unsigned_take_bit_eq)
  then show ?thesis by (simp add: take_bit_eq_mod)
qed

lemma unat_drop_bit_div: "unat (drop_bit k (x :: 32 word)) = unat x div 2 ^ k"
  unfolding unat_drop_bit_eq by (rule drop_bit_eq_div)

lemma emit_loop_spec:
  assumes "length ds + bits div 5 \<le> 26"
  shows "\<exists>es. emit_loop acc bits (map crock ds) = (bits mod 5, map crock (ds @ es)) \<and> length es = bits div 5
    \<and> (\<forall>e\<in>set es. e < 32) \<and> horner 32 es = unat acc mod 2 ^ bits div 2 ^ (bits mod 5)"
  using assms
proof (induction bits arbitrary: ds rule: less_induct)
  case (less bits)
  show ?case
  proof (cases "bits \<ge> 5")
    case True
    define k where "k = bits - 5"
    have k: "bits = k + 5" using True by (simp add: k_def)
    define e where "e = unat acc div 2 ^ k mod 32"
    have "unat (drop_bit k acc AND 0x1F) = e"
      by (simp only: e_def unat_and_mask_eq5 unat_drop_bit_div)
    then have step: "emit_loop acc bits (map crock ds) = emit_loop acc k (map crock (ds @ [e]))"
      using less.prems unfolding k by (subst emit_loop.simps) simp
    obtain es where es: "emit_loop acc k (map crock (ds @ [e])) = (k mod 5, map crock ((ds @ [e]) @ es))" "length es = k div 5"
      "\<forall>e\<in>set es. e < 32" "horner 32 es = unat acc mod 2 ^ k div 2 ^ (k mod 5)"
      using less.IH [of k "ds @ [e]"] less.prems k by auto
    have "(2::nat) ^ k = 2 ^ (k mod 5) * 32 ^ (k div 5)"
      using power_add [of "2::nat" "k mod 5" "5 * (k div 5)"] power_mult [of "2::nat" 5 "k div 5"] by simp
    then have "e * 2 ^ k + unat acc mod 2 ^ k = 2 ^ (k mod 5) * (e * 32 ^ (k div 5)) + unat acc mod 2 ^ k" by simp
    then have "(e * 2 ^ k + unat acc mod 2 ^ k) div 2 ^ (k mod 5) = e * 32 ^ (k div 5) + horner 32 es"
      unfolding es(4) by (simp only: div_mult_self4 [OF power_not_zero [OF zero_neq_numeral [symmetric]]])
    then have "horner 32 (e # es) = unat acc mod 2 ^ bits div 2 ^ (k mod 5)"
      using split_high [of "unat acc" k] by (simp add: k e_def es(2))
    then show ?thesis
      using step es by (intro exI [of _ "e # es"]) (simp add: k e_def)
  next
    case False
    then show ?thesis by (intro exI [of _ "[]"]) (simp add: emit_loop.simps)
  qed
qed

lemma byte_window:
  fixes acc :: "32 word" and b :: "8 word"
  assumes "bits < 5"
  shows "unat (push_bit 8 acc OR ucast b) mod 2 ^ (bits + 8) = (unat acc mod 2 ^ bits) * 256 + unat b"
proof -
  have "push_bit 8 acc AND (ucast b :: 32 word) = 0"
    by (intro bit_eqI) (auto simp: bit_simps dest: bit_imp_le_length)
  then have "push_bit 8 acc OR ucast b = push_bit 8 acc + ucast b" by (simp add: disjunctive_add_eq_or)
  also have "\<dots> = word_of_nat (unat acc * 256 + unat b)" by (simp add: push_bit_eq_mult)
  finally have "push_bit 8 acc OR ucast b = word_of_nat (unat acc * 256 + unat b)" .
  moreover have "unat (word_of_nat n :: 32 word) = n mod 2 ^ 32" for n by (simp add: unsigned_of_nat take_bit_eq_mod)
  ultimately have "unat (push_bit 8 acc OR ucast b) = (unat acc * 256 + unat b) mod 2 ^ 32" by (simp only:)
  moreover have "(2::nat) ^ (bits + 8) dvd 2 ^ 32" using assms by (intro le_imp_power_dvd) simp
  ultimately have "unat (push_bit 8 acc OR ucast b) mod 2 ^ (bits + 8) = (unat acc * 256 + unat b) mod (256 * 2 ^ bits)"
    by (simp add: mod_mod_cancel power_add mult.commute)
  also have "\<dots> = 256 * ((unat acc * 256 + unat b) div 256 mod 2 ^ bits) + (unat acc * 256 + unat b) mod 256"
    by (rule mod_mult2_eq)
  also have "\<dots> = (unat acc mod 2 ^ bits) * 256 + unat b"
    using unsigned_less [of b, where ?'a = nat] by simp
  finally show ?thesis .
qed

lemma encode_loop_spec:
  assumes "unat acc mod 2 ^ bits = N mod 2 ^ bits" "horner 32 ds = N div 2 ^ bits" "bits < 5" "\<forall>d\<in>set ds. d < 32"
    "5 * length ds + bits + 8 * length bs \<le> 130"
  shows "\<exists>acc' ds'. encode_loop bs acc bits (map crock ds) = (acc', map crock ds') \<and> (\<forall>d\<in>set ds'. d < 32)
    \<and> length ds' = (5 * length ds + bits + 8 * length bs) div 5
    \<and> horner 32 ds' = (N * 256 ^ length bs + horner 256 (map unat bs)) div 2 ^ ((bits + 8 * length bs) mod 5)"
  using assms
proof (induction bs arbitrary: acc bits N ds)
  case Nil
  then show ?case by (intro exI [of _ acc] exI [of _ ds]) simp
next
  case (Cons b bs)
  define acc1 where "acc1 = push_bit 8 acc OR ucast b"
  define N1 where "N1 = N * 256 + unat b"
  have fits: "length ds + (bits + 8) div 5 \<le> 26" using Cons.prems(5) by simp
  obtain es where es: "emit_loop acc1 (bits + 8) (map crock ds) = ((bits + 8) mod 5, map crock (ds @ es))" "length es = (bits + 8) div 5"
    "\<forall>e\<in>set es. e < 32" "horner 32 es = unat acc1 mod 2 ^ (bits + 8) div 2 ^ ((bits + 8) mod 5)"
    using emit_loop_spec [of ds "bits + 8" acc1] Cons.prems(5) by (auto simp: fits)
  let ?r = "(bits + 8) mod 5"
  have A: "unat acc1 mod 2 ^ (bits + 8) = (N mod 2 ^ bits) * 256 + unat b"
    unfolding acc1_def byte_window [OF Cons.prems(3)] Cons.prems(1) ..
  have "N * 256 = (N div 2 ^ bits * 2 ^ bits + N mod 2 ^ bits) * 256" by (simp only: div_mult_mod_eq)
  then have N1: "N1 = (N div 2 ^ bits) * 2 ^ (bits + 8) + unat acc1 mod 2 ^ (bits + 8)"
    unfolding A N1_def by (simp add: power_add add_mult_distrib)
  have p: "(2::nat) ^ (bits + 8) = 2 ^ ?r * 32 ^ ((bits + 8) div 5)"
    using power_add [of "2::nat" ?r "5 * ((bits + 8) div 5)"] power_mult [of "2::nat" 5 "(bits + 8) div 5"] by simp
  have N1': "N1 = 2 ^ ?r * (N div 2 ^ bits * 32 ^ ((bits + 8) div 5)) + unat acc1 mod 2 ^ (bits + 8)"
    using N1 by (simp add: p)
  then have "N1 div 2 ^ ?r = N div 2 ^ bits * 32 ^ ((bits + 8) div 5) + horner 32 es"
    unfolding es(4) by (simp only: div_mult_self4 [OF power_not_zero [OF zero_neq_numeral [symmetric]]])
  then have h: "horner 32 (ds @ es) = N1 div 2 ^ ?r" using Cons.prems(2) es(2) by (simp add: horner_append)
  have "(2::nat) ^ ?r dvd 2 ^ (bits + 8)" unfolding p by simp
  then have "N1 mod 2 ^ ?r = unat acc1 mod 2 ^ ?r" unfolding N1' mod_mult_self4 by (rule mod_mod_cancel)
  from Cons.IH [of acc1 ?r N1 "ds @ es"] this h es(2,3) Cons.prems(4,5)
  have "\<exists>acc' ds'. encode_loop bs acc1 ?r (map crock (ds @ es)) = (acc', map crock ds') \<and> (\<forall>d\<in>set ds'. d < 32)
    \<and> length ds' = (5 * length (ds @ es) + ?r + 8 * length bs) div 5
    \<and> horner 32 ds' = (N1 * 256 ^ length bs + horner 256 (map unat bs)) div 2 ^ ((?r + 8 * length bs) mod 5)"
    by auto
  then obtain acc' ds' where ih: "encode_loop bs acc1 ?r (map crock (ds @ es)) = (acc', map crock ds')" "\<forall>d\<in>set ds'. d < 32"
    "length ds' = (5 * length (ds @ es) + ?r + 8 * length bs) div 5"
    "horner 32 ds' = (N1 * 256 ^ length bs + horner 256 (map unat bs)) div 2 ^ ((?r + 8 * length bs) mod 5)"
    by blast
  have "5 * length (ds @ es) + ?r = 5 * length ds + bits + 8" using es(2) by simp
  moreover have "(?r + 8 * length bs) mod 5 = (bits + 8 * length (b # bs)) mod 5" by (simp add: mod_add_left_eq add.assoc)
  moreover have "N1 * 256 ^ length bs + horner 256 (map unat bs) = N * 256 ^ length (b # bs) + horner 256 (map unat (b # bs))"
    by (simp add: N1_def add_mult_distrib)
  ultimately show ?case
    using ih es(1) by (intro exI [of _ acc'] exI [of _ ds']) (simp add: Let_def add.assoc flip: acc1_def)
qed

text \<open>The 25 characters of an id are the base-32 digits of its first 125 bits.\<close>

lemma encode_id_spec:
  assumes "length raw = 16"
  obtains ds where "take 25 (encode_id raw) = map crock ds" "length ds = 25" "\<forall>d\<in>set ds. d < 32"
    "horner 32 ds = horner 256 (map unat raw) div 8"
proof -
  obtain acc ds where d: "encode_loop raw 0 0 (map crock []) = (acc, map crock ds)" "\<forall>d\<in>set ds. d < 32" "length ds = 25"
    "horner 32 ds = horner 256 (map unat raw) div 8"
    using encode_loop_spec [of 0 0 0 "[]" raw] assms by auto
  then show ?thesis using that [of ds] by (simp add: encode_id_def)
qed

lemma crockford_ascending: "i < j \<Longrightarrow> j < 32 \<Longrightarrow> crock i < crock j"
proof -
  have "sorted_wrt (<) crockford" "length crockford = 32" by code_simp+
  then show "i < j \<Longrightarrow> j < 32 \<Longrightarrow> crock i < crock j" by (simp add: sorted_wrt_iff_nth_less)
qed

lemma digits_ascending:
  "length ds = length es \<Longrightarrow> \<forall>d\<in>set ds. d < 32 \<Longrightarrow> \<forall>e\<in>set es. e < 32 \<Longrightarrow> horner 32 ds < horner 32 es
    \<Longrightarrow> map crock ds < map crock es"
proof (induction ds es rule: list_induct2)
  case (Cons d ds e es)
  have b: "horner 32 ds < 32 ^ length es" "horner 32 es < 32 ^ length es"
    using horner_bound [of ds 32] horner_bound [of es 32] Cons by simp_all
  have "d \<le> e"
  proof (rule ccontr)
    assume "\<not> d \<le> e"
    then have "(e + 1) * 32 ^ length es \<le> d * 32 ^ length es" by (intro mult_le_mono1) simp
    then show False using Cons.prems(3) Cons.hyps b by simp
  qed
  then show ?case
    using Cons crockford_ascending [of d e] by (cases "d = e") simp_all
qed simp


lemma length_be_bytes [simp]: "length (be_bytes n x) = n"
  by (simp add: be_bytes_def)

lemma be_bytes_value: "n \<le> 8 \<Longrightarrow> horner 256 (map unat (be_bytes n x)) = unat x mod 256 ^ n"
proof (induction n arbitrary: x)
  case (Suc n)
  have shift: "8 * (n - i) = 8 * (n - Suc i) + 8" if "i < n" for i using that by simp
  have "be_bytes (Suc n) x = be_bytes n (drop_bit 8 x) @ [ucast x]"
    using shift by (simp add: be_bytes_def drop_bit_drop_bit)
  then have "horner 256 (map unat (be_bytes (Suc n) x)) = (unat (drop_bit 8 x) mod 256 ^ n) * 256 + unat (ucast x :: 8 word)"
    using Suc by (simp add: horner_append)
  also have "unat (ucast x :: 8 word) = unat x mod 256" by (simp add: unsigned_ucast_eq take_bit_eq_mod)
  also have "unat (drop_bit 8 x) = unat x div 256" unfolding unat_drop_bit_eq by (simp add: drop_bit_eq_div)
  finally show ?case using mod_mult2_eq [of "unat x" 256 "256 ^ n"] by (simp add: mult.commute)
qed (simp add: be_bytes_def)

lemma session_raw_value:
  assumes "length (fst rnd) = 10" "0 \<le> UnixMilli now" "UnixMilli now < 2 ^ 48"
  shows "length (session_raw now rnd) = 16"
    "\<exists>rest < 256 ^ 10. horner 256 (map unat (session_raw now rnd)) = nat (UnixMilli now) * 256 ^ 10 + rest"
proof -
  let ?tail = "if snd rnd then fst rnd else take 2 (fst rnd) @ be_bytes 8 (word_of_int (instant now))"
  have byte_less: "unat b < 256" for b :: "8 word" using unsigned_less [of b, where ?'a = nat] by simp
  have tail: "length ?tail = 10" using assms(1) by simp
  then show "length (session_raw now rnd) = 16" by (simp add: session_raw_def)
  have "unat (word_of_int (UnixMilli now) :: u64) = nat (UnixMilli now)"
    using assms(2,3) take_bit_int_eq_self [of "UnixMilli now" 64] by (simp add: unsigned_of_int)
  moreover have "nat (UnixMilli now) < 256 ^ 6" using assms(2,3) by simp
  ultimately have hd6: "horner 256 (map unat (be_bytes 6 (word_of_int (UnixMilli now) :: u64))) = nat (UnixMilli now)"
    by (simp add: be_bytes_value)
  have lt: "horner 256 (map unat ?tail) < 256 ^ length (map unat ?tail)"
    using byte_less by (intro horner_bound) auto
  show "\<exists>rest < 256 ^ 10. horner 256 (map unat (session_raw now rnd)) = nat (UnixMilli now) * 256 ^ 10 + rest"
  proof (intro exI conjI)
    show "horner 256 (map unat ?tail) < 256 ^ 10" using lt unfolding length_map tail .
    show "horner 256 (map unat (session_raw now rnd)) = nat (UnixMilli now) * 256 ^ 10 + horner 256 (map unat ?tail)"
      unfolding session_raw_def map_append horner_append length_map tail hd6 ..
  qed
qed

text \<open>
  C33. Session ids sort by connection time: of two sessions that connect in different milliseconds, the earlier one has the
  smaller id in the order of strings, whatever the random bytes and whether the random source works; and
  every id is the prefix and 25 characters.
\<close>

theorem newSessionID_sorts:
  assumes "length (fst rnd) = 10" "length (fst rnd') = 10" "0 \<le> UnixMilli now" "UnixMilli now < UnixMilli now'" "UnixMilli now' < 2 ^ 48"
  shows "fst (newSessionID now rnd) < fst (newSessionID now' rnd') \<and> length (fst (newSessionID now rnd)) = 30"
proof -
  have b: "UnixMilli now < 2 ^ 48" "0 \<le> UnixMilli now'" using assms(3-5) by simp_all
  note r = session_raw_value [OF assms(1,3) b(1)] and r' = session_raw_value [OF assms(2) b(2) assms(5)]
  obtain ds where d: "take 25 (encode_id (session_raw now rnd)) = map crock ds" "length ds = 25" "\<forall>d\<in>set ds. d < 32"
    "horner 32 ds = horner 256 (map unat (session_raw now rnd)) div 8"
    by (rule encode_id_spec [OF r(1)])
  obtain es where e: "take 25 (encode_id (session_raw now' rnd')) = map crock es" "length es = 25" "\<forall>d\<in>set es. d < 32"
    "horner 32 es = horner 256 (map unat (session_raw now' rnd')) div 8"
    by (rule encode_id_spec [OF r'(1)])
  have lt: "nat (UnixMilli now) + 1 \<le> nat (UnixMilli now')" using assms(3,4) by simp
  from r(2) r'(2) obtain x y where xy: "x < 256 ^ 10" "horner 256 (map unat (session_raw now rnd)) = nat (UnixMilli now) * 256 ^ 10 + x"
    "horner 256 (map unat (session_raw now' rnd')) = nat (UnixMilli now') * 256 ^ 10 + y" by blast
  have "nat (UnixMilli now) * 256 ^ 10 + x < ((nat (UnixMilli now) + 1) * 2 ^ 77) * 8" using xy(1) by simp
  then have "horner 32 ds < (nat (UnixMilli now) + 1) * 2 ^ 77" unfolding d(4) xy(2) by (rule less_mult_imp_div_less)
  also have "\<dots> \<le> nat (UnixMilli now') * 2 ^ 77" using lt by (rule mult_le_mono1)
  also have "\<dots> = (nat (UnixMilli now') * 256 ^ 10) div 8" by simp
  also have "\<dots> \<le> horner 32 es" unfolding e(4) xy(3) by (intro div_le_mono) simp
  finally have "horner 32 ds < horner 32 es" .
  then have "map crock ds < map crock es" using d e by (intro digits_ascending) simp_all
  then show ?thesis using d(1,2) e(1) by (simp add: newSessionID_def Let_def)
qed


theorem newSessionID_sorts_witness:
  "fst (newSessionID \<lparr>instant = 10 ^ 6, zone = UTC\<rparr> (replicate 10 255, True)) < fst (newSessionID \<lparr>instant = 2 * 10 ^ 6, zone = UTC\<rparr> (replicate 10 0, False))"
  using newSessionID_sorts [of "(replicate 10 255, True)" "(replicate 10 0, False)" "\<lparr>instant = 10 ^ 6, zone = UTC\<rparr>" "\<lparr>instant = 2 * 10 ^ 6, zone = UTC\<rparr>"]
  by (simp add: UnixMilli_def)


section \<open>The registry of sessions\<close>

text \<open>A run: what the transport, the sessions and the debug controls do. A session's own steps
  replace its state.\<close>

datatype manager_event =
    Connect gotime "8 word list \<times> bool" "string \<Rightarrow> Bus"
  | Disconnect string
  | Hello string
  | SessionMoves string Session
  | DropOne string string
  | Faults string FaultConfig
  | CloseEvery string

definition manager_step :: "manager_event \<Rightarrow> Manager \<Rightarrow> Manager" where
  "manager_step ev m =
     (case ev of
        Connect now rnd buses \<Rightarrow> fst (Register now rnd buses m)
      | Disconnect sid \<Rightarrow> fst (Unregister sid m)
      | Hello d \<Rightarrow> NotifyHello d m
      | SessionMoves sid s \<Rightarrow> if sid \<in> fst ` set (mg_sessions m) then m\<lparr>mg_sessions := AList.update sid s (mg_sessions m)\<rparr> else m
      | DropOne sid r \<Rightarrow> fst (Manager_Drop sid r m)
      | Faults sid f \<Rightarrow> fst (Manager_ApplyFaults sid f m)
      | CloseEvery r \<Rightarrow> CloseAll r m)"

fun fresh_ids :: "manager_event list \<Rightarrow> Manager \<Rightarrow> bool" where
  "fresh_ids [] m = True"
| "fresh_ids (ev # evs) m =
     ((case ev of Connect now rnd buses \<Rightarrow> fst (newSessionID now rnd) \<notin> fst ` set (mg_sessions m) | _ \<Rightarrow> True)
      \<and> fresh_ids evs (manager_step ev m))"

fun device_of :: "manager_event \<Rightarrow> string list" where
  "device_of (Hello d) = (if d = [] then [] else [d])"
| "device_of _ = []"

definition devices :: "manager_event list \<Rightarrow> string list" where
  "devices evs = concat (map device_of evs)"

fun is_Connect :: "manager_event \<Rightarrow> bool" where
  "is_Connect (Connect now rnd buses) = True"
| "is_Connect _ = False"

definition manager_inv :: "nat \<Rightarrow> string list \<Rightarrow> Manager \<Rightarrow> bool" where
  "manager_inv n ds m \<longleftrightarrow> distinct (map fst (mg_sessions m)) \<and> mg_activeSessions m = int (Manager_Count m) \<and> mg_totalSessions m = int n
     \<and> Manager_Count m \<le> n \<and> mg_deviceSeen m = set ds \<and> mg_reconnects m = int (length ds - card (set ds))"

lemma update_same_keys: "k \<in> fst ` set al \<Longrightarrow> map fst (AList.update k v al) = map fst al"
  by (induction al) auto

lemma length_update_same: "k \<in> fst ` set al \<Longrightarrow> length (AList.update k v al) = length al"
  by (metis length_map update_same_keys)

lemma length_update_fresh: "k \<notin> fst ` set al \<Longrightarrow> length (AList.update k v al) = Suc (length al)"
  by (induction al) auto

lemma length_delete: "distinct (map fst al) \<Longrightarrow> k \<in> fst ` set al \<Longrightarrow> Suc (length (AList.delete k al)) = length al"
proof (induction al)
  case (Cons a al)
  show ?case
  proof (cases "fst a = k")
    case True
    then have "AList.delete k al = al" using Cons.prems(1) by (auto simp: AList.delete_eq filter_id_conv rev_image_eqI)
    then show ?thesis using True by (cases a) (simp add: AList.delete_eq)
  next
    case False
    then show ?thesis using Cons by (cases a) (simp add: AList.delete_eq)
  qed
qed simp

lemma manager_step_inv:
  assumes "manager_inv n ds m" "fresh_ids [ev] m"
  shows "manager_inv (n + (if is_Connect ev then 1 else 0)) (ds @ device_of ev) (manager_step ev m)"
proof -
  have upd: "manager_inv n ds (m\<lparr>mg_sessions := AList.update sid s (mg_sessions m)\<rparr>)" if "sid \<in> fst ` set (mg_sessions m)" for sid s
    using assms(1) that by (simp add: manager_inv_def Manager_Count_def update_same_keys length_update_same)
  have known: "sid \<in> fst ` set (mg_sessions m)" if "map_of (mg_sessions m) sid = Some s" for sid s
    using map_of_SomeD [OF that] by force
  have le: "card (set ds) \<le> length ds" by (rule card_length)
  show ?thesis
  proof (cases ev)
    case (Connect now rnd buses)
    then show ?thesis
      using assms by (simp add: manager_step_def manager_inv_def Register_def Let_def Manager_Count_def length_update_fresh distinct_update)
  next
    case (Disconnect sid)
    show ?thesis
    proof (cases "map_of (mg_sessions m) sid")
      case (Some s)
      then have "Suc (length (AList.delete sid (mg_sessions m))) = length (mg_sessions m)"
        using assms(1) known by (intro length_delete) (auto simp: manager_inv_def)
      then show ?thesis
        using assms(1) Some Disconnect by (auto simp: manager_step_def manager_inv_def Unregister_def Manager_Count_def distinct_delete)
    qed (use assms Disconnect in \<open>simp add: manager_step_def Unregister_def\<close>)
  next
    case (Hello d)
    then show ?thesis
      using assms le by (auto simp: manager_step_def manager_inv_def NotifyHello_def Manager_Count_def insert_absorb Suc_diff_le)
  next
    case (CloseEvery r)
    then show ?thesis
      using assms by (auto simp: manager_step_def manager_inv_def CloseAll_def Manager_Count_def comp_def case_prod_beta)
  qed (use assms upd known in \<open>auto simp: manager_step_def Manager_Drop_def Manager_ApplyFaults_def Manager_Session_def split: option.split\<close>)
qed

lemma manager_run_inv:
  "manager_inv n ds m \<Longrightarrow> fresh_ids evs m \<Longrightarrow> manager_inv (n + length (filter is_Connect evs)) (ds @ devices evs) (fold manager_step evs m)"
proof (induction evs arbitrary: n ds m)
  case (Cons ev evs)
  have "manager_inv (n + (if is_Connect ev then 1 else 0)) (ds @ device_of ev) (manager_step ev m)"
    using manager_step_inv [OF Cons.prems(1), of ev] Cons.prems(2) by simp
  from Cons.IH [OF this] Cons.prems(2) show ?case by (simp add: devices_def add.assoc split: if_splits)
qed (simp add: devices_def)

lemma TierDistribution_count: "TierDistribution m t = length (filter (\<lambda>p. tier (ss_tierMachine (snd p)) = t) (mg_sessions m))"
proof -
  have "fold (\<lambda>(i, s) n. if tier (ss_tierMachine s) = t then n + 1 else n) xs k = k + length (filter (\<lambda>p. tier (ss_tierMachine (snd p)) = t) xs)" for xs k
    by (induction xs arbitrary: k) (auto simp: case_prod_beta)
  from this [of "mg_sessions m" 0] show ?thesis unfolding TierDistribution_def by simp
qed

text \<open>
  C24. The manager's books are right. In every run in which the ids of new sessions are fresh, whatever the sessions do, the
  registry has one session per id, the active counter is the size of the registry, the total counter is
  the number of connections, the tiers of the sessions add up to the registry's size, and the reconnect
  counter is the number of hellos of devices less the number of different devices.
\<close>

theorem Manager_accounts:
  assumes "fresh_ids evs (NewManager c)"
  shows "let m = fold manager_step evs (NewManager c)
         in distinct (map fst (mg_sessions m)) \<and> mg_activeSessions m = int (Manager_Count m)
            \<and> mg_totalSessions m = int (length (filter is_Connect evs))
            \<and> TierDistribution m TierFull + TierDistribution m TierDegraded + TierDistribution m TierMinimal = Manager_Count m
            \<and> mg_reconnects m = int (length (devices evs) - card (set (devices evs)))"
proof -
  have "manager_inv 0 [] (NewManager c)" by (simp add: manager_inv_def NewManager_def Manager_Count_def)
  from manager_run_inv [OF this assms]
  have i: "manager_inv (length (filter is_Connect evs)) (devices evs) (fold manager_step evs (NewManager c))" by simp
  have "length (filter (\<lambda>p. tier (f p) = TierFull) xs) + length (filter (\<lambda>p. tier (f p) = TierDegraded) xs)
      + length (filter (\<lambda>p. tier (f p) = TierMinimal) xs) = length xs" for f and xs :: "(string \<times> Session) list"
  proof (induction xs)
    case (Cons x xs)
    then show ?case by (cases "tier (f x)") simp_all
  qed simp
  then show ?thesis using i by (simp add: Let_def manager_inv_def TierDistribution_count Manager_Count_def)
qed


definition sampleManagerConfig :: ManagerConfig where
  "sampleManagerConfig =
     \<lparr>mgc_Registry = Some [''BTCUSDT''], mgc_DefaultSymbol = BTCUSDT, mgc_Policy = None, mgc_Logger = True, mgc_DefaultChannels = [],
      mgc_OutboundCapacity = 0, mgc_WriteTimeout = 0, mgc_ClientMsgPerSec = 0, mgc_BookWindow = 0, mgc_HistoryLimit = 0,
      mgc_TradesLimit = 0, mgc_DebugControls = False, mgc_BusCapacity = 0\<rparr>"

theorem Manager_accounts_witness:
  "let m = fold manager_step [Hello ''d'', Connect zeroTime (replicate 10 7, True) (\<lambda>_. NewBus), Hello ''d''] (NewManager sampleManagerConfig)
   in mg_activeSessions m = int (Manager_Count m) \<and> mg_totalSessions m = 1 \<and> mg_reconnects m = 1"
  using Manager_accounts [of "[Hello ''d'', Connect zeroTime (replicate 10 7, True) (\<lambda>_. NewBus), Hello ''d'']" sampleManagerConfig]
  by (simp add: Let_def manager_step_def NotifyHello_def NewManager_def devices_def)

end
