(* ===== verification/Synthetic.thy ===== *)
theory Synthetic
  imports Engine
begin

text \<open>
  \<^verbatim>\<open>internal/exchange/synthetic\<close>: the deterministic market. The generator walks a price around its anchor, the
  provider gives the trades their timestamps, first on a virtual timeline and then from the clock, and
  the ladder is the book an engine starts from.

  The source \<^verbatim>\<open>*rand.Rand\<close> is a stream of draws. The functions of \<^verbatim>\<open>math\<close> are a record: their results are
  floats that the library does not fix to the last bit, so every theorem holds whatever they return.
\<close>

section \<open>The ladder\<close>

record GoMath =
  math_Exp :: "rat \<Rightarrow> rat"
  math_Log :: "rat \<Rightarrow> rat"
  math_Sqrt :: "rat \<Rightarrow> rat"
  math_Sin :: "rat \<Rightarrow> rat"
  math_Cos :: "rat \<Rightarrow> rat"
  math_Pi :: rat

text \<open>\<^verbatim>\<open>math.Round\<close>: to the nearest integer, half away from zero.\<close>

definition math_Round :: "rat \<Rightarrow> rat" where
  "math_Round x = (if x < 0 then - of_int \<lfloor>1 / 2 - x\<rfloor> else of_int \<lfloor>x + 1 / 2\<rfloor>)"

record LadderConfig =
  lc_Levels :: int
  lc_HalfSpreadTicks :: int
  lc_MinQuantity :: rat
  lc_MaxQuantity :: rat

definition DefaultLadderConfig :: "int \<Rightarrow> LadderConfig" where
  "DefaultLadderConfig levels =
     \<lparr>lc_Levels = (if levels < 20 then 100 else levels), lc_HalfSpreadTicks = 2,
      lc_MinQuantity = round64 (2 / 100), lc_MaxQuantity = 50\<rparr>"

definition levelSize :: "GoMath \<Rightarrow> Symbol \<Rightarrow> nat \<Rightarrow> LadderConfig \<Rightarrow> Rand \<Rightarrow> qty \<times> Rand" where
  "levelSize gm symb depth cfg r =
     (let (f, r1) = Rand_Float64 r;
          base = f64_mul (lc_MinQuantity cfg) (math_Exp gm (f64_div (f64_of_int (int depth)) 25));
          noise = math_Exp gm (f64_mul (f64_sub (f64_mul f 2) 1) (round64 (6 / 10)));
          q = f64_mul base noise;
          q = (if q < lc_MinQuantity cfg then lc_MinQuantity cfg else q);
          q = (if q > lc_MaxQuantity cfg then lc_MaxQuantity cfg else q);
          scaled = f64_to_i64 (math_Round (f64_mul q (f64_of_int (QtyScale symb))))
      in (if scaled < 1 then 1 else scaled, r1))"

text \<open>The loop over the levels: \<open>n\<close> rounds are left, \<open>i\<close> is the index.\<close>

fun ladder_loop :: "GoMath \<Rightarrow> Symbol \<Rightarrow> LadderConfig \<Rightarrow> price \<Rightarrow> price \<Rightarrow> nat \<Rightarrow> nat \<Rightarrow> int \<Rightarrow> Rand
    \<Rightarrow> Level list \<times> Level list \<times> Rand" where
  "ladder_loop gm symb cfg bestBid bestAsk 0 i gap r = ([], [], r)"
| "ladder_loop gm symb cfg bestBid bestAsk (Suc n) i gap r =
     (let (k, r1) = IntN 2 r;
          gap1 = gap + (1 + int k);
          bp = wrap64 (bestBid - gap1);
          ap = wrap64 (bestAsk + gap1);
          bp = (if bp \<le> 0 then wrap64 (1 + (lc_Levels cfg - int i)) else bp);
          (qb, r2) = levelSize gm symb i cfg r1;
          (qa, r3) = levelSize gm symb i cfg r2;
          (bids, asks, r4) = ladder_loop gm symb cfg bestBid bestAsk n (Suc i) gap1 r3
      in (\<lparr>lv_Price = bp, lv_Quantity = qb\<rparr> # bids, \<lparr>lv_Price = ap, lv_Quantity = qa\<rparr> # asks, r4))"

definition BuildLadder :: "GoMath \<Rightarrow> Symbol \<Rightarrow> price \<Rightarrow> LadderConfig \<Rightarrow> Rand \<Rightarrow> Level list \<times> Level list \<times> Rand" where
  "BuildLadder gm symb mid cfg0 r =
     (let cfg = (if lc_Levels cfg0 \<le> 0 then DefaultLadderConfig (lc_Levels cfg0) else cfg0);
          half = (if lc_HalfSpreadTicks cfg < 1 then 1 else lc_HalfSpreadTicks cfg);
          bestBid = wrap64 (mid - half);
          bestAsk = wrap64 (mid + half);
          bestBid = (if bestBid \<le> 0 then 1 else bestBid);
          bestAsk = (if bestAsk \<le> bestBid then wrap64 (bestBid + 1) else bestAsk)
      in ladder_loop gm symb cfg bestBid bestAsk (nat (lc_Levels cfg)) 0 0 r)"


section \<open>The generator\<close>

definition InitialTradeID :: u64 where "InitialTradeID = 1000000"

record Generator =
  gn_symbol :: Symbol
  gn_rng :: Rand
  gn_spare :: rat
  gn_hasSpare :: bool
  gn_anchor :: price
  gn_last :: price
  gn_drift :: int
  gn_residual :: rat
  gn_burstUntil :: int
  gn_bursting :: bool
  gn_side :: Side
  gn_lastDelta :: int
  gn_nextTradeID :: u64
  gn_burstRate :: rat

definition anchorPrice :: "Symbol \<Rightarrow> price" where
  "anchorPrice symb = (case SeedPrice (sym_ID symb) of Some p \<Rightarrow> p | None \<Rightarrow> wrap64 (PriceScale symb * 100))"

definition NewGenerator :: "Symbol \<Rightarrow> rat \<Rightarrow> Rand \<Rightarrow> Generator" where
  "NewGenerator symb burstRate rng =
     \<lparr>gn_symbol = symb, gn_rng = rng, gn_spare = 0, gn_hasSpare = False, gn_anchor = anchorPrice symb,
      gn_last = anchorPrice symb, gn_drift = 0, gn_residual = 0, gn_burstUntil = 0, gn_bursting = False,
      gn_side = SideBuy, gn_lastDelta = 0, gn_nextTradeID = InitialTradeID,
      gn_burstRate = (if burstRate \<le> 0 then 4 else burstRate)\<rparr>"

definition gn_Float64 :: "Generator \<Rightarrow> rat \<times> Generator" where
  "gn_Float64 g = (case Rand_Float64 (gn_rng g) of (f, r) \<Rightarrow> (f, g\<lparr>gn_rng := r\<rparr>))"

text \<open>The Box-Muller sampler, with its spare value.\<close>

definition gaussian_next :: "GoMath \<Rightarrow> Generator \<Rightarrow> rat \<times> Generator" where
  "gaussian_next gm g =
     (if gn_hasSpare g then (gn_spare g, g\<lparr>gn_hasSpare := False\<rparr>)
      else
        let (u1, g1) = gn_Float64 g;
            u1 = (if u1 < round64 (1 / 10 ^ 12) then round64 (1 / 10 ^ 12) else u1);
            (u2, g2) = gn_Float64 g1;
            r = math_Sqrt gm (f64_mul (- 2) (math_Log gm u1));
            angle = f64_mul (round64 (2 * math_Pi gm)) u2
        in (f64_mul r (math_Cos gm angle), g2\<lparr>gn_spare := f64_mul r (math_Sin gm angle), gn_hasSpare := True\<rparr>))"

definition Generator_ForceBurst :: "gotime \<Rightarrow> int \<Rightarrow> Generator \<Rightarrow> Generator" where
  "Generator_ForceBurst now d g =
     (if d \<le> 0 then g\<lparr>gn_burstUntil := 0\<rparr> else g\<lparr>gn_burstUntil := wrap64 (instant (Time_Add now d))\<rparr>)"

definition stepVolatility :: "gotime \<Rightarrow> Generator \<Rightarrow> Generator" where
  "stepVolatility now g =
     (let g1 = (if gn_burstUntil g \<noteq> 0 \<and> wrap64 (instant now) \<ge> gn_burstUntil g
                then g\<lparr>gn_burstUntil := 0, gn_bursting := False\<rparr> else g)
      in if gn_burstUntil g1 \<noteq> 0 then g1\<lparr>gn_bursting := True\<rparr>
         else let (f, g2) = gn_Float64 g1
              in if gn_bursting g2 then (if f < round64 (995 / 1000) then g2 else g2\<lparr>gn_bursting := False\<rparr>)
                 else if f < round64 (5 / 1000) then g2\<lparr>gn_bursting := True\<rparr> else g2)"

definition Generator_clamp :: "Generator \<Rightarrow> price \<Rightarrow> price" where
  "Generator_clamp g p =
     (let deviation = wrap64 (gn_anchor g * 1500) sdiv 10000;
          lo = wrap64 (gn_anchor g - deviation);
          hi = wrap64 (gn_anchor g + deviation)
      in if p < lo then lo else if p > hi then hi else p)"

definition sideForDelta :: "int \<Rightarrow> Generator \<Rightarrow> Side \<times> Generator" where
  "sideForDelta delta g =
     (if delta > 0 then (SideBuy, g\<lparr>gn_lastDelta := 1\<rparr>)
      else if delta < 0 then (SideSell, g\<lparr>gn_lastDelta := -1\<rparr>)
      else
        let (f, g1) = gn_Float64 g;
            g2 = (if f < 1 / 2 then g1\<lparr>gn_lastDelta := - gn_lastDelta g1\<rparr> else g1)
        in (if gn_lastDelta g2 \<ge> 0 then SideBuy else SideSell, g2))"

definition Generator_quantity :: "GoMath \<Rightarrow> Generator \<Rightarrow> qty \<times> Generator" where
  "Generator_quantity gm g =
     (let (z, g1) = gaussian_next gm g;
          raw = f64_mul (round64 (5 / 100)) (math_Exp gm (f64_mul z (round64 (9 / 10))));
          raw = (if raw < round64 (1 / 10000) then round64 (1 / 10000) else raw);
          raw = (if raw > 5 then 5 else raw);
          scaled = f64_to_i64 (math_Round (f64_mul raw (f64_of_int (QtyScale (gn_symbol g)))))
      in (if scaled < 1 then 1 else scaled, g1))"

text \<open>The next price: mean reversion and the random part, whose fraction of a tick is carried on.\<close>

definition next_price :: "GoMath \<Rightarrow> Generator \<Rightarrow> price \<times> Generator" where
  "next_price gm g =
     (let sigma0 = f64_mul (round64 (1 / 100000)) (f64_of_int (gn_anchor g));
          sigma = (if gn_bursting g then f64_mul sigma0 (gn_burstRate g) else sigma0);
          drift = wrap64 (wrap64 (gn_drift g * 4095) + wrap64 (gn_anchor g - gn_last g)) sdiv 4096;
          (z, g1) = gaussian_next gm g;
          residual = f64_add (gn_residual g) (f64_mul z sigma);
          gaussianStep = f64_to_i64 (math_Round residual);
          step = wrap64 (gaussianStep + drift sdiv 64)
      in (Generator_clamp g (wrap64 (gn_last g + step)),
          g1\<lparr>gn_drift := drift, gn_residual := f64_sub residual (f64_of_int gaussianStep)\<rparr>))"

definition Generator_Next :: "GoMath \<Rightarrow> gotime \<Rightarrow> Generator \<Rightarrow> Trade \<times> Generator" where
  "Generator_Next gm ts g =
     (let g1 = stepVolatility ts g;
          (p, g2) = next_price gm g1;
          (side, g3) = sideForDelta (wrap64 (p - gn_last g2)) g2;
          (q, g4) = Generator_quantity gm (g3\<lparr>gn_last := p, gn_side := side\<rparr>)
      in (\<lparr>tr_ID = gn_nextTradeID g4, tr_Symbol = sym_ID (gn_symbol g4), tr_Timestamp = to_utc ts, tr_Price = p,
           tr_Quantity = q, tr_Side = side\<rparr>, g4\<lparr>gn_nextTradeID := gn_nextTradeID g4 + 1\<rparr>))"


section \<open>The provider\<close>

record SynthConfig =
  sy_Symbol :: Symbol
  sy_TradesPerSecond :: rat
  sy_WarmupSpan :: int
  sy_WarmupMaxEvents :: int
  sy_VolatilityBurstRate :: rat
  sy_BookLevels :: int
  sy_StreamBuffer :: int

definition Synth_withDefaults :: "SynthConfig \<Rightarrow> SynthConfig" where
  "Synth_withDefaults c =
     c\<lparr>sy_TradesPerSecond := (if sy_TradesPerSecond c \<le> 0 then 10 else sy_TradesPerSecond c),
       sy_WarmupSpan := (if sy_WarmupSpan c \<le> 0 then 720 * 3600 * 10 ^ 9 else sy_WarmupSpan c),
       sy_WarmupMaxEvents := (if sy_WarmupMaxEvents c \<le> 0 then 200000 else sy_WarmupMaxEvents c),
       sy_BookLevels := (if sy_BookLevels c \<le> 0 then 100 else sy_BookLevels c),
       sy_StreamBuffer := (if sy_StreamBuffer c \<le> 0 then 256 else sy_StreamBuffer c)\<rparr>"

definition WarmupStep :: "SynthConfig \<Rightarrow> int" where
  "WarmupStep c0 = (let c = Synth_withDefaults c0 in sy_WarmupSpan c sdiv sy_WarmupMaxEvents c)"

record SynthProvider =
  sp_cfg :: SynthConfig
  sp_gen :: Generator
  sp_pace :: Pace
  sp_paused :: bool
  sp_wakeup :: bool
  sp_virtualAt :: gotime
  sp_warmupEnd :: gotime
  sp_emitted :: u64
  sp_streaming :: bool
  sp_bootMid :: price
  sp_bootBids :: "Level list"
  sp_bootAsks :: "Level list"
  sp_ladderRNG :: Rand
  sp_ladderDone :: bool

text \<open>The two sources of draws stand for the two seeded generators.\<close>

definition Synth_New :: "SynthConfig \<Rightarrow> gotime \<Rightarrow> Rand \<Rightarrow> Rand \<Rightarrow> SynthProvider" where
  "Synth_New c0 start rng ladderRNG =
     (let c = Synth_withDefaults c0
      in \<lparr>sp_cfg = c, sp_gen = NewGenerator (sy_Symbol c) (sy_VolatilityBurstRate c) rng, sp_pace = PaceFast,
          sp_paused = False, sp_wakeup = False, sp_virtualAt = Time_Add start (- sy_WarmupSpan c), sp_warmupEnd = start,
          sp_emitted = 0, sp_streaming = False, sp_bootMid = 0, sp_bootBids = [], sp_bootAsks = [],
          sp_ladderRNG = ladderRNG, sp_ladderDone = False\<rparr>)"

definition Synth_SetPace :: "Pace \<Rightarrow> SynthProvider \<Rightarrow> SynthProvider" where
  "Synth_SetPace pc p = p\<lparr>sp_pace := pc, sp_wakeup := True\<rparr>"

definition Synth_Pause :: "SynthProvider \<Rightarrow> SynthProvider" where
  "Synth_Pause p = p\<lparr>sp_paused := True\<rparr>"

definition Synth_Resume :: "SynthProvider \<Rightarrow> SynthProvider" where
  "Synth_Resume p = p\<lparr>sp_paused := False, sp_wakeup := True\<rparr>"

definition Synth_ForceBurst :: "gotime \<Rightarrow> int \<Rightarrow> SynthProvider \<Rightarrow> SynthProvider" where
  "Synth_ForceBurst now d p = p\<lparr>sp_gen := Generator_ForceBurst now d (sp_gen p)\<rparr>"

datatype exchange_error = ErrSymbolMismatch | ErrAlreadyStreaming | ErrProviderContext | ErrInvalidFixture

definition Synth_Snapshot ::
  "GoMath \<Rightarrow> bool \<Rightarrow> string \<Rightarrow> gotime \<Rightarrow> SynthProvider \<Rightarrow> SynthProvider \<times> (exchange_error + OrderBookSnapshot)" where
  "Synth_Snapshot gm cancelled symbol now p =
     (if cancelled then (p, Inl ErrProviderContext)
      else if symbol \<noteq> sym_ID (sy_Symbol (sp_cfg p)) then (p, Inl ErrSymbolMismatch)
      else
        let p1 = (if sp_ladderDone p then p
                  else let mid = gn_last (sp_gen p);
                           (bids, asks, r) = BuildLadder gm (sy_Symbol (sp_cfg p)) mid
                             (DefaultLadderConfig (sy_BookLevels (sp_cfg p))) (sp_ladderRNG p)
                       in p\<lparr>sp_bootMid := mid, sp_bootBids := bids, sp_bootAsks := asks, sp_ladderRNG := r, sp_ladderDone := True\<rparr>)
        in (p1, Inr \<lparr>ob_Symbol = sym_ID (sy_Symbol (sp_cfg p1)), ob_Epoch = 0, ob_UpdateID = 0, ob_Bids = sp_bootBids p1,
                     ob_Asks = sp_bootAsks p1, ob_ServerTime = now\<rparr>))"

definition Synth_Stream :: "string \<Rightarrow> SynthProvider \<Rightarrow> SynthProvider \<times> exchange_error option" where
  "Synth_Stream symbol p =
     (if symbol \<noteq> sym_ID (sy_Symbol (sp_cfg p)) then (p, Some ErrSymbolMismatch)
      else if sp_streaming p then (p, Some ErrAlreadyStreaming)
      else (p\<lparr>sp_streaming := True\<rparr>, None))"

definition nextInterval :: "SynthProvider \<Rightarrow> int \<times> SynthProvider" where
  "nextInterval p =
     (let mean = f64_to_i64 (f64_div (10 ^ 9) (sy_TradesPerSecond (sp_cfg p)));
          mean = (if mean \<le> 0 then 100 * 10 ^ 6 else mean);
          (f, g) = gn_Float64 (sp_gen p);
          factor = f64_add (round64 (4 / 10)) (f64_mul (round64 (12 / 10)) f);
          d = f64_to_i64 (f64_mul (f64_of_int mean) factor)
      in (if d < 10 ^ 6 then 10 ^ 6 else d, p\<lparr>sp_gen := g\<rparr>))"

text \<open>One round of the loop of \<^verbatim>\<open>waitForTurn\<close>: the case its select takes, and whether the
  loop returns.\<close>

datatype wait_case = WaitDone | WaitTimer | WaitWakeup

definition wait_round :: "wait_case \<Rightarrow> SynthProvider \<Rightarrow> bool option \<times> SynthProvider" where
  "wait_round w p =
     (if \<not> sp_paused p then
        (if sp_pace p = PaceFast then (Some True, p)
         else let p1 = snd (nextInterval p)
              in case w of WaitDone \<Rightarrow> (Some False, p1) | WaitTimer \<Rightarrow> (Some True, p1)
                 | WaitWakeup \<Rightarrow> (None, p1\<lparr>sp_wakeup := False\<rparr>))
      else (case w of WaitDone \<Rightarrow> (Some False, p) | WaitTimer \<Rightarrow> (None, p) | WaitWakeup \<Rightarrow> (None, p\<lparr>sp_wakeup := False\<rparr>)))"

definition nextTimestamp :: "gotime \<Rightarrow> SynthProvider \<Rightarrow> gotime \<times> SynthProvider" where
  "nextTimestamp now p =
     (if sp_pace p = PaceFast then
        (if \<not> Time_Before (sp_virtualAt p) (sp_warmupEnd p) then (sp_warmupEnd p, p)
         else (sp_virtualAt p, p\<lparr>sp_virtualAt := Time_Add (sp_virtualAt p) (WarmupStep (sp_cfg p))\<rparr>))
      else (now, p))"

text \<open>The rest of a round of \<^verbatim>\<open>run\<close>: the trade that is sent, if the context has not ended.\<close>

definition produce :: "GoMath \<Rightarrow> gotime \<Rightarrow> SynthProvider \<Rightarrow> Trade \<times> SynthProvider" where
  "produce gm now p =
     (let (ts, p1) = nextTimestamp now p; (t, g) = Generator_Next gm ts (sp_gen p1)
      in (t, p1\<lparr>sp_gen := g, sp_emitted := sp_emitted p1 + 1\<rparr>))"

text \<open>What happens to a provider: a round of its loop with the clock's reading, or a call of its controls. The
  list collects the trades it sends.\<close>

datatype provider_input =
    ProviderRound wait_case gotime
  | ProviderPace Pace
  | ProviderPause
  | ProviderResume
  | ProviderBurst gotime int

definition provider_step :: "GoMath \<Rightarrow> provider_input \<Rightarrow> SynthProvider \<times> Trade list \<Rightarrow> SynthProvider \<times> Trade list" where
  "provider_step gm inp = (\<lambda>(p, out).
     (case inp of
        ProviderRound w now \<Rightarrow>
          (case wait_round w p of
             (Some True, p1) \<Rightarrow> (case produce gm now p1 of (t, p2) \<Rightarrow> (p2, out @ [t]))
           | (_, p1) \<Rightarrow> (p1, out))
      | ProviderPace pc \<Rightarrow> (Synth_SetPace pc p, out)
      | ProviderPause \<Rightarrow> (Synth_Pause p, out)
      | ProviderResume \<Rightarrow> (Synth_Resume p, out)
      | ProviderBurst now d \<Rightarrow> (Synth_ForceBurst now d p, out)))"

definition provider_run :: "GoMath \<Rightarrow> provider_input list \<Rightarrow> SynthProvider \<Rightarrow> SynthProvider \<times> Trade list" where
  "provider_run gm inps p = fold (provider_step gm) inps (p, [])"


section \<open>The walk of the generator\<close>

lemma roster_anchor: "symb \<in> set AllSymbols \<Longrightarrow> 0 < anchorPrice symb \<and> anchorPrice symb \<le> 10 ^ 7"
  unfolding AllSymbols_def list.set
  by (elim insertE emptyE; simp add: anchorPrice_def SeedPrice_def seedBy_def)

lemma gn_Float64_frame [simp]: "snd (gn_Float64 g) = g\<lparr>gn_rng := gn_rng (snd (gn_Float64 g))\<rparr>"
  by (cases "Rand_Float64 (gn_rng g)") (simp add: gn_Float64_def)

lemma stepVolatility_frame:
  "gn_symbol (stepVolatility now g) = gn_symbol g \<and> gn_anchor (stepVolatility now g) = gn_anchor g
   \<and> gn_last (stepVolatility now g) = gn_last g \<and> gn_nextTradeID (stepVolatility now g) = gn_nextTradeID g"
  by (auto simp: stepVolatility_def gn_Float64_def Let_def split: prod.split)

lemma gaussian_next_frame:
  assumes "gaussian_next gm g = (z, g')"
  shows "gn_symbol g' = gn_symbol g \<and> gn_anchor g' = gn_anchor g \<and> gn_last g' = gn_last g \<and> gn_nextTradeID g' = gn_nextTradeID g"
  using assms by (auto simp: gaussian_next_def gn_Float64_def Let_def split: prod.splits if_splits)

lemma sideForDelta_frame:
  assumes "sideForDelta d g = (side, g')"
  shows "gn_symbol g' = gn_symbol g \<and> gn_anchor g' = gn_anchor g \<and> gn_last g' = gn_last g \<and> gn_nextTradeID g' = gn_nextTradeID g
    \<and> (d > 0 \<longrightarrow> side = SideBuy) \<and> (d < 0 \<longrightarrow> side = SideSell)"
  using assms by (auto simp: sideForDelta_def gn_Float64_def Let_def split: prod.splits if_splits)

lemma math_Round_mono: "x \<le> y \<Longrightarrow> math_Round x \<le> math_Round y"
proof -
  assume le: "x \<le> y"
  have neg: "math_Round z \<le> 0" if "z < 0" for z using that by (simp add: math_Round_def)
  have pos: "0 \<le> math_Round z" if "\<not> z < 0" for z using that by (simp add: math_Round_def)
  show ?thesis
  proof (cases "x < 0 \<and> \<not> y < 0")
    case True
    then show ?thesis using neg [of x] pos [of y] by linarith
  next
    case False
    have "\<lfloor>1 / 2 - y\<rfloor> \<le> \<lfloor>1 / 2 - x\<rfloor>" "\<lfloor>x + 1 / 2\<rfloor> \<le> \<lfloor>y + 1 / 2\<rfloor>" using le by (intro floor_mono; simp)+
    with False le show ?thesis by (auto simp: math_Round_def)
  qed
qed

lemma f64_to_i64_range:
  assumes "of_int a \<le> x" "x \<le> of_int b" "in_i64 a" "in_i64 b"
  shows "a \<le> f64_to_i64 x \<and> f64_to_i64 x \<le> b"
proof -
  have i: "f64_to_int (of_int n) = n" for n :: int by (simp add: f64_to_int_def floor_minus)
  have "a \<le> f64_to_int x" "f64_to_int x \<le> b"
    using f64_to_int_mono [OF assms(1)] f64_to_int_mono [OF assms(2)] i by simp_all
  then show ?thesis using assms(3,4) by (simp add: f64_to_i64_def in_i64_iff)
qed

text \<open>A clamped float amount of a symbol with eight decimals.\<close>

lemma scaled_range:
  assumes "round64 (1 / 10000) \<le> raw" "raw \<le> 5"
  shows "10000 \<le> f64_to_i64 (math_Round (f64_mul raw (f64_of_int 100000000)))
    \<and> f64_to_i64 (math_Round (f64_mul raw (f64_of_int 100000000))) \<le> 500000000"
proof -
  have e: "f64_of_int 100000000 = 100000000" using f64_of_int_exact [of 100000000] by simp
  have lo: "math_Round (round64 (round64 (1 / 10000) * 100000000)) = 10000" by code_simp
  have hi: "math_Round (round64 (5 * 100000000)) = 500000000" by code_simp
  have "math_Round (round64 (round64 (1 / 10000) * 100000000)) \<le> math_Round (f64_mul raw (f64_of_int 100000000))"
    unfolding f64_mul_def e using assms(1) by (intro math_Round_mono round64_mono) simp
  moreover have "math_Round (f64_mul raw (f64_of_int 100000000)) \<le> math_Round (round64 (5 * 100000000))"
    unfolding f64_mul_def e using assms(2) by (intro math_Round_mono round64_mono) simp
  ultimately show ?thesis using f64_to_i64_range [of 10000 _ 500000000] lo hi by (simp add: in_i64_iff)
qed

lemma Generator_quantity_range:
  assumes "QtyScale (gn_symbol g) = 100000000" "Generator_quantity gm g = (q, g')"
  shows "10000 \<le> q \<and> q \<le> 500000000 \<and> gn_symbol g' = gn_symbol g \<and> gn_anchor g' = gn_anchor g
    \<and> gn_last g' = gn_last g \<and> gn_nextTradeID g' = gn_nextTradeID g"
proof -
  obtain z g1 where z: "gaussian_next gm g = (z, g1)" by force
  define raw where "raw = (let raw0 = f64_mul (round64 (5 / 100)) (math_Exp gm (f64_mul z (round64 (9 / 10))));
    raw1 = (if raw0 < round64 (1 / 10000) then round64 (1 / 10000) else raw0) in if raw1 > 5 then 5 else raw1)"
  have "round64 (1 / 10000) \<le> 5" by code_simp
  then have "round64 (1 / 10000) \<le> raw" "raw \<le> 5" by (auto simp: raw_def Let_def)
  note r = scaled_range [OF this]
  have "q = f64_to_i64 (math_Round (f64_mul raw (f64_of_int 100000000)))" "g' = g1"
    using assms r by (auto simp: Generator_quantity_def z raw_def [unfolded Let_def] Let_def)
  then show ?thesis using r gaussian_next_frame [OF z] by simp
qed

text \<open>The furthest the walk goes from its anchor.\<close>

definition deviation :: "price \<Rightarrow> int" where
  "deviation anchor = anchor * 1500 div 10000"

lemma Generator_clamp_range:
  assumes "0 < gn_anchor g" "gn_anchor g \<le> 10 ^ 7"
  shows "\<bar>Generator_clamp g p - gn_anchor g\<bar> \<le> deviation (gn_anchor g)"
proof -
  have "wrap64 (gn_anchor g * 1500) = gn_anchor g * 1500" using assms by (intro wrap64_id) (simp add: in_i64_iff)
  then have d: "wrap64 (gn_anchor g * 1500) sdiv 10000 = deviation (gn_anchor g)"
    using assms(1) by (simp add: sdiv_nonneg deviation_def)
  have "0 \<le> deviation (gn_anchor g)" "deviation (gn_anchor g) \<le> 10 ^ 7"
    using assms unfolding deviation_def by simp_all
  then show ?thesis using assms unfolding Generator_clamp_def d Let_def by (auto simp: wrap64_id in_i64_iff)
qed

text \<open>A walk of the market: consecutive ids, prices within the band, sizes within theirs, and the side the
  direction of the move.\<close>

fun walk :: "Symbol \<Rightarrow> price \<Rightarrow> u64 \<Rightarrow> Trade list \<Rightarrow> bool" where
  "walk symb prev i [] = True"
| "walk symb prev i (t # ts) =
     (tr_ID t = i \<and> tr_Symbol t = sym_ID symb \<and> \<bar>tr_Price t - anchorPrice symb\<bar> \<le> deviation (anchorPrice symb)
      \<and> 10000 \<le> tr_Quantity t \<and> tr_Quantity t \<le> 500000000
      \<and> (prev < tr_Price t \<longrightarrow> tr_Side t = SideBuy) \<and> (tr_Price t < prev \<longrightarrow> tr_Side t = SideSell)
      \<and> walk symb (tr_Price t) (i + 1) ts)"

definition last_price :: "price \<Rightarrow> Trade list \<Rightarrow> price" where
  "last_price a ts = (if ts = [] then a else tr_Price (last ts))"

lemma walk_snoc:
  "walk symb prev i (ts @ [t]) \<longleftrightarrow> walk symb prev i ts \<and> walk symb (last_price prev ts) (i + of_nat (length ts)) [t]"
  by (induction ts arbitrary: prev i) (auto simp: last_price_def ac_simps)

definition gen_inv :: "Symbol \<Rightarrow> Generator \<Rightarrow> Trade list \<Rightarrow> bool" where
  "gen_inv symb g ts \<longleftrightarrow> gn_symbol g = symb \<and> gn_anchor g = anchorPrice symb \<and> gn_last g = last_price (anchorPrice symb) ts
     \<and> gn_nextTradeID g = InitialTradeID + of_nat (length ts) \<and> walk symb (anchorPrice symb) InitialTradeID ts
     \<and> \<bar>gn_last g - anchorPrice symb\<bar> \<le> deviation (anchorPrice symb)"

lemma next_price_frame:
  assumes "next_price gm g = (p, g')"
  shows "(\<exists>x. p = Generator_clamp g x) \<and> gn_symbol g' = gn_symbol g \<and> gn_anchor g' = gn_anchor g \<and> gn_last g' = gn_last g
    \<and> gn_nextTradeID g' = gn_nextTradeID g"
  using assms gaussian_next_frame [of gm g] by (auto simp: next_price_def Let_def split: prod.splits)

lemma Generator_Next_inv:
  assumes "gen_inv symb g out" "symb \<in> set AllSymbols" "Generator_Next gm ts g = (t, g')"
  shows "gen_inv symb g' (out @ [t]) \<and> tr_Timestamp t = to_utc ts"
proof -
  obtain p g2 where p: "next_price gm (stepVolatility ts g) = (p, g2)" by force
  obtain side g3 where sd: "sideForDelta (wrap64 (p - gn_last g2)) g2 = (side, g3)" by force
  obtain q g4 where q: "Generator_quantity gm (g3\<lparr>gn_last := p, gn_side := side\<rparr>) = (q, g4)" by force
  have t: "t = \<lparr>tr_ID = gn_nextTradeID g4, tr_Symbol = sym_ID (gn_symbol g4), tr_Timestamp = to_utc ts, tr_Price = p,
           tr_Quantity = q, tr_Side = side\<rparr>" "g' = g4\<lparr>gn_nextTradeID := gn_nextTradeID g4 + 1\<rparr>"
    using assms(3) by (simp_all add: Generator_Next_def p sd q)
  note f = stepVolatility_frame [of ts g] next_price_frame [OF p] sideForDelta_frame [OF sd]
  have a: "0 < anchorPrice symb" "anchorPrice symb \<le> 10 ^ 7" using roster_anchor [OF assms(2)] by auto
  have g: "gn_symbol g = symb" "gn_anchor g = anchorPrice symb" using assms(1) by (simp_all add: gen_inv_def)
  have band: "\<bar>p - anchorPrice symb\<bar> \<le> deviation (anchorPrice symb)"
    using f Generator_clamp_range [of "stepVolatility ts g"] a g by auto
  have "deviation (anchorPrice symb) \<le> 10 ^ 7" using a unfolding deviation_def by simp
  then have "in_i64 (p - gn_last g2)" using band assms(1) f a by (auto simp: gen_inv_def in_i64_iff)
  then have w: "wrap64 (p - gn_last g2) = p - gn_last g2" by (rule wrap64_id)
  have "QtyScale (gn_symbol g3) = 100000000" using roster_qty [OF assms(2)] f g by simp
  then have "10000 \<le> q \<and> q \<le> 500000000 \<and> gn_symbol g4 = gn_symbol g3 \<and> gn_anchor g4 = gn_anchor g3 \<and> gn_last g4 = p
      \<and> gn_nextTradeID g4 = gn_nextTradeID g3"
    using Generator_quantity_range [OF _ q] by simp
  then show ?thesis
    using assms(1) f band w t by (auto simp: gen_inv_def walk_snoc last_price_def)
qed


section \<open>The provider's trades\<close>

text \<open>Everything a step does to the generator besides producing a trade leaves the walk alone.\<close>

lemma gen_inv_frame:
  assumes "gen_inv symb g ts" "gn_symbol g' = gn_symbol g" "gn_anchor g' = gn_anchor g" "gn_last g' = gn_last g"
    "gn_nextTradeID g' = gn_nextTradeID g"
  shows "gen_inv symb g' ts"
  using assms unfolding gen_inv_def by metis

lemma wait_round_frame:
  assumes "wait_round w p = (go, p')"
  obtains r wk where "p' = p\<lparr>sp_gen := (sp_gen p)\<lparr>gn_rng := r\<rparr>, sp_wakeup := wk\<rparr>"
proof -
  obtain f r where r: "Rand_Float64 (gn_rng (sp_gen p)) = (f, r)" by force
  have n: "snd (nextInterval p) = p\<lparr>sp_gen := (sp_gen p)\<lparr>gn_rng := r\<rparr>\<rparr>" by (simp add: nextInterval_def gn_Float64_def r Let_def)
  let ?n = "p\<lparr>sp_gen := (sp_gen p)\<lparr>gn_rng := r\<rparr>\<rparr>"
  consider "p' = p" | "p' = p\<lparr>sp_wakeup := False\<rparr>" | "p' = ?n" | "p' = ?n\<lparr>sp_wakeup := False\<rparr>"
    using assms unfolding wait_round_def Let_def n by (auto split: if_splits wait_case.splits)
  then show ?thesis
  proof cases
    case 1
    then show ?thesis using that [of "sp_wakeup p" "gn_rng (sp_gen p)"] by simp
  next
    case 2
    then show ?thesis using that [of False "gn_rng (sp_gen p)"] by simp
  next
    case 3
    then show ?thesis using that [of "sp_wakeup p" r] by simp
  next
    case 4
    then show ?thesis using that [of False r] by simp
  qed
qed

lemma wait_round_go: "wait_round w p = (Some True, p') \<Longrightarrow> \<not> sp_paused p"
  by (auto simp: wait_round_def Let_def split: if_splits wait_case.splits)

lemma nextTimestamp_fields:
  assumes "nextTimestamp now p = (ts, p')"
  shows "sp_gen p' = sp_gen p" "sp_emitted p' = sp_emitted p" "sp_cfg p' = sp_cfg p" "sp_pace p' = sp_pace p" "sp_warmupEnd p' = sp_warmupEnd p"
  using assms by (auto simp: nextTimestamp_def split: if_splits)

text \<open>One input: the controls change only their own fields, a round sends at most one trade.\<close>

lemma provider_step_cases:
  assumes "provider_step gm inp (p, out) = (p', out')" "gen_inv symb (sp_gen p) out" "symb \<in> set AllSymbols"
  shows "gen_inv symb (sp_gen p') out' \<and> sp_cfg p' = sp_cfg p \<and> sp_warmupEnd p' = sp_warmupEnd p
    \<and> (out' = out \<and> sp_virtualAt p' = sp_virtualAt p \<and> sp_emitted p' = sp_emitted p
         \<and> sp_pace p' = (case inp of ProviderPace pc \<Rightarrow> pc | _ \<Rightarrow> sp_pace p)
       \<or> (\<exists>w now t ts q. inp = ProviderRound w now \<and> out' = out @ [t] \<and> nextTimestamp now p = (ts, q)
            \<and> tr_Timestamp t = to_utc ts \<and> sp_virtualAt p' = sp_virtualAt q \<and> sp_pace p' = sp_pace p
            \<and> sp_emitted p' = sp_emitted p + 1))"
proof (cases inp)
  case (ProviderRound w now)
  obtain go p1 where w: "wait_round w p = (go, p1)" by force
  obtain r wk where p1: "p1 = p\<lparr>sp_gen := (sp_gen p)\<lparr>gn_rng := r\<rparr>, sp_wakeup := wk\<rparr>" by (rule wait_round_frame [OF w])
  have inv1: "gen_inv symb (sp_gen p1) out" by (rule gen_inv_frame [OF assms(2)]) (simp_all add: p1)
  show ?thesis
  proof (cases "go = Some True")
    case False
    then have "p' = p1 \<and> out' = out"
      using assms(1) w ProviderRound by (auto simp: provider_step_def split: option.splits bool.splits)
    then show ?thesis using inv1 ProviderRound by (simp add: p1)
  next
    case True
    obtain ts q1 where q1: "nextTimestamp now p1 = (ts, q1)" by force
    obtain t g where g: "Generator_Next gm ts (sp_gen q1) = (t, g)" by force
    have pr: "p' = q1\<lparr>sp_gen := g, sp_emitted := sp_emitted q1 + 1\<rparr>" "out' = out @ [t]"
      using assms(1) w True ProviderRound by (simp_all add: provider_step_def produce_def q1 g)
    have "gen_inv symb g (out @ [t]) \<and> tr_Timestamp t = to_utc ts"
      using Generator_Next_inv [OF _ assms(3) g] inv1 nextTimestamp_fields(1) [OF q1] by simp
    moreover obtain q where q: "nextTimestamp now p = (ts, q)" "sp_virtualAt q1 = sp_virtualAt q"
      using q1 by (auto simp: nextTimestamp_def p1 split: if_splits)
    ultimately show ?thesis
      using pr nextTimestamp_fields [OF q1] ProviderRound by (auto simp: p1)
  qed
qed (use assms in \<open>auto simp: provider_step_def Synth_SetPace_def Synth_Pause_def Synth_Resume_def Synth_ForceBurst_def
      Generator_ForceBurst_def intro: gen_inv_frame\<close>)

text \<open>The clock readings do not go back and start no earlier than the provider, and the pace, once live, stays live.
  That is how the engine drives its provider: fast for the warmup, then realtime.\<close>

fun well_timed :: "Pace \<Rightarrow> int \<Rightarrow> provider_input list \<Rightarrow> bool" where
  "well_timed pc c [] = True"
| "well_timed pc c (ProviderRound w now # is) = (c \<le> instant now \<and> well_timed pc (instant now) is)"
| "well_timed pc c (ProviderPace q # is) = ((pc = PaceRealtime \<longrightarrow> q = PaceRealtime) \<and> well_timed q c is)"
| "well_timed pc c (_ # is) = well_timed pc c is"

abbreviation stamp :: "Trade \<Rightarrow> int" where "stamp t \<equiv> instant (tr_Timestamp t)"

definition timeline_inv :: "int \<Rightarrow> SynthProvider \<Rightarrow> Trade list \<Rightarrow> bool" where
  "timeline_inv c p out \<longleftrightarrow> sorted (map stamp out) \<and> instant (sp_warmupEnd p) \<le> c \<and> 0 \<le> WarmupStep (sp_cfg p)
     \<and> (\<forall>t\<in>set out. stamp t \<le> c \<and> (sp_pace p = PaceFast \<longrightarrow> stamp t \<le> instant (sp_virtualAt p) \<and> stamp t \<le> instant (sp_warmupEnd p)))"

definition clock_after :: "int \<Rightarrow> provider_input \<Rightarrow> int" where
  "clock_after c inp = (case inp of ProviderRound w now \<Rightarrow> instant now | _ \<Rightarrow> c)"

definition pace_after :: "Pace \<Rightarrow> provider_input \<Rightarrow> Pace" where
  "pace_after pc inp = (case inp of ProviderPace q \<Rightarrow> q | _ \<Rightarrow> pc)"

lemma well_timed_Cons:
  "well_timed pc c (inp # is) \<longleftrightarrow> c \<le> clock_after c inp \<and> (pc = PaceRealtime \<longrightarrow> pace_after pc inp = PaceRealtime)
     \<and> well_timed (pace_after pc inp) (clock_after c inp) is"
  by (cases inp) (auto simp: clock_after_def pace_after_def)

lemma provider_step_timeline:
  assumes "provider_step gm inp (p, out) = (p', out')" "gen_inv symb (sp_gen p) out" "symb \<in> set AllSymbols"
    "timeline_inv c p out" "c \<le> clock_after c inp" "sp_pace p = PaceRealtime \<longrightarrow> pace_after (sp_pace p) inp = PaceRealtime"
  shows "timeline_inv (clock_after c inp) p' out' \<and> sp_pace p' = pace_after (sp_pace p) inp"
proof -
  note c = provider_step_cases [OF assms(1-3)]
  show ?thesis
  proof (cases "out' = out \<and> sp_virtualAt p' = sp_virtualAt p \<and> sp_pace p' = pace_after (sp_pace p) inp")
    case True
    have "sp_pace p' = PaceFast \<longrightarrow> sp_pace p = PaceFast" using True assms(6) by (cases "sp_pace p") auto
    then show ?thesis using True c assms(4,5) by (auto simp: timeline_inv_def)
  next
    case False
    then obtain w now t ts q where r: "inp = ProviderRound w now" "out' = out @ [t]" "nextTimestamp now p = (ts, q)"
      "tr_Timestamp t = to_utc ts" "sp_virtualAt p' = sp_virtualAt q" "sp_pace p' = sp_pace p"
      using c unfolding pace_after_def by blast
    have "stamp t = instant ts" by (simp add: r(4) to_utc_def)
    then show ?thesis
      using r(1-3,5,6) c assms(4,5)
      by (auto simp: timeline_inv_def clock_after_def pace_after_def nextTimestamp_def sorted_append Time_Before_def Time_Add_def
          not_less split: if_splits; force)
  qed
qed

lemma provider_run_inv:
  assumes "gen_inv symb (sp_gen p) out" "symb \<in> set AllSymbols" "sp_emitted p = of_nat (length out)"
  shows "case fold (provider_step gm) inps (p, out) of (p', out') \<Rightarrow>
    gen_inv symb (sp_gen p') out' \<and> sp_emitted p' = of_nat (length out')
    \<and> (well_timed (sp_pace p) c inps \<and> timeline_inv c p out \<longrightarrow> sorted (map stamp out'))"
  using assms
proof (induction inps arbitrary: p out c)
  case Nil
  then show ?case by (simp add: timeline_inv_def)
next
  case (Cons inp inps)
  obtain p1 out1 where s: "provider_step gm inp (p, out) = (p1, out1)" by force
  have i: "gen_inv symb (sp_gen p1) out1" "sp_emitted p1 = of_nat (length out1)"
    using provider_step_cases [OF s Cons.prems(1,2)] Cons.prems(3) by auto
  show ?case
    using Cons.IH [OF i(1) Cons.prems(2) i(2), of "clock_after c inp"] provider_step_timeline [OF s Cons.prems(1,2), of c]
    by (auto simp: s well_timed_Cons split: prod.splits)
qed

lemma WarmupStep_nonneg: "0 \<le> WarmupStep c"
  unfolding WarmupStep_def Let_def by (subst sdiv_nonneg) (simp_all add: Synth_withDefaults_def pos_imp_zdiv_nonneg_iff)

lemma Synth_New_inv:
  "gen_inv (sy_Symbol c) (sp_gen (Synth_New c start rng lrng)) [] \<longleftrightarrow> 0 \<le> deviation (anchorPrice (sy_Symbol c))"
  "timeline_inv (instant start) (Synth_New c start rng lrng) []" "sp_pace (Synth_New c start rng lrng) = PaceFast"
  "sp_emitted (Synth_New c start rng lrng) = 0"
  by (simp_all add: gen_inv_def timeline_inv_def Synth_New_def NewGenerator_def Let_def last_price_def WarmupStep_nonneg
      Synth_withDefaults_def)

lemma deviation_roster: "symb \<in> set AllSymbols \<Longrightarrow> 0 \<le> deviation (anchorPrice symb)"
  using roster_anchor [of symb] unfolding deviation_def by (intro div_int_pos_iff [THEN iffD2]) simp

text \<open>
  C25. The synthetic market is a bounded walk. Whatever the draws, the values the math library returns, the pauses,
  bursts and changes of pace, the trades a provider sends carry consecutive ids from the initial one, stay
  within fifteen percent of the market's anchor price, have a size between 0.0001 and 5 units and the
  side of their price move; and the provider counts them.
\<close>

theorem Synthetic_walk:
  assumes "sy_Symbol c \<in> set AllSymbols"
  shows "case provider_run gm inps (Synth_New c start rng lrng) of (p, ts) \<Rightarrow>
    walk (sy_Symbol c) (anchorPrice (sy_Symbol c)) InitialTradeID ts \<and> sp_emitted p = of_nat (length ts)"
proof -
  let ?p = "Synth_New c start rng lrng"
  have "gen_inv (sy_Symbol c) (sp_gen ?p) []" using Synth_New_inv(1) deviation_roster [OF assms] by blast
  from provider_run_inv [OF this assms, where gm = gm and inps = inps] show ?thesis
    by (auto simp: provider_run_def Synth_New_inv(4) gen_inv_def split: prod.splits)
qed

text \<open>Trades whose timestamps ascend are never late for a candle series and never a day behind for the summary.\<close>

lemma Truncate_mono: "instant t \<le> instant u \<Longrightarrow> instant (Truncate t d) \<le> instant (Truncate u d)"
proof -
  assume le: "instant t \<le> instant u"
  have e: "x - (x - zero_instant) mod d = zero_instant + d * ((x - zero_instant) div d)" for x
    using minus_mod_eq_mult_div [of "x - zero_instant" d] by linarith
  show ?thesis
    using le by (auto simp: Truncate_def e intro!: mult_left_mono zdiv_mono1)
qed

lemma sdiv_mono: "0 < d \<Longrightarrow> (a :: int) \<le> b \<Longrightarrow> a sdiv d \<le> b sdiv d"
proof -
  assume d: "0 < d" and le: "a \<le> b"
  have neg: "x sdiv d = - ((- x) div d)" "x sdiv d \<le> 0" if "x < 0" for x :: int
    using that d sdiv_nonneg [of "- x" d] pos_imp_zdiv_nonneg_iff [OF d, of "- x"] by (auto simp: signed_divide_int_def sgn_if)
  have pos: "x sdiv d = x div d" "0 \<le> x sdiv d" if "0 \<le> x" for x :: int
    using that d sdiv_nonneg [of x d] pos_imp_zdiv_nonneg_iff [OF d, of x] by auto
  consider "b < 0" | "a < 0" "0 \<le> b" | "0 \<le> a" using le by linarith
  then show ?thesis
  proof cases
    case 1
    then show ?thesis using le neg(1) [of a] neg(1) [of b] zdiv_mono1 [of "- b" "- a" d] d by simp
  next
    case 2
    then show ?thesis using neg(2) [of a] pos(2) [of b] by linarith
  next
    case 3
    then show ?thesis using le pos(1) [of a] pos(1) [of b] zdiv_mono1 [OF le d] by simp
  qed
qed

lemma bucket_mono: "Interval_Valid iv \<Longrightarrow> stamp t \<le> stamp u \<Longrightarrow> bucket iv t \<le> bucket iv u"
  using Truncate_mono [of "to_utc (tr_Timestamp t)" "to_utc (tr_Timestamp u)"]
  by (cases "Interval_Duration iv") (auto simp: bucket_def BucketStart_def to_utc_def Interval_Valid_def Interval_Duration_def)

lemma ascending_accepted:
  assumes "Interval_Valid iv" "sorted (map stamp ts)"
  shows "accepted iv ts = ts"
  using assms(2)
proof (induction ts rule: rev_induct)
  case (snoc t ts)
  then have ih: "foldl (accept iv) [] ts = ts" by (simp add: accepted_def sorted_append)
  have "bucket iv (last ts) \<le> bucket iv t" if "ts \<noteq> []"
    using that snoc.prems by (intro bucket_mono [OF assms(1)]) (simp add: sorted_append)
  then show ?case by (auto simp: accepted_def ih accept_def)
qed (simp add: accepted_def)

lemma ascending_timely: "sorted (map stamp ts) \<Longrightarrow> timely ts"
proof -
  have m: "trade_minute u \<le> trade_minute t" if "stamp u \<le> stamp t" for u t
    using Truncate_mono [of "to_utc (tr_Timestamp u)" "to_utc (tr_Timestamp t)" minute_ns] that
    unfolding trade_minute_def Unix_def by (intro sdiv_mono zdiv_mono1) (simp_all add: to_utc_def)
  have n: "trade_minute u - 1440 < trade_minute t" if "stamp u \<le> stamp t" for u t
    using m [OF that] by simp
  assume "sorted (map stamp ts)"
  then have "sorted_wrt (\<lambda>u t. stamp u \<le> stamp t) ts" by (simp add: sorted_map)
  then show "timely ts" unfolding timely_def by (rule sorted_wrt_mono_rel [rotated]) (rule n)
qed

lemma walk_symbols: "walk symb a i ts \<Longrightarrow> own_trades symb ts = ts"
  by (induction ts arbitrary: a i) (auto simp: own_trades_def)

text \<open>
  The two phases of the synthetic market are ordered in time. If the clock does not go back and the pace, once
  live, stays live, the timestamps of the trades ascend through warmup, its surplus and the handover to
  live trading. So no trade is late for any candle series, every trade is in its candles, and none is
  a day behind for the summary.
\<close>

lemma Synthetic_feed_in_order:
  assumes "sy_Symbol c \<in> set AllSymbols" "well_timed PaceFast (instant start) inps" "Interval_Valid iv"
  shows "case provider_run gm inps (Synth_New c start rng lrng) of (p, ts) \<Rightarrow>
    sorted (map stamp ts) \<and> timely ts
    \<and> (\<exists>a. Agg_run ts (NewCandleAggregator (sy_Symbol c) iv depth) = Some a \<and> ag_lateTrades a = 0
         \<and> all_candles a = last_n (Suc (effective_depth iv depth)) (candles_of (sym_ID (sy_Symbol c)) iv ts))"
proof -
  let ?p = "Synth_New c start rng lrng"
  obtain p ts where r: "provider_run gm inps ?p = (p, ts)" by force
  have "gen_inv (sy_Symbol c) (sp_gen ?p) []" using Synth_New_inv(1) deviation_roster [OF assms(1)] by blast
  from provider_run_inv [OF this assms(1), where gm = gm and inps = inps and c = "instant start"]
  have s: "sorted (map stamp ts)" and w: "gen_inv (sy_Symbol c) (sp_gen p) ts"
    using r assms(2) by (simp_all add: provider_run_def Synth_New_inv(2-4))
  have own: "own_trades (sy_Symbol c) ts = ts" using w by (auto simp: gen_inv_def intro: walk_symbols)
  obtain a where a: "Agg_run ts (NewCandleAggregator (sy_Symbol c) iv depth) = Some a"
    "agg_refines (sy_Symbol c) iv (effective_depth iv depth) ts a"
    "all_candles a = last_n (Suc (effective_depth iv depth)) (candles_of (sym_ID (sy_Symbol c)) iv (accepted iv (own_trades (sy_Symbol c) ts)))"
    using Agg_run_candles [OF assms(3), of ts "sy_Symbol c" depth] by blast
  then show ?thesis
    using s ascending_timely [OF s] by (auto simp: r own ascending_accepted [OF assms(3) s] agg_refines_def Let_def)
qed


section \<open>The book a market starts from\<close>

lemma levelSize_ok: "rand_ok r \<Longrightarrow> levelSize gm symb d cfg r = (q, r') \<Longrightarrow> 0 < q \<and> rand_ok r'"
  by (auto simp: levelSize_def Let_def dest: Rand_Float64_ok split: prod.splits if_splits)

text \<open>One round of the loop, its draws named.\<close>

lemma ladder_loop_Suc:
  assumes "rand_ok r" "ladder_loop gm symb cfg B A (Suc n) i gap r = (bids, asks, r')"
  obtains k qb qa r3 bids' asks' where "k \<in> {1, 2}" "0 < qb" "0 < qa" "rand_ok r3"
    "ladder_loop gm symb cfg B A n (Suc i) (gap + k) r3 = (bids', asks', r')"
    "bids = \<lparr>lv_Price = (if wrap64 (B - (gap + k)) \<le> 0 then wrap64 (1 + (lc_Levels cfg - int i)) else wrap64 (B - (gap + k))), lv_Quantity = qb\<rparr> # bids'"
    "asks = \<lparr>lv_Price = wrap64 (A + (gap + k)), lv_Quantity = qa\<rparr> # asks'"
proof -
  obtain k r1 where k: "IntN 2 r = (k, r1)" by force
  obtain qb r2 where qb: "levelSize gm symb i cfg r1 = (qb, r2)" by force
  obtain qa r3 where qa: "levelSize gm symb i cfg r2 = (qa, r3)" by force
  obtain bids' asks' r4 where l: "ladder_loop gm symb cfg B A n (Suc i) (gap + (1 + int k)) r3 = (bids', asks', r4)"
    using prod_cases3 by blast
  have ok: "k < 2" "rand_ok r1" using IntN_ok [OF assms(1) _ k] by auto
  note q = levelSize_ok [OF ok(2) qb] levelSize_ok [OF _ qa]
  show ?thesis
    using assms(2) ok q l by (intro that [of "1 + int k" qb qa r3 bids' asks']) (auto simp: k qb qa Let_def)
qed

lemma ladder_loop_valid:
  assumes "rand_ok r" "ladder_loop gm symb cfg B A n i gap r = (bids, asks, r')" "0 \<le> gap" "gap + 2 * int n < B"
    "B \<le> A" "A + gap + 2 * int n \<le> MaxInt64"
  shows "length bids = n \<and> length asks = n \<and> bids_ordered bids \<and> asks_ordered asks \<and> prices_ok bids \<and> prices_ok asks
    \<and> (\<forall>l\<in>set bids. lv_Price l < B - gap) \<and> (\<forall>l\<in>set asks. A + gap < lv_Price l) \<and> rand_ok r'"
  using assms
proof (induction n arbitrary: i gap r bids asks)
  case 0
  then show ?case by (simp add: bids_ordered_def asks_ordered_def)
next
  case (Suc n)
  obtain k qb qa r3 bids' asks' where k: "k \<in> {1, 2}" "0 < qb" "0 < qa" "rand_ok r3"
    "ladder_loop gm symb cfg B A n (Suc i) (gap + k) r3 = (bids', asks', r')"
    "bids = \<lparr>lv_Price = (if wrap64 (B - (gap + k)) \<le> 0 then wrap64 (1 + (lc_Levels cfg - int i)) else wrap64 (B - (gap + k))), lv_Quantity = qb\<rparr> # bids'"
    "asks = \<lparr>lv_Price = wrap64 (A + (gap + k)), lv_Quantity = qa\<rparr> # asks'"
    by (rule ladder_loop_Suc [OF Suc.prems(1,2)])
  have w: "wrap64 (B - (gap + k)) = B - (gap + k)" "wrap64 (A + (gap + k)) = A + (gap + k)"
    using k(1) Suc.prems(3-6) by (auto intro!: wrap64_id simp: in_i64_iff MaxInt64_def)
  have "length bids' = n \<and> length asks' = n \<and> bids_ordered bids' \<and> asks_ordered asks' \<and> prices_ok bids' \<and> prices_ok asks'
    \<and> (\<forall>l\<in>set bids'. lv_Price l < B - (gap + k)) \<and> (\<forall>l\<in>set asks'. A + (gap + k) < lv_Price l) \<and> rand_ok r'"
    using k(1) Suc.prems(3-6) by (intro Suc.IH [OF k(4,5)]) auto
  moreover have "1 \<le> k" "k \<le> 2" using k(1) by auto
  ultimately show ?case
    using k(2,3,6,7) Suc.prems(3-6) unfolding w by (fastforce simp: bids_ordered_def asks_ordered_def)
qed

text \<open>A ladder that runs out of prices repeats some, because the price it falls back to is at least two.\<close>

lemma ladder_loop_low:
  assumes "rand_ok r" "ladder_loop gm symb cfg B A n i gap r = (bids, asks, r')" "0 < B - gap" "B \<le> gap + int n"
    "0 \<le> gap" "B < 2 ^ 62" "lc_Levels cfg - int i = int n" "int n < 2 ^ 62" "lv_Price l = B - gap"
  shows "\<not> bids_ordered (l # bids)"
  using assms
proof (induction n arbitrary: i gap r bids asks l)
  case (Suc n)
  obtain k qb qa r3 bids' asks' where k: "k \<in> {1, 2}" "0 < qb" "0 < qa" "rand_ok r3"
    "ladder_loop gm symb cfg B A n (Suc i) (gap + k) r3 = (bids', asks', r')"
    "bids = \<lparr>lv_Price = (if wrap64 (B - (gap + k)) \<le> 0 then wrap64 (1 + (lc_Levels cfg - int i)) else wrap64 (B - (gap + k))), lv_Quantity = qb\<rparr> # bids'"
    "asks = \<lparr>lv_Price = wrap64 (A + (gap + k)), lv_Quantity = qa\<rparr> # asks'"
    by (rule ladder_loop_Suc [OF Suc.prems(1,2)])
  have kb: "1 \<le> k" "k \<le> 2" using k(1) by auto
  have w: "wrap64 (B - (gap + k)) = B - (gap + k)" "wrap64 (1 + (lc_Levels cfg - int i)) = 1 + (lc_Levels cfg - int i)"
    using kb Suc.prems(3-8) by (auto intro!: wrap64_id simp: in_i64_iff)
  show ?case
  proof (cases "B - (gap + k) \<le> 0")
    case True
    then show ?thesis using k(6) kb Suc.prems(7,9) unfolding w by (simp add: bids_ordered_def)
  next
    case False
    have "\<not> bids_ordered (\<lparr>lv_Price = B - (gap + k), lv_Quantity = qb\<rparr> # bids')"
      using False kb Suc.prems(4-8) by (intro Suc.IH [OF k(4,5)]) auto
    then show ?thesis using k(6) False unfolding w by (auto simp: bids_ordered_def)
  qed
qed simp

definition ladder_levels :: "SynthConfig \<Rightarrow> int" where
  "ladder_levels c = lc_Levels (DefaultLadderConfig (sy_BookLevels (Synth_withDefaults c)))"

lemma BuildLadder_default:
  assumes "2 < mid" "mid \<le> 10 ^ 7"
  shows "BuildLadder gm symb mid (DefaultLadderConfig n) r
    = ladder_loop gm symb (DefaultLadderConfig n) (mid - 2) (mid + 2) (nat (lc_Levels (DefaultLadderConfig n))) 0 0 r"
  using assms by (simp add: BuildLadder_def DefaultLadderConfig_def Let_def wrap64_id in_i64_iff)

text \<open>The snapshot of a fresh provider is a ladder two ticks around the anchor price.\<close>

lemma Synth_New_snapshot:
  fixes c :: SynthConfig
  defines "A \<equiv> anchorPrice (sy_Symbol c)"
  assumes "sy_Symbol c \<in> set AllSymbols"
  obtains bids asks r' where
    "ladder_loop gm (sy_Symbol c) (DefaultLadderConfig (sy_BookLevels (Synth_withDefaults c))) (A - 2) (A + 2) (nat (ladder_levels c)) 0 0 lrng
       = (bids, asks, r')"
    "Synth_Snapshot gm False (sym_ID (sy_Symbol c)) now (Synth_New c start rng lrng)
       = ((Synth_New c start rng lrng)\<lparr>sp_bootMid := A, sp_bootBids := bids, sp_bootAsks := asks, sp_ladderRNG := r', sp_ladderDone := True\<rparr>,
          Inr \<lparr>ob_Symbol = sym_ID (sy_Symbol c), ob_Epoch = 0, ob_UpdateID = 0, ob_Bids = bids, ob_Asks = asks, ob_ServerTime = now\<rparr>)"
    "4820 \<le> A" "A \<le> 10 ^ 7"
proof -
  let ?s = "sy_Symbol c" and ?p = "Synth_New c start rng lrng"
  define cfg where "cfg = DefaultLadderConfig (sy_BookLevels (Synth_withDefaults c))"
  obtain bids asks r' where l: "ladder_loop gm ?s cfg (A - 2) (A + 2) (nat (ladder_levels c)) 0 0 lrng = (bids, asks, r')"
    using prod_cases3 by blast
  have A: "A \<le> 10 ^ 7" "4820 \<le> A"
    using roster_anchor [OF assms(2)] assms(2) unfolding A_def AllSymbols_def list.set
    by (auto simp: anchorPrice_def SeedPrice_def seedBy_def)
  have f: "sy_Symbol (sp_cfg ?p) = ?s" "sp_ladderDone ?p = False" "gn_last (sp_gen ?p) = A" "sp_ladderRNG ?p = lrng"
    "DefaultLadderConfig (sy_BookLevels (sp_cfg ?p)) = cfg"
    by (simp_all add: Synth_New_def NewGenerator_def Let_def A_def cfg_def Synth_withDefaults_def)
  have "BuildLadder gm ?s A cfg lrng = (bids, asks, r')"
    using BuildLadder_default [of A gm ?s "sy_BookLevels (Synth_withDefaults c)" lrng] A l by (simp add: cfg_def ladder_levels_def)
  then show ?thesis using l A by (intro that [of bids asks r']) (simp_all add: Synth_Snapshot_def f Let_def cfg_def)
qed

text \<open>
  C26. The book a synthetic market starts from. The snapshot of a fresh provider succeeds for its own symbol. When the
  ladder fits below the anchor price it is a valid, strictly ordered and uncrossed book with the
  configured number of positive levels a side, and later calls return the same levels. When the
  configured levels reach the anchor price, the ladder repeats bid prices and the snapshot is invalid,
  although the configuration accepts any number of levels from fifteen.
\<close>

theorem Synthetic_bootstrap:
  assumes "sy_Symbol c \<in> set AllSymbols" "rand_ok lrng" "ladder_levels c < 2 ^ 61"
  shows "case Synth_Snapshot gm False (sym_ID (sy_Symbol c)) now (Synth_New c start rng lrng) of (p, res) \<Rightarrow>
    (\<exists>snap. res = Inr snap
      \<and> (2 * ladder_levels c + 2 < anchorPrice (sy_Symbol c) \<longrightarrow>
           snapshot_ok snap \<and> int (length (ob_Bids snap)) = ladder_levels c \<and> int (length (ob_Asks snap)) = ladder_levels c)
      \<and> (anchorPrice (sy_Symbol c) \<le> ladder_levels c + 2 \<longrightarrow> Snapshot_Validate snap \<noteq> Inr ())
      \<and> (\<forall>later. Synth_Snapshot gm False (sym_ID (sy_Symbol c)) later p = (p, Inr (snap\<lparr>ob_ServerTime := later\<rparr>))))"
proof -
  let ?s = "sy_Symbol c" and ?p = "Synth_New c start rng lrng" and ?n = "nat (ladder_levels c)"
  define A where "A = anchorPrice ?s"
  define cfg where "cfg = DefaultLadderConfig (sy_BookLevels (Synth_withDefaults c))"
  obtain bids asks r' where l: "ladder_loop gm ?s cfg (A - 2) (A + 2) ?n 0 0 lrng = (bids, asks, r')"
    and snapshot: "Synth_Snapshot gm False (sym_ID ?s) now ?p
       = (?p\<lparr>sp_bootMid := A, sp_bootBids := bids, sp_bootAsks := asks, sp_ladderRNG := r', sp_ladderDone := True\<rparr>,
          Inr \<lparr>ob_Symbol = sym_ID ?s, ob_Epoch = 0, ob_UpdateID = 0, ob_Bids = bids, ob_Asks = asks, ob_ServerTime = now\<rparr>)"
    and A: "4820 \<le> A" "A \<le> 10 ^ 7"
    unfolding A_def cfg_def by (rule Synth_New_snapshot [OF assms(1)])
  have L: "20 \<le> ladder_levels c" "lc_Levels cfg = ladder_levels c" by (simp_all add: ladder_levels_def DefaultLadderConfig_def cfg_def)
  define snap where "snap = \<lparr>ob_Symbol = sym_ID ?s, ob_Epoch = 0, ob_UpdateID = 0, ob_Bids = bids, ob_Asks = asks, ob_ServerTime = now\<rparr>"
  define p where "p = ?p\<lparr>sp_bootMid := A, sp_bootBids := bids, sp_bootAsks := asks, sp_ladderRNG := r', sp_ladderDone := True\<rparr>"
  have r: "Synth_Snapshot gm False (sym_ID ?s) now ?p = (p, Inr snap)" by (simp add: snapshot p_def snap_def)
  have f: "sy_Symbol (sp_cfg ?p) = ?s" by (simp add: Synth_New_def Let_def Synth_withDefaults_def)
  have valid: "snapshot_ok snap \<and> int (length bids) = ladder_levels c \<and> int (length asks) = ladder_levels c"
    if "2 * ladder_levels c + 2 < A"
  proof -
    have "0 + 2 * int ?n < A - 2" "A + 2 + 0 + 2 * int ?n \<le> MaxInt64" using that A L(1) by (simp_all add: MaxInt64_def)
    note v = ladder_loop_valid [OF assms(2) l order_refl this(1) _ this(2)]
    then have "uncrossed bids asks" by (fastforce simp: uncrossed_def)
    then show ?thesis
      using v L(1) by (auto simp: snapshot_ok_def Snapshot_Validate_iff sides_valid_def snap_def)
  qed
  have low: "Snapshot_Validate snap \<noteq> Inr ()" if "A \<le> ladder_levels c + 2"
  proof -
    obtain m where m: "?n = Suc m" using L(1) by (cases ?n) auto
    obtain k qb qa r3 bids' asks' where k: "k \<in> {1, 2}" "0 < qb" "0 < qa" "rand_ok r3"
      "ladder_loop gm ?s cfg (A - 2) (A + 2) m (Suc 0) (0 + k) r3 = (bids', asks', r')"
      "bids = \<lparr>lv_Price = (if wrap64 (A - 2 - (0 + k)) \<le> 0 then wrap64 (1 + (lc_Levels cfg - int 0)) else wrap64 (A - 2 - (0 + k))), lv_Quantity = qb\<rparr> # bids'"
      "asks = \<lparr>lv_Price = wrap64 (A + 2 + (0 + k)), lv_Quantity = qa\<rparr> # asks'"
      by (rule ladder_loop_Suc [OF assms(2) l [unfolded m]])
    have w: "wrap64 (A - 2 - (0 + k)) = A - 2 - k" using k(1) A by (auto intro!: wrap64_id simp: in_i64_iff)
    have "int m = ladder_levels c - 1" using m L(1) by linarith
    then have "\<not> bids_ordered (\<lparr>lv_Price = A - 2 - k, lv_Quantity = qb\<rparr> # bids')"
      using that k(1) A assms(3) L by (intro ladder_loop_low [OF k(4,5)]) auto
    then show ?thesis using k(1,6) A unfolding w by (auto simp: Snapshot_Validate_iff sides_valid_def snap_def)
  qed
  have again: "Synth_Snapshot gm False (sym_ID ?s) later p = (p, Inr (snap\<lparr>ob_ServerTime := later\<rparr>))" for later
    by (simp add: Synth_Snapshot_def p_def snap_def f)
  show ?thesis
    unfolding r prod.case A_def [symmetric] using valid low again by (intro exI [of _ snap]) (auto simp: snap_def)
qed

definition sampleSynth :: SynthConfig where
  "sampleSynth = \<lparr>sy_Symbol = ADAUSDT, sy_TradesPerSecond = 10, sy_WarmupSpan = 0, sy_WarmupMaxEvents = 0,
     sy_VolatilityBurstRate = 4, sy_BookLevels = 100, sy_StreamBuffer = 0\<rparr>"

lemma sampleSynth_symbol: "sy_Symbol sampleSynth = ADAUSDT" "ADAUSDT \<in> set AllSymbols"
  by (simp_all add: sampleSynth_def AllSymbols_def)

definition sampleMath :: GoMath where
  "sampleMath = \<lparr>math_Exp = (\<lambda>x. 1 + x), math_Log = (\<lambda>x. x - 1), math_Sqrt = (\<lambda>x. x / 2), math_Sin = (\<lambda>_. 0), math_Cos = (\<lambda>_. 1), math_Pi = 3\<rparr>"

definition sampleFeed :: "provider_input list" where
  "sampleFeed = [ProviderRound WaitTimer zeroTime, ProviderRound WaitTimer zeroTime, ProviderPace PaceRealtime,
     ProviderRound WaitTimer zeroTime]"

theorem Synthetic_walk_witness:
  "case provider_run sampleMath sampleFeed (Synth_New sampleSynth zeroTime zeroRand zeroRand) of (p, ts) \<Rightarrow>
     walk ADAUSDT (anchorPrice ADAUSDT) InitialTradeID ts \<and> sp_emitted p = of_nat (length ts)"
proof -
  have "sy_Symbol sampleSynth \<in> set AllSymbols" by (simp add: sampleSynth_symbol)
  from Synthetic_walk [OF this, of sampleMath sampleFeed zeroTime zeroRand zeroRand] show ?thesis unfolding sampleSynth_symbol(1) .
qed

theorem Synthetic_bootstrap_witness:
  "\<exists>p snap. Synth_Snapshot sampleMath False ''ADAUSDT'' zeroTime (Synth_New sampleSynth zeroTime zeroRand zeroRand) = (p, Inr snap)
     \<and> snapshot_ok snap \<and> int (length (ob_Bids snap)) = 100"
proof -
  have s: "sy_Symbol sampleSynth \<in> set AllSymbols" by (simp add: sampleSynth_symbol)
  have l: "ladder_levels sampleSynth = 100" by (simp add: ladder_levels_def sampleSynth_def Synth_withDefaults_def DefaultLadderConfig_def)
  have a: "anchorPrice ADAUSDT = 4820" by (simp add: anchorPrice_def SeedPrice_def seedBy_def)
  show ?thesis
    using Synthetic_bootstrap [OF s zeroRand_ok, where gm = sampleMath and now = zeroTime and start = zeroTime and rng = zeroRand]
    by (auto simp: l a sampleSynth_symbol(1) split: prod.splits)
qed

end
