(* ===== verification/Warmup.thy ===== *)
theory Warmup
  imports Synthetic
begin

text \<open>
  What a long warmup does to the order book. Trades only ever take levels from the touch and add them at the far end,
  and the ladder is recentred by a refresh, which the warmup of \<^verbatim>\<open>market/engine.go\<close> never calls. When the
  lowest bid has reached the price one, the next level that a sell exhausts makes \<^verbatim>\<open>ApplyTrade\<close> of
  \<^verbatim>\<open>market/book.go\<close> add a second level at that price; the book counts as crossed from then on, and the
  engine drops every later trade.
\<close>

section \<open>Selling a level\<close>

lemma insertDescending_low: "\<forall>x\<in>set ls. lv_Price l \<le> lv_Price x \<Longrightarrow> insertDescending ls l = ls @ [l]"
  by (induction ls) auto

definition floor_side :: "Level list \<Rightarrow> bool" where
  "floor_side ls \<longleftrightarrow> 2 \<le> length ls \<and> 1 \<le> lv_Price (last ls) \<and> lv_Price (last ls) \<le> MaxInt64 \<and> (\<forall>l\<in>set ls. lv_Price (last ls) \<le> lv_Price l)"

lemma consume_sell:
  assumes "floor_side ls" "rand_ok r"
  shows "(0 < Qty_Sub (lv_Quantity (hd ls)) tq \<and>
      consume s tq False ls r = Some ((hd ls)\<lparr>lv_Quantity := Qty_Sub (lv_Quantity (hd ls)) tq\<rparr> # tl ls, r))
    \<or> (\<not> 0 < Qty_Sub (lv_Quantity (hd ls)) tq \<and> (\<exists>k q r0 r'. k \<in> {1, 2} \<and> rand_ok r0 \<and> rand_ok r' \<and> replenishQuantity s r0 = (q, r') \<and> 0 < q
      \<and> consume s tq False ls r = Some (tl ls @ [\<lparr>lv_Price = max 1 (lv_Price (last ls) - k), lv_Quantity = q\<rparr>], r')))"
proof -
  obtain x rest where ls: "ls = x # rest" "rest \<noteq> []" using assms(1) by (cases ls; cases "tl ls") (auto simp: floor_side_def)
  show ?thesis
  proof (cases "0 < Qty_Sub (lv_Quantity x) tq")
    case True
    then show ?thesis by (simp add: consume_def ls Qty_IsPositive_def)
  next
    case False
    obtain k r1 where k: "IntN 2 r = (k, r1)" by force
    obtain q r2 where q: "replenishQuantity s r1 = (q, r2)" by force
    have ok: "k < 2" "rand_ok r1" using IntN_ok [OF assms(2) _ k] by auto
    define far where "far = max 1 (lv_Price (last ls) - (1 + int k))"
    have w: "Price_Sub (lv_Price (last rest)) (1 + int k) = lv_Price (last ls) - (1 + int k)"
      using assms(1) ok(1) by (auto simp: Price_Sub_def ls floor_side_def in_i64_iff MaxInt64_def intro!: wrap64_id)
    have "far \<le> lv_Price l" if "l \<in> set rest" for l
      using that assms(1) by (auto simp: far_def ls floor_side_def)
    then have ins: "insertDescending rest \<lparr>lv_Price = far, lv_Quantity = q\<rparr> = rest @ [\<lparr>lv_Price = far, lv_Quantity = q\<rparr>]"
      by (intro insertDescending_low) simp
    have fr: "(if Price_Sub (lv_Price (last rest)) (1 + int k) \<le> 0 then 1 else Price_Sub (lv_Price (last rest)) (1 + int k)) = far"
      unfolding w far_def by simp
    have "consume s tq False ls r = Some (rest @ [\<lparr>lv_Price = far, lv_Quantity = q\<rparr>], r2)"
      using False by (simp add: consume_def ls k q Let_def Qty_IsPositive_def fr ins)
    then have "consume s tq False ls r = Some (tl ls @ [\<lparr>lv_Price = max 1 (lv_Price (last ls) - (1 + int k)), lv_Quantity = q\<rparr>], r2)"
      unfolding far_def by (simp add: ls)
    moreover have "1 + int k \<in> {1, 2}" using ok(1) by auto
    moreover have "\<not> 0 < Qty_Sub (lv_Quantity (hd ls)) tq" using False by (simp add: ls)
    ultimately show ?thesis using ok(2) q replenishQuantity_ok [OF ok(2) q] by blast
  qed
qed

lemma replenishQuantity_bound:
  assumes "rand_ok r" "QtyScale s = 100000000" "replenishQuantity s r = (q, r')"
  shows "q \<le> 62000000"
proof -
  obtain f r1 where f: "Rand_Float64 r = (f, r1)" by force
  let ?base = "f64_add (round64 (2 / 100)) (f64_mul f (round64 (6 / 10)))"
  have "0 \<le> round64 (6 / 10)" by (rule round64_nonneg) simp
  then have "f * round64 (6 / 10) \<le> round64 (6 / 10)"
    using Rand_Float64_ok [OF assms(1) f] by (simp add: mult_left_le_one_le)
  then have "?base \<le> round64 (round64 (2 / 100) + round64 (round64 (6 / 10)))"
    unfolding f64_add_def f64_mul_def by (intro round64_mono add_left_mono)
  then have "f64_mul ?base (f64_of_int 100000000)
      \<le> round64 (round64 (round64 (2 / 100) + round64 (round64 (6 / 10))) * f64_of_int 100000000)"
    unfolding f64_mul_def by (intro round64_mono mult_right_mono) (simp_all add: f64_of_int_exact)
  also have "\<dots> \<le> of_int 62000000" by code_simp
  finally have le: "f64_mul ?base (f64_of_int 100000000) \<le> of_int 62000000" .
  have "0 \<le> f64_mul f (round64 (6 / 10))"
    unfolding f64_mul_def using Rand_Float64_ok [OF assms(1) f] \<open>0 \<le> round64 (6 / 10)\<close> by (intro round64_nonneg mult_nonneg_nonneg) auto
  moreover have "0 \<le> round64 (2 / 100)" by (rule round64_nonneg) simp
  ultimately have "0 \<le> ?base" unfolding f64_add_def by (intro round64_nonneg [OF add_nonneg_nonneg])
  then have "of_int 0 \<le> f64_mul ?base (f64_of_int 100000000)"
    unfolding f64_mul_def by (simp add: f64_of_int_exact round64_nonneg)
  then have "f64_to_i64 (f64_mul ?base (f64_of_int 100000000)) \<le> 62000000"
    using f64_to_i64_range [of 0 _ 62000000] le by (simp add: in_i64_iff)
  then show ?thesis using assms(3) unfolding replenishQuantity_def f assms(2) by (auto simp: Let_def split: if_splits)
qed


section \<open>The book at its floor\<close>

text \<open>A jammed book: its two lowest bids are both at price one.\<close>

definition jammed :: "OrderBook \<Rightarrow> bool" where
  "jammed b \<longleftrightarrow> 2 \<le> length (bk_asks b) \<and> (\<exists>front x y. bk_bids b = front @ [x, y] \<and> lv_Price x = 1 \<and> lv_Price y = 1 \<and> (\<forall>l\<in>set front. 1 \<le> lv_Price l))"

lemma jammed_invalid: "jammed b \<Longrightarrow> \<not> sides_valid (bk_bids b) (bk_asks b)"
  by (auto simp: jammed_def sides_valid_def bids_ordered_def sorted_wrt_append)

lemma jammed_commit: "jammed b \<Longrightarrow> \<exists>err. commit now b = (b, errMutation err b)"
proof -
  assume j: "jammed b"
  then have "bk_bids b \<noteq> []" "bk_asks b \<noteq> []" by (auto simp: jammed_def)
  then have "checkOrdering b \<noteq> Inr ()" using checkOrdering_Inr jammed_invalid [OF j] by blast
  then show ?thesis by (cases "checkOrdering b") (auto simp: commit_def)
qed

lemma consume_buy_length:
  assumes "2 \<le> length ls"
  shows "\<exists>ls' r'. consume s tq True ls r = Some (ls', r') \<and> length ls' = length ls \<and> (rand_ok r \<longrightarrow> rand_ok r')"
proof -
  obtain x rest where ls: "ls = x # rest" "rest \<noteq> []" using assms by (cases ls; cases "tl ls") auto
  obtain k r1 where k: "IntN 2 r = (k, r1)" by force
  obtain q r2 where q: "replenishQuantity s r1 = (q, r2)" by force
  have "rand_ok r \<longrightarrow> rand_ok r2" using IntN_ok [OF _ _ k] replenishQuantity_ok [OF _ q] by auto
  then show ?thesis using ls by (simp add: consume_def k q Let_def)
qed

lemma jammed_sell:
  assumes "jammed b" "rand_ok r"
  shows "\<exists>s' r'. consume s tq False (bk_bids b) r = Some (s', r') \<and> rand_ok r' \<and> jammed (b\<lparr>bk_bids := s'\<rparr>)"
proof -
  obtain front x y where b: "bk_bids b = front @ [x, y]" "lv_Price x = 1" "lv_Price y = 1" "\<forall>l\<in>set front. 1 \<le> lv_Price l"
    "2 \<le> length (bk_asks b)"
    using assms(1) by (auto simp: jammed_def)
  have f: "floor_side (bk_bids b)" using b by (auto simp: floor_side_def MaxInt64_def)
  show ?thesis
    using consume_sell [OF f assms(2), of tq s]
  proof (elim disjE conjE exE)
    let ?q = "Qty_Sub (lv_Quantity (hd (bk_bids b))) tq"
    assume c: "consume s tq False (bk_bids b) r = Some ((hd (bk_bids b))\<lparr>lv_Quantity := ?q\<rparr> # tl (bk_bids b), r)"
    have "jammed (b\<lparr>bk_bids := (hd (bk_bids b))\<lparr>lv_Quantity := ?q\<rparr> # tl (bk_bids b)\<rparr>)"
    proof (cases front)
      case Nil
      then show ?thesis using b by (auto simp: jammed_def intro!: exI [of _ "[]"])
    next
      case (Cons z zs)
      then show ?thesis
        using b by (auto simp: jammed_def intro!: exI [of _ "z\<lparr>lv_Quantity := Qty_Sub (lv_Quantity z) tq\<rparr> # zs"])
    qed
    then show ?thesis using c assms(2) by blast
  next
    fix k q r0 r'
    assume k: "k \<in> {1, 2::int}" "rand_ok r'" and c: "consume s tq False (bk_bids b) r
      = Some (tl (bk_bids b) @ [\<lparr>lv_Price = max 1 (lv_Price (last (bk_bids b)) - k), lv_Quantity = q\<rparr>], r')"
    have m: "max 1 (lv_Price (last (bk_bids b)) - k) = 1" using k(1) b by auto
    have "jammed (b\<lparr>bk_bids := tl (bk_bids b) @ [\<lparr>lv_Price = 1, lv_Quantity = q\<rparr>]\<rparr>)"
    proof (cases front)
      case Nil
      then show ?thesis using b by (auto simp: jammed_def intro!: exI [of _ "[]"])
    next
      case (Cons z zs)
      then show ?thesis using b by (auto simp: jammed_def intro!: exI [of _ "zs @ [x]"])
    qed
    then show ?thesis using c k(2) unfolding m by blast
  qed
qed

lemma jammed_trade:
  assumes "jammed b" "rand_ok r"
  shows "\<exists>b' m r' err. ApplyTrade t r b = Some (b', Some m, r') \<and> mu_Err m = Some err \<and> jammed b' \<and> rand_ok r'"
proof -
  have ne: "bk_bids b \<noteq> []" "bk_asks b \<noteq> []" "2 \<le> length (bk_asks b)" using assms(1) by (auto simp: jammed_def)
  obtain b1 r1 where c: "(if tr_Side t = SideBuy
      then map_option (\<lambda>(s, r'). (b\<lparr>bk_asks := s\<rparr>, r')) (consume (bk_symbol b) (tr_Quantity t) True (bk_asks b) r)
      else map_option (\<lambda>(s, r'). (b\<lparr>bk_bids := s\<rparr>, r')) (consume (bk_symbol b) (tr_Quantity t) False (bk_bids b) r)) = Some (b1, r1)"
    "jammed b1" "rand_ok r1"
  proof (cases "tr_Side t = SideBuy")
    case True
    obtain ls' r' where "consume (bk_symbol b) (tr_Quantity t) True (bk_asks b) r = Some (ls', r')" "length ls' = length (bk_asks b)" "rand_ok r'"
      using consume_buy_length [OF ne(3)] assms(2) by blast
    then show ?thesis using that [of "b\<lparr>bk_asks := ls'\<rparr>" r'] True assms(1) by (auto simp: jammed_def)
  next
    case False
    obtain ls' r' where "consume (bk_symbol b) (tr_Quantity t) False (bk_bids b) r = Some (ls', r')" "rand_ok r'" "jammed (b\<lparr>bk_bids := ls'\<rparr>)"
      using jammed_sell [OF assms] by blast
    then show ?thesis using that [of "b\<lparr>bk_bids := ls'\<rparr>" r'] False by auto
  qed
  obtain err where e: "commit (tr_Timestamp t) b1 = (b1, errMutation err b1)" using jammed_commit [OF c(2)] by blast
  have "ApplyTrade t r b = Some (b1, Some (errMutation err b1), r1)"
    unfolding ApplyTrade_def c(1) using ne e by simp
  then show ?thesis using c(2,3) by (auto simp: errMutation_def)
qed

text \<open>A valid book whose lowest bid is at most \<open>n\<close> and whose bids hold at most \<open>Q\<close> each, and the sells that
  exhaust any such level.\<close>

definition near_floor :: "qty \<Rightarrow> int \<Rightarrow> OrderBook \<Rightarrow> bool" where
  "near_floor Q n b \<longleftrightarrow> book_inv b \<and> 2 \<le> length (bk_bids b) \<and> 2 \<le> length (bk_asks b) \<and> (\<forall>l\<in>set (bk_bids b). lv_Quantity l \<le> Q)
     \<and> lv_Price (last (bk_bids b)) \<le> n"

definition big_sell :: "qty \<Rightarrow> Trade \<Rightarrow> bool" where
  "big_sell Q t \<longleftrightarrow> tr_Side t \<noteq> SideBuy \<and> Q \<le> tr_Quantity t"

lemma near_floor_side: "near_floor Q n b \<Longrightarrow> floor_side (bk_bids b)"
  using bids_last [of "bk_bids b"] last_in_set [of "bk_bids b"]
  by (auto simp: near_floor_def floor_side_def book_inv_def sides_valid_def prices_ok_def int_one_le_iff_zero_less)

text \<open>What a sell does to the bids of a valid book: a level shrinks, or a lower one is added, or the two lowest
  are both at price one.\<close>

lemma floor_sell:
  assumes "near_floor Q n b" "rand_ok r" "QtyScale (bk_symbol b) = 100000000" "62000000 \<le> Q" "Q \<le> MaxInt64" "0 < tq" "tq \<le> MaxInt64"
  shows "\<exists>s' r'. consume (bk_symbol b) tq False (bk_bids b) r = Some (s', r') \<and> rand_ok r'
    \<and> (jammed (b\<lparr>bk_bids := s'\<rparr>) \<or> near_floor Q (if Q \<le> tq then n - 1 else n) (b\<lparr>bk_bids := s'\<rparr>))"
proof -
  obtain x rest where b: "bk_bids b = x # rest" "rest \<noteq> []" using assms(1) by (cases "bk_bids b"; cases "tl (bk_bids b)") (auto simp: near_floor_def)
  have inv: "bids_ordered (x # rest)" "asks_ordered (bk_asks b)" "uncrossed (x # rest) (bk_asks b)" "prices_ok (x # rest)"
    "length (bk_bids b) \<le> bk_maxLevels b" "length (bk_asks b) \<le> bk_maxLevels b" "2 \<le> length (bk_asks b)" "\<forall>l\<in>set (x # rest). lv_Quantity l \<le> Q"
    "prices_ok (bk_asks b)" "lv_Price (last rest) \<le> n"
    using assms(1) b by (auto simp: near_floor_def book_inv_def sides_valid_def)
  have rest: "bids_ordered rest" "prices_ok rest" using inv(1,4) by (auto simp: bids_ordered_def)
  have ne: "bk_asks b \<noteq> []" using inv(7) by auto
  have w: "Qty_Sub (lv_Quantity x) tq = lv_Quantity x - tq"
    using inv(4,8) assms(5-7) by (auto simp: Qty_Sub_def in_i64_iff MaxInt64_def intro!: wrap64_id)
  show ?thesis
    using consume_sell [OF near_floor_side [OF assms(1)] assms(2), of tq "bk_symbol b", unfolded b list.sel w]
  proof (elim disjE conjE exE)
    let ?x = "x\<lparr>lv_Quantity := lv_Quantity x - tq\<rparr>"
    assume c: "consume (bk_symbol b) tq False (x # rest) r = Some (?x # rest, r)" and pos: "0 < lv_Quantity x - tq"
    have "\<not> Q \<le> tq" using pos inv(8) by auto
    moreover have "near_floor Q n (b\<lparr>bk_bids := ?x # rest\<rparr>)"
      using inv ne pos assms(6) b by (auto simp: near_floor_def book_inv_def sides_valid_def bids_ordered_def uncrossed_def Suc_le_eq)
    ultimately show ?thesis using c assms(2) b(1) by auto
  next
    fix k q r0 r'
    assume k: "k \<in> {1, 2::int}" "rand_ok r0" "rand_ok r'" "replenishQuantity (bk_symbol b) r0 = (q, r')" "0 < q"
    let ?l = "\<lparr>lv_Price = max 1 (lv_Price (last (x # rest)) - k), lv_Quantity = q\<rparr>"
    assume c: "consume (bk_symbol b) tq False (x # rest) r = Some (rest @ [?l], r')"
    have q: "q \<le> Q" using replenishQuantity_bound [OF k(2) assms(3) k(4)] assms(4) by simp
    have pos: "\<forall>l\<in>set rest. 0 < lv_Price l" using rest(2) by (auto simp: prices_ok_def)
    show ?thesis
    proof (cases "lv_Price (last rest) = 1")
      case True
      obtain front y where rest_eq: "rest = front @ [y]" using b(2) by (cases rest rule: rev_cases) auto
      have "jammed (b\<lparr>bk_bids := rest @ [?l]\<rparr>)"
        using True k(1) inv(7) pos unfolding jammed_def rest_eq
        by (auto simp: int_one_le_iff_zero_less intro!: exI [of _ front])
      then show ?thesis using c k(3) b(1) by auto
    next
      case False
      have v: "2 \<le> lv_Price (last rest)" using False pos b(2) last_in_set by fastforce
      have lo: "lv_Price ?l < lv_Price (last rest)" "0 < lv_Price ?l" "lv_Price ?l \<le> n - 1"
        using v k(1) b(2) inv(10) by auto
      have hi: "lv_Price (last rest) \<le> MaxInt64" using rest(2) b(2) last_in_set by (fastforce simp: prices_ok_def)
      have "bids_ordered (rest @ [?l])" using bids_snoc [OF rest(1) b(2) lo(1)] .
      moreover have "lv_Price ?l < lv_Price a" if "a \<in> set (bk_asks b)" for a
        using inv(3) lo(1) that last_in_set [OF b(2)] unfolding uncrossed_def by (meson less_trans list.set_intros(2))
      then have "uncrossed (rest @ [?l]) (bk_asks b)" using inv(3) unfolding uncrossed_def by simp
      moreover have "prices_ok (rest @ [?l])" using rest(2) lo hi k(5) by auto
      ultimately have "near_floor Q (n - 1) (b\<lparr>bk_bids := rest @ [?l]\<rparr>)"
        using inv(2,5-9) ne q lo(3) b by (auto simp: near_floor_def book_inv_def sides_valid_def Suc_le_eq)
      then show ?thesis using c k(3) b(1) by (auto simp: near_floor_def)
    qed
  qed
qed

lemma near_floor_commit:
  assumes "near_floor Q n b"
  shows "\<exists>b' m. commit now b = (b', m) \<and> near_floor Q n b' \<and> bk_symbol b' = bk_symbol b \<and> bk_asks b' = bk_asks b"
  using assms commit_valid [of b now] by (simp add: near_floor_def book_inv_def)

lemma floor_trade:
  assumes "near_floor Q n b" "rand_ok r" "QtyScale (bk_symbol b) = 100000000" "62000000 \<le> Q" "Q \<le> MaxInt64"
    "0 < tr_Quantity t" "tr_Quantity t \<le> MaxInt64" "lv_Price (last (bk_asks b)) \<le> M" "M + 2 \<le> MaxInt64"
  shows "\<exists>b' m r'. ApplyTrade t r b = Some (b', Some m, r') \<and> rand_ok r' \<and> bk_symbol b' = bk_symbol b
    \<and> (jammed b' \<or> near_floor Q (if big_sell Q t then n - 1 else n) b' \<and> lv_Price (last (bk_asks b')) \<le> M + 2)"
proof (cases "tr_Side t = SideBuy")
  case True
  have inv: "asks_ordered (bk_asks b)" "prices_ok (bk_asks b)" "2 \<le> length (bk_asks b)" "bk_bids b \<noteq> []" "bk_asks b \<noteq> []"
    "uncrossed (bk_bids b) (bk_asks b)"
    using assms(1) by (auto simp: near_floor_def book_inv_def sides_valid_def)
  obtain ls r' where c: "consume (bk_symbol b) (tr_Quantity t) True (bk_asks b) r = Some (ls, r')" "rand_ok r'" "asks_ordered ls" "prices_ok ls"
    "length ls = length (bk_asks b)" "\<forall>l\<in>set ls. lv_Price (hd (bk_asks b)) \<le> lv_Price l" "lv_Price (last ls) \<le> lv_Price (last (bk_asks b)) + 2"
    using consume_asks [OF assms(2) inv(1-3), of "bk_symbol b" "tr_Quantity t"] assms(8,9) by auto
  have "uncrossed (bk_bids b) ls"
    using inv(5,6) c(6) hd_in_set [OF inv(5)] unfolding uncrossed_def by (meson less_le_trans)
  then have "near_floor Q n (b\<lparr>bk_asks := ls\<rparr>)"
    using assms(1) c inv(3) by (auto simp: near_floor_def book_inv_def sides_valid_def)
  then obtain b' m where m: "commit (tr_Timestamp t) (b\<lparr>bk_asks := ls\<rparr>) = (b', m)" "near_floor Q n b'" "bk_symbol b' = bk_symbol b" "bk_asks b' = ls"
    using near_floor_commit by fastforce
  have "ApplyTrade t r b = Some (b', Some m, r')" using inv True c(1) m(1) by (simp add: ApplyTrade_def)
  then show ?thesis using m c(2,7) assms(8) True by (auto simp: big_sell_def)
next
  case False
  obtain ls r' where c: "consume (bk_symbol b) (tr_Quantity t) False (bk_bids b) r = Some (ls, r')" "rand_ok r'"
    "jammed (b\<lparr>bk_bids := ls\<rparr>) \<or> near_floor Q (if big_sell Q t then n - 1 else n) (b\<lparr>bk_bids := ls\<rparr>)"
    using floor_sell [OF assms(1-7)] False by (auto simp: big_sell_def)
  have ne: "bk_bids b \<noteq> []" "bk_asks b \<noteq> []" using assms(1) by (auto simp: near_floor_def)
  have step: "ApplyTrade t r b = (let (b2, m) = commit (tr_Timestamp t) (b\<lparr>bk_bids := ls\<rparr>) in Some (b2, Some m, r'))"
    using ne False c(1) by (simp add: ApplyTrade_def)
  from c(3) show ?thesis
  proof
    assume j: "jammed (b\<lparr>bk_bids := ls\<rparr>)"
    then show ?thesis using jammed_commit [OF j, of "tr_Timestamp t"] step c(2) by auto
  next
    assume "near_floor Q (if big_sell Q t then n - 1 else n) (b\<lparr>bk_bids := ls\<rparr>)"
    from near_floor_commit [OF this, of "tr_Timestamp t"] show ?thesis using step c(2) assms(8) by fastforce
  qed
qed


section \<open>The engine over a jammed book\<close>

definition aggs_ok :: "Engine \<Rightarrow> bool" where
  "aggs_ok e \<longleftrightarrow> (\<exists>s depth ts. list_all2 (\<lambda>iv a. agg_refines s iv (effective_depth iv depth) ts a) Intervals (en_aggregators e))"

definition same_market :: "Engine \<Rightarrow> Engine \<Rightarrow> bool" where
  "same_market e e' \<longleftrightarrow> en_aggregators e' = en_aggregators e \<and> en_summary e' = en_summary e \<and> en_trades e' = en_trades e"

lemma applyTrade_any:
  assumes "aggs_ok e" "ApplyTrade t (en_rng e) (en_book e) = Some (b, Some m, r)"
  shows "\<exists>e'. applyTrade now t emit e = Some e' \<and> aggs_ok e' \<and> en_book e' = b \<and> en_rng e' = r \<and> (mu_Err m \<noteq> None \<longrightarrow> same_market e e')"
proof -
  define e1 where "e1 = e\<lparr>en_eventIndex := en_eventIndex e + 1, en_lastPrice := tr_Price t, en_book := b, en_rng := r\<rparr>"
  have e1: "aggs_ok e1" "en_book e1 = b" "en_rng e1 = r" "same_market e e1" using assms(1) by (simp_all add: e1_def aggs_ok_def same_market_def)
  show ?thesis
  proof (cases "mu_Err m")
    case (Some err)
    let ?e = "recordInvariant now err t e1"
    have "applyTrade now t emit e = Some ?e"
      unfolding applyTrade_def assms(2) option.case prod.case Let_def e1_def [symmetric] by (simp add: Some)
    then show ?thesis using e1 same_state_fields [OF same_state_logs(3) [of e1 now err t]] by (simp add: aggs_ok_def same_market_def)
  next
    case None
    obtain s depth ts where l: "list_all2 (\<lambda>iv a. agg_refines s iv (effective_depth iv depth) ts a) Intervals (en_aggregators e1)"
      using e1(1) by (auto simp: aggs_ok_def)
    obtain as ch cl e2 where a: "apply_aggregators now t (en_aggregators e1) e1 = Some (as, ch, cl, e2)" "same_state e1 e2"
      "list_all2 (\<lambda>iv a. agg_refines s iv (effective_depth iv depth) (ts @ [t]) a) Intervals as"
      using apply_aggregators_ok [OF l, of now t e1] Intervals_valid by auto
    define e3 where "e3 = e2\<lparr>en_aggregators := as, en_summary := Summary_Apply t (en_summary e2), en_trades := Tape_Push t (en_trades e2)\<rparr>"
    let ?e = "if emit then emit_trade t (Some m) ch cl e3 else e3"
    have r: "applyTrade now t emit e = Some ?e"
      unfolding applyTrade_def assms(2) option.case prod.case Let_def e1_def [symmetric] by (simp add: None a(1) e3_def)
    have "same_state e3 ?e" by (simp add: emit_trade_same_state)
    note f = same_state_fields [OF this] same_state_fields [OF a(2)]
    have "en_aggregators ?e = as" using f(3) by (simp only: e3_def) simp
    then have "aggs_ok ?e" using a(3) unfolding aggs_ok_def by metis
    then show ?thesis using r f e1 None by (auto simp: e3_def)
  qed
qed

lemma engine_jammed:
  assumes "jammed (en_book e)" "aggs_ok e" "rand_ok (en_rng e)"
  shows "\<exists>e'. engine_trades ys e = Some e' \<and> same_market e e' \<and> jammed (en_book e')"
  using assms
proof (induction ys arbitrary: e)
  case Nil
  then show ?case by (simp add: same_market_def)
next
  case (Cons y ys)
  obtain now t emit where y: "y = (now, t, emit)" using prod_cases3 by blast
  obtain b m r err where b: "ApplyTrade t (en_rng e) (en_book e) = Some (b, Some m, r)" "mu_Err m = Some err" "jammed b" "rand_ok r"
    using jammed_trade [OF Cons.prems(1,3)] by blast
  obtain e1 where e1: "applyTrade now t emit e = Some e1" "aggs_ok e1" "en_book e1 = b" "en_rng e1 = r" "same_market e e1"
    using applyTrade_any [OF Cons.prems(2) b(1), of now emit] b(2) by auto
  from Cons.IH [of e1] e1 b obtain e' where "engine_trades ys e1 = Some e'" "same_market e1 e'" "jammed (en_book e')" by auto
  then show ?case using e1(1,5) by (auto simp: y same_market_def)
qed

lemma ApplyTrade_symbol: "ApplyTrade t r b = Some (b', m, r') \<Longrightarrow> bk_symbol b' = bk_symbol b"
  by (auto simp: ApplyTrade_def commit_def Let_def split: if_splits option.splits prod.splits sum.splits)

text \<open>Each big sell brings the book one tick closer to its floor, and a jammed book stays jammed.\<close>

lemma floor_or_jam_trade:
  assumes "near_floor Q n b \<and> lv_Price (last (bk_asks b)) \<le> M \<or> jammed b" "rand_ok r" "QtyScale (bk_symbol b) = 100000000"
    "62000000 \<le> Q" "Q \<le> MaxInt64" "0 < tr_Quantity t" "tr_Quantity t \<le> MaxInt64" "M + 2 \<le> MaxInt64"
  shows "\<exists>b' m r'. ApplyTrade t r b = Some (b', Some m, r') \<and> rand_ok r' \<and> QtyScale (bk_symbol b') = 100000000
    \<and> (near_floor Q (if big_sell Q t then n - 1 else n) b' \<and> lv_Price (last (bk_asks b')) \<le> M + 2 \<or> jammed b')"
proof (cases "jammed b")
  case True
  obtain b' m r' where "ApplyTrade t r b = Some (b', Some m, r')" "jammed b'" "rand_ok r'"
    using jammed_trade [OF True assms(2)] by blast
  then show ?thesis using ApplyTrade_symbol [of t r b b'] assms(3) by auto
next
  case False
  then have "near_floor Q n b" "lv_Price (last (bk_asks b)) \<le> M" using assms(1) by auto
  from floor_trade [OF this(1) assms(2-7) this(2) assms(8)] obtain b' m r' where
    "ApplyTrade t r b = Some (b', Some m, r')" "rand_ok r'" "bk_symbol b' = bk_symbol b"
    "jammed b' \<or> near_floor Q (if big_sell Q t then n - 1 else n) b' \<and> lv_Price (last (bk_asks b')) \<le> M + 2"
    by blast
  then show ?thesis using assms(3) by (intro exI [of _ b'] exI [of _ m] exI [of _ r']) auto
qed

lemma engine_reaches_jam:
  assumes "near_floor Q n (en_book e) \<and> lv_Price (last (bk_asks (en_book e))) \<le> M \<or> jammed (en_book e)" "aggs_ok e"
    "rand_ok (en_rng e)" "QtyScale (bk_symbol (en_book e)) = 100000000" "62000000 \<le> Q" "Q \<le> MaxInt64"
    "\<forall>t\<in>set (trades_in xs). 0 < tr_Quantity t \<and> tr_Quantity t \<le> MaxInt64"
    "M + 2 * int (length xs) \<le> MaxInt64" "n \<le> int (length (filter (big_sell Q) (trades_in xs)))"
  shows "\<exists>e1. engine_trades xs e = Some e1 \<and> aggs_ok e1 \<and> rand_ok (en_rng e1) \<and> jammed (en_book e1)"
  using assms
proof (induction xs arbitrary: e n M)
  case Nil
  have "\<not> near_floor Q n (en_book e)"
    using near_floor_side [of Q n "en_book e"] Nil.prems(9) by (auto simp: near_floor_def floor_side_def trades_in_def)
  then show ?case using Nil.prems by simp
next
  case (Cons x xs)
  obtain clock t emit where x: "x = (clock, t, emit)" using prod_cases3 by blast
  let ?n = "if big_sell Q t then n - 1 else n"
  have t: "0 < tr_Quantity t" "tr_Quantity t \<le> MaxInt64" "M + 2 \<le> MaxInt64" using Cons.prems(7,8) by (auto simp: trades_in_def x)
  obtain b m r' where b: "ApplyTrade t (en_rng e) (en_book e) = Some (b, Some m, r')" "rand_ok r'" "QtyScale (bk_symbol b) = 100000000"
    "near_floor Q ?n b \<and> lv_Price (last (bk_asks b)) \<le> M + 2 \<or> jammed b"
    using floor_or_jam_trade [OF Cons.prems(1,3-6) t] by blast
  obtain e1 where e1: "applyTrade clock t emit e = Some e1" "aggs_ok e1" "en_book e1 = b" "en_rng e1 = r'"
    using applyTrade_any [OF Cons.prems(2) b(1), of clock emit] by auto
  have n: "?n \<le> int (length (filter (big_sell Q) (trades_in xs)))" using Cons.prems(9) by (auto simp: trades_in_def x)
  have "\<exists>e2. engine_trades xs e1 = Some e2 \<and> aggs_ok e2 \<and> rand_ok (en_rng e2) \<and> jammed (en_book e2)"
    using Cons.prems(5-8) b e1 n by (intro Cons.IH [of ?n e1 "M + 2"]) (auto simp: trades_in_def)
  then show ?case using e1(1) by (simp add: x)
qed


definition sampleSells :: "(gotime \<times> Trade \<times> bool) list" where
  "sampleSells = replicate 98 (zeroTime, zeroTrade\<lparr>tr_Quantity := 62000000, tr_Side := SideSell\<rparr>, False)"


end
