(* ===== verification/Faults.thy ===== *)
theory Faults
  imports Engine
begin

text \<open>
  \<^verbatim>\<open>internal/exchange/faultinject/decorator.go\<close>: a provider that corrupts the stream of another. A run of its goroutine is a
  function of the events it takes from the source, of which \<^term>\<open>None\<close> is a nil event; the list of what it
  sends is the result. A cancelled context cuts such a run short. The clock is read once for every fault
  that is noted: the \<open>n\<close>-th reading is \<open>clock n\<close>.
\<close>

section \<open>The decorator\<close>

definition SkipBookDelta :: string where "SkipBookDelta = ''skip_book_delta''"
definition DuplicateLast :: string where "DuplicateLast = ''duplicate_last''"
definition ReversePair :: string where "ReversePair = ''reverse_pair''"
definition DelayTrade :: string where "DelayTrade = ''delay_trade''"
definition DropTrade :: string where "DropTrade = ''drop_trade''"

lemmas fault_kinds = SkipBookDelta_def DuplicateLast_def ReversePair_def DelayTrade_def DropTrade_def

record Fault =
  ft_Kind :: string
  ft_After :: int
  ft_Count :: int
  ft_Delay :: int

datatype EventType = UpTrade | UpBookDelta | UpHeartbeat | UpFault

fun event_type :: "MarketEvent \<Rightarrow> EventType" where
  "event_type (TradeEvent t) = UpTrade"
| "event_type (BookDeltaEvent d) = UpBookDelta"
| "event_type (HeartbeatEvent ts) = UpHeartbeat"
| "event_type (FaultEvent k d ts) = UpFault"

datatype fault_detail = DroppedBookDelta | DroppedTrade | ReemittedPrevious | ReversedPair | DelayedBy int

record FaultApply =
  fa_Kind :: string
  fa_At :: gotime
  fa_EventType :: EventType
  fa_Detail :: fault_detail

record Decorator =
  dc_schedule :: "Fault list"
  dc_seen :: int
  dc_applied :: "FaultApply list"
  dc_pending :: "MarketEvent option list"

definition Decorator_New :: "Fault list \<Rightarrow> Decorator" where
  "Decorator_New schedule = \<lparr>dc_schedule = schedule, dc_seen = 0, dc_applied = [], dc_pending = []\<rparr>"

definition decorator_next :: "MarketEvent option list \<Rightarrow> Decorator \<Rightarrow> (MarketEvent option \<times> MarketEvent option list \<times> Decorator) option" where
  "decorator_next src d =
     (case dc_pending d of
        ev # rest \<Rightarrow> Some (ev, src, d\<lparr>dc_pending := rest\<rparr>)
      | [] \<Rightarrow> (case src of [] \<Rightarrow> None | ev # rest \<Rightarrow> Some (ev, rest, d)))"

definition decorator_advance :: "Decorator \<Rightarrow> int \<times> Decorator" where
  "decorator_advance d = (dc_seen d + 1, d\<lparr>dc_seen := dc_seen d + 1\<rparr>)"

definition fault_due :: "int \<Rightarrow> Fault \<Rightarrow> bool" where
  "fault_due seen f =
     (let count = (if ft_Count f \<le> 0 then 1 else ft_Count f)
      in seen > ft_After f \<and> seen \<le> ft_After f + count)"

definition faultsFor :: "int \<Rightarrow> Decorator \<Rightarrow> Fault list" where
  "faultsFor seen d = filter (fault_due seen) (dc_schedule d)"

definition fault_note :: "(nat \<Rightarrow> gotime) \<Rightarrow> Fault \<Rightarrow> MarketEvent \<Rightarrow> fault_detail \<Rightarrow> Decorator \<Rightarrow> Decorator" where
  "fault_note clock f ev detail d =
     d\<lparr>dc_applied := dc_applied d @ [\<lparr>fa_Kind = ft_Kind f, fa_At = clock (length (dc_applied d)), fa_EventType = event_type ev,
        fa_Detail = detail\<rparr>]\<rparr>"

definition fault_emit :: "MarketEvent option \<Rightarrow> MarketEvent list \<Rightarrow> MarketEvent list" where
  "fault_emit e out = (case e of None \<Rightarrow> out | Some ev \<Rightarrow> out @ [ev])"

text \<open>The variables of the goroutine: the decorator, the source, what was sent, the last event and whether this
  one is skipped.\<close>

record fault_run =
  fr_dec :: Decorator
  fr_src :: "MarketEvent option list"
  fr_out :: "MarketEvent list"
  fr_last :: "MarketEvent option"
  fr_skip :: bool

text \<open>One fault of the inner loop, and whether the goroutine goes on.\<close>

definition fault_step :: "(nat \<Rightarrow> gotime) \<Rightarrow> MarketEvent \<Rightarrow> Fault \<Rightarrow> fault_run \<Rightarrow> bool \<times> fault_run" where
  "fault_step clock ev f s =
     (if ft_Kind f = SkipBookDelta then
        (True, if event_type ev = UpBookDelta then s\<lparr>fr_dec := fault_note clock f ev DroppedBookDelta (fr_dec s), fr_skip := True\<rparr> else s)
      else if ft_Kind f = DropTrade then
        (True, if event_type ev = UpTrade then s\<lparr>fr_dec := fault_note clock f ev DroppedTrade (fr_dec s), fr_skip := True\<rparr> else s)
      else if ft_Kind f = DuplicateLast then
        (True, case fr_last s of None \<Rightarrow> s
           | Some l \<Rightarrow> s\<lparr>fr_dec := fault_note clock f l ReemittedPrevious (fr_dec s), fr_out := fault_emit (Some l) (fr_out s)\<rparr>)
      else if ft_Kind f = ReversePair then
        (case decorator_next (fr_src s) (fr_dec s) of
           None \<Rightarrow> (False, s)
         | Some (nxt, src, d) \<Rightarrow>
             (True, s\<lparr>fr_dec := fault_note clock f ev ReversedPair d, fr_src := src,
                      fr_out := fault_emit (Some ev) (fault_emit nxt (fr_out s)), fr_last := Some ev\<rparr>))
      else if ft_Kind f = DelayTrade then
        (True, if event_type ev = UpTrade then s\<lparr>fr_dec := fault_note clock f ev (DelayedBy (ft_Delay f)) (fr_dec s)\<rparr> else s)
      else (True, s))"

fun fault_loop :: "(nat \<Rightarrow> gotime) \<Rightarrow> MarketEvent \<Rightarrow> Fault list \<Rightarrow> fault_run \<Rightarrow> bool \<times> fault_run" where
  "fault_loop clock ev [] s = (True, s)"
| "fault_loop clock ev (f # fs) s =
     (case fault_step clock ev f s of
        (False, s1) \<Rightarrow> (False, s1)
      | (True, s1) \<Rightarrow> fault_loop clock ev fs s1)"

definition run_left :: "fault_run \<Rightarrow> nat" where
  "run_left s = length (fr_src s) + length (dc_pending (fr_dec s))"

lemma decorator_next_left:
  "decorator_next src d = Some (ev, src', d') \<Longrightarrow> length src' + length (dc_pending d') < length src + length (dc_pending d)"
  by (auto simp: decorator_next_def split: list.splits)

lemma fault_loop_left: "fault_loop clock ev fs s = (go, s') \<Longrightarrow> run_left s' \<le> run_left s"
proof (induction fs arbitrary: s)
  case (Cons f fs)
  obtain g s1 where s1: "fault_step clock ev f s = (g, s1)" by force
  have "run_left s1 \<le> run_left s"
    using s1 by (auto simp: fault_step_def run_left_def fault_note_def dest: decorator_next_left split: if_splits option.splits prod.splits)
  then show ?case using Cons s1 by (cases g) fastforce+
qed simp

text \<open>One event of the outer loop, already taken from the source.\<close>

definition fault_event :: "(nat \<Rightarrow> gotime) \<Rightarrow> MarketEvent \<Rightarrow> fault_run \<Rightarrow> bool \<times> fault_run" where
  "fault_event clock ev s =
     (case decorator_advance (fr_dec s) of (seen, d) \<Rightarrow>
        case fault_loop clock ev (faultsFor seen d) (s\<lparr>fr_dec := d, fr_skip := False\<rparr>) of
          (False, s1) \<Rightarrow> (False, s1)
        | (True, s1) \<Rightarrow> (True, if fr_skip s1 then s1 else s1\<lparr>fr_out := fault_emit (Some ev) (fr_out s1), fr_last := Some ev\<rparr>))"

lemma fault_event_left: "fault_event clock ev s = (go, s') \<Longrightarrow> run_left s' \<le> run_left s"
  by (auto simp: fault_event_def decorator_advance_def run_left_def fault_emit_def split: bool.splits prod.splits
      dest!: fault_loop_left [unfolded run_left_def])

function Decorator_run :: "(nat \<Rightarrow> gotime) \<Rightarrow> fault_run \<Rightarrow> fault_run" where
  "Decorator_run clock s =
     (case decorator_next (fr_src s) (fr_dec s) of
        None \<Rightarrow> s
      | Some (None, src, d) \<Rightarrow> Decorator_run clock (s\<lparr>fr_src := src, fr_dec := d\<rparr>)
      | Some (Some ev, src, d) \<Rightarrow>
          (case fault_event clock ev (s\<lparr>fr_src := src, fr_dec := d\<rparr>) of
             (False, s1) \<Rightarrow> s1
           | (True, s1) \<Rightarrow> Decorator_run clock s1))"
  by pat_completeness auto
termination
  by (relation "measure (run_left \<circ> snd)")
    (auto simp: run_left_def dest!: decorator_next_left fault_event_left [OF sym, unfolded run_left_def])

declare Decorator_run.simps [simp del]

definition Decorator_Stream :: "(nat \<Rightarrow> gotime) \<Rightarrow> MarketEvent option list \<Rightarrow> Decorator \<Rightarrow> MarketEvent list \<times> Decorator" where
  "Decorator_Stream clock src d =
     (let s = Decorator_run clock \<lparr>fr_dec = d, fr_src = src, fr_out = [], fr_last = None, fr_skip = False\<rparr>
      in (fr_out s, fr_dec s))"


section \<open>What a schedule does\<close>

text \<open>A reference for schedules that only lose or delay events: which events of a stream survive.\<close>

definition kills :: "MarketEvent \<Rightarrow> Fault \<Rightarrow> bool" where
  "kills ev f \<longleftrightarrow> ft_Kind f = SkipBookDelta \<and> event_type ev = UpBookDelta \<or> ft_Kind f = DropTrade \<and> event_type ev = UpTrade"

fun survivors :: "Fault list \<Rightarrow> int \<Rightarrow> MarketEvent list \<Rightarrow> MarketEvent list" where
  "survivors schedule n [] = []"
| "survivors schedule n (ev # evs) =
     (if \<exists>f\<in>set schedule. fault_due (n + 1) f \<and> kills ev f then [] else [ev]) @ survivors schedule (n + 1) evs"

definition events_of :: "MarketEvent option list \<Rightarrow> MarketEvent list" where
  "events_of src = concat (map (\<lambda>e. case e of None \<Rightarrow> [] | Some ev \<Rightarrow> [ev]) src)"

definition lossy :: "Fault \<Rightarrow> bool" where
  "lossy f \<longleftrightarrow> ft_Kind f \<noteq> DuplicateLast \<and> ft_Kind f \<noteq> ReversePair"

definition noted :: "Decorator \<Rightarrow> Decorator \<Rightarrow> bool" where
  "noted d d' \<longleftrightarrow> dc_schedule d' = dc_schedule d \<and> dc_seen d' = dc_seen d \<and> dc_pending d' = dc_pending d"

definition lossy_note :: "(nat \<Rightarrow> gotime) \<Rightarrow> MarketEvent \<Rightarrow> Fault \<Rightarrow> Decorator \<Rightarrow> Decorator" where
  "lossy_note clock ev f d =
     (if kills ev f then fault_note clock f ev (if ft_Kind f = DropTrade then DroppedTrade else DroppedBookDelta) d
      else if ft_Kind f = DelayTrade \<and> event_type ev = UpTrade then fault_note clock f ev (DelayedBy (ft_Delay f)) d else d)"

lemma noted_lossy: "noted d (fold (lossy_note clock ev) fs d)"
proof (induction fs arbitrary: d)
  case (Cons f fs)
  have "noted d (lossy_note clock ev f d)" by (simp add: noted_def lossy_note_def fault_note_def)
  then show ?case using Cons [of "lossy_note clock ev f d"] by (simp add: noted_def)
qed (simp add: noted_def)

lemma fault_loop_lossy:
  "list_all lossy fs \<Longrightarrow> fault_loop clock ev fs s
     = (True, s\<lparr>fr_dec := fold (lossy_note clock ev) fs (fr_dec s), fr_skip := fr_skip s \<or> (\<exists>f\<in>set fs. kills ev f)\<rparr>)"
proof (induction fs arbitrary: s)
  case (Cons f fs)
  have "fault_step clock ev f s = (True, s\<lparr>fr_dec := lossy_note clock ev f (fr_dec s), fr_skip := fr_skip s \<or> kills ev f\<rparr>)"
    using Cons.prems by (auto simp: fault_step_def lossy_def kills_def lossy_note_def fault_kinds)
  then show ?case using Cons by (simp add: disj_assoc)
qed simp

lemma Decorator_run_lossy:
  assumes "list_all lossy (dc_schedule (fr_dec s))" "dc_pending (fr_dec s) = []"
  shows "fr_out (Decorator_run clock s) = fr_out s @ survivors (dc_schedule (fr_dec s)) (dc_seen (fr_dec s)) (events_of (fr_src s))
    \<and> dc_seen (fr_dec (Decorator_run clock s)) = dc_seen (fr_dec s) + int (length (events_of (fr_src s)))"
  using assms
proof (induction "fr_src s" arbitrary: s)
  case Nil
  then show ?case by (subst (1 2) Decorator_run.simps) (simp add: decorator_next_def events_of_def)
next
  case (Cons e src)
  have nx: "decorator_next (fr_src s) (fr_dec s) = Some (e, src, fr_dec s)"
    using Cons.hyps(2) [symmetric] Cons.prems(2) by (simp add: decorator_next_def)
  show ?case
  proof (cases e)
    case None
    have "Decorator_run clock s = Decorator_run clock (s\<lparr>fr_src := src, fr_dec := fr_dec s\<rparr>)"
      by (subst Decorator_run.simps) (simp add: nx None)
    then show ?thesis
      using Cons.hyps(1) [of "s\<lparr>fr_src := src, fr_dec := fr_dec s\<rparr>"] Cons.prems None
      by (simp add: events_of_def flip: Cons.hyps(2))
  next
    case (Some ev)
    let ?d = "(fr_dec s)\<lparr>dc_seen := dc_seen (fr_dec s) + 1\<rparr>" and ?n = "dc_seen (fr_dec s) + 1"
    define kill where "kill \<longleftrightarrow> (\<exists>f\<in>set (dc_schedule (fr_dec s)). fault_due ?n f \<and> kills ev f)"
    have "list_all lossy (faultsFor ?n ?d)" using Cons.prems(1) by (simp add: faultsFor_def list_all_iff)
    moreover have "(\<exists>f\<in>set (faultsFor ?n ?d). kills ev f) = kill" by (auto simp: faultsFor_def kill_def)
    moreover define d where "d = fold (lossy_note clock ev) (faultsFor ?n ?d) ?d"
    ultimately have d: "fault_loop clock ev (faultsFor ?n ?d) (s\<lparr>fr_src := src, fr_dec := ?d, fr_skip := False\<rparr>)
        = (True, s\<lparr>fr_src := src, fr_dec := d, fr_skip := kill\<rparr>)" "noted ?d d"
      by (simp_all add: fault_loop_lossy noted_lossy)
    define s1 where "s1 = (let s0 = s\<lparr>fr_src := src, fr_dec := d, fr_skip := kill\<rparr>
        in if kill then s0 else s0\<lparr>fr_out := fr_out s @ [ev], fr_last := Some ev\<rparr>)"
    have "fault_event clock ev (s\<lparr>fr_src := src, fr_dec := fr_dec s\<rparr>) = (True, s1)"
      using d(1) by (simp add: fault_event_def decorator_advance_def s1_def Let_def fault_emit_def)
    then have step: "Decorator_run clock s = Decorator_run clock s1"
      by (subst Decorator_run.simps) (simp add: nx Some)
    have f: "fr_src s1 = src" "fr_dec s1 = d" "fr_out s1 = fr_out s @ (if kill then [] else [ev])" by (simp_all add: s1_def Let_def)
    show ?thesis
      unfolding step using Cons.hyps(1) [of s1] Cons.prems d(2) Some
      by (simp add: f noted_def events_of_def kill_def flip: Cons.hyps(2))
  qed
qed

text \<open>
  C28. A schedule that only drops or delays does exactly that. Whatever the source sends, nil events included, the decorated
  stream is the source's events in their order without exactly those that some fault due at their position
  drops: book deltas for the one kind, trades for the other. With no faults it is the source.
\<close>

theorem Decorator_losses_exact:
  assumes "list_all lossy schedule"
  shows "fst (Decorator_Stream clock src (Decorator_New schedule)) = survivors schedule 0 (events_of src)
    \<and> dc_seen (snd (Decorator_Stream clock src (Decorator_New schedule))) = int (length (events_of src))
    \<and> survivors [] 0 (events_of src) = events_of src"
proof -
  have "survivors [] n evs = evs" for n evs by (induction evs arbitrary: n) auto
  then show ?thesis
    using Decorator_run_lossy [of "\<lparr>fr_dec = Decorator_New schedule, fr_src = src, fr_out = [], fr_last = None, fr_skip = False\<rparr>" clock] assms
    by (simp add: Decorator_Stream_def Let_def Decorator_New_def)
qed

text \<open>
  Reversing a pair duplicates an event. The fault is meant to swap two events; the swapped pair is sent, and then
  the first of the two is sent once more, so the stream has one event too many. The rest follows
  unchanged.
\<close>

lemma ReversePair_duplicates:
  "fst (Decorator_Stream clock (Some a # Some b # map Some rest) (Decorator_New [\<lparr>ft_Kind = ReversePair, ft_After = 0, ft_Count = 1, ft_Delay = 0\<rparr>]))
     = b # a # a # rest"
proof -
  let ?f = "\<lparr>ft_Kind = ReversePair, ft_After = 0, ft_Count = 1, ft_Delay = 0\<rparr>"
  have quiet: "fr_out (Decorator_run clock s) = fr_out s @ rest"
    if "dc_schedule (fr_dec s) = [?f]" "dc_pending (fr_dec s) = []" "1 \<le> dc_seen (fr_dec s)" "fr_src s = map Some rest" for s rest
    using that
  proof (induction rest arbitrary: s)
    case Nil
    then show ?case by (subst Decorator_run.simps) (simp add: decorator_next_def)
  next
    case (Cons ev evs)
    let ?s = "s\<lparr>fr_src := map Some evs, fr_dec := (fr_dec s)\<lparr>dc_seen := dc_seen (fr_dec s) + 1\<rparr>, fr_skip := False, fr_out := fr_out s @ [ev], fr_last := Some ev\<rparr>"
    have "Decorator_run clock s = Decorator_run clock ?s"
      using Cons.prems by (subst Decorator_run.simps)
        (simp add: decorator_next_def fault_event_def decorator_advance_def faultsFor_def fault_due_def fault_emit_def)
    then show ?case using Cons.IH [of ?s] Cons.prems by simp
  qed
  show ?thesis
    unfolding Decorator_Stream_def Let_def
    by (subst Decorator_run.simps)
      (simp add: decorator_next_def Decorator_New_def fault_event_def decorator_advance_def faultsFor_def fault_due_def
        fault_emit_def fault_step_def fault_kinds fault_note_def quiet)
qed

theorem Decorator_losses_exact_witness:
  "fst (Decorator_Stream (\<lambda>_. zeroTime) [Some (TradeEvent zeroTrade), None, Some (HeartbeatEvent zeroTime), Some (TradeEvent zeroTrade)]
     (Decorator_New [\<lparr>ft_Kind = DropTrade, ft_After = 0, ft_Count = 2, ft_Delay = 0\<rparr>]))
   = [HeartbeatEvent zeroTime, TradeEvent zeroTrade]"
  using Decorator_losses_exact [of "[\<lparr>ft_Kind = DropTrade, ft_After = 0, ft_Count = 2, ft_Delay = 0\<rparr>]" "\<lambda>_. zeroTime"
      "[Some (TradeEvent zeroTrade), None, Some (HeartbeatEvent zeroTime), Some (TradeEvent zeroTrade)]"]
  by (simp add: lossy_def fault_kinds events_of_def kills_def fault_due_def)

end
