(* ===== verification/Replay.thy ===== *)
theory Replay
  imports Synthetic
begin

text \<open>
  \<^verbatim>\<open>internal/exchange/replay/provider.go\<close>: a fixture of one event per line, read into events and played back. The JSON
  decoder and \<^verbatim>\<open>time.Parse\<close> are parameters; a line they reject is an error of the fixture. The lines are those
  the scanner yields, and \<open>scan_err\<close> tells whether it stopped with an error.
\<close>

section \<open>The fixture\<close>

record fixtureLine =
  fl_Type :: string
  fl_TradeID :: u64
  fl_Timestamp :: string
  fl_Price :: string
  fl_Quantity :: string
  fl_Side :: string
  fl_Epoch :: u64
  fl_FirstUpdate :: u64
  fl_LastUpdate :: u64
  fl_Bids :: "(string \<times> string) list"
  fl_Asks :: "(string \<times> string) list"

datatype fixture_error =
    BadTimestamp | BadNumber domain_error | BadSide domain_error | NegativeBid | UnknownRecordType string
  | BadJSON | CannotOpen | ScanFailed | NoEvents

text \<open>Fallible code that may also panic: \<^term>\<open>None\<close> is the panic of the number parser, for a symbol with scale zero.\<close>

definition and_then :: "('e + 'a) option \<Rightarrow> ('a \<Rightarrow> ('e + 'b) option) \<Rightarrow> ('e + 'b) option" where
  "and_then m f = (case m of None \<Rightarrow> None | Some (Inl e) \<Rightarrow> Some (Inl e) | Some (Inr x) \<Rightarrow> f x)"

lemma and_then_simps [simp]:
  "and_then (Some (Inr x)) f = f x" "and_then (Some (Inl e)) f = Some (Inl e)" "and_then None f = None"
  by (simp_all add: and_then_def)

lemma and_then_Inr: "and_then m f = Some (Inr y) \<longleftrightarrow> (\<exists>x. m = Some (Inr x) \<and> f x = Some (Inr y))"
  by (auto simp: and_then_def split: option.splits sum.splits)

definition number :: "'a result option \<Rightarrow> (fixture_error + 'a) option" where
  "number m = map_option (map_sum BadNumber id) m"

fun parseLevels :: "Symbol \<Rightarrow> (string \<times> string) list \<Rightarrow> bool \<Rightarrow> (fixture_error + Level list) option" where
  "parseLevels symb [] bid = Some (Inr [])"
| "parseLevels symb (pair # raw) bid =
     and_then (number (ParsePrice symb (fst pair))) (\<lambda>p.
     and_then (number (ParseQty symb (snd pair))) (\<lambda>q.
       if bid \<and> Qty_IsNegative q then Some (Inl NegativeBid)
       else and_then (parseLevels symb raw bid) (\<lambda>ls. Some (Inr (\<lparr>lv_Price = p, lv_Quantity = q\<rparr> # ls)))))"

definition toEvent :: "(string \<Rightarrow> gotime option) \<Rightarrow> Symbol \<Rightarrow> fixtureLine \<Rightarrow> (fixture_error + MarketEvent) option" where
  "toEvent parse_time symb r =
     (case parse_time (fl_Timestamp r) of
        None \<Rightarrow> Some (Inl BadTimestamp)
      | Some ts \<Rightarrow>
          if fl_Type r = ''trade'' then
            and_then (number (ParsePrice symb (fl_Price r))) (\<lambda>p.
            and_then (number (ParseQty symb (fl_Quantity r))) (\<lambda>q.
            and_then (Some (if fl_Side r \<noteq> [] then map_sum BadSide id (ParseSide (fl_Side r)) else Inr SideBuy)) (\<lambda>side.
              Some (Inr (TradeEvent \<lparr>tr_ID = fl_TradeID r, tr_Symbol = sym_ID symb, tr_Timestamp = to_utc ts, tr_Price = p,
                                     tr_Quantity = q, tr_Side = side\<rparr>)))))
          else if fl_Type r = ''book_delta'' \<or> fl_Type r = ''order_book_delta'' then
            and_then (parseLevels symb (fl_Bids r) True) (\<lambda>bids.
            and_then (parseLevels symb (fl_Asks r) False) (\<lambda>asks.
              Some (Inr (BookDeltaEvent \<lparr>bd_Symbol = sym_ID symb, bd_Epoch = fl_Epoch r, bd_FirstUpdate = fl_FirstUpdate r,
                bd_LastUpdate = fl_LastUpdate r, bd_Bids = bids, bd_Asks = asks, bd_Timestamp = to_utc ts\<rparr>))))
          else Some (Inl (UnknownRecordType (fl_Type r))))"

definition fixture_skips :: "string \<Rightarrow> bool" where
  "fixture_skips line \<longleftrightarrow> (let text = TrimSpace line in text = [] \<or> take 2 text = ''//'')"

fun load_lines ::
  "(string \<Rightarrow> fixtureLine option) \<Rightarrow> (string \<Rightarrow> gotime option) \<Rightarrow> Symbol \<Rightarrow> string list \<Rightarrow> (fixture_error + MarketEvent list) option" where
  "load_lines decode parse_time symb [] = Some (Inr [])"
| "load_lines decode parse_time symb (line # lines) =
     (if fixture_skips line then load_lines decode parse_time symb lines
      else case decode (TrimSpace line) of
             None \<Rightarrow> Some (Inl BadJSON)
           | Some rec \<Rightarrow>
               and_then (toEvent parse_time symb rec) (\<lambda>ev.
               and_then (load_lines decode parse_time symb lines) (\<lambda>evs. Some (Inr (ev # evs)))))"

definition Load ::
  "(string \<Rightarrow> fixtureLine option) \<Rightarrow> (string \<Rightarrow> gotime option) \<Rightarrow> Symbol \<Rightarrow> string list option \<Rightarrow> bool
     \<Rightarrow> (fixture_error + MarketEvent list) option" where
  "Load decode parse_time symb file scan_err =
     (case file of
        None \<Rightarrow> Some (Inl CannotOpen)
      | Some lines \<Rightarrow>
          and_then (load_lines decode parse_time symb lines) (\<lambda>evs.
            if scan_err then Some (Inl ScanFailed) else if evs = [] then Some (Inl NoEvents) else Some (Inr evs)))"


section \<open>The provider\<close>

record ReplayProvider =
  rp_Symbol :: Symbol
  rp_Interval :: int
  rp_Loop :: bool
  rp_events :: "MarketEvent list"
  rp_pace :: Pace
  rp_streaming :: bool
  rp_index :: nat

definition NewFromEvents :: "Symbol \<Rightarrow> MarketEvent list \<Rightarrow> ReplayProvider" where
  "NewFromEvents symb events =
     \<lparr>rp_Symbol = symb, rp_Interval = 0, rp_Loop = False, rp_events = events, rp_pace = PaceFast, rp_streaming = False, rp_index = 0\<rparr>"

definition Replay_New ::
  "(string \<Rightarrow> fixtureLine option) \<Rightarrow> (string \<Rightarrow> gotime option) \<Rightarrow> Symbol \<Rightarrow> int \<Rightarrow> bool \<Rightarrow> string list option \<Rightarrow> bool
     \<Rightarrow> (fixture_error + ReplayProvider) option" where
  "Replay_New decode parse_time symb interval loop file scan_err =
     and_then (Load decode parse_time symb file scan_err) (\<lambda>events.
       Some (Inr ((NewFromEvents symb events)\<lparr>rp_Interval := interval, rp_Loop := loop\<rparr>)))"

definition Replay_SetPace :: "Pace \<Rightarrow> ReplayProvider \<Rightarrow> ReplayProvider" where
  "Replay_SetPace pc p = p\<lparr>rp_pace := pc\<rparr>"

fun first_trade_price :: "MarketEvent list \<Rightarrow> price option" where
  "first_trade_price [] = None"
| "first_trade_price (TradeEvent t # evs) = Some (tr_Price t)"
| "first_trade_price (_ # evs) = first_trade_price evs"

definition firstPrice :: "ReplayProvider \<Rightarrow> price" where
  "firstPrice p =
     (case first_trade_price (rp_events p) of
        Some px \<Rightarrow> px
      | None \<Rightarrow> (case SeedPrice (sym_ID (rp_Symbol p)) of Some px \<Rightarrow> px | None \<Rightarrow> wrap64 (PriceScale (rp_Symbol p) * 100)))"

definition Replay_Snapshot ::
  "GoMath \<Rightarrow> Rand \<Rightarrow> bool \<Rightarrow> string \<Rightarrow> gotime \<Rightarrow> ReplayProvider \<Rightarrow> exchange_error + OrderBookSnapshot" where
  "Replay_Snapshot gm rng cancelled symbol now p =
     (if cancelled then Inl ErrProviderContext
      else if symbol \<noteq> sym_ID (rp_Symbol p) then Inl ErrSymbolMismatch
      else case BuildLadder gm (rp_Symbol p) (firstPrice p) (DefaultLadderConfig 100) rng of (bids, asks, r) \<Rightarrow>
        Inr \<lparr>ob_Symbol = symbol, ob_Epoch = 1, ob_UpdateID = 1, ob_Bids = bids, ob_Asks = asks, ob_ServerTime = now\<rparr>)"

text \<open>The loop of \<^verbatim>\<open>RecentTrades\<close>: \<open>i\<close> events are left to look at.\<close>

fun recent_loop :: "MarketEvent list \<Rightarrow> int \<Rightarrow> nat \<Rightarrow> Trade list \<Rightarrow> Trade list" where
  "recent_loop events limit 0 out = out"
| "recent_loop events limit (Suc i) out =
     (if int (length out) < limit
      then recent_loop events limit i (case events ! i of TradeEvent t \<Rightarrow> out @ [t] | _ \<Rightarrow> out)
      else out)"

definition Replay_RecentTrades :: "string \<Rightarrow> int \<Rightarrow> ReplayProvider \<Rightarrow> exchange_error + Trade list" where
  "Replay_RecentTrades symbol limit p =
     (if symbol \<noteq> sym_ID (rp_Symbol p) then Inl ErrSymbolMismatch else Inr (recent_loop (rp_events p) limit (rp_index p) []))"

definition Replay_Stream :: "string \<Rightarrow> ReplayProvider \<Rightarrow> ReplayProvider \<times> exchange_error option" where
  "Replay_Stream symbol p =
     (if symbol \<noteq> sym_ID (rp_Symbol p) then (p, Some ErrSymbolMismatch)
      else if rp_streaming p then (p, Some ErrAlreadyStreaming)
      else (p\<lparr>rp_streaming := True\<rparr>, None))"

text \<open>A round of the goroutine: the event it sends, no event when it ends, and a panic for a looping provider
  without events.\<close>

definition replay_round :: "ReplayProvider \<Rightarrow> (MarketEvent option \<times> ReplayProvider) option" where
  "replay_round p =
     (if rp_index p \<ge> length (rp_events p) \<and> \<not> rp_Loop p then Some (None, p)
      else
        let p1 = (if rp_index p \<ge> length (rp_events p) then p\<lparr>rp_index := 0\<rparr> else p)
        in if rp_index p1 < length (rp_events p1)
           then Some (Some (rp_events p1 ! rp_index p1), p1\<lparr>rp_index := rp_index p1 + 1\<rparr>)
           else None)"

fun replay_run :: "nat \<Rightarrow> ReplayProvider \<Rightarrow> (MarketEvent list \<times> ReplayProvider) option" where
  "replay_run 0 p = Some ([], p)"
| "replay_run (Suc n) p =
     (case replay_round p of
        None \<Rightarrow> None
      | Some (None, p1) \<Rightarrow> Some ([], p1)
      | Some (Some ev, p1) \<Rightarrow> map_option (\<lambda>(evs, p2). (ev # evs, p2)) (replay_run n p1))"


section \<open>Reading a fixture\<close>

text \<open>What a line that is not skipped has to be.\<close>

definition line_event :: "(string \<Rightarrow> fixtureLine option) \<Rightarrow> (string \<Rightarrow> gotime option) \<Rightarrow> Symbol \<Rightarrow> string \<Rightarrow> MarketEvent \<Rightarrow> bool" where
  "line_event decode parse_time symb line ev \<longleftrightarrow>
     (case decode (TrimSpace line) of None \<Rightarrow> False | Some rec \<Rightarrow> toEvent parse_time symb rec = Some (Inr ev))"

lemma load_lines_iff:
  "load_lines decode parse_time symb lines = Some (Inr evs)
     \<longleftrightarrow> list_all2 (line_event decode parse_time symb) (filter (\<lambda>l. \<not> fixture_skips l) lines) evs"
proof (induction lines arbitrary: evs)
  case (Cons line lines)
  show ?case
    by (cases "decode (TrimSpace line)") (auto simp: Cons and_then_Inr line_event_def list_all2_Cons1)
qed auto

fun event_symbol :: "MarketEvent \<Rightarrow> string option" where
  "event_symbol (TradeEvent t) = Some (tr_Symbol t)"
| "event_symbol (BookDeltaEvent d) = Some (bd_Symbol d)"
| "event_symbol _ = None"

lemma toEvent_symbol: "toEvent parse_time symb rec = Some (Inr ev) \<Longrightarrow> event_symbol ev = Some (sym_ID symb)"
  by (auto simp: toEvent_def and_then_Inr split: option.splits if_splits)

text \<open>
  C29. A fixture is read completely or not at all. Loading succeeds with a list of events exactly when the file opens and
  is scanned to its end and the lines that are neither blank nor comments, of which there is at least
  one, are the events of the list, one by one and in order; every event is one of the provider's symbol.
\<close>

theorem Load_exact:
  "Load decode parse_time symb file scan_err = Some (Inr evs) \<longleftrightarrow>
     \<not> scan_err \<and> evs \<noteq> [] \<and> (\<exists>lines. file = Some lines
       \<and> list_all2 (line_event decode parse_time symb) (filter (\<lambda>l. \<not> fixture_skips l) lines) evs
       \<and> (\<forall>ev\<in>set evs. event_symbol ev = Some (sym_ID symb)))"
proof -
  have "\<forall>ev\<in>set evs. event_symbol ev = Some (sym_ID symb)" if "list_all2 (line_event decode parse_time symb) ls evs" for ls
    using that by (induction rule: list_all2_induct) (auto simp: line_event_def dest: toEvent_symbol split: option.splits)
  then show ?thesis by (auto simp: Load_def and_then_Inr load_lines_iff split: option.splits)
qed

definition sampleLine :: fixtureLine where
  "sampleLine = \<lparr>fl_Type = ''book_delta'', fl_TradeID = 0, fl_Timestamp = [], fl_Price = [], fl_Quantity = [], fl_Side = [], fl_Epoch = 1,
     fl_FirstUpdate = 2, fl_LastUpdate = 2, fl_Bids = [], fl_Asks = []\<rparr>"

theorem Load_exact_witness:
  "\<exists>ev. Load (\<lambda>_. Some sampleLine) (\<lambda>_. Some zeroTime) BTCUSDT (Some [''// note'', ''{}'']) False = Some (Inr [ev])
     \<and> event_symbol ev = Some ''BTCUSDT''"
proof -
  have k: "fixture_skips ''// note''" "\<not> fixture_skips ''{}''" by code_simp+
  obtain ev where ev: "toEvent (\<lambda>_. Some zeroTime) BTCUSDT sampleLine = Some (Inr ev)"
    by (simp add: toEvent_def sampleLine_def)
  have "list_all2 (line_event (\<lambda>_. Some sampleLine) (\<lambda>_. Some zeroTime) BTCUSDT)
      (filter (\<lambda>l. \<not> fixture_skips l) [''// note'', ''{}'']) [ev]"
    unfolding filter.simps k by (simp add: k line_event_def ev)
  moreover have "event_symbol ev = Some (sym_ID BTCUSDT)" by (rule toEvent_symbol [OF ev])
  ultimately show ?thesis
    using Load_exact [of "\<lambda>_. Some sampleLine" "\<lambda>_. Some zeroTime" BTCUSDT "Some [''// note'', ''{}'']" False "[ev]"] by auto
qed


section \<open>Playing it back\<close>

definition trades_of :: "MarketEvent list \<Rightarrow> Trade list" where
  "trades_of evs = concat (map (\<lambda>ev. case ev of TradeEvent t \<Rightarrow> [t] | _ \<Rightarrow> []) evs)"

lemma recent_loop_spec:
  "i \<le> length events \<Longrightarrow> recent_loop events limit i out = out @ take (nat limit - length out) (rev (trades_of (take i events)))"
proof (induction i arbitrary: out)
  case (Suc i)
  have t: "take (Suc i) events = take i events @ [events ! i]" using Suc.prems by (simp add: take_Suc_conv_app_nth)
  show ?case
  proof (cases "int (length out) < limit")
    case True
    then have "0 < nat limit - length out" by simp
    then show ?thesis using True Suc unfolding t
      by (cases "events ! i") (auto simp: trades_of_def take_Cons' Suc_diff_Suc)
  next
    case False
    then show ?thesis by simp
  qed
qed (simp add: trades_of_def)

lemma replay_run_once:
  "\<not> rp_Loop p \<Longrightarrow> rp_index p \<le> length (rp_events p)
    \<Longrightarrow> replay_run n p = Some (take n (drop (rp_index p) (rp_events p)), p\<lparr>rp_index := min (rp_index p + n) (length (rp_events p))\<rparr>)"
proof (induction n arbitrary: p)
  case (Suc n)
  show ?case
  proof (cases "rp_index p < length (rp_events p)")
    case True
    then show ?thesis
      using Suc by (simp add: replay_round_def Let_def take_Suc Cons_nth_drop_Suc [symmetric])
  next
    case False
    then show ?thesis using Suc.prems by (simp add: replay_round_def min_def)
  qed
qed simp

lemma replay_run_loop:
  "rp_Loop p \<Longrightarrow> rp_events p \<noteq> [] \<Longrightarrow> rp_index p \<le> length (rp_events p)
    \<Longrightarrow> \<exists>p'. replay_run n p = Some (map (\<lambda>k. rp_events p ! ((rp_index p + k) mod length (rp_events p))) [0..<n], p')"
proof (induction n arbitrary: p)
  case (Suc n)
  let ?len = "length (rp_events p)"
  define i where "i = rp_index p mod ?len"
  have i: "i < ?len" using Suc.prems by (simp add: i_def)
  define p1 where "p1 = p\<lparr>rp_index := i + 1\<rparr>"
  have step: "replay_round p = Some (Some (rp_events p ! i), p1)"
  proof (cases "rp_index p = ?len")
    case True
    then have "i = 0" by (simp add: i_def)
    then show ?thesis using True Suc.prems by (simp add: replay_round_def Let_def p1_def)
  next
    case False
    then have "i = rp_index p" using Suc.prems(3) by (simp add: i_def)
    then show ?thesis using i by (simp add: replay_round_def Let_def p1_def)
  qed
  obtain p' where p': "replay_run n p1 = Some (map (\<lambda>k. rp_events p1 ! ((rp_index p1 + k) mod length (rp_events p1))) [0..<n], p')"
    using Suc.IH [of p1] Suc.prems i by (auto simp: p1_def)
  have "(i + 1 + k) mod ?len = (rp_index p + Suc k) mod ?len" for k
    using mod_add_left_eq [of "rp_index p" ?len "1 + k"] by (simp add: i_def)
  then have "map (\<lambda>k. rp_events p ! ((i + 1 + k) mod ?len)) [0..<n] = map (\<lambda>k. rp_events p ! ((rp_index p + k) mod ?len)) [Suc 0..<Suc n]"
    unfolding map_Suc_upt [symmetric] map_map by simp
  then show ?case
    using p' by (simp add: step p1_def upt_conv_Cons i_def del: upt_Suc)
qed simp

text \<open>
  A replay plays its fixture. After \<open>n\<close> rounds a provider that does not loop has sent the first \<open>n\<close> events in
  their order, or all of them, and its recent trades are the trades among these, newest first, up to the
  limit. A looping one sends the fixture over and over: its \<open>k\<close>-th event is the one at \<open>k\<close> modulo the
  length.
\<close>

lemma Replay_exact:
  assumes "events \<noteq> []"
  shows "(\<exists>p'. replay_run n (NewFromEvents symb events) = Some (take n events, p')
      \<and> Replay_RecentTrades (sym_ID symb) limit p' = Inr (take (nat limit) (rev (trades_of (take n events)))))
    \<and> (\<exists>p'. replay_run n ((NewFromEvents symb events)\<lparr>rp_Loop := True\<rparr>) = Some (map (\<lambda>k. events ! (k mod length events)) [0..<n], p'))"
proof -
  have "recent_loop events limit (min n (length events)) [] = take (nat limit) (rev (trades_of (take n events)))"
    using recent_loop_spec [of "min n (length events)" events limit "[]"] by (simp add: min_def)
  then show ?thesis
    using replay_run_once [of "NewFromEvents symb events" n] replay_run_loop [of "(NewFromEvents symb events)\<lparr>rp_Loop := True\<rparr>" n] assms
    by (auto simp: NewFromEvents_def Replay_RecentTrades_def)
qed

end
