(* ===== verification/Market_Feed.thy ===== *)
theory Market_Feed
  imports Replay
begin

text \<open>
  Providers and engine together. A locale states what a market relies on in the trades of its provider
  (\<^verbatim>\<open>MarketDataProvider\<close> of \<^verbatim>\<open>exchange/provider.go\<close>); the synthetic and the replay provider are interpretations of it.
  Shown once for both: an engine that is fed the trades loses none of them.
\<close>

section \<open>What a market relies on\<close>

text \<open>An engine serves the trades when no series, at any limit, misses one of them and the summary covers the last day of them.\<close>

definition serves_all :: "Symbol \<Rightarrow> int \<Rightarrow> Trade list \<Rightarrow> Engine \<Rightarrow> bool" where
  "serves_all symb depth ts e \<longleftrightarrow>
     (\<forall>iv\<in>set Intervals. \<forall>limit. Engine_Candles iv limit e = Inr ((if limit \<le> 0 then id else last_n (nat limit))
        (last_n (Suc (nat depth)) (candles_of (sym_ID symb) iv ts)), True))
     \<and> (\<forall>now. \<exists>ms. Engine_Summary now e = Some ms \<and> ms_Last ms = tr_Price (last ts)
          \<and> ms_High24h ms = Max (tr_Price ` set (day_window ts)) \<and> ms_Low24h ms = Min (tr_Price ` set (day_window ts))
          \<and> ms_Trades24h ms = int (length (day_window ts)))"

locale market_feed =
  fixes symb :: Symbol and feeds :: "Trade list \<Rightarrow> bool"
  assumes feed_own: "feeds ts \<Longrightarrow> own_trades symb ts = ts"
    and feed_ordered: "feeds ts \<Longrightarrow> sorted (map stamp ts)"
    and feed_prices: "feeds ts \<Longrightarrow> \<forall>t\<in>set ts. in_i64 (tr_Price t)"
begin

lemma feed_accepted: "feeds ts \<Longrightarrow> Interval_Valid iv \<Longrightarrow> accepted iv (own_trades symb ts) = ts"
  by (simp add: feed_own ascending_accepted feed_ordered)

lemma feed_served:
  assumes feed: "feeds (trades_in xs)" "xs \<noteq> []"
    and boot: "Engine_New cfg caps r (Inr snap) = Inr e" "cfg_Symbol cfg = symb" "snapshot_ok snap" "rand_ok r"
      "has_room_for (length xs) (en_book e)"
  shows "\<exists>e'. engine_trades xs e = Some e' \<and> serves_all symb (cfg_HistoryDepth (withDefaults cfg)) (trades_in xs) e'"
proof -
  let ?ts = "trades_in xs"
  have acc: "accepted iv (own_trades symb ?ts) = ?ts" if "iv \<in> set Intervals" for iv
    by (rule feed_accepted [OF feed(1) Intervals_valid [OF that]])
  have len: "length ?ts = length xs" "?ts \<noteq> []" using feed(2) by (simp_all add: trades_in_def)
  have room: "2 * int (length xs) \<le> lv_Price (last (bk_bids (en_book e)))" "bk_bids (en_book e) \<noteq> []"
    using boot(5) by (auto simp: has_room_for_def)
  have "prices_ok (bk_bids (en_book e))"
    using Engine_New_ok(1) [OF boot(1,3,4)] by (simp add: engine_refines_def book_inv_def)
  then have "lv_Price (last (bk_bids (en_book e))) \<le> MaxInt64"
    using room(2) by (meson last_in_set prices_ok_def)
  then have long: "int (length ?ts) \<le> MaxInt64" using room(1) len(1) by simp
  define d where "d = cfg_HistoryDepth (withDefaults cfg)"
  have d: "effective_depth iv d = nat d" for iv by (simp add: d_def withDefaults_def effective_depth_def)
  obtain e' where e': "engine_trades xs e = Some e'"
    and ref: "engine_refines symb d (nat (cfg_RecentTradesCap (withDefaults cfg))) ?ts e'"
    using engine_trades_ok [OF Engine_New_ok(1) [OF boot(1,3,4)] boot(5)] boot(2) by (auto simp: d_def)
  have sm: "Engine_Summary now e' = Summary_Snapshot now (fold Summary_Apply ?ts (NewSummary24h symb))" for now
    using ref by (simp add: engine_refines_def Engine_Summary_def)
  have "\<exists>ms. Engine_Summary now e' = Some ms \<and> ms_Last ms = tr_Price (last ?ts)
      \<and> ms_High24h ms = Max (tr_Price ` set (day_window ?ts)) \<and> ms_Low24h ms = Min (tr_Price ` set (day_window ?ts))
      \<and> ms_Trades24h ms = int (length (day_window ?ts))" for now
    using summary_exact [OF ascending_timely [OF feed_ordered [OF feed(1)]] len(2) long feed_prices [OF feed(1)], of now symb]
    unfolding sm by blast
  moreover have "Engine_Candles iv limit e' = Inr ((if limit \<le> 0 then id else last_n (nat limit))
         (last_n (Suc (nat d)) (candles_of (sym_ID symb) iv ?ts)), True)" if "iv \<in> set Intervals" for iv limit
    using Engine_Candles_refines [OF ref that, of limit] len(2) by (simp add: acc [OF that] served_candles_def d)
  ultimately show ?thesis using e' by (simp add: serves_all_def d_def)
qed

end

section \<open>The synthetic provider\<close>

text \<open>What a fresh provider sends once its snapshot was taken.\<close>

definition synthetic_trades :: "SynthConfig \<Rightarrow> Trade list \<Rightarrow> bool" where
  "synthetic_trades c ts \<longleftrightarrow> sy_Symbol c \<in> set AllSymbols \<and>
     (\<exists>gm now start rng lrng p snap inps p'.
        Synth_Snapshot gm False (sym_ID (sy_Symbol c)) now (Synth_New c start rng lrng) = (p, Inr snap)
        \<and> well_timed PaceFast (instant start) inps \<and> provider_run gm inps p = (p', ts))"

lemma walk_prices: "walk symb a i ts \<Longrightarrow> symb \<in> set AllSymbols \<Longrightarrow> t \<in> set ts \<Longrightarrow> in_i64 (tr_Price t)"
proof (induction ts arbitrary: a i)
  case (Cons u ts)
  have "0 < anchorPrice symb" "anchorPrice symb \<le> 10 ^ 7" "0 \<le> deviation (anchorPrice symb)"
    using roster_anchor [OF Cons.prems(2)] deviation_roster [OF Cons.prems(2)] by simp_all
  moreover have "deviation (anchorPrice symb) \<le> 10 ^ 9" using calculation by (simp add: deviation_def)
  moreover have "\<bar>tr_Price u - anchorPrice symb\<bar> \<le> deviation (anchorPrice symb)" using Cons.prems(1) by simp
  ultimately have "in_i64 (tr_Price u)" by (auto simp: in_i64_iff abs_le_iff)
  then show ?case using Cons by auto
qed simp

lemma synthetic_walk_in_order:
  assumes "synthetic_trades c ts"
  shows "sorted (map stamp ts) \<and> walk (sy_Symbol c) (anchorPrice (sy_Symbol c)) InitialTradeID ts"
proof -
  let ?s = "sy_Symbol c"
  obtain gm now start rng lrng p snap inps p' where s: "?s \<in> set AllSymbols"
    and snap: "Synth_Snapshot gm False (sym_ID ?s) now (Synth_New c start rng lrng) = (p, Inr snap)"
    and w: "well_timed PaceFast (instant start) inps" and run: "provider_run gm inps p = (p', ts)"
    using assms by (auto simp: synthetic_trades_def)
  let ?p = "Synth_New c start rng lrng"
  have same: "sp_gen p = sp_gen ?p" "sp_emitted p = sp_emitted ?p" "sp_pace p = sp_pace ?p" "sp_cfg p = sp_cfg ?p"
    "sp_warmupEnd p = sp_warmupEnd ?p"
    using snap by (auto simp: Synth_Snapshot_def Let_def split: if_splits prod.splits)
  have g: "gen_inv ?s (sp_gen p) []" using same(1) Synth_New_inv(1) deviation_roster [OF s] by simp
  have e: "sp_emitted p = of_nat (length [])" by (simp add: same Synth_New_inv)
  have t: "timeline_inv (instant start) p []" using Synth_New_inv(2) [of start c rng lrng] same by (simp add: timeline_inv_def)
  from provider_run_inv [OF g s e, where gm = gm and inps = inps and c = "instant start"] show ?thesis
    using run w t by (simp add: provider_run_def same Synth_New_inv gen_inv_def)
qed

interpretation synthetic_feed: market_feed "sy_Symbol c" "synthetic_trades c" for c
proof unfold_locales
  fix ts assume f: "synthetic_trades c ts"
  note w = synthetic_walk_in_order [OF f]
  show "own_trades (sy_Symbol c) ts = ts" "sorted (map stamp ts)" using w walk_symbols by auto
  show "\<forall>t\<in>set ts. in_i64 (tr_Price t)" using f w walk_prices by (auto simp: synthetic_trades_def)
qed

section \<open>The replay provider\<close>

text \<open>What a provider sends that plays a fixture once, if the fixture is in the order of time.\<close>

definition replay_trades :: "Symbol \<Rightarrow> Trade list \<Rightarrow> bool" where
  "replay_trades symb ts \<longleftrightarrow>
     (\<exists>decode parse_time lns scan_err evs n out p'.
        Load decode parse_time symb lns scan_err = Some (Inr evs) \<and> replay_run n (NewFromEvents symb evs) = Some (out, p')
        \<and> ts = trades_of out \<and> sorted (map stamp ts))"

lemma ParseScaled_i64: "ParseScaled s scale digits = Some (Inr v) \<Longrightarrow> in_i64 v"
  by (auto simp: ParseScaled_def Let_def wrap64_in split: if_splits option.splits)

lemma number_Inr: "number m = Some (Inr x) \<longleftrightarrow> m = Some (Inr x)"
proof (cases m)
  case (Some z)
  then show ?thesis by (cases z) (simp_all add: number_def)
qed (simp add: number_def)

lemma toEvent_price: "toEvent parse_time symb rec = Some (Inr (TradeEvent t)) \<Longrightarrow> in_i64 (tr_Price t)"
  by (auto simp: toEvent_def and_then_Inr number_Inr ParsePrice_def split: option.splits if_splits dest: ParseScaled_i64)

lemma loaded_trades:
  assumes "Load decode parse_time symb lns scan_err = Some (Inr evs)" "TradeEvent t \<in> set evs"
  shows "tr_Symbol t = sym_ID symb" "in_i64 (tr_Price t)"
proof -
  obtain ls where "list_all2 (line_event decode parse_time symb) ls evs"
    using assms(1) by (auto simp: Load_def and_then_Inr load_lines_iff split: option.splits if_splits)
  then obtain l where "line_event decode parse_time symb l (TradeEvent t)"
    using assms(2) by (metis in_set_conv_nth list_all2_conv_all_nth)
  then obtain rec where "toEvent parse_time symb rec = Some (Inr (TradeEvent t))" by (auto simp: line_event_def split: option.splits)
  from toEvent_symbol [OF this] toEvent_price [OF this] show "tr_Symbol t = sym_ID symb" "in_i64 (tr_Price t)" by simp_all
qed

lemma trades_of_member: "t \<in> set (trades_of evs) \<longleftrightarrow> TradeEvent t \<in> set evs"
  by (force simp: trades_of_def split: MarketEvent.splits)

interpretation replay_feed: market_feed symb "replay_trades symb" for symb
proof unfold_locales
  fix ts assume "replay_trades symb ts"
  then obtain decode parse_time lns scan_err evs n out p' where
    l: "Load decode parse_time symb lns scan_err = Some (Inr evs)" "replay_run n (NewFromEvents symb evs) = Some (out, p')"
    and ts: "ts = trades_of out" "sorted (map stamp ts)"
    unfolding replay_trades_def by blast
  have "out = take n evs" using l(2) replay_run_once [of "NewFromEvents symb evs" n] by (simp add: NewFromEvents_def)
  then have "TradeEvent t \<in> set evs" if "t \<in> set ts" for t using that ts by (auto simp: trades_of_member dest: in_set_takeD)
  then have "\<forall>t\<in>set ts. tr_Symbol t = sym_ID symb \<and> in_i64 (tr_Price t)" using loaded_trades [OF l(1)] by blast
  then show "own_trades symb ts = ts" "\<forall>t\<in>set ts. in_i64 (tr_Price t)" by (simp_all add: own_trades_def)
  show "sorted (map stamp ts)" by (rule ts(2))
qed


section \<open>From the provider to the readers of the engine\<close>

lemma ladder_loop_ends:
  assumes "rand_ok r" "ladder_loop gm symb cfg B A n i gap r = (bids, asks, r')" "0 \<le> gap" "gap + 2 * int n < B"
    "B \<le> A" "A + gap + 2 * int n \<le> MaxInt64"
  shows "(\<forall>l\<in>set bids. B - gap - 2 * int n \<le> lv_Price l) \<and> (\<forall>l\<in>set asks. lv_Price l \<le> A + gap + 2 * int n)"
  using assms
proof (induction n arbitrary: i gap r bids asks)
  case (Suc n)
  obtain k qb qa r3 bids' asks' where k: "k \<in> {1, 2}" "0 < qb" "0 < qa" "rand_ok r3"
    "ladder_loop gm symb cfg B A n (Suc i) (gap + k) r3 = (bids', asks', r')"
    "bids = \<lparr>lv_Price = (if wrap64 (B - (gap + k)) \<le> 0 then wrap64 (1 + (lc_Levels cfg - int i)) else wrap64 (B - (gap + k))), lv_Quantity = qb\<rparr> # bids'"
    "asks = \<lparr>lv_Price = wrap64 (A + (gap + k)), lv_Quantity = qa\<rparr> # asks'"
    by (rule ladder_loop_Suc [OF Suc.prems(1,2)])
  have w: "wrap64 (B - (gap + k)) = B - (gap + k)" "wrap64 (A + (gap + k)) = A + (gap + k)"
    using k(1) Suc.prems(3-6) by (auto intro!: wrap64_id simp: in_i64_iff MaxInt64_def)
  have "(\<forall>l\<in>set bids'. B - (gap + k) - 2 * int n \<le> lv_Price l) \<and> (\<forall>l\<in>set asks'. lv_Price l \<le> A + (gap + k) + 2 * int n)"
    using k(1) Suc.prems(3-6) by (intro Suc.IH [OF k(4,5)]) auto
  then show ?case using k(1,6,7) Suc.prems(3-6) unfolding w by fastforce
qed simp

text \<open>A ladder that fits below the anchor price bootstraps an engine, and leaves its book the rest of the price to move in.\<close>

lemma synthetic_bootstrap_room:
  assumes "sy_Symbol c \<in> set AllSymbols" "rand_ok lrng"
    and "Synth_Snapshot gm False (sym_ID (sy_Symbol c)) now (Synth_New c start rng lrng) = (p, Inr snap)"
    and "2 * (ladder_levels c + int n) + 2 < anchorPrice (sy_Symbol c)"
  shows "snapshot_ok snap \<and> (\<exists>e. Engine_New cfg caps r (Inr snap) = Inr e \<and> has_room_for n (en_book e))"
proof -
  define A where "A = anchorPrice (sy_Symbol c)"
  let ?L = "nat (ladder_levels c)"
  obtain bids asks r' where l: "ladder_loop gm (sy_Symbol c) (DefaultLadderConfig (sy_BookLevels (Synth_withDefaults c))) (A - 2) (A + 2)
      ?L 0 0 lrng = (bids, asks, r')"
    and snap: "snap = \<lparr>ob_Symbol = sym_ID (sy_Symbol c), ob_Epoch = 0, ob_UpdateID = 0, ob_Bids = bids, ob_Asks = asks, ob_ServerTime = now\<rparr>"
    and A: "4820 \<le> A" "A \<le> 10 ^ 7"
    by (rule Synth_New_snapshot [OF assms(1), where gm = gm and lrng = lrng and now = now and start = start and rng = rng])
      (use assms(3) in \<open>simp add: A_def\<close>)
  have L: "20 \<le> ladder_levels c" by (simp add: ladder_levels_def DefaultLadderConfig_def)
  have b: "0 + 2 * int ?L < A - 2" "A - 2 \<le> A + 2" "A + 2 + 0 + 2 * int ?L \<le> MaxInt64"
    using assms(4) L A by (simp_all add: A_def MaxInt64_def)
  note v = ladder_loop_valid [OF assms(2) l order_refl b]
  note ends = ladder_loop_ends [OF assms(2) l order_refl b]
  have "uncrossed bids asks" using v by (fastforce simp: uncrossed_def)
  then have ok: "snapshot_ok snap"
    using v L by (auto simp: snapshot_ok_def Snapshot_Validate_iff sides_valid_def snap)
  define e0 where "e0 = new_engine (withDefaults cfg) caps r"
  define m where "m = bk_maxLevels (en_book e0)"
  have m: "2 \<le> m" by (auto simp: m_def e0_def new_engine_def NewOrderBook_def Let_def le_nat_iff)
  define e where "e = e0\<lparr>en_book := (en_book e0)\<lparr>bk_epoch := 0, bk_updateID := 0, bk_bids := take m bids, bk_asks := take m asks\<rparr>\<rparr>"
  have e: "Engine_New cfg caps r (Inr snap) = Inr e"
    using Install_ok(1) [OF ok, of "en_book e0" 0 0] m by (simp add: Engine_New_def e0_def [symmetric] snap e_def m_def Let_def)
  have two: "2 \<le> length (take m bids)" "2 \<le> length (take m asks)" using v L m by auto
  then have "last (take m bids) \<in> set bids" "last (take m asks) \<in> set asks"
    by (metis in_set_takeD last_in_set list.size(3) not_numeral_le_zero)+
  then have "A - 2 - 2 * int ?L \<le> lv_Price (last (take m bids))" "lv_Price (last (take m asks)) \<le> A + 2 + 2 * int ?L"
    using ends by fastforce+
  then have "has_room_for n (en_book e)"
    using two assms(4) L A by (simp add: has_room_for_def e_def A_def MaxInt64_def)
  then show ?thesis using ok e by blast
qed



end
