(* ===== verification/Settings.thy ===== *)
theory Settings
  imports Synthetic Manager Metrics_Store
begin

text \<open>
  \<^verbatim>\<open>internal/config/config.go\<close> and the wiring of \<^verbatim>\<open>cmd/server/main.go\<close>: defaults, the environment and its
  \<^verbatim>\<open>.env\<close> file, the parsing of every variable, validation, and the configurations the components receive.

  The fields of the Go struct are grouped as its comments group them. The environment is a map; \<^verbatim>\<open>os.Open\<close> on
  the dotenv file is the argument that holds its lines. \<^verbatim>\<open>strconv.ParseFloat\<close> and \<^verbatim>\<open>time.ParseDuration\<close> are
  parameters that return a value or reject the text, and no infinity or NaN. A message is
  represented by what it is about.
\<close>

section \<open>The configuration\<close>

record EngineSettings =
  ce_GeneratorSeed :: int
  ce_Symbol :: string
  ce_TradesPerSecond :: rat
  ce_BookRefreshHz :: rat
  ce_BookLevels :: int
  ce_BookDeltaWindow :: int
  ce_HistoryLimitMax :: int
  ce_WarmupSpan :: int
  ce_WarmupMaxEvents :: int
  ce_VolatilityBurstRate :: rat
  ce_RecentTradesCap :: int

record TransportSettings =
  cw_HTTPAddr :: string
  cw_WSPath :: string
  cw_WSReadLimitBytes :: int
  cw_WSClientMsgPerSec :: int
  cw_HTTPReadTimeout :: int
  cw_HTTPWriteTimeout :: int
  cw_ShutdownGrace :: int

record DeliverySettings =
  cy_TierFullMaxRTTMs :: rat
  cy_TierFullMaxJitterMs :: rat
  cy_TierMinimalMinRTTMs :: rat
  cy_TierMinimalMinJitterMs :: rat
  cy_TierRateFullPerSec :: rat
  cy_TierRateDegradedPerSec :: rat
  cy_TierRateMinimalPerSec :: rat
  cy_TierDegradeStreak :: int
  cy_TierRecoverStreak :: int
  cy_HealthReportHold :: int
  cy_HealthReportDegrade :: int
  cy_HealthWatchdog :: int
  cy_SessionOutboundCap :: int
  cy_SessionWriteTimeout :: int
  cy_MaxSessionSubscriptions :: int

record MetricsSettings =
  cm_MetricsEnabled :: bool
  cm_MetricsDriver :: string
  cm_MetricsDBPath :: string
  cm_MetricsQueueCapacity :: int
  cm_MetricsBatchSize :: int
  cm_MetricsFlushInterval :: int
  cm_MetricsRetentionEnabled :: bool
  cm_MetricsRetentionLatency :: int
  cm_MetricsRetentionEvents :: int
  cm_MetricsRetentionSessions :: int
  cm_MetricsPruneInterval :: int
  cm_MetricsPruneBatch :: int

record Settings =
  cs_Engine :: EngineSettings
  cs_Transport :: TransportSettings
  cs_Delivery :: DeliverySettings
  cs_Metrics :: MetricsSettings
  cs_EnableDebugControls :: bool
  cs_DebugBuild :: bool
  cs_LogLevel :: string

definition envKeys :: "string list" where
  "envKeys =
     [''GENERATOR_SEED'', ''SYMBOL'', ''TRADES_PER_SECOND'', ''BOOK_REFRESH_HZ'', ''BOOK_LEVELS'',
      ''BOOK_DELTA_WINDOW'', ''HISTORY_LIMIT_MAX'', ''WARMUP_SPAN'', ''WARMUP_MAX_EVENTS'', ''VOLATILITY_BURST_RATE'',
      ''RECENT_TRADES_CAPACITY'', ''HTTP_ADDR'', ''WS_PATH'', ''WS_READ_LIMIT_BYTES'', ''WS_CLIENT_MSG_PER_SEC'',
      ''HTTP_READ_TIMEOUT'', ''HTTP_WRITE_TIMEOUT'', ''SHUTDOWN_GRACE'', ''TIER_FULL_MAX_RTT_MS'',
      ''TIER_FULL_MAX_JITTER_MS'', ''TIER_MINIMAL_MIN_RTT_MS'', ''TIER_MINIMAL_MIN_JITTER_MS'',
      ''TIER_RATE_FULL_PER_SEC'', ''TIER_RATE_DEGRADED_PER_SEC'', ''TIER_RATE_MINIMAL_PER_SEC'',
      ''TIER_DEGRADE_STREAK'', ''TIER_RECOVER_STREAK'', ''HEALTH_REPORT_HOLD'', ''HEALTH_REPORT_DEGRADE'',
      ''HEALTH_WATCHDOG_INTERVAL'', ''SESSION_OUTBOUND_CAPACITY'', ''SESSION_WRITE_TIMEOUT'',
      ''MAX_SESSION_SUBSCRIPTIONS'', ''METRICS_ENABLED'', ''METRICS_DRIVER'', ''METRICS_DB_PATH'',
      ''METRICS_QUEUE_CAPACITY'', ''METRICS_BATCH_SIZE'', ''METRICS_FLUSH_INTERVAL'', ''METRICS_RETENTION_ENABLED'',
      ''METRICS_RETENTION_LATENCY'', ''METRICS_RETENTION_EVENTS'', ''METRICS_RETENTION_SESSIONS'',
      ''METRICS_PRUNE_INTERVAL'', ''METRICS_PRUNE_BATCH'', ''ENABLE_DEBUG_CONTROLS'', ''DEBUG_BUILD'', ''LOG_LEVEL'']"

definition Default_settings :: Settings where
  "Default_settings =
     \<lparr>cs_Engine =
        \<lparr>ce_GeneratorSeed = 20260917, ce_Symbol = ''BTCUSDT'', ce_TradesPerSecond = 10, ce_BookRefreshHz = 10,
         ce_BookLevels = 100, ce_BookDeltaWindow = 15, ce_HistoryLimitMax = 500, ce_WarmupSpan = 720 * hour_ns,
         ce_WarmupMaxEvents = 1000000, ce_VolatilityBurstRate = 4, ce_RecentTradesCap = 200\<rparr>,
      cs_Transport =
        \<lparr>cw_HTTPAddr = ''0.0.0.0:8080'', cw_WSPath = ''/ws'', cw_WSReadLimitBytes = 16 * 1024, cw_WSClientMsgPerSec =
         20, cw_HTTPReadTimeout = 10 * second, cw_HTTPWriteTimeout = 15 * second, cw_ShutdownGrace = 5 * second\<rparr>,
      cs_Delivery =
        \<lparr>cy_TierFullMaxRTTMs = 150, cy_TierFullMaxJitterMs = 50, cy_TierMinimalMinRTTMs = 500,
         cy_TierMinimalMinJitterMs = 150, cy_TierRateFullPerSec = 10, cy_TierRateDegradedPerSec = 2, cy_TierRateMinimalPerSec
         = 1 / 2, cy_TierDegradeStreak = 3, cy_TierRecoverStreak = 5, cy_HealthReportHold = 5 * second,
         cy_HealthReportDegrade = 10 * second, cy_HealthWatchdog = 250 * 10 ^ 6, cy_SessionOutboundCap = 256,
         cy_SessionWriteTimeout = 5 * second, cy_MaxSessionSubscriptions = 8\<rparr>,
      cs_Metrics =
        \<lparr>cm_MetricsEnabled = True, cm_MetricsDriver = ''sqlite'', cm_MetricsDBPath = ''./data/pulsetrade.db'',
         cm_MetricsQueueCapacity = 4096, cm_MetricsBatchSize = 128, cm_MetricsFlushInterval = 250 * 10 ^ 6,
         cm_MetricsRetentionEnabled = True, cm_MetricsRetentionLatency = 24 * hour_ns, cm_MetricsRetentionEvents =
         168 * hour_ns, cm_MetricsRetentionSessions = 2160 * hour_ns, cm_MetricsPruneInterval = 10 * minute_ns,
         cm_MetricsPruneBatch = 5000\<rparr>,
      cs_EnableDebugControls = True, cs_DebugBuild = True, cs_LogLevel = ''info''\<rparr>"

definition DebugControlsActive :: "Settings \<Rightarrow> bool" where
  "DebugControlsActive c \<longleftrightarrow> cs_DebugBuild c \<and> cs_EnableDebugControls c"


section \<open>Validation\<close>

datatype config_error = BadValue string string string | Violated string

definition require :: "bool \<Rightarrow> string \<Rightarrow> config_error list" where
  "require cond what = (if cond then [] else [Violated what])"

definition validate_engine :: "EngineSettings \<Rightarrow> config_error list" where
  "validate_engine e =
     require (ce_Symbol e \<noteq> []) ''SYMBOL'' @
     require (ce_TradesPerSecond e > 0 \<and> ce_TradesPerSecond e \<le> 200) ''TRADES_PER_SECOND'' @
     require (ce_BookRefreshHz e > 0 \<and> ce_BookRefreshHz e \<le> 100) ''BOOK_REFRESH_HZ'' @
     require (ce_BookLevels e \<ge> 15) ''BOOK_LEVELS'' @
     require (ce_BookDeltaWindow e \<ge> 10) ''BOOK_DELTA_WINDOW'' @
     require (ce_BookDeltaWindow e < ce_BookLevels e) ''BOOK_DELTA_WINDOW smaller than BOOK_LEVELS'' @
     require (ce_HistoryLimitMax e > 0 \<and> ce_HistoryLimitMax e \<le> 1000) ''HISTORY_LIMIT_MAX'' @
     require (ce_WarmupSpan e > 0) ''WARMUP_SPAN'' @
     require (ce_WarmupMaxEvents e > 0) ''WARMUP_MAX_EVENTS'' @
     require (ce_RecentTradesCap e \<ge> 50) ''RECENT_TRADES_CAPACITY''"

definition validate_transport :: "TransportSettings \<Rightarrow> config_error list" where
  "validate_transport t =
     require (cw_HTTPAddr t \<noteq> []) ''HTTP_ADDR'' @
     require (take 1 (cw_WSPath t) = ''/'') ''WS_PATH'' @
     require (cw_WSReadLimitBytes t \<ge> 1024) ''WS_READ_LIMIT_BYTES'' @
     require (cw_WSClientMsgPerSec t > 0) ''WS_CLIENT_MSG_PER_SEC'' @
     require (cw_HTTPReadTimeout t > 0 \<and> cw_HTTPWriteTimeout t > 0) ''HTTP timeouts'' @
     require (cw_ShutdownGrace t > 0) ''SHUTDOWN_GRACE''"

definition validate_delivery :: "DeliverySettings \<Rightarrow> config_error list" where
  "validate_delivery d =
     require (cy_TierFullMaxRTTMs d > 0) ''TIER_FULL_MAX_RTT_MS'' @
     require (cy_TierMinimalMinRTTMs d > cy_TierFullMaxRTTMs d) ''TIER_MINIMAL_MIN_RTT_MS'' @
     require (cy_TierMinimalMinJitterMs d > cy_TierFullMaxJitterMs d) ''TIER_MINIMAL_MIN_JITTER_MS'' @
     require (cy_TierRateFullPerSec d > 0 \<and> cy_TierRateDegradedPerSec d > 0 \<and> cy_TierRateMinimalPerSec d > 0) ''rates positive'' @
     require (cy_TierRateFullPerSec d > cy_TierRateDegradedPerSec d \<and> cy_TierRateDegradedPerSec d > cy_TierRateMinimalPerSec d)
       ''rates strictly decreasing'' @
     require (cy_TierDegradeStreak d \<ge> 1) ''TIER_DEGRADE_STREAK'' @
     require (cy_TierRecoverStreak d \<ge> 1) ''TIER_RECOVER_STREAK'' @
     require (cy_HealthReportHold d > 0) ''HEALTH_REPORT_HOLD'' @
     require (cy_HealthReportDegrade d > cy_HealthReportHold d) ''HEALTH_REPORT_DEGRADE'' @
     require (cy_HealthWatchdog d > 0) ''HEALTH_WATCHDOG_INTERVAL'' @
     require (cy_SessionOutboundCap d \<ge> 16) ''SESSION_OUTBOUND_CAPACITY'' @
     require (cy_SessionWriteTimeout d > 0) ''SESSION_WRITE_TIMEOUT'' @
     require (cy_MaxSessionSubscriptions d \<ge> 1) ''MAX_SESSION_SUBSCRIPTIONS''"

definition validate_metrics :: "MetricsSettings \<Rightarrow> config_error list" where
  "validate_metrics m =
     require (cm_MetricsDriver m = ''sqlite'' \<or> cm_MetricsDriver m = ''memory'') ''METRICS_DRIVER'' @
     (if cm_MetricsEnabled m then
        require (cm_MetricsDBPath m \<noteq> [] \<or> cm_MetricsDriver m = ''memory'') ''METRICS_DB_PATH'' @
        require (cm_MetricsQueueCapacity m \<ge> 64) ''METRICS_QUEUE_CAPACITY'' @
        require (cm_MetricsBatchSize m \<ge> 1) ''METRICS_BATCH_SIZE'' @
        require (cm_MetricsFlushInterval m > 0) ''METRICS_FLUSH_INTERVAL'' @
        require (cm_MetricsPruneBatch m \<ge> 1) ''METRICS_PRUNE_BATCH''
      else [])"

definition Settings_Validate :: "Settings \<Rightarrow> config_error list" where
  "Settings_Validate c =
     validate_engine (cs_Engine c) @ validate_transport (cs_Transport c) @ validate_delivery (cs_Delivery c)
     @ validate_metrics (cs_Metrics c)
     @ require (cs_LogLevel c \<in> {''debug'', ''info'', ''warn'', ''error''}) ''LOG_LEVEL''"


section \<open>Parsing\<close>

record StrConv =
  conv_Float :: "string \<Rightarrow> rat option"
  conv_Duration :: "string \<Rightarrow> int option"

definition ParseBool :: "string \<Rightarrow> bool option" where
  "ParseBool s =
     (if s \<in> {''1'', ''t'', ''T'', ''TRUE'', ''true'', ''True''} then Some True
      else if s \<in> {''0'', ''f'', ''F'', ''FALSE'', ''false'', ''False''} then Some False
      else None)"

record env_reader =
  rd_values :: "string \<rightharpoonup> string"
  rd_errs :: "config_error list"

definition reader_str :: "string \<Rightarrow> string \<Rightarrow> env_reader \<Rightarrow> string \<times> env_reader" where
  "reader_str key def r = (case rd_values r key of Some v \<Rightarrow> (v, r) | None \<Rightarrow> (def, r))"

definition reader_fail :: "string \<Rightarrow> string \<Rightarrow> string \<Rightarrow> env_reader \<Rightarrow> env_reader" where
  "reader_fail key v want r = r\<lparr>rd_errs := rd_errs r @ [BadValue key v want]\<rparr>"

text \<open>The readers of numbers, booleans and durations differ in their parser and in what they say they wanted.\<close>

definition reader_parse :: "(string \<Rightarrow> 'v option) \<Rightarrow> string \<Rightarrow> string \<Rightarrow> 'v \<Rightarrow> env_reader \<Rightarrow> 'v \<times> env_reader" where
  "reader_parse parse want key def r =
     (case rd_values r key of
        None \<Rightarrow> (def, r)
      | Some v \<Rightarrow> (case parse v of None \<Rightarrow> (def, reader_fail key v want r) | Some x \<Rightarrow> (x, r)))"

definition reader_int :: "string \<Rightarrow> int \<Rightarrow> env_reader \<Rightarrow> int \<times> env_reader" where
  "reader_int = reader_parse ParseInt ''integer''"

definition reader_float :: "StrConv \<Rightarrow> string \<Rightarrow> rat \<Rightarrow> env_reader \<Rightarrow> rat \<times> env_reader" where
  "reader_float cv = reader_parse (conv_Float cv) ''number''"

definition reader_boolean :: "string \<Rightarrow> bool \<Rightarrow> env_reader \<Rightarrow> bool \<times> env_reader" where
  "reader_boolean = reader_parse ParseBool ''boolean''"

definition reader_duration :: "StrConv \<Rightarrow> string \<Rightarrow> int \<Rightarrow> env_reader \<Rightarrow> int \<times> env_reader" where
  "reader_duration cv = reader_parse (conv_Duration cv) ''duration''"

text \<open>An assignment \<^verbatim>\<open>cfg.X = r.kind("KEY", cfg.X)\<close>, and a sequence of them on one group.\<close>

definition load_field :: "(string \<Rightarrow> 'v \<Rightarrow> env_reader \<Rightarrow> 'v \<times> env_reader) \<Rightarrow> string \<Rightarrow> ('c \<Rightarrow> 'v) \<Rightarrow> (('v \<Rightarrow> 'v) \<Rightarrow> 'c \<Rightarrow> 'c)
    \<Rightarrow> 'c \<times> env_reader \<Rightarrow> 'c \<times> env_reader" where
  "load_field rd key get upd = (\<lambda>(c, r). case rd key (get c) r of (v, r') \<Rightarrow> (upd (\<lambda>_. v) c, r'))"

definition load_all :: "('c \<times> env_reader \<Rightarrow> 'c \<times> env_reader) list \<Rightarrow> 'c \<times> env_reader \<Rightarrow> 'c \<times> env_reader" where
  "load_all steps = fold (\<lambda>step. step) steps"

definition load_group :: "('g \<times> env_reader \<Rightarrow> 'g \<times> env_reader) \<Rightarrow> ('c \<Rightarrow> 'g) \<Rightarrow> (('g \<Rightarrow> 'g) \<Rightarrow> 'c \<Rightarrow> 'c)
    \<Rightarrow> 'c \<times> env_reader \<Rightarrow> 'c \<times> env_reader" where
  "load_group load get upd = (\<lambda>(c, r). case load (get c, r) of (g, r') \<Rightarrow> (upd (\<lambda>_. g) c, r'))"

definition load_engine :: "StrConv \<Rightarrow> EngineSettings \<times> env_reader \<Rightarrow> EngineSettings \<times> env_reader" where
  "load_engine cv = load_all
     [load_field reader_int ''GENERATOR_SEED'' ce_GeneratorSeed ce_GeneratorSeed_update,
      load_field reader_str ''SYMBOL'' ce_Symbol ce_Symbol_update,
      load_field (reader_float cv) ''TRADES_PER_SECOND'' ce_TradesPerSecond ce_TradesPerSecond_update,
      load_field (reader_float cv) ''BOOK_REFRESH_HZ'' ce_BookRefreshHz ce_BookRefreshHz_update,
      load_field reader_int ''BOOK_LEVELS'' ce_BookLevels ce_BookLevels_update,
      load_field reader_int ''BOOK_DELTA_WINDOW'' ce_BookDeltaWindow ce_BookDeltaWindow_update,
      load_field reader_int ''HISTORY_LIMIT_MAX'' ce_HistoryLimitMax ce_HistoryLimitMax_update,
      load_field (reader_duration cv) ''WARMUP_SPAN'' ce_WarmupSpan ce_WarmupSpan_update,
      load_field reader_int ''WARMUP_MAX_EVENTS'' ce_WarmupMaxEvents ce_WarmupMaxEvents_update,
      load_field (reader_float cv) ''VOLATILITY_BURST_RATE'' ce_VolatilityBurstRate ce_VolatilityBurstRate_update,
      load_field reader_int ''RECENT_TRADES_CAPACITY'' ce_RecentTradesCap ce_RecentTradesCap_update]"

definition load_transport :: "StrConv \<Rightarrow> TransportSettings \<times> env_reader \<Rightarrow> TransportSettings \<times> env_reader" where
  "load_transport cv = load_all
     [load_field reader_str ''HTTP_ADDR'' cw_HTTPAddr cw_HTTPAddr_update,
      load_field reader_str ''WS_PATH'' cw_WSPath cw_WSPath_update,
      load_field reader_int ''WS_READ_LIMIT_BYTES'' cw_WSReadLimitBytes cw_WSReadLimitBytes_update,
      load_field reader_int ''WS_CLIENT_MSG_PER_SEC'' cw_WSClientMsgPerSec cw_WSClientMsgPerSec_update,
      load_field (reader_duration cv) ''HTTP_READ_TIMEOUT'' cw_HTTPReadTimeout cw_HTTPReadTimeout_update,
      load_field (reader_duration cv) ''HTTP_WRITE_TIMEOUT'' cw_HTTPWriteTimeout cw_HTTPWriteTimeout_update,
      load_field (reader_duration cv) ''SHUTDOWN_GRACE'' cw_ShutdownGrace cw_ShutdownGrace_update]"

definition load_delivery :: "StrConv \<Rightarrow> DeliverySettings \<times> env_reader \<Rightarrow> DeliverySettings \<times> env_reader" where
  "load_delivery cv = load_all
     [load_field (reader_float cv) ''TIER_FULL_MAX_RTT_MS'' cy_TierFullMaxRTTMs cy_TierFullMaxRTTMs_update,
      load_field (reader_float cv) ''TIER_FULL_MAX_JITTER_MS'' cy_TierFullMaxJitterMs cy_TierFullMaxJitterMs_update,
      load_field (reader_float cv) ''TIER_MINIMAL_MIN_RTT_MS'' cy_TierMinimalMinRTTMs cy_TierMinimalMinRTTMs_update,
      load_field (reader_float cv) ''TIER_MINIMAL_MIN_JITTER_MS'' cy_TierMinimalMinJitterMs cy_TierMinimalMinJitterMs_update,
      load_field (reader_float cv) ''TIER_RATE_FULL_PER_SEC'' cy_TierRateFullPerSec cy_TierRateFullPerSec_update,
      load_field (reader_float cv) ''TIER_RATE_DEGRADED_PER_SEC'' cy_TierRateDegradedPerSec cy_TierRateDegradedPerSec_update,
      load_field (reader_float cv) ''TIER_RATE_MINIMAL_PER_SEC'' cy_TierRateMinimalPerSec cy_TierRateMinimalPerSec_update,
      load_field reader_int ''TIER_DEGRADE_STREAK'' cy_TierDegradeStreak cy_TierDegradeStreak_update,
      load_field reader_int ''TIER_RECOVER_STREAK'' cy_TierRecoverStreak cy_TierRecoverStreak_update,
      load_field (reader_duration cv) ''HEALTH_REPORT_HOLD'' cy_HealthReportHold cy_HealthReportHold_update,
      load_field (reader_duration cv) ''HEALTH_REPORT_DEGRADE'' cy_HealthReportDegrade cy_HealthReportDegrade_update,
      load_field (reader_duration cv) ''HEALTH_WATCHDOG_INTERVAL'' cy_HealthWatchdog cy_HealthWatchdog_update,
      load_field reader_int ''SESSION_OUTBOUND_CAPACITY'' cy_SessionOutboundCap cy_SessionOutboundCap_update,
      load_field (reader_duration cv) ''SESSION_WRITE_TIMEOUT'' cy_SessionWriteTimeout cy_SessionWriteTimeout_update,
      load_field reader_int ''MAX_SESSION_SUBSCRIPTIONS'' cy_MaxSessionSubscriptions cy_MaxSessionSubscriptions_update]"

definition load_metrics :: "StrConv \<Rightarrow> MetricsSettings \<times> env_reader \<Rightarrow> MetricsSettings \<times> env_reader" where
  "load_metrics cv = load_all
     [load_field reader_boolean ''METRICS_ENABLED'' cm_MetricsEnabled cm_MetricsEnabled_update,
      load_field reader_str ''METRICS_DRIVER'' cm_MetricsDriver cm_MetricsDriver_update,
      load_field reader_str ''METRICS_DB_PATH'' cm_MetricsDBPath cm_MetricsDBPath_update,
      load_field reader_int ''METRICS_QUEUE_CAPACITY'' cm_MetricsQueueCapacity cm_MetricsQueueCapacity_update,
      load_field reader_int ''METRICS_BATCH_SIZE'' cm_MetricsBatchSize cm_MetricsBatchSize_update,
      load_field (reader_duration cv) ''METRICS_FLUSH_INTERVAL'' cm_MetricsFlushInterval cm_MetricsFlushInterval_update,
      load_field reader_boolean ''METRICS_RETENTION_ENABLED'' cm_MetricsRetentionEnabled cm_MetricsRetentionEnabled_update,
      load_field (reader_duration cv) ''METRICS_RETENTION_LATENCY'' cm_MetricsRetentionLatency cm_MetricsRetentionLatency_update,
      load_field (reader_duration cv) ''METRICS_RETENTION_EVENTS'' cm_MetricsRetentionEvents cm_MetricsRetentionEvents_update,
      load_field (reader_duration cv) ''METRICS_RETENTION_SESSIONS'' cm_MetricsRetentionSessions cm_MetricsRetentionSessions_update,
      load_field (reader_duration cv) ''METRICS_PRUNE_INTERVAL'' cm_MetricsPruneInterval cm_MetricsPruneInterval_update,
      load_field reader_int ''METRICS_PRUNE_BATCH'' cm_MetricsPruneBatch cm_MetricsPruneBatch_update]"

definition load_settings :: "StrConv \<Rightarrow> bool \<Rightarrow> Settings \<times> env_reader \<Rightarrow> Settings \<times> env_reader" where
  "load_settings cv debugBuild = load_all
     [load_group (load_engine cv) cs_Engine cs_Engine_update,
      load_group (load_transport cv) cs_Transport cs_Transport_update,
      load_group (load_delivery cv) cs_Delivery cs_Delivery_update,
      load_group (load_metrics cv) cs_Metrics cs_Metrics_update,
      load_field reader_boolean ''ENABLE_DEBUG_CONTROLS'' cs_EnableDebugControls cs_EnableDebugControls_update,
      (\<lambda>(c, r). (c\<lparr>cs_DebugBuild := debugBuild\<rparr>, r)),
      load_field reader_str ''LOG_LEVEL'' cs_LogLevel cs_LogLevel_update]"

text \<open>The dotenv file. \<^verbatim>\<open>os.Setenv\<close> rejects an empty name and a NUL byte, which ends the reading.\<close>

definition trim_quotes :: "string \<Rightarrow> string" where
  "trim_quotes v = (let q = (\<lambda>c. c = CHR 0x22 \<or> c = CHR 0x27) in rev (dropWhile q (rev (dropWhile q v))))"

definition setenv_ok :: "string \<Rightarrow> string \<Rightarrow> bool" where
  "setenv_ok key v \<longleftrightarrow> key \<noteq> [] \<and> CHR 0x00 \<notin> set key \<and> CHR 0x00 \<notin> set v"

fun dotenv_lines :: "bool \<Rightarrow> string list \<Rightarrow> (string \<rightharpoonup> string) \<Rightarrow> (string \<rightharpoonup> string)" where
  "dotenv_lines over [] env = env"
| "dotenv_lines over (l # ls) env =
     (let line = TrimSpace l
      in if line = [] \<or> take 1 line = ''#'' then dotenv_lines over ls env
         else if CHR ''='' \<notin> set line then dotenv_lines over ls env
         else
           let key = TrimSpace (takeWhile (\<lambda>c. c \<noteq> CHR ''='') line);
               v = trim_quotes (TrimSpace (tl (dropWhile (\<lambda>c. c \<noteq> CHR ''='') line)))
           in if env key \<noteq> None \<and> \<not> over then dotenv_lines over ls env
              else if setenv_ok key v then dotenv_lines over ls (env(key \<mapsto> v)) else env)"

definition loadDotEnv :: "string list option \<Rightarrow> bool \<Rightarrow> (string \<rightharpoonup> string) \<Rightarrow> (string \<rightharpoonup> string)" where
  "loadDotEnv file over env = (case file of None \<Rightarrow> env | Some ls \<Rightarrow> dotenv_lines over ls env)"

definition debug_build :: "(string \<rightharpoonup> string) \<Rightarrow> bool" where
  "debug_build env =
     (case env ''DEBUG_BUILD'' of
        None \<Rightarrow> cs_DebugBuild Default_settings
      | Some v \<Rightarrow> (case ParseBool (TrimSpace v) of Some b \<Rightarrow> b | None \<Rightarrow> cs_DebugBuild Default_settings))"

definition known_values :: "(string \<rightharpoonup> string) \<Rightarrow> (string \<rightharpoonup> string)" where
  "known_values env k = (if k \<in> set envKeys then map_option TrimSpace (env k) else None)"

definition Load_settings :: "StrConv \<Rightarrow> string list option \<Rightarrow> (string \<rightharpoonup> string) \<Rightarrow> config_error list + Settings" where
  "Load_settings cv file env =
     (let debugBuild = debug_build env;
          env1 = (if debugBuild then loadDotEnv file False env else env);
          (c, r) = load_settings cv debugBuild (Default_settings, \<lparr>rd_values = known_values env1, rd_errs = []\<rparr>)
      in if rd_errs r \<noteq> [] then Inl (rd_errs r)
         else if Settings_Validate c \<noteq> [] then Inl (Settings_Validate c)
         else Inr c)"


section \<open>The wiring of the server\<close>

definition buildPolicy :: "Settings \<Rightarrow> DefaultPolicy" where
  "buildPolicy c = (let d = cs_Delivery c in
     NewDefaultPolicy \<lparr>FullMaxRTTMs = cy_TierFullMaxRTTMs d, FullMaxJitterMs = cy_TierFullMaxJitterMs d,
         MinimalMinRTTMs = cy_TierMinimalMinRTTMs d, MinimalMinJitterMs = cy_TierMinimalMinJitterMs d,
         DegradeStreak = cy_TierDegradeStreak d, RecoverStreak = cy_TierRecoverStreak d,
         ReportHold = cy_HealthReportHold d, ReportDegrade = cy_HealthReportDegrade d\<rparr>
       (cy_TierRateFullPerSec d) (cy_TierRateDegradedPerSec d) (cy_TierRateMinimalPerSec d))"

definition metricsConfig :: "Settings \<Rightarrow> MetricsConfig" where
  "metricsConfig c = (let m = cs_Metrics c in
     \<lparr>mc_Enabled = cm_MetricsEnabled m, mc_Driver = cm_MetricsDriver m, mc_DSN = cm_MetricsDBPath m,
      mc_QueueCapacity = cm_MetricsQueueCapacity m, mc_BatchSize = cm_MetricsBatchSize m, mc_FlushInterval = cm_MetricsFlushInterval m,
      mc_RetentionEnabled = cm_MetricsRetentionEnabled m, mc_RetentionLatency = cm_MetricsRetentionLatency m,
      mc_RetentionEvents = cm_MetricsRetentionEvents m, mc_RetentionSessions = cm_MetricsRetentionSessions m,
      mc_PruneInterval = cm_MetricsPruneInterval m, mc_PruneBatch = cm_MetricsPruneBatch m\<rparr>)"

definition market_config :: "Settings \<Rightarrow> Symbol \<Rightarrow> Config" where
  "market_config c symb = (let e = cs_Engine c in
     \<lparr>cfg_Symbol = symb, cfg_Seed = DerivedSeed (ce_GeneratorSeed e) (sym_ID symb), cfg_BookLevels = ce_BookLevels e,
      cfg_BookDeltaWindow = ce_BookDeltaWindow e, cfg_BookRefreshHz = ce_BookRefreshHz e, cfg_WarmupEvents = ce_WarmupMaxEvents e,
      cfg_RecentTradesCap = ce_RecentTradesCap e, cfg_HistoryDepth = ce_HistoryLimitMax e,
      cfg_VolatilityBurstRate = ce_VolatilityBurstRate e, cfg_BusCapacity = cy_SessionOutboundCap (cs_Delivery c)\<rparr>)"

text \<open>Which provider a market gets: the fixture of a replay, or the configuration of the synthetic market.\<close>

datatype provider_choice = ChooseReplay string | ChooseSynthetic SynthConfig

definition buildProvider :: "(string \<rightharpoonup> string) \<Rightarrow> Settings \<Rightarrow> Symbol \<Rightarrow> provider_choice" where
  "buildProvider env c symb =
     (if env ''MARKET_PROVIDER'' = Some ''replay''
      then ChooseReplay (case env ''REPLAY_FIXTURE'' of Some path \<Rightarrow> if path = [] then ''../fixtures/replay/trades_basic.jsonl'' else path
                           | None \<Rightarrow> ''../fixtures/replay/trades_basic.jsonl'')
      else let e = cs_Engine c in
        ChooseSynthetic \<lparr>sy_Symbol = symb, sy_TradesPerSecond = ce_TradesPerSecond e, sy_WarmupSpan = ce_WarmupSpan e,
          sy_WarmupMaxEvents = ce_WarmupMaxEvents e, sy_VolatilityBurstRate = ce_VolatilityBurstRate e,
          sy_BookLevels = ce_BookLevels e, sy_StreamBuffer = 0\<rparr>)"

definition manager_config :: "Settings \<Rightarrow> Symbol \<Rightarrow> ManagerConfig" where
  "manager_config c symb = (let d = cs_Delivery c; e = cs_Engine c; t = cs_Transport c in
     \<lparr>mgc_Registry = Some (map sym_ID AllSymbols), mgc_DefaultSymbol = symb, mgc_Policy = Some (as_Policy (buildPolicy c)),
      mgc_Logger = True, mgc_DefaultChannels = [], mgc_OutboundCapacity = cy_SessionOutboundCap d,
      mgc_WriteTimeout = cy_SessionWriteTimeout d, mgc_ClientMsgPerSec = cw_WSClientMsgPerSec t,
      mgc_BookWindow = ce_BookDeltaWindow e, mgc_HistoryLimit = ce_HistoryLimitMax e, mgc_TradesLimit = 50,
      mgc_DebugControls = DebugControlsActive c, mgc_BusCapacity = cy_SessionOutboundCap d\<rparr>)"


section \<open>What is read\<close>

datatype read_kind = ReadStr | ReadInt | ReadFloat | ReadBool | ReadDuration

fun rejects :: "StrConv \<Rightarrow> read_kind \<Rightarrow> string \<Rightarrow> bool" where
  "rejects cv ReadStr v = False"
| "rejects cv ReadInt v = (ParseInt v = None)"
| "rejects cv ReadFloat v = (conv_Float cv v = None)"
| "rejects cv ReadBool v = (ParseBool v = None)"
| "rejects cv ReadDuration v = (conv_Duration cv v = None)"

fun wanted :: "read_kind \<Rightarrow> string" where
  "wanted ReadStr = []"
| "wanted ReadInt = ''integer''"
| "wanted ReadFloat = ''number''"
| "wanted ReadBool = ''boolean''"
| "wanted ReadDuration = ''duration''"

text \<open>The complaint about a variable: none when it is unset or parses.\<close>

definition complaint :: "StrConv \<Rightarrow> (string \<rightharpoonup> string) \<Rightarrow> string \<times> read_kind \<Rightarrow> config_error list" where
  "complaint cv vals k =
     (case vals (fst k) of None \<Rightarrow> [] | Some v \<Rightarrow> if rejects cv (snd k) v then [BadValue (fst k) v (wanted (snd k))] else [])"

definition complaints :: "StrConv \<Rightarrow> (string \<rightharpoonup> string) \<Rightarrow> (string \<times> read_kind) list \<Rightarrow> config_error list" where
  "complaints cv vals ks = concat (map (complaint cv vals) ks)"

text \<open>A step reads the variables \<open>ks\<close>: it adds their complaints in order, and with none of them set it changes nothing.\<close>

definition reads :: "StrConv \<Rightarrow> ('c \<times> env_reader \<Rightarrow> 'c \<times> env_reader) \<Rightarrow> (string \<times> read_kind) list \<Rightarrow> bool" where
  "reads cv step ks \<longleftrightarrow> (\<forall>c r. rd_values (snd (step (c, r))) = rd_values r
     \<and> rd_errs (snd (step (c, r))) = rd_errs r @ complaints cv (rd_values r) ks
     \<and> ((\<forall>k\<in>set ks. rd_values r (fst k) = None) \<longrightarrow> step (c, r) = (c, r)))"

lemma readsD:
  assumes "reads cv step ks" "step (c, r) = (c', r')"
  shows "rd_values r' = rd_values r" "rd_errs r' = rd_errs r @ complaints cv (rd_values r) ks"
    "\<forall>k\<in>set ks. rd_values r (fst k) = None \<Longrightarrow> (c', r') = (c, r)"
  using assms unfolding reads_def by (metis snd_conv)+

lemma reads_all_Nil: "reads cv (load_all []) []"
  by (simp add: reads_def load_all_def complaints_def)

lemma reads_all_Cons:
  assumes "reads cv step ks" "reads cv (load_all steps) kss"
  shows "reads cv (load_all (step # steps)) (ks @ kss)"
  unfolding reads_def
proof (intro allI)
  fix c r
  obtain c1 r1 where s1: "step (c, r) = (c1, r1)" by force
  obtain c2 r2 where s2: "load_all steps (c1, r1) = (c2, r2)" by force
  have e: "load_all (step # steps) (c, r) = (c2, r2)" using s1 s2 by (simp add: load_all_def)
  have k: "(c2, r2) = (c, r)" if "\<forall>k\<in>set (ks @ kss). rd_values r (fst k) = None"
    using readsD(3) [OF assms(1) s1] readsD(3) [OF assms(2) s2] that by auto
  have "rd_values r2 = rd_values r" "rd_errs r2 = rd_errs r @ complaints cv (rd_values r) (ks @ kss)"
    using readsD(1,2) [OF assms(1) s1] readsD(1,2) [OF assms(2) s2] by (simp_all add: complaints_def)
  then show "rd_values (snd (load_all (step # steps) (c, r))) = rd_values r
      \<and> rd_errs (snd (load_all (step # steps) (c, r))) = rd_errs r @ complaints cv (rd_values r) (ks @ kss)
      \<and> ((\<forall>k\<in>set (ks @ kss). rd_values r (fst k) = None) \<longrightarrow> load_all (step # steps) (c, r) = (c, r))"
    unfolding e using k by simp
qed

lemma reads_field_Cons:
  assumes "reads cv (load_field rd key get upd) [(key, kind)]" "reads cv (load_all steps) ks"
  shows "reads cv (load_all (load_field rd key get upd # steps)) ((key, kind) # ks)"
  using reads_all_Cons [OF assms] by simp

lemma reads_group:
  assumes "reads cv load ks" "\<And>c. upd (\<lambda>_. get c) c = c"
  shows "reads cv (load_group load get upd) ks"
  unfolding reads_def
proof (intro allI)
  fix c r
  obtain g r1 where s: "load (get c, r) = (g, r1)" by force
  show "rd_values (snd (load_group load get upd (c, r))) = rd_values r
      \<and> rd_errs (snd (load_group load get upd (c, r))) = rd_errs r @ complaints cv (rd_values r) ks
      \<and> ((\<forall>k\<in>set ks. rd_values r (fst k) = None) \<longrightarrow> load_group load get upd (c, r) = (c, r))"
    using readsD [OF assms(1) s] assms(2) by (auto simp: load_group_def s)
qed

text \<open>The five kinds of field.\<close>

lemma reads_parse:
  assumes "\<And>c. upd (\<lambda>_. get c) c = c" "\<And>v. rejects cv kind v \<longleftrightarrow> parse v = None" "wanted kind = want"
  shows "reads cv (load_field (reader_parse parse want) key get upd) [(key, kind)]"
  using assms
  by (auto simp: reads_def load_field_def reader_parse_def reader_fail_def complaints_def complaint_def split: option.splits)

lemma reads_str: "(\<And>c. upd (\<lambda>_. get c) c = c) \<Longrightarrow> reads cv (load_field reader_str key get upd) [(key, ReadStr)]"
  by (auto simp: reads_def load_field_def reader_str_def complaints_def complaint_def split: option.splits)

lemma reads_int: "(\<And>c. upd (\<lambda>_. get c) c = c) \<Longrightarrow> reads cv (load_field reader_int key get upd) [(key, ReadInt)]"
  unfolding reader_int_def by (rule reads_parse) simp_all

lemma reads_float: "(\<And>c. upd (\<lambda>_. get c) c = c) \<Longrightarrow> reads cv (load_field (reader_float cv) key get upd) [(key, ReadFloat)]"
  unfolding reader_float_def by (rule reads_parse) simp_all

lemma reads_boolean: "(\<And>c. upd (\<lambda>_. get c) c = c) \<Longrightarrow> reads cv (load_field reader_boolean key get upd) [(key, ReadBool)]"
  unfolding reader_boolean_def by (rule reads_parse) simp_all

lemma reads_duration: "(\<And>c. upd (\<lambda>_. get c) c = c) \<Longrightarrow> reads cv (load_field (reader_duration cv) key get upd) [(key, ReadDuration)]"
  unfolding reader_duration_def by (rule reads_parse) simp_all

lemmas reads_intros = reads_all_Nil reads_field_Cons reads_str reads_int reads_float reads_boolean reads_duration

definition engine_keys :: "(string \<times> read_kind) list" where
  "engine_keys =
     [(''GENERATOR_SEED'', ReadInt), (''SYMBOL'', ReadStr), (''TRADES_PER_SECOND'', ReadFloat),
      (''BOOK_REFRESH_HZ'', ReadFloat), (''BOOK_LEVELS'', ReadInt), (''BOOK_DELTA_WINDOW'', ReadInt),
      (''HISTORY_LIMIT_MAX'', ReadInt), (''WARMUP_SPAN'', ReadDuration), (''WARMUP_MAX_EVENTS'', ReadInt),
      (''VOLATILITY_BURST_RATE'', ReadFloat), (''RECENT_TRADES_CAPACITY'', ReadInt)]"

lemma reads_engine: "reads cv (load_engine cv) engine_keys"
  unfolding load_engine_def engine_keys_def by (intro reads_intros) simp_all

definition transport_keys :: "(string \<times> read_kind) list" where
  "transport_keys =
     [(''HTTP_ADDR'', ReadStr), (''WS_PATH'', ReadStr), (''WS_READ_LIMIT_BYTES'', ReadInt),
      (''WS_CLIENT_MSG_PER_SEC'', ReadInt), (''HTTP_READ_TIMEOUT'', ReadDuration),
      (''HTTP_WRITE_TIMEOUT'', ReadDuration), (''SHUTDOWN_GRACE'', ReadDuration)]"

lemma reads_transport: "reads cv (load_transport cv) transport_keys"
  unfolding load_transport_def transport_keys_def by (intro reads_intros) simp_all

definition delivery_keys :: "(string \<times> read_kind) list" where
  "delivery_keys =
     [(''TIER_FULL_MAX_RTT_MS'', ReadFloat), (''TIER_FULL_MAX_JITTER_MS'', ReadFloat),
      (''TIER_MINIMAL_MIN_RTT_MS'', ReadFloat), (''TIER_MINIMAL_MIN_JITTER_MS'', ReadFloat),
      (''TIER_RATE_FULL_PER_SEC'', ReadFloat), (''TIER_RATE_DEGRADED_PER_SEC'', ReadFloat),
      (''TIER_RATE_MINIMAL_PER_SEC'', ReadFloat), (''TIER_DEGRADE_STREAK'', ReadInt),
      (''TIER_RECOVER_STREAK'', ReadInt), (''HEALTH_REPORT_HOLD'', ReadDuration),
      (''HEALTH_REPORT_DEGRADE'', ReadDuration), (''HEALTH_WATCHDOG_INTERVAL'', ReadDuration),
      (''SESSION_OUTBOUND_CAPACITY'', ReadInt), (''SESSION_WRITE_TIMEOUT'', ReadDuration),
      (''MAX_SESSION_SUBSCRIPTIONS'', ReadInt)]"

lemma reads_delivery: "reads cv (load_delivery cv) delivery_keys"
  unfolding load_delivery_def delivery_keys_def by (intro reads_intros) simp_all

definition metrics_keys :: "(string \<times> read_kind) list" where
  "metrics_keys =
     [(''METRICS_ENABLED'', ReadBool), (''METRICS_DRIVER'', ReadStr), (''METRICS_DB_PATH'', ReadStr),
      (''METRICS_QUEUE_CAPACITY'', ReadInt), (''METRICS_BATCH_SIZE'', ReadInt),
      (''METRICS_FLUSH_INTERVAL'', ReadDuration), (''METRICS_RETENTION_ENABLED'', ReadBool),
      (''METRICS_RETENTION_LATENCY'', ReadDuration), (''METRICS_RETENTION_EVENTS'', ReadDuration),
      (''METRICS_RETENTION_SESSIONS'', ReadDuration), (''METRICS_PRUNE_INTERVAL'', ReadDuration),
      (''METRICS_PRUNE_BATCH'', ReadInt)]"

lemma reads_metrics: "reads cv (load_metrics cv) metrics_keys"
  unfolding load_metrics_def metrics_keys_def by (intro reads_intros) simp_all

definition settings_keys :: "(string \<times> read_kind) list" where
  "settings_keys = engine_keys @ transport_keys @ delivery_keys @ metrics_keys @ [(''ENABLE_DEBUG_CONTROLS'', ReadBool), (''LOG_LEVEL'', ReadStr)]"

lemmas key_defs = settings_keys_def engine_keys_def transport_keys_def delivery_keys_def metrics_keys_def

text \<open>The assignment of the build flag commutes with the reads around it.\<close>

lemma load_settings_flag:
  "load_settings cv b (c, r) = load_settings cv b (c\<lparr>cs_DebugBuild := b\<rparr>, r) \<and> cs_DebugBuild (fst (load_settings cv b (c, r))) = b"
  by (simp add: load_settings_def load_all_def load_group_def load_field_def split: prod.splits)

lemma load_settings_core:
  assumes "cs_DebugBuild c = b"
  shows "load_settings cv b (c, r) = load_all
     [load_group (load_engine cv) cs_Engine cs_Engine_update, load_group (load_transport cv) cs_Transport cs_Transport_update,
      load_group (load_delivery cv) cs_Delivery cs_Delivery_update, load_group (load_metrics cv) cs_Metrics cs_Metrics_update,
      load_field reader_boolean ''ENABLE_DEBUG_CONTROLS'' cs_EnableDebugControls cs_EnableDebugControls_update,
      load_field reader_str ''LOG_LEVEL'' cs_LogLevel cs_LogLevel_update] (c, r)"
  using assms by (cases c) (simp add: load_settings_def load_all_def load_group_def load_field_def split: prod.splits)

lemma reads_settings:
  assumes "cs_DebugBuild c = b" "load_settings cv b (c, r) = (c', r')"
  shows "rd_errs r' = rd_errs r @ complaints cv (rd_values r) settings_keys"
    "\<forall>k\<in>set settings_keys. rd_values r (fst k) = None \<Longrightarrow> c' = c"
proof -
  let ?steps = "[load_group (load_engine cv) cs_Engine cs_Engine_update, load_group (load_transport cv) cs_Transport cs_Transport_update,
      load_group (load_delivery cv) cs_Delivery cs_Delivery_update, load_group (load_metrics cv) cs_Metrics cs_Metrics_update,
      load_field reader_boolean ''ENABLE_DEBUG_CONTROLS'' cs_EnableDebugControls cs_EnableDebugControls_update,
      load_field reader_str ''LOG_LEVEL'' cs_LogLevel cs_LogLevel_update]"
  have "reads cv (load_all ?steps) settings_keys"
    unfolding settings_keys_def
    by (intro reads_all_Cons [OF reads_group] reads_engine reads_transport reads_delivery reads_metrics reads_intros) simp_all
  note d = readsD [OF this assms(2) [unfolded load_settings_core [OF assms(1)]]]
  show "rd_errs r' = rd_errs r @ complaints cv (rd_values r) settings_keys" by (rule d(2))
  show "\<forall>k\<in>set settings_keys. rd_values r (fst k) = None \<Longrightarrow> c' = c" using d(3) by simp
qed

lemma Default_valid: "Settings_Validate Default_settings = []"
  by (simp add: Settings_Validate_def validate_engine_def validate_transport_def validate_delivery_def validate_metrics_def require_def
      Default_settings_def)

lemma dotenv_env_wins: "env k \<noteq> None \<Longrightarrow> loadDotEnv dotenv False env k = env k"
proof -
  have "dotenv_lines False ls env k = env k" if "env k \<noteq> None" for ls env
    using that by (induction ls arbitrary: env) (auto simp: Let_def)
  then show "env k \<noteq> None \<Longrightarrow> loadDotEnv dotenv False env k = env k" by (simp add: loadDotEnv_def split: option.split)
qed

text \<open>The values a start of the server reads.\<close>

definition effective_values :: "string list option \<Rightarrow> (string \<rightharpoonup> string) \<Rightarrow> (string \<rightharpoonup> string)" where
  "effective_values dotenv env = known_values (if debug_build env then loadDotEnv dotenv False env else env)"

lemma Load_settings_cases:
  fixes cv :: StrConv and dotenv :: "string list option" and env :: "string \<rightharpoonup> string"
  obtains c where "cs_DebugBuild c = debug_build env"
    "(\<forall>k\<in>set settings_keys. effective_values dotenv env (fst k) = None) \<Longrightarrow> c = Default_settings\<lparr>cs_DebugBuild := debug_build env\<rparr>"
    "Load_settings cv dotenv env =
       (let bad = complaints cv (effective_values dotenv env) settings_keys
        in if bad \<noteq> [] then Inl bad else if Settings_Validate c \<noteq> [] then Inl (Settings_Validate c) else Inr c)"
proof -
  define b where "b = debug_build env"
  define r where "r = \<lparr>rd_values = effective_values dotenv env, rd_errs = []\<rparr>"
  let ?c0 = "Default_settings\<lparr>cs_DebugBuild := b\<rparr>"
  obtain c r' where l: "load_settings cv b (?c0, r) = (c, r')" by force
  have l0: "load_settings cv b (Default_settings, r) = (c, r')" using load_settings_flag [of cv b Default_settings r] l by simp
  have e: "rd_errs r' = complaints cv (effective_values dotenv env) settings_keys"
    using reads_settings(1) [OF _ l] by (simp add: r_def)
  have "cs_DebugBuild c = b" using load_settings_flag [of cv b Default_settings r] l0 by simp
  moreover have "c = ?c0" if "\<forall>k\<in>set settings_keys. effective_values dotenv env (fst k) = None"
    using reads_settings(2) [OF _ l] that by (simp add: r_def)
  moreover have "Load_settings cv dotenv env =
       (let bad = complaints cv (effective_values dotenv env) settings_keys
        in if bad \<noteq> [] then Inl bad else if Settings_Validate c \<noteq> [] then Inl (Settings_Validate c) else Inr c)"
    unfolding Load_settings_def b_def [symmetric] Let_def
    using l0 unfolding r_def effective_values_def b_def [symmetric] by (simp add: e [unfolded effective_values_def b_def [symmetric]])
  ultimately show ?thesis using that unfolding b_def by blast
qed

lemma Load_settings_accepts:
  assumes "Load_settings cv dotenv env = Inr c"
  shows "complaints cv (effective_values dotenv env) settings_keys = []" "Settings_Validate c = []" "cs_DebugBuild c = debug_build env"
proof -
  obtain c0 where c: "cs_DebugBuild c0 = debug_build env" "Load_settings cv dotenv env =
       (let bad = complaints cv (effective_values dotenv env) settings_keys
        in if bad \<noteq> [] then Inl bad else if Settings_Validate c0 \<noteq> [] then Inl (Settings_Validate c0) else Inr c0)"
    by (rule Load_settings_cases [where dotenv = dotenv and env = env and cv = cv])
  then show "complaints cv (effective_values dotenv env) settings_keys = []" "Settings_Validate c = []" "cs_DebugBuild c = debug_build env"
    using assms by (simp_all add: Let_def split: if_splits)
qed

lemma Load_settings_release: "Load_settings cv dotenv env = Inr c \<Longrightarrow> \<not> debug_build env \<Longrightarrow> \<not> DebugControlsActive c"
  using Load_settings_accepts(3) [of cv dotenv env c] by (simp add: DebugControlsActive_def)

lemma Load_settings_rejects:
  assumes "complaints cv (effective_values dotenv env) settings_keys \<noteq> []"
  shows "Load_settings cv dotenv env = Inl (complaints cv (effective_values dotenv env) settings_keys)"
  by (rule Load_settings_cases [where dotenv = dotenv and env = env and cv = cv]) (simp add: assms)


text \<open>A float parser that knows one number and a duration parser that rejects every text.\<close>

definition sample_conv :: StrConv where
  "sample_conv = \<lparr>conv_Float = (\<lambda>v. if v = ''0.5'' then Some (1 / 2) else None), conv_Duration = (\<lambda>_. None)\<rparr>"


lemma Load_settings_flag_only:
  "Load_settings cv None [''DEBUG_BUILD'' \<mapsto> v] = Inr (Default_settings\<lparr>cs_DebugBuild := debug_build [''DEBUG_BUILD'' \<mapsto> v]\<rparr>)"
proof -
  let ?env = "[''DEBUG_BUILD'' \<mapsto> v]"
  have vals: "effective_values None ?env = [''DEBUG_BUILD'' \<mapsto> TrimSpace v]"
    by (intro ext) (simp add: effective_values_def known_values_def loadDotEnv_def envKeys_def)
  have unset: "\<forall>k\<in>set settings_keys. effective_values None ?env (fst k) = None" by (simp add: vals key_defs)
  then have quiet: "complaints cv (effective_values None ?env) settings_keys = []" by (simp add: complaints_def complaint_def)
  have valid: "Settings_Validate (Default_settings\<lparr>cs_DebugBuild := b\<rparr>) = []" for b
    using Default_valid by (simp add: Settings_Validate_def)
  show ?thesis
    by (rule Load_settings_cases [where dotenv = None and env = ?env and cv = cv]) (simp add: unset quiet valid)
qed

text \<open>
  A mistyped build flag fails open. When \<^verbatim>\<open>DEBUG_BUILD\<close> holds no boolean the text is ignored and reported
  nowhere, unlike every other variable: the server starts as a debug build, reads the dotenv file and exposes the debug
  controls.
\<close>

lemma Load_debug_fail_open:
  assumes "ParseBool (TrimSpace v) = None"
  shows "Load_settings cv None [''DEBUG_BUILD'' \<mapsto> v] = Inr Default_settings \<and> DebugControlsActive Default_settings"
proof -
  have "debug_build [''DEBUG_BUILD'' \<mapsto> v]" using assms by (simp add: debug_build_def Default_settings_def)
  moreover have "Default_settings\<lparr>cs_DebugBuild := True\<rparr> = Default_settings" "DebugControlsActive Default_settings"
    by (simp_all add: Default_settings_def DebugControlsActive_def)
  ultimately show ?thesis by (simp add: Load_settings_flag_only)
qed

section \<open>What validation gives the components\<close>

lemma require_iff [simp]: "require cond what = [] \<longleftrightarrow> cond"
  by (simp add: require_def)

lemma FlushInterval_le:
  assumes "1 / 10 ^ 6 \<le> TargetRate d t"
  shows "FlushInterval d t \<le> 10 ^ 15"
proof -
  have "0 < TargetRate d t" by (rule less_le_trans [OF _ assms]) simp
  then have "(10 ^ 9 :: rat) / TargetRate d t \<le> of_int (10 ^ 15)"
    using assms by (simp add: divide_le_eq field_simps)
  then have "round64 (10 ^ 9 / TargetRate d t) \<le> of_int (10 ^ 15)" by (rule round64_le_int) simp
  then show ?thesis
    using f64_of_int_exact [of "10 ^ 9"] f64_to_int_mono [of "round64 (10 ^ 9 / TargetRate d t)" "of_int (10 ^ 15)"]
    by (simp add: FlushInterval_def f64_div_def f64_to_int_def)
qed



end
