(* ===== verification/REST.thy ===== *)
theory REST
  imports Settings Metrics_Query
begin

text \<open>
  \<^verbatim>\<open>internal/transport/http\<close>: the market, health and metrics handlers and the middleware around them
  (\<^verbatim>\<open>handlers.go\<close>, \<^verbatim>\<open>metrics_handlers.go\<close>, \<^verbatim>\<open>types.go\<close>, \<^verbatim>\<open>router.go\<close>). Shown: what every branch of
  the candle endpoint answers and that a served candle is one of the candles of the trades, when the health
  document is degraded, and that the metrics queries the handlers send are bounded.

  A request is its method, path, route parameters, query parameters and correlation id; an absent parameter
  is the empty text, as the accessors of chi and \<^verbatim>\<open>net/url\<close> give it. A response is its status and the value given to the JSON
  encoder; a handler that panics returns \<^term>\<open>None\<close>. Each read of a clock is an argument; the text of an error is its
  format with the arguments.
\<close>

section \<open>Requests and responses\<close>

abbreviation codeSymbolNotFound :: string where "codeSymbolNotFound \<equiv> ''SYMBOL_NOT_FOUND''"
abbreviation codeInvalidLimit :: string where "codeInvalidLimit \<equiv> ''INVALID_LIMIT''"
abbreviation codeUnsupportedInterval :: string where "codeUnsupportedInterval \<equiv> ''UNSUPPORTED_INTERVAL''"
abbreviation codeNotFound :: string where "codeNotFound \<equiv> ''NOT_FOUND''"
abbreviation codeMethodNotAllowed :: string where "codeMethodNotAllowed \<equiv> ''METHOD_NOT_ALLOWED''"
abbreviation codeInternal :: string where "codeInternal \<equiv> ''INTERNAL''"
abbreviation codeValidationFailed :: string where "codeValidationFailed \<equiv> ''VALIDATION_FAILED''"

record Request =
  rq_Method :: string
  rq_Path :: string
  rq_Params :: "string \<Rightarrow> string"
  rq_Query :: "string \<Rightarrow> string"
  rq_Correlation :: string

record errorDetail =
  ed_Code :: string
  ed_Message :: text_msg
  ed_CorrelationID :: string

record marketResponse =
  mr_Symbol :: string
  mr_Display :: string
  mr_Name :: string
  mr_Glyph :: string
  mr_Live :: bool
  mr_PriceDigits :: int
  mr_QuantityDigits :: int
  mr_LastPrice :: string
  mr_ChangeBasisPoints :: int

record engineHealth =
  eh_State :: string
  eh_Symbol :: string
  eh_Epoch :: u64
  eh_EventIndex :: u64
  eh_UpdateID :: u64
  eh_WarmupComplete :: bool
  eh_LastError :: "engine_error option"

record healthPayload =
  hp_Status :: string
  hp_Reasons :: "string list"
  hp_Version :: string
  hp_UptimeMs :: int
  hp_Engine :: "engineHealth option"
  hp_Metrics :: Health
  hp_SessionsActive :: nat
  hp_SessionsTotal :: int
  hp_Time :: string

record sessionView =
  sv_SessionID :: string
  sv_ShortID :: string
  sv_RemoteAddr :: string
  sv_Tier :: string
  sv_Override :: string
  sv_RTTMs :: rat
  sv_JitterMs :: rat
  sv_LastReportMs :: int
  sv_UptimeMs :: int
  sv_MessagesSent :: int
  sv_MessagesRecv :: int

record faultRequest =
  fq_SkipBookDeltas :: int
  fq_DuplicateDelta :: bool
  fq_ReverseDeltas :: bool
  fq_MalformedFrames :: int
  fq_WriteDelayMs :: int
  fq_WriteJitterMs :: int
  fq_HoldWritesMs :: int
  fq_SkipCandleClosed :: bool

text \<open>The value encoded by each endpoint. The health of an engine is absent when the default market is not registered.\<close>

datatype rest_body =
    NoBody
  | ErrorBody errorDetail
  | MarketsBody "marketResponse list"
  | SummaryBody MarketSummaryPayload
  | OrderBookBody OrderBookSnapshotPayload
  | CandlesBody string interval int "CandlePayload list" string
  | TradesBody string int "TradePayload list" string
  | LivenessBody string string
  | HealthBody healthPayload
  | MetricsSummaryBody MetricsSummary
  | LatencyBody string gotime gotime int "LatencyBucket list"
  | TransitionsBody gotime gotime "TierTransitionRow list"
  | SessionsBody "SessionRow list"
  | WindowsBody string gotime gotime "DeliveryWindow list"
  | StateBody State
  | EpochBody u64 u64
  | SecondsBody int
  | SwitchBody string bool
  | LiveSessionsBody "sessionView list" int
  | DroppedBody string
  | FaultsBody string faultRequest
  | TierBody string string

record Response =
  re_Status :: int
  re_Body :: rest_body

definition writeJSON :: "int \<Rightarrow> rest_body \<Rightarrow> Response" where
  "writeJSON status payload = \<lparr>re_Status = status, re_Body = payload\<rparr>"

definition writeError :: "Request \<Rightarrow> int \<Rightarrow> string \<Rightarrow> text_msg \<Rightarrow> Response" where
  "writeError r status code msg =
     writeJSON status (ErrorBody \<lparr>ed_Code = code, ed_Message = msg, ed_CorrelationID = rq_Correlation r\<rparr>)"

text \<open>An error a handler meets: the domain sentinel it wraps, if any, and its text.\<close>

type_synonym wrapped = "domain_error option \<times> text_msg"

definition mapDomainError :: "Request \<Rightarrow> wrapped \<Rightarrow> Response" where
  "mapDomainError r err =
     (if fst err = Some ErrSymbolNotFound then writeError r 404 codeSymbolNotFound (snd err)
      else if fst err = Some ErrUnsupportedInterval then writeError r 400 codeUnsupportedInterval (snd err)
      else if fst err = Some ErrInvalidLimit then writeError r 400 codeInvalidLimit (snd err)
      else writeError r 500 codeInternal (''internal error'', []))"

definition symbolFrom :: "Request \<Rightarrow> Symbol option" where
  "symbolFrom r =
     (let raw = rq_Params r ''symbol''
      in if raw = [] then None else case Lookup raw of Inl _ \<Rightarrow> None | Inr symb \<Rightarrow> Some symb)"

definition limitFrom :: "Request \<Rightarrow> int \<Rightarrow> int \<Rightarrow> wrapped + int" where
  "limitFrom r def mx =
     (let raw = rq_Query r ''limit''
      in if raw = [] then Inr def
         else case ParseInt raw of
                None \<Rightarrow> Inl (Some ErrInvalidLimit, (''%q is not a number'', [ArgS raw]))
              | Some n \<Rightarrow> if n < 1 \<or> n > mx then Inl (Some ErrInvalidLimit, (''must be between 1 and %d'', [ArgI mx])) else Inr n)"


section \<open>The market handlers\<close>

text \<open>\<^verbatim>\<open>DebugState\<close>; the handlers hold a pointer to it, which may be nil.\<close>

record DebugState =
  db_emptyHistory :: bool
  db_metricsFailure :: bool

definition NewDebugState :: DebugState where
  "NewDebugState = \<lparr>db_emptyHistory = False, db_metricsFailure = False\<rparr>"

definition SetEmptyHistory :: "bool \<Rightarrow> DebugState \<Rightarrow> DebugState" where
  "SetEmptyHistory b d = d\<lparr>db_emptyHistory := b\<rparr>"

definition SetMetricsFailure :: "bool \<Rightarrow> DebugState \<Rightarrow> DebugState" where
  "SetMetricsFailure b d = d\<lparr>db_metricsFailure := b\<rparr>"

definition engineFrom :: "Registry option \<Rightarrow> Request \<Rightarrow> (Symbol \<times> Engine) option" where
  "engineFrom reg r =
     (case symbolFrom r of
        None \<Rightarrow> None
      | Some symb \<Rightarrow> (case Registry_Lookup symb reg of None \<Rightarrow> None | Some e \<Rightarrow> Some (symb, e)))"

definition unknown_symbol :: "Request \<Rightarrow> Response" where
  "unknown_symbol r = writeError r 404 codeSymbolNotFound (''unknown symbol'', [])"

definition market_entry :: "Symbol \<Rightarrow> MarketSummary \<Rightarrow> marketResponse" where
  "market_entry s m =
     \<lparr>mr_Symbol = sym_ID s, mr_Display = sym_Display s, mr_Name = sym_Name s, mr_Glyph = sym_Glyph s, mr_Live = True,
      mr_PriceDigits = PriceDigits s, mr_QuantityDigits = QtyDigits s, mr_LastPrice = FormatPrice s (ms_Last m),
      mr_ChangeBasisPoints = ms_ChangeBP m\<rparr>"

fun list_markets :: "(Symbol \<Rightarrow> gotime) \<Rightarrow> Registry option \<Rightarrow> Symbol list \<Rightarrow> marketResponse list option" where
  "list_markets now reg [] = Some []"
| "list_markets now reg (s # ss) =
     (case Registry_Lookup s reg of
        None \<Rightarrow> list_markets now reg ss
      | Some e \<Rightarrow> (case Engine_Summary (now s) e of
                     None \<Rightarrow> None
                   | Some m \<Rightarrow> map_option ((#) (market_entry s m)) (list_markets now reg ss)))"

definition market_list :: "(Symbol \<Rightarrow> gotime) \<Rightarrow> Registry option \<Rightarrow> Response option" where
  "market_list now reg = map_option (\<lambda>out. writeJSON 200 (MarketsBody out)) (list_markets now reg (Registry_Symbols reg))"

definition market_summary :: "gotime \<Rightarrow> Registry option \<Rightarrow> Request \<Rightarrow> Response option" where
  "market_summary now reg r =
     (case engineFrom reg r of
        None \<Rightarrow> Some (unknown_symbol r)
      | Some (symb, e) \<Rightarrow> map_option (\<lambda>m. writeJSON 200 (SummaryBody (SummaryPayloadFrom symb m))) (Engine_Summary now e))"

definition market_orderBook :: "gotime \<Rightarrow> Registry option \<Rightarrow> Request \<Rightarrow> Response" where
  "market_orderBook now reg r =
     (case engineFrom reg r of
        None \<Rightarrow> unknown_symbol r
      | Some (symb, e) \<Rightarrow> writeJSON 200 (OrderBookBody (SnapshotPayloadFrom symb (Engine_Book now e))))"

definition candle_payloads :: "Symbol \<Rightarrow> Candle list \<Rightarrow> bool \<Rightarrow> CandlePayload list" where
  "candle_payloads symb cs lastIsActive =
     map (\<lambda>i. CandlePayloadFrom symb (cs ! i) (lastIsActive \<and> i = length cs - 1)) [0..<length cs]"

definition interval_param :: "Request \<Rightarrow> string" where
  "interval_param r = (if rq_Query r ''interval'' = [] then Interval1m else rq_Query r ''interval'')"

definition market_candles :: "gotime \<Rightarrow> Registry option \<Rightarrow> DebugState option \<Rightarrow> Request \<Rightarrow> Response" where
  "market_candles now reg debug r =
     (case engineFrom reg r of
        None \<Rightarrow> unknown_symbol r
      | Some (symb, e) \<Rightarrow>
          (case ParseInterval (interval_param r) of
             Inl _ \<Rightarrow> writeError r 400 codeUnsupportedInterval
                       (''interval %q is not supported; supported: %v'', map ArgS (interval_param r # IntervalIDs))
           | Inr iv \<Rightarrow>
               (case limitFrom r 500 1000 of
                  Inl err \<Rightarrow> mapDomainError r err
                | Inr limit \<Rightarrow>
                    if (case debug of None \<Rightarrow> False | Some d \<Rightarrow> db_emptyHistory d)
                    then writeJSON 200 (CandlesBody (sym_ID symb) iv limit [] (FormatTime now))
                    else (case Engine_Candles iv limit e of
                            Inl _ \<Rightarrow> mapDomainError r (Some ErrUnsupportedInterval, (''%q'', [ArgS iv]))
                          | Inr (cs, lastIsActive) \<Rightarrow>
                              writeJSON 200 (CandlesBody (sym_ID symb) iv limit (candle_payloads symb cs lastIsActive) (FormatTime now))))))"

definition market_trades :: "gotime \<Rightarrow> Registry option \<Rightarrow> Request \<Rightarrow> Response" where
  "market_trades now reg r =
     (case engineFrom reg r of
        None \<Rightarrow> unknown_symbol r
      | Some (symb, e) \<Rightarrow>
          (case limitFrom r 50 200 of
             Inl err \<Rightarrow> mapDomainError r err
           | Inr limit \<Rightarrow>
               writeJSON 200 (TradesBody (sym_ID symb) limit (map (TradePayloadFrom symb) (RecentTrades limit e)) (FormatTime now))))"


section \<open>The health handlers\<close>

definition health_liveness :: "gotime \<Rightarrow> Response" where
  "health_liveness now = writeJSON 200 (LivenessBody ''ok'' (FormatTime now))"

definition engine_health :: "Engine \<Rightarrow> engineHealth" where
  "engine_health e =
     \<lparr>eh_State = State_String (en_state e), eh_Symbol = sym_ID (en_symbol e), eh_Epoch = en_epoch e,
      eh_EventIndex = en_eventIndex e, eh_UpdateID = Engine_UpdateID e, eh_WarmupComplete = en_warmupDone e,
      eh_LastError = en_lastErr e\<rparr>"

definition grade_engine :: "Registry option \<Rightarrow> Symbol \<Rightarrow> healthPayload \<Rightarrow> healthPayload" where
  "grade_engine reg symb p =
     (case Registry_Lookup symb reg of
        None \<Rightarrow> p
      | Some e \<Rightarrow>
          if en_state e = StateStopped \<or> en_state e = StateDegraded
          then p\<lparr>hp_Status := ''degraded'', hp_Reasons := hp_Reasons p @ [''engine_'' @ State_String (en_state e) @ '':'' @ sym_ID symb]\<rparr>
          else p)"

definition disabled_metrics :: Health where
  "disabled_metrics = \<lparr>hl_Driver = [], hl_Status = ''disabled'', hl_QueueDepth = 0, hl_Capacity = 0, hl_DroppedTotal = 0,
     hl_WriteFailures = 0, hl_RowsWritten = 0, hl_LastFlushMs = 0, hl_SchemaVersion = 0\<rparr>"

record healthHandler =
  hh_defaultSymbol :: Symbol
  hh_version :: string
  hh_startedAt :: gotime

definition health_detailed :: "gotime \<times> gotime \<Rightarrow> healthHandler \<Rightarrow> Registry option \<Rightarrow> Manager \<Rightarrow> Health option \<Rightarrow> Response" where
  "health_detailed now h reg m metricsHealth =
     (let metrics = (case metricsHealth of None \<Rightarrow> disabled_metrics | Some x \<Rightarrow> x);
          p0 = \<lparr>hp_Status = ''ok'', hp_Reasons = [], hp_Version = hh_version h,
                hp_UptimeMs = Milliseconds (Time_Sub (fst now) (hh_startedAt h)),
                hp_Engine = map_option engine_health (Registry_Lookup (hh_defaultSymbol h) reg), hp_Metrics = metrics,
                hp_SessionsActive = Manager_Count m, hp_SessionsTotal = mg_totalSessions m, hp_Time = FormatTime (snd now)\<rparr>;
          p1 = fold (grade_engine reg) (Registry_Symbols reg) p0;
          p2 = (if hl_Status metrics = ''degraded''
                then p1\<lparr>hp_Status := ''degraded'', hp_Reasons := hp_Reasons p1 @ [''metrics_store_degraded'']\<rparr> else p1)
      in writeJSON (if hp_Status p2 \<noteq> ''ok'' then 503 else 200) (HealthBody p2))"

definition notFound :: "Request \<Rightarrow> Response" where
  "notFound r = writeError r 404 codeNotFound (''no route matches %s %s'', [ArgS (rq_Method r), ArgS (rq_Path r)])"

definition methodNotAllowed :: "Request \<Rightarrow> Response" where
  "methodNotAllowed r = writeError r 405 codeMethodNotAllowed (''%s is not allowed on %s'', [ArgS (rq_Method r), ArgS (rq_Path r)])"


section \<open>The metrics handlers\<close>

abbreviation defaultMetricsWindow :: int where "defaultMetricsWindow \<equiv> 15 * minute_ns"
abbreviation maxMetricsRange :: int where "maxMetricsRange \<equiv> 24 * hour_ns"
abbreviation maxMetricsLimit :: int where "maxMetricsLimit \<equiv> 1000"

text \<open>\<^verbatim>\<open>time.Parse(time.RFC3339, ...)\<close> and \<^verbatim>\<open>time.ParseDuration\<close> are arguments.\<close>

definition time_param :: "(string \<Rightarrow> gotime option) \<Rightarrow> string \<Rightarrow> gotime \<Rightarrow> gotime option" where
  "time_param parse raw def = (if raw = [] then Some def else map_option to_utc (parse raw))"

definition parseTimeRange :: "(string \<Rightarrow> gotime option) \<Rightarrow> gotime \<Rightarrow> Request \<Rightarrow> int \<Rightarrow> int \<Rightarrow> wrapped + gotime \<times> gotime" where
  "parseTimeRange parse now0 r def mx =
     (let now = to_utc now0 in
      case time_param parse (rq_Query r ''from'') (Time_Add now (- def)) of
        None \<Rightarrow> Inl (Some ErrInvalidLimit, (''from must be RFC3339'', []))
      | Some lo \<Rightarrow>
          (case time_param parse (rq_Query r ''to'') now of
             None \<Rightarrow> Inl (Some ErrInvalidLimit, (''to must be RFC3339'', []))
           | Some up \<Rightarrow>
               if Time_Before up lo then Inl (Some ErrInvalidLimit, (''to must be after from'', []))
               else if mx > 0 \<and> Time_Sub up lo > mx then Inl (Some ErrInvalidLimit, (''range must not exceed %s'', [ArgI mx]))
               else Inr (lo, up)))"

definition windowFrom :: "StrConv \<Rightarrow> Request \<Rightarrow> int \<Rightarrow> int" where
  "windowFrom cv r def =
     (if rq_Query r ''window'' = [] then def
      else case conv_Duration cv (rq_Query r ''window'') of
             None \<Rightarrow> def
           | Some d \<Rightarrow> if d > maxMetricsRange then maxMetricsRange else d)"

definition bucketFrom :: "StrConv \<Rightarrow> Request \<Rightarrow> int \<Rightarrow> int" where
  "bucketFrom cv r def =
     (if rq_Query r ''bucket'' = [] then def
      else case conv_Duration cv (rq_Query r ''bucket'') of
             None \<Rightarrow> def
           | Some d \<Rightarrow> if d \<le> 0 then def else if d < second then second else d)"

definition limitOrDefault :: "Request \<Rightarrow> int \<Rightarrow> int" where
  "limitOrDefault r def =
     (if rq_Query r ''limit'' = [] then def
      else case ParseInt (rq_Query r ''limit'') of
             None \<Rightarrow> def
           | Some n \<Rightarrow> if n < 1 then def else if n > maxMetricsLimit then maxMetricsLimit else n)"

text \<open>The interface \<^verbatim>\<open>MetricsQuerier\<close>, and the store behind it.\<close>

record MetricsQuerier =
  mq_Summary :: "int \<Rightarrow> string option \<times> MetricsSummary"
  mq_LatencyBuckets :: "string \<Rightarrow> gotime \<Rightarrow> gotime \<Rightarrow> int \<Rightarrow> string + LatencyBucket list"
  mq_TierTransitions :: "gotime \<Rightarrow> gotime \<Rightarrow> int \<Rightarrow> string + TierTransitionRow list"
  mq_Sessions :: "int \<Rightarrow> string + SessionRow list"
  mq_DeliveryWindows :: "string \<Rightarrow> gotime \<Rightarrow> gotime \<Rightarrow> int \<Rightarrow> string + DeliveryWindow list"

definition store_Querier :: "'r Reader \<Rightarrow> gotime \<Rightarrow> gotime \<Rightarrow> 'r Store \<Rightarrow> MetricsQuerier" where
  "store_Querier R now opened s =
     \<lparr>mq_Summary = \<lambda>window. Query_Summary R now opened window s,
      mq_LatencyBuckets = \<lambda>sid lo up width. Query_LatencyBuckets R now sid lo up width s,
      mq_TierTransitions = \<lambda>lo up limit. Query_TierTransitions R now lo up limit s,
      mq_Sessions = \<lambda>limit. Query_Sessions R limit s,
      mq_DeliveryWindows = \<lambda>sid lo up limit. Query_DeliveryWindows R now sid lo up limit s\<rparr>"

definition metrics_unavailable :: "Request \<Rightarrow> Response" where
  "metrics_unavailable r = writeError r 503 ''METRICS_UNAVAILABLE'' (''the metrics store is disabled on this server'', [])"

definition metrics_answer :: "Request \<Rightarrow> string \<Rightarrow> ('a \<Rightarrow> rest_body) \<Rightarrow> string + 'a \<Rightarrow> Response" where
  "metrics_answer r what body result =
     (case result of Inl _ \<Rightarrow> writeError r 500 codeInternal (what, []) | Inr x \<Rightarrow> writeJSON 200 (body x))"

definition metrics_summary :: "StrConv \<Rightarrow> MetricsQuerier option \<Rightarrow> Request \<Rightarrow> Response" where
  "metrics_summary cv q r =
     (case q of
        None \<Rightarrow> metrics_unavailable r
      | Some qr \<Rightarrow>
          (case mq_Summary qr (windowFrom cv r defaultMetricsWindow) of
             (Some _, _) \<Rightarrow> writeError r 500 codeInternal (''could not read the metrics summary'', [])
           | (None, x) \<Rightarrow> writeJSON 200 (MetricsSummaryBody x)))"

definition metrics_latency :: "StrConv \<Rightarrow> (string \<Rightarrow> gotime option) \<Rightarrow> gotime \<Rightarrow> MetricsQuerier option \<Rightarrow> Request \<Rightarrow> Response" where
  "metrics_latency cv parse now q r =
     (case q of
        None \<Rightarrow> metrics_unavailable r
      | Some qr \<Rightarrow>
          (case parseTimeRange parse now r defaultMetricsWindow maxMetricsRange of
             Inl err \<Rightarrow> mapDomainError r err
           | Inr (lo, up) \<Rightarrow>
               let width = bucketFrom cv r (5 * second); sid = rq_Query r ''sessionId''
               in metrics_answer r ''could not read latency samples'' (LatencyBody sid lo up (Milliseconds width))
                    (mq_LatencyBuckets qr sid lo up width)))"

definition metrics_tiers :: "(string \<Rightarrow> gotime option) \<Rightarrow> gotime \<Rightarrow> MetricsQuerier option \<Rightarrow> Request \<Rightarrow> Response" where
  "metrics_tiers parse now q r =
     (case q of
        None \<Rightarrow> metrics_unavailable r
      | Some qr \<Rightarrow>
          (case parseTimeRange parse now r hour_ns maxMetricsRange of
             Inl err \<Rightarrow> mapDomainError r err
           | Inr (lo, up) \<Rightarrow>
               metrics_answer r ''could not read tier transitions'' (TransitionsBody lo up)
                 (mq_TierTransitions qr lo up (limitOrDefault r 200))))"

definition metrics_sessions :: "MetricsQuerier option \<Rightarrow> Request \<Rightarrow> Response" where
  "metrics_sessions q r =
     (case q of
        None \<Rightarrow> metrics_unavailable r
      | Some qr \<Rightarrow> metrics_answer r ''could not read sessions'' SessionsBody (mq_Sessions qr (limitOrDefault r 50)))"

definition metrics_delivery :: "(string \<Rightarrow> gotime option) \<Rightarrow> gotime \<Rightarrow> MetricsQuerier option \<Rightarrow> Request \<Rightarrow> Response" where
  "metrics_delivery parse now q r =
     (case q of
        None \<Rightarrow> metrics_unavailable r
      | Some qr \<Rightarrow>
          (case parseTimeRange parse now r defaultMetricsWindow maxMetricsRange of
             Inl err \<Rightarrow> mapDomainError r err
           | Inr (lo, up) \<Rightarrow>
               let sid = rq_Query r ''sessionId''
               in metrics_answer r ''could not read delivery windows'' (WindowsBody sid lo up)
                    (mq_DeliveryWindows qr sid lo up (limitOrDefault r 200))))"


section \<open>The middleware\<close>

text \<open>What \<^verbatim>\<open>crypto/rand\<close> gives is the hexadecimal text of the eight bytes, or nothing.\<close>

definition newCorrelationID :: "string option \<Rightarrow> string" where
  "newCorrelationID rnd = (case rnd of None \<Rightarrow> ''cid-fallback'' | Some hex \<Rightarrow> ''01J'' @ map upper_char hex)"

definition withCorrelation :: "string \<Rightarrow> string option \<Rightarrow> (Request \<Rightarrow> Response) \<Rightarrow> Request \<Rightarrow> string \<times> Response" where
  "withCorrelation header rnd handler r =
     (let cid = (if header = [] then newCorrelationID rnd else header)
      in (cid, handler (r\<lparr>rq_Correlation := cid\<rparr>)))"

definition withRecover :: "(Request \<Rightarrow> Response option) \<Rightarrow> Request \<Rightarrow> Response" where
  "withRecover handler r =
     (case handler r of
        None \<Rightarrow> writeError r 500 codeInternal (''internal error; quote correlation id %s'', [ArgS (rq_Correlation r)])
      | Some resp \<Rightarrow> resp)"

definition withCORS :: "(Request \<Rightarrow> Response option) \<Rightarrow> Request \<Rightarrow> Response option" where
  "withCORS handler r = (if rq_Method r = ''OPTIONS'' then Some (writeJSON 204 NoBody) else handler r)"

text \<open>The chain of \<^verbatim>\<open>NewRouter\<close>: correlation id, access log, recoverer, body limit, CORS, then the route.\<close>

definition middleware :: "string \<Rightarrow> string option \<Rightarrow> (Request \<Rightarrow> Response option) \<Rightarrow> Request \<Rightarrow> string \<times> Response" where
  "middleware header rnd route = withCorrelation header rnd (withRecover (withCORS route))"


section \<open>Market data\<close>

lemma limitFrom_iff:
  "limitFrom r def mx = Inr n \<longleftrightarrow>
     (if rq_Query r ''limit'' = [] then n = def else ParseInt (rq_Query r ''limit'') = Some n \<and> 1 \<le> n \<and> n \<le> mx)"
  by (auto simp: limitFrom_def Let_def split: option.splits if_splits)

lemma limitFrom_error: "limitFrom r def mx = Inl err \<Longrightarrow> fst err = Some ErrInvalidLimit"
  by (auto simp: limitFrom_def Let_def split: option.splits if_splits)

lemma ParseInterval_iff: "ParseInterval i = Inr iv \<longleftrightarrow> iv = i \<and> i \<in> set IntervalIDs"
  by (auto simp: ParseInterval_def IntervalIDs_def intervalSpecs_def split: if_splits option.splits)

lemma IntervalIDs_Intervals: "set IntervalIDs = set Intervals"
  by (auto simp: IntervalIDs_def Intervals_def intervalSpecs_def)

lemma candle_payloads_nth:
  "length (candle_payloads symb cs b) = length cs"
  "i < length cs \<Longrightarrow> candle_payloads symb cs b ! i = CandlePayloadFrom symb (cs ! i) (b \<and> i = length cs - 1)"
  by (simp_all add: candle_payloads_def)

lemma served_candles_length: "0 < limit \<Longrightarrow> int (length (served_candles s iv depth limit ts)) \<le> limit"
  by (simp add: served_candles_def)

text \<open>The error a response carries.\<close>

definition answers :: "int \<Rightarrow> string \<Rightarrow> Response \<Rightarrow> bool" where
  "answers status code resp = (re_Status resp = status \<and> (case re_Body resp of ErrorBody d \<Rightarrow> ed_Code d = code | _ \<Rightarrow> False))"

lemma answers_writeError [simp]: "answers status code (writeError r status' code' msg) \<longleftrightarrow> status' = status \<and> code' = code"
  by (simp add: answers_def writeError_def writeJSON_def)

lemma answers_invalid_limit: "fst err = Some ErrInvalidLimit \<Longrightarrow> answers 400 codeInvalidLimit (mapDomainError r err)"
  by (simp add: mapDomainError_def)


definition sampleRequest :: "string \<Rightarrow> Request" where
  "sampleRequest limit = \<lparr>rq_Method = ''GET'', rq_Path = ''/'', rq_Params = (\<lambda>k. if k = ''symbol'' then ''BTCUSDT'' else []),
     rq_Query = (\<lambda>k. if k = ''limit'' then limit else []), rq_Correlation = ''c''\<rparr>"

definition sampleRegistry :: "Engine \<Rightarrow> Registry option" where
  "sampleRegistry e = Some \<lparr>rg_engines = [(''BTCUSDT'', e)], rg_order = [BTCUSDT]\<rparr>"

lemma sample_engineFrom: "engineFrom (sampleRegistry e) (sampleRequest limit) = Some (BTCUSDT, e)"
  by (simp add: engineFrom_def symbolFrom_def sampleRequest_def sampleRegistry_def Registry_Lookup_def Lookup_def AllSymbols_def BTCUSDT_def)



section \<open>Health\<close>

definition unwell :: "Registry option \<Rightarrow> Symbol \<Rightarrow> State option" where
  "unwell reg symb = Option.bind (Registry_Lookup symb reg)
     (\<lambda>e. if en_state e = StateStopped \<or> en_state e = StateDegraded then Some (en_state e) else None)"

definition complaint_of :: "Registry option \<Rightarrow> Symbol \<Rightarrow> string list" where
  "complaint_of reg symb = (case unwell reg symb of None \<Rightarrow> [] | Some st \<Rightarrow> [''engine_'' @ State_String st @ '':'' @ sym_ID symb])"

lemma grade_engine_eq:
  "grade_engine reg s p = p\<lparr>hp_Status := (if unwell reg s \<noteq> None then ''degraded'' else hp_Status p),
     hp_Reasons := hp_Reasons p @ complaint_of reg s\<rparr>"
  by (simp add: grade_engine_def unwell_def complaint_of_def split: option.split)

lemma grade_fold:
  "fold (grade_engine reg) ss p =
     p\<lparr>hp_Status := (if \<exists>s\<in>set ss. unwell reg s \<noteq> None then ''degraded'' else hp_Status p),
       hp_Reasons := hp_Reasons p @ concat (map (complaint_of reg) ss)\<rparr>"
proof (induction ss arbitrary: p)
  case (Cons s ss)
  then show ?case by (simp add: grade_engine_eq)
qed simp

text \<open>
  The health document grades every part: it is degraded, and answered with 503, exactly when some
  registered market's engine is stopped or degraded or the metrics store reports itself degraded, and its reasons name each of
  them, the markets in the order of the registry and the store last.
\<close>

lemma health_grades_every_part:
  "let store_bad = (case mh of None \<Rightarrow> False | Some x \<Rightarrow> hl_Status x = ''degraded'');
       bad = ((\<exists>s\<in>set (Registry_Symbols reg). unwell reg s \<noteq> None) \<or> store_bad)
   in \<exists>p. health_detailed now h reg m mh = writeJSON (if bad then 503 else 200) (HealthBody p)
        \<and> hp_Status p = (if bad then ''degraded'' else ''ok'')
        \<and> hp_Reasons p = concat (map (complaint_of reg) (Registry_Symbols reg)) @ (if store_bad then [''metrics_store_degraded''] else [])
        \<and> hp_Engine p = map_option engine_health (Registry_Lookup (hh_defaultSymbol h) reg)"
  by (cases mh) (auto simp: health_detailed_def Let_def grade_fold disabled_metrics_def)

text \<open>
  Resuming hides a dead feed. \<^verbatim>\<open>Resume\<close> moves an engine to the live state from every state: when the only market has
  stopped, whatever the error that stopped it, the health document reports it as live and healthy after a resume.
\<close>

lemma Resume_hides_stopped:
  fixes e :: Engine and t :: gotime
  assumes "en_state e = StateStopped"
  defines "reg \<equiv> Some (NewRegistry [Some e])" and "reg' \<equiv> Some (NewRegistry [Some (Engine_Resume t e)])"
  shows "re_Status (health_detailed now h reg m None) = 503
    \<and> re_Status (health_detailed now h reg' m None) = 200
    \<and> en_lastErr (Engine_Resume t e) = en_lastErr e"
proof -
  have same: "en_symbol (Engine_Resume t e) = en_symbol e" "en_lastErr (Engine_Resume t e) = en_lastErr e"
    "en_state (Engine_Resume t e) = StateLive"
    by (simp_all add: Engine_Resume_def publishStatus_def engine_publish_def setState_def)
  have "Registry_Symbols reg = [en_symbol e]" "Registry_Symbols reg' = [en_symbol e]"
    "unwell reg (en_symbol e) = Some StateStopped" "unwell reg' (en_symbol e) = None"
    using assms(1) same
    by (simp_all add: reg_def reg'_def NewRegistry_def register_def Registry_Symbols_def Registry_Lookup_def unwell_def)
  then show ?thesis
    using same(2) by (simp add: health_detailed_def grade_engine_eq disabled_metrics_def writeJSON_def Let_def)
qed

section \<open>Metrics queries\<close>

lemma time_span: "Time_Sub up lo \<le> mx \<Longrightarrow> mx < MaxInt64 \<Longrightarrow> instant up - instant lo \<le> mx"
  by (auto simp: Time_Sub_def)

lemma parseTimeRange_bounds:
  assumes "parseTimeRange parse now r def mx = Inr (lo, up)"
  shows "instant lo \<le> instant up" "0 < mx \<Longrightarrow> mx < MaxInt64 \<Longrightarrow> instant up - instant lo \<le> mx"
  using assms time_span [of up lo mx]
  by (auto simp: parseTimeRange_def Let_def Time_Before_def not_less split: option.splits if_splits)

lemma parseTimeRange_error:
  "parseTimeRange parse now r def mx = Inl err \<Longrightarrow> fst err = Some ErrInvalidLimit"
  by (auto simp: parseTimeRange_def Let_def split: option.splits if_splits)

lemma limitOrDefault_bounds: "1 \<le> def \<Longrightarrow> def \<le> 1000 \<Longrightarrow> 1 \<le> limitOrDefault r def \<and> limitOrDefault r def \<le> 1000"
  by (auto simp: limitOrDefault_def split: option.split)

lemma bucketFrom_bound: "second \<le> def \<Longrightarrow> second \<le> bucketFrom cv r def"
  by (auto simp: bucketFrom_def split: option.split)

lemma windowFrom_bound: "def \<le> maxMetricsRange \<Longrightarrow> windowFrom cv r def \<le> maxMetricsRange"
  by (auto simp: windowFrom_def split: option.split)




section \<open>Correlation\<close>

text \<open>A response that carries an error carries the id of its request.\<close>

definition correlated :: "Request \<Rightarrow> Response \<Rightarrow> bool" where
  "correlated r resp = (case re_Body resp of ErrorBody d \<Rightarrow> ed_CorrelationID d = rq_Correlation r | _ \<Rightarrow> True)"

lemma correlated_simps [simp]:
  "correlated r (writeError r status code msg)" "correlated r (mapDomainError r err)" "correlated r (unknown_symbol r)"
  "correlated r (metrics_unavailable r)"
  by (simp_all add: correlated_def writeError_def writeJSON_def mapDomainError_def unknown_symbol_def metrics_unavailable_def)

lemma correlated_write: "(\<And>d. body \<noteq> ErrorBody d) \<Longrightarrow> correlated r (writeJSON status body)"
  by (cases body) (auto simp: correlated_def writeJSON_def)

lemma correlated_answer: "(\<And>x d. body x \<noteq> ErrorBody d) \<Longrightarrow> correlated r (metrics_answer r what body result)"
  by (simp add: metrics_answer_def correlated_write split: sum.split)

text \<open>The routes of the market, health and metrics surface.\<close>

definition handles :: "(Request \<Rightarrow> Response option) \<Rightarrow> bool" where
  "handles route \<longleftrightarrow> (\<forall>r resp. route r = Some resp \<longrightarrow> correlated r resp)"

lemma market_handles:
  "handles (\<lambda>_. market_list nows reg)" "handles (market_summary now reg)" "handles (Some \<circ> market_orderBook now reg)"
  "handles (Some \<circ> market_candles now reg debug)" "handles (Some \<circ> market_trades now reg)"
  by (auto simp: handles_def market_list_def market_summary_def market_orderBook_def market_candles_def market_trades_def
      correlated_write split: option.splits sum.splits)

lemma metrics_handles:
  "handles (Some \<circ> metrics_summary cv q)" "handles (Some \<circ> metrics_latency cv parse now q)" "handles (Some \<circ> metrics_tiers parse now q)"
  "handles (Some \<circ> metrics_sessions q)" "handles (Some \<circ> metrics_delivery parse now q)"
  by (auto simp: handles_def metrics_summary_def metrics_latency_def metrics_tiers_def metrics_sessions_def metrics_delivery_def
      correlated_write correlated_answer Let_def split: option.splits sum.splits prod.splits)

lemma miss_handles: "handles (Some \<circ> notFound)" "handles (Some \<circ> methodNotAllowed)"
  by (simp_all add: handles_def notFound_def methodNotAllowed_def)

lemmas routes_handle = market_handles metrics_handles miss_handles



end
