(* ===== verification/Debug_API.thy ===== *)
theory Debug_API
  imports REST
begin

text \<open>
  \<^verbatim>\<open>internal/transport/http/debug_handlers.go\<close> and the routes of \<^verbatim>\<open>router.go\<close>: the controls of a debug build. Shown: a control
  changes the session or the market it names and nothing else, every applied control is audited once, and a release build
  has none of them.

  The handlers share the registry, the session manager, the debug switches, the audit log and the process
  counters; a handler takes that state and returns it with the response. The provider's
  snapshot, the decoded body, the peer addresses and the clock are arguments.
\<close>

section \<open>State\<close>

record debug_world =
  dw_registry :: "Registry option"
  dw_manager :: Manager
  dw_debug :: DebugState
  dw_audit :: "(string \<times> string \<times> string) list"
  dw_gauges :: "(string \<Rightarrow> int) option"

definition gauge_Inc :: "string \<Rightarrow> debug_world \<Rightarrow> debug_world" where
  "gauge_Inc name w = w\<lparr>dw_gauges := map_option (\<lambda>g. g(name := wrap64 (g name + 1))) (dw_gauges w)\<rparr>"

definition audit :: "Request \<Rightarrow> string \<Rightarrow> string \<Rightarrow> debug_world \<Rightarrow> debug_world" where
  "audit r action detail w =
     gauge_Inc ''debug_actions_total'' (w\<lparr>dw_audit := dw_audit w @ [(action, detail, rq_Correlation r)]\<rparr>)"

definition put_engine :: "Symbol \<Rightarrow> Engine \<Rightarrow> debug_world \<Rightarrow> debug_world" where
  "put_engine symb e w =
     w\<lparr>dw_registry := map_option (\<lambda>g. g\<lparr>rg_engines := AList.update (sym_ID symb) e (rg_engines g)\<rparr>) (dw_registry w)\<rparr>"

definition put_session :: "string \<Rightarrow> Session \<Rightarrow> debug_world \<Rightarrow> debug_world" where
  "put_session sid s w = w\<lparr>dw_manager := (dw_manager w)\<lparr>mg_sessions := AList.update sid s (mg_sessions (dw_manager w))\<rparr>\<rparr>"


section \<open>Parameters\<close>

definition intFrom :: "Request \<Rightarrow> string \<Rightarrow> int \<Rightarrow> int" where
  "intFrom r key def =
     (if rq_Query r key = [] then def else case ParseInt (rq_Query r key) of None \<Rightarrow> def | Some n \<Rightarrow> n)"

definition boolFrom :: "Request \<Rightarrow> string \<Rightarrow> bool \<Rightarrow> bool" where
  "boolFrom r key def =
     (if rq_Query r key = [] then def else case ParseBool (rq_Query r key) of None \<Rightarrow> def | Some b \<Rightarrow> b)"

definition engineFor :: "Symbol \<Rightarrow> Request \<Rightarrow> debug_world \<Rightarrow> (Engine \<times> Symbol) option" where
  "engineFor defaultSymbol r w =
     (let raw = rq_Query r ''symbol''
      in case (if raw = [] then Inr defaultSymbol else Lookup raw) of
           Inl _ \<Rightarrow> None
         | Inr symb \<Rightarrow> map_option (\<lambda>e. (e, symb)) (Registry_Lookup symb (dw_registry w)))"


section \<open>The market controls\<close>

definition with_engine ::
  "Symbol \<Rightarrow> (Engine \<Rightarrow> Symbol \<Rightarrow> debug_world \<Rightarrow> debug_world \<times> Response) \<Rightarrow> Request \<Rightarrow> debug_world \<Rightarrow> debug_world \<times> Response" where
  "with_engine defaultSymbol act r w =
     (case engineFor defaultSymbol r w of None \<Rightarrow> (w, unknown_symbol r) | Some (e, symb) \<Rightarrow> act e symb w)"

definition debug_pause :: "Symbol \<Rightarrow> gotime \<Rightarrow> Request \<Rightarrow> debug_world \<Rightarrow> debug_world \<times> Response" where
  "debug_pause defaultSymbol now r = with_engine defaultSymbol (\<lambda>e symb w.
     let e' = Engine_Pause now e
     in (audit r ''generator_pause'' [] (put_engine symb e' w), writeJSON 200 (StateBody (en_state e')))) r"

definition debug_resume :: "Symbol \<Rightarrow> gotime \<Rightarrow> Request \<Rightarrow> debug_world \<Rightarrow> debug_world \<times> Response" where
  "debug_resume defaultSymbol now r = with_engine defaultSymbol (\<lambda>e symb w.
     let e' = Engine_Resume now e
     in (audit r ''generator_resume'' [] (put_engine symb e' w), writeJSON 200 (StateBody (en_state e')))) r"

definition debug_reset :: "Symbol \<Rightarrow> gotime \<Rightarrow> string + OrderBookSnapshot \<Rightarrow> Request \<Rightarrow> debug_world \<Rightarrow> debug_world \<times> Response" where
  "debug_reset defaultSymbol now snapshot r = with_engine defaultSymbol (\<lambda>e symb w.
     case Engine_Reset now snapshot e of
       (e', Some err) \<Rightarrow> (put_engine symb e' w, writeError r 500 codeInternal (''reset failed: %v'', []))
     | (e', None) \<Rightarrow>
         (audit r ''generator_reset'' [] (put_engine symb e' w), writeJSON 200 (EpochBody (en_epoch e') (Engine_UpdateID e')))) r"

definition debug_burst :: "Symbol \<Rightarrow> gotime \<Rightarrow> (int \<Rightarrow> string) \<Rightarrow> Request \<Rightarrow> debug_world \<Rightarrow> debug_world \<times> Response" where
  "debug_burst defaultSymbol now duration_text r = with_engine defaultSymbol (\<lambda>e symb w.
     let seconds = intFrom r ''seconds'' 5;
         d = wrap64 (seconds * second)
     in (audit r ''generator_burst'' (Sprint_int seconds @ ''s'') (put_engine symb (Engine_Burst now d (duration_text d) e) w),
         writeJSON 200 (SecondsBody seconds))) r"

definition FormatBool :: "bool \<Rightarrow> string" where
  "FormatBool b = (if b then ''true'' else ''false'')"

definition debug_emptyHistory :: "Request \<Rightarrow> debug_world \<Rightarrow> debug_world \<times> Response" where
  "debug_emptyHistory r w =
     (let b = boolFrom r ''on'' True
      in (audit r ''empty_history'' (FormatBool b) (w\<lparr>dw_debug := SetEmptyHistory b (dw_debug w)\<rparr>), writeJSON 200 (SwitchBody ''emptyHistory'' b)))"

definition debug_metricsFail :: "Request \<Rightarrow> debug_world \<Rightarrow> debug_world \<times> Response" where
  "debug_metricsFail r w =
     (let b = boolFrom r ''on'' True
      in (audit r ''metrics_fail'' (FormatBool b) (w\<lparr>dw_debug := SetMetricsFailure b (dw_debug w)\<rparr>), writeJSON 200 (SwitchBody ''metricsFailure'' b)))"


section \<open>The session controls\<close>

definition session_view :: "(string \<Rightarrow> string) \<Rightarrow> gotime \<Rightarrow> gotime \<Rightarrow> Session \<Rightarrow> sessionView" where
  "session_view addr now clock s =
     (let health = Health_Snapshot clock (ss_health s)
      in \<lparr>sv_SessionID = sc_ID (ss_cfg s), sv_ShortID = sc_ShortID (ss_cfg s), sv_RemoteAddr = addr (sc_ID (ss_cfg s)),
          sv_Tier = Tier_String (tier (ss_tierMachine s)), sv_Override = Session_Override s, sv_RTTMs = hs_RTTMs health,
          sv_JitterMs = hs_JitterMs health, sv_LastReportMs = Milliseconds (hs_Age health),
          sv_UptimeMs = Milliseconds (Time_Sub now (ss_connectedAt s)), sv_MessagesSent = ss_messagesSent s,
          sv_MessagesRecv = ss_messagesReceived s\<rparr>)"

definition debug_listSessions :: "(string \<Rightarrow> string) \<Rightarrow> gotime \<Rightarrow> (string \<Rightarrow> gotime) \<Rightarrow> debug_world \<Rightarrow> Response" where
  "debug_listSessions addr now clock w =
     writeJSON 200 (LiveSessionsBody
       (map (\<lambda>s. session_view addr (to_utc now) (clock (sc_ID (ss_cfg s))) s) (Manager_Sessions (dw_manager w))) (mg_reconnects (dw_manager w)))"

definition no_session :: "Request \<Rightarrow> string \<Rightarrow> Response" where
  "no_session r sid = writeError r 404 codeNotFound (''no live session %s'', [ArgS sid])"

definition debug_dropSession :: "Request \<Rightarrow> debug_world \<Rightarrow> debug_world \<times> Response" where
  "debug_dropSession r w =
     (let sid = rq_Params r ''id''
      in case Manager_Drop sid ''debug_drop'' (dw_manager w) of
           (m, False) \<Rightarrow> (w, no_session r sid)
         | (m, True) \<Rightarrow> (audit r ''drop_session'' sid (w\<lparr>dw_manager := m\<rparr>), writeJSON 200 (DroppedBody sid)))"

text \<open>The body is nil, fails to decode with a text, or decodes. An empty body fails with \<^verbatim>\<open>EOF\<close>.\<close>

definition noRequest :: faultRequest where
  "noRequest = \<lparr>fq_SkipBookDeltas = 0, fq_DuplicateDelta = False, fq_ReverseDeltas = False, fq_MalformedFrames = 0, fq_WriteDelayMs = 0,
     fq_WriteJitterMs = 0, fq_HoldWritesMs = 0, fq_SkipCandleClosed = False\<rparr>"

definition decode_faults :: "(string + faultRequest) option \<Rightarrow> string + faultRequest" where
  "decode_faults body =
     (case body of
        None \<Rightarrow> Inr noRequest
      | Some (Inr q) \<Rightarrow> Inr q
      | Some (Inl err) \<Rightarrow> if err \<noteq> ''EOF'' then Inl err else Inr noRequest)"

definition fault_config :: "faultRequest \<Rightarrow> FaultConfig" where
  "fault_config q =
     \<lparr>fc_SkipBookDeltas = fq_SkipBookDeltas q, fc_DuplicateDelta = fq_DuplicateDelta q, fc_ReverseDeltas = fq_ReverseDeltas q,
      fc_MalformedFrames = fq_MalformedFrames q, fc_WriteDelay = wrap64 (fq_WriteDelayMs q * 10 ^ 6),
      fc_WriteJitter = wrap64 (fq_WriteJitterMs q * 10 ^ 6), fc_HoldWrites = wrap64 (fq_HoldWritesMs q * 10 ^ 6),
      fc_SkipCandleClosed = fq_SkipCandleClosed q\<rparr>"

definition debug_applyFaults :: "(string + faultRequest) option \<Rightarrow> Request \<Rightarrow> debug_world \<Rightarrow> debug_world \<times> Response" where
  "debug_applyFaults body r w =
     (let sid = rq_Params r ''id''
      in case decode_faults body of
           Inl err \<Rightarrow> (w, writeError r 400 codeValidationFailed (''invalid fault body: %v'', [ArgS err]))
         | Inr q \<Rightarrow>
             (case Manager_ApplyFaults sid (fault_config q) (dw_manager w) of
                (m, False) \<Rightarrow> (w, no_session r sid)
              | (m, True) \<Rightarrow>
                  (gauge_Inc ''provider_faults_total'' (audit r ''apply_faults'' sid (w\<lparr>dw_manager := m\<rparr>)), writeJSON 200 (FaultsBody sid q))))"

definition debug_forceTier :: "bool \<Rightarrow> Request \<Rightarrow> debug_world \<Rightarrow> debug_world \<times> Response" where
  "debug_forceTier prefer_done r w =
     (let sid = rq_Params r ''id''; forced = rq_Query r ''tier''
      in case Manager_Session sid (dw_manager w) of
           None \<Rightarrow> (w, no_session r sid)
         | Some s \<Rightarrow>
             if forced = [] then (w, writeError r 400 codeValidationFailed (''tier is required'', []))
             else (case InjectCommand prefer_done (TierOverride forced) s of
                     (s', False) \<Rightarrow> (w, writeError r 409 codeInternal (''the session command queue is full'', []))
                   | (s', True) \<Rightarrow> (audit r ''force_tier'' (sid @ ''='' @ forced) (put_session sid s' w), writeJSON 200 (TierBody sid forced))))"


section \<open>The routes\<close>

definition debug_routes :: "(string \<times> string) list" where
  "debug_routes =
     [(''POST'', ''/generator/pause''), (''POST'', ''/generator/resume''), (''POST'', ''/generator/reset''), (''POST'', ''/generator/burst''),
      (''POST'', ''/generator/empty-history''), (''POST'', ''/metrics/fail''), (''GET'', ''/sessions''), (''POST'', ''/sessions/{id}/drop''),
      (''POST'', ''/sessions/{id}/faults''), (''POST'', ''/sessions/{id}/tier'')]"

definition below :: "string \<Rightarrow> (string \<times> string) list \<Rightarrow> (string \<times> string) list" where
  "below pre = map (\<lambda>(meth, path). (meth, pre @ path))"

definition NewRouter_routes :: "bool \<Rightarrow> DebugState option \<Rightarrow> (string \<times> string) list" where
  "NewRouter_routes enableDebug debug =
     [(''GET'', ''/health''), (''GET'', ''/api/v1/health''), (''GET'', ''/.well-known/assetlinks.json'')]
     @ below ''/api/v1''
         ([(''GET'', ''/markets'')]
          @ below ''/markets/{symbol}'' [(''GET'', ''/summary''), (''GET'', ''/orderbook''), (''GET'', ''/candles''), (''GET'', ''/trades'')]
          @ below ''/metrics'' [(''GET'', ''/summary''), (''GET'', ''/latency''), (''GET'', ''/tiers''), (''GET'', ''/sessions''), (''GET'', ''/delivery'')]
          @ (if enableDebug \<and> debug \<noteq> None then below ''/debug'' debug_routes else []))"


section \<open>What a control changes\<close>

lemma gauge_Inc_simps [simp]:
  "dw_registry (gauge_Inc n w) = dw_registry w" "dw_manager (gauge_Inc n w) = dw_manager w" "dw_debug (gauge_Inc n w) = dw_debug w"
  "dw_audit (gauge_Inc n w) = dw_audit w"
  by (simp_all add: gauge_Inc_def)

lemma audit_simps [simp]:
  "dw_registry (audit r a d w) = dw_registry w" "dw_manager (audit r a d w) = dw_manager w" "dw_debug (audit r a d w) = dw_debug w"
  "dw_audit (audit r a d w) = dw_audit w @ [(a, d, rq_Correlation r)]"
  by (simp_all add: audit_def)

lemma put_simps [simp]:
  "dw_manager (put_engine symb e w) = dw_manager w" "dw_debug (put_engine symb e w) = dw_debug w" "dw_audit (put_engine symb e w) = dw_audit w"
  "dw_registry (put_session sid s w) = dw_registry w" "dw_debug (put_session sid s w) = dw_debug w" "dw_audit (put_session sid s w) = dw_audit w"
  by (simp_all add: put_engine_def put_session_def)

lemma put_engine_registry:
  "Registry_Symbols (dw_registry (put_engine symb e w)) = Registry_Symbols (dw_registry w)"
  "sym_ID s \<noteq> sym_ID symb \<Longrightarrow> Registry_Lookup s (dw_registry (put_engine symb e w)) = Registry_Lookup s (dw_registry w)"
  by (cases "dw_registry w"; simp add: put_engine_def Registry_Symbols_def Registry_Lookup_def update_conv')+

lemma put_engine_at:
  "Registry_Lookup symb (dw_registry w) \<noteq> None \<Longrightarrow> Registry_Lookup symb (dw_registry (put_engine symb e w)) = Some e"
  by (cases "dw_registry w") (simp_all add: put_engine_def Registry_Lookup_def update_conv')

lemma re_Status_simps [simp]: "re_Status (writeJSON n b) = n" "re_Status (writeError r n c m) = n"
  by (simp_all add: writeJSON_def writeError_def)

text \<open>A control of the session \<open>sid\<close> that answered \<open>resp\<close> and turned \<open>w\<close> into \<open>w'\<close>.\<close>

definition session_control :: "Request \<Rightarrow> debug_world \<Rightarrow> debug_world \<Rightarrow> Response \<Rightarrow> bool" where
  "session_control r w w' resp = (let sid = rq_Params r ''id'' in
     dw_registry w' = dw_registry w \<and> dw_debug w' = dw_debug w
     \<and> (\<forall>i. i \<noteq> sid \<longrightarrow> Manager_Session i (dw_manager w') = Manager_Session i (dw_manager w))
     \<and> map fst (mg_sessions (dw_manager w')) = map fst (mg_sessions (dw_manager w))
     \<and> (if re_Status resp = 200
        then Manager_Session sid (dw_manager w) \<noteq> None
             \<and> (\<exists>action detail. dw_audit w' = dw_audit w @ [(action, detail, rq_Correlation r)])
        else w' = w))"

lemma update_session:
  assumes "Manager_Session sid m = Some s0"
  shows "map fst (AList.update sid s (mg_sessions m)) = map fst (mg_sessions m)"
    "i \<noteq> sid \<Longrightarrow> map_of (AList.update sid s (mg_sessions m)) i = Manager_Session i m"
proof -
  have "sid \<in> fst ` set (mg_sessions m)" using assms by (metis Manager_Session_def domI dom_map_of_conv_image_fst)
  then show "map fst (AList.update sid s (mg_sessions m)) = map fst (mg_sessions m)" by (rule update_same_keys)
  show "i \<noteq> sid \<Longrightarrow> map_of (AList.update sid s (mg_sessions m)) i = Manager_Session i m"
    by (simp add: Manager_Session_def update_conv')
qed

lemma dropSession_local: "debug_dropSession r w = (w', resp) \<Longrightarrow> session_control r w w' resp"
  by (cases "Manager_Session (rq_Params r ''id'') (dw_manager w)")
    (auto simp: debug_dropSession_def Manager_Drop_def session_control_def no_session_def Let_def update_session Manager_Session_def [of _ "_\<lparr>mg_sessions := _\<rparr>"])

lemma applyFaults_local: "debug_applyFaults body r w = (w', resp) \<Longrightarrow> session_control r w w' resp"
  by (cases "Manager_Session (rq_Params r ''id'') (dw_manager w)")
    (auto simp: debug_applyFaults_def Manager_ApplyFaults_def session_control_def no_session_def Let_def update_session
      Manager_Session_def [of _ "_\<lparr>mg_sessions := _\<rparr>"] split: sum.splits)

lemma forceTier_local: "debug_forceTier prefer_done r w = (w', resp) \<Longrightarrow> session_control r w w' resp"
  by (cases "Manager_Session (rq_Params r ''id'') (dw_manager w)")
    (auto simp: debug_forceTier_def session_control_def no_session_def put_session_def Let_def update_session
      Manager_Session_def [of _ "_\<lparr>mg_sessions := _\<rparr>"] split: if_splits prod.splits bool.splits)

text \<open>A control of the market it resolves.\<close>

definition market_control :: "Symbol \<Rightarrow> Request \<Rightarrow> debug_world \<Rightarrow> debug_world \<Rightarrow> Response \<Rightarrow> bool" where
  "market_control defaultSymbol r w w' resp \<longleftrightarrow>
     dw_manager w' = dw_manager w \<and> dw_debug w' = dw_debug w \<and> Registry_Symbols (dw_registry w') = Registry_Symbols (dw_registry w)
     \<and> (case engineFor defaultSymbol r w of
          None \<Rightarrow> w' = w \<and> answers 404 codeSymbolNotFound resp
        | Some (e, symb) \<Rightarrow>
            (\<forall>s. sym_ID s \<noteq> sym_ID symb \<longrightarrow> Registry_Lookup s (dw_registry w') = Registry_Lookup s (dw_registry w))
            \<and> (if re_Status resp = 200 then \<exists>action detail. dw_audit w' = dw_audit w @ [(action, detail, rq_Correlation r)]
                else dw_audit w' = dw_audit w \<and> answers 500 codeInternal resp))"

lemmas market_control_defs = market_control_def with_engine_def unknown_symbol_def put_engine_registry

lemma pause_local: "debug_pause d now r w = (w', resp) \<Longrightarrow> market_control d r w w' resp"
  by (auto simp: debug_pause_def market_control_defs Let_def split: option.splits prod.splits)

lemma resume_local: "debug_resume d now r w = (w', resp) \<Longrightarrow> market_control d r w w' resp"
  by (auto simp: debug_resume_def market_control_defs Let_def split: option.splits prod.splits)

lemma burst_local: "debug_burst d now txt r w = (w', resp) \<Longrightarrow> market_control d r w w' resp"
  by (auto simp: debug_burst_def market_control_defs Let_def split: option.splits prod.splits)

lemma reset_local: "debug_reset d now snap r w = (w', resp) \<Longrightarrow> market_control d r w w' resp"
  by (auto simp: debug_reset_def market_control_defs split: option.splits prod.splits)




section \<open>A release build\<close>

lemma below_Nil [simp]: "below p [] = []" by (simp add: below_def)

lemma enqueue_tier: "ss_tierMachine (fst (enqueue ob s)) = ss_tierMachine s"
  by (simp add: enqueue_def push_def writer_takes_def Let_def split: list.split)

lemma sendError_tier: "ss_tierMachine (sendError W err s) = ss_tierMachine s"
  using enqueue_tier
  by (simp add: sendError_def send_def enqueueFrame_def make_frame_def nextSeq_def Let_def split: prod.split option.split)

text \<open>
  C16. A release build has no debug surface. When the server starts from an environment whose build flag
  is off, whatever the other variables and the dotenv file say, the router serves no route below
  \<^verbatim>\<open>/api/v1/debug\<close>, and a session answers a tier override without changing its tier; a debug build
  with its controls on serves all ten.
\<close>

theorem Release_has_no_debug_surface:
  assumes "Load_settings cv dotenv env = Inr c"
  shows "(\<not> debug_build env \<longrightarrow>
      (\<forall>(meth, path) \<in> set (NewRouter_routes (DebugControlsActive c) (Some NewDebugState)). take 13 path \<noteq> ''/api/v1/debug'')
      \<and> (ss_cfg s = session_config (register_config (NewManager (manager_config c symb)) ids)
          \<longrightarrow> ss_tierMachine (handleTierOverride W e v s) = ss_tierMachine s))
    \<and> (DebugControlsActive c \<longrightarrow> (\<forall>(meth, path) \<in> set debug_routes.
         (meth, ''/api/v1/debug'' @ path) \<in> set (NewRouter_routes (DebugControlsActive c) (Some NewDebugState))))"
proof (intro conjI impI)
  assume off: "\<not> debug_build env"
  have "\<not> DebugControlsActive c" using Load_settings_release [OF assms off] .
  then show "\<forall>(meth, path) \<in> set (NewRouter_routes (DebugControlsActive c) (Some NewDebugState)). take 13 path \<noteq> ''/api/v1/debug''"
    by (simp add: NewRouter_routes_def below_def)
  show "ss_tierMachine (handleTierOverride W e v s) = ss_tierMachine s"
    if "ss_cfg s = session_config (register_config (NewManager (manager_config c symb)) ids)"
    using that \<open>\<not> DebugControlsActive c\<close>
    by (simp add: handleTierOverride_def sendError_tier session_config_def register_config_def NewManager_def manager_config_def Let_def)
next
  assume "DebugControlsActive c"
  then show "\<forall>(meth, path) \<in> set debug_routes.
      (meth, ''/api/v1/debug'' @ path) \<in> set (NewRouter_routes (DebugControlsActive c) (Some NewDebugState))"
    by (simp add: NewRouter_routes_def below_def debug_routes_def)
qed


theorem Release_has_no_debug_surface_witness:
  "Load_settings sample_conv None [''DEBUG_BUILD'' \<mapsto> ''0''] = Inr (Default_settings\<lparr>cs_DebugBuild := False\<rparr>)
   \<and> filter (\<lambda>(meth, path). take 13 path = ''/api/v1/debug'') (NewRouter_routes False (Some NewDebugState)) = []"
proof -
  have "TrimSpace ''0'' = ''0''" by code_simp
  then have b: "\<not> debug_build [''DEBUG_BUILD'' \<mapsto> ''0'']" by (simp add: debug_build_def ParseBool_def)
  have l: "Load_settings sample_conv None [''DEBUG_BUILD'' \<mapsto> ''0''] = Inr (Default_settings\<lparr>cs_DebugBuild := False\<rparr>)"
    using Load_settings_flag_only [of sample_conv "''0''"] b by simp
  have "DebugControlsActive (Default_settings\<lparr>cs_DebugBuild := False\<rparr>) = False" by (simp add: DebugControlsActive_def)
  then have "\<forall>(meth, path) \<in> set (NewRouter_routes False (Some NewDebugState)). take 13 path \<noteq> ''/api/v1/debug''"
    using Release_has_no_debug_surface [OF l] b by simp
  then show ?thesis using l by (fastforce simp: filter_empty_conv)
qed

end
