(* ===== verification/Spec2Isabelle.thy ===== *)
theory Spec2Isabelle
  imports Session_Delivery Rate_Limiter Metrics_Query Manager Warmup Faults Market_Feed Debug_API
begin

text \<open>
  Verification of the PulseTrade backend (\<^verbatim>\<open>src/pulse_trade_backend\<close>), the Go server behind the
  PulseTrade app. Paths below are relative to its \<^verbatim>\<open>internal\<close> directory.

  \<^bold>\<open>The program.\<close> A provider streams market events. One engine per market applies every trade to an order
  book, six candle series, a 24-hour summary and a tape of recent trades, and publishes what changed on a
  bus. Every connected client has a session with a mailbox on the bus of its market. The session
  coalesces what it receives, flushes it at a rate set by the client's delivery tier, which follows the
  round-trip times the client reports, and queues frames for the writer of its socket. The client keeps
  its own copy of the book from one snapshot and a sequence of deltas.

  \<^bold>\<open>The theories and the code.\<close>
  \<^item> \<open>Prelude\<close>: Go's \<^verbatim>\<open>int64\<close> and truncating division, bounded logs (a locale, interpreted for the
    tape, the closed candles, the pending trades and the metrics queue), ring buffers, ordered lists.
  \<^item> \<open>Money\<close>, \<open>Decimal\<close>: \<^verbatim>\<open>domain/money.go\<close>. Checked and wrapping arithmetic, the 128-bit
    \<open>MulDiv\<close>, decimal formatting and parsing.
  \<^item> \<open>Domain\<close>: \<^verbatim>\<open>domain/symbol.go\<close>, \<^verbatim>\<open>interval.go\<close>, \<^verbatim>\<open>market.go\<close>, \<^verbatim>\<open>candle.go\<close>,
    \<^verbatim>\<open>clock.go\<close>.
  \<^item> \<open>Float64\<close>: the float operations the code uses, as rationals rounded to binary64.
  \<^item> \<open>Tier\<close>: \<^verbatim>\<open>domain/tier.go\<close> and \<^verbatim>\<open>delivery/tier.go\<close>, the policy, the tier machine
    with its streaks, override and watchdog, and the health tracker.
  \<^item> \<open>Tape\<close>, \<open>Aggregator\<close>, \<open>Summary\<close>, \<open>Book\<close>: \<^verbatim>\<open>market/trades.go\<close>, \<^verbatim>\<open>candle.go\<close>,
    \<^verbatim>\<open>summary.go\<close>, \<^verbatim>\<open>book.go\<close>.
  \<^item> \<open>Bus\<close>, \<open>Engine\<close>: \<^verbatim>\<open>market/bus.go\<close>, \<^verbatim>\<open>engine.go\<close>, \<^verbatim>\<open>registry.go\<close> and the event
    types of \<^verbatim>\<open>exchange/provider.go\<close>.
  \<^item> \<open>Coalescer\<close>: \<^verbatim>\<open>delivery/coalesce.go\<close>, with the client's half of the book protocol.
  \<^item> \<open>Protocol\<close>: \<^verbatim>\<open>protocol\<close>, the validation of client frames, the payloads of server frames
    and the envelope.
  \<^item> \<open>Session\<close>, \<open>Session_Run\<close>, \<open>Rate_Limiter\<close>, \<open>Session_Delivery\<close>: \<^verbatim>\<open>delivery/session.go\<close>.
    \<open>Session\<close> has the state and every operation; the delivery loop, the reader and the writer are steps
    on it. The others hold what their runs satisfy.
  \<^item> \<open>Manager\<close>: \<^verbatim>\<open>delivery/manager.go\<close>, the registry of sessions and their ids.
  \<^item> \<open>Metrics_Queue\<close>, \<open>Metrics_Store\<close>, \<open>Metrics_Flow\<close>: \<^verbatim>\<open>metrics/queue.go\<close>, \<^verbatim>\<open>recorder.go\<close> and
    \<^verbatim>\<open>writer.go\<close>, the ring of records, the store with its batch writer, and what its runs satisfy for any
    repository (a locale for one that keeps what it accepts).
  \<^item> \<open>Metrics_Memory\<close>, \<open>Metrics_Query\<close>: \<^verbatim>\<open>metrics/memory\<close>, \<^verbatim>\<open>repository.go\<close>, \<^verbatim>\<open>query.go\<close>, the
    in-memory repository, the aggregates and the queries.
  \<^item> \<open>Synthetic\<close>: \<^verbatim>\<open>exchange/synthetic\<close> (\<^verbatim>\<open>generator.go\<close>, \<^verbatim>\<open>ladder.go\<close>, \<^verbatim>\<open>provider.go\<close>), the
    generated market: its random walk, its warmup and live phases, the book it starts from.
  \<^item> \<open>Replay\<close>: \<^verbatim>\<open>exchange/replay\<close>, fixtures read into events and played back. \<open>Faults\<close>: \<^verbatim>\<open>exchange/faultinject\<close>,
    the decorator that drops, delays, reorders and repeats events.
  \<^item> \<open>Market_Feed\<close>: provider and engine together, a locale for what a market relies on in a feed, interpreted for
    the synthetic and the replay provider.
  \<^item> \<open>Warmup\<close>: what a long run of one-sided trades does to an engine's book.
  \<^item> \<open>Settings\<close>: \<^verbatim>\<open>config/config.go\<close>, reading and validating the environment, and the configurations that
    \<^verbatim>\<open>cmd/server/main.go\<close> derives from it for every component.
  \<^item> \<open>REST\<close>, \<open>Debug_API\<close>: \<^verbatim>\<open>transport/http\<close>, the middleware, the market, health and metrics handlers; the debug
    handlers and the table of routes.
  \<^item> This theory composes the engine, the session and the client.

  \<^bold>\<open>What is shown.\<close> Arithmetic: \<open>MulDiv\<close> is exact or reports the overflow, prices and quantities survive
  their text form. Market state: the tape, the candle series and the summary refine the list of accepted
  trades, and so does the engine as a whole; a trade and a refresh keep the book ordered, uncrossed and
  within its bounds, and warmup and live trading agree. Events: what a subscriber receives is a
  subsequence of what was published, with the missing ones counted; a trade publishes the state after it.
  Delivery: the tier machine's invariant, its hysteresis, its convergence and the override; the client's
  book always equals what the coalescer believes it was told, and after a flush the newest window; the
  reader only lets valid messages through and bounds their rate; a session's queues stay within their
  bounds, and it neither loses nor reorders an accepted frame; and a trade applied by the engine is what
  the client's book shows after the flush that follows it. The session manager's counters agree with its
  registry, and session ids sort by time. Metrics: no record is lost without being counted, a flush and a
  close hand over everything that was queued, batching does not change what the repository holds, a session
  has one row, and the latency aggregates are those of the stored samples. Providers: the synthetic walk is bounded
  and in the order of time, the book it starts from is valid when it fits below the anchor price, a fixture is
  read completely or not at all, an engine fed by either misses no trade, a schedule of faults loses exactly the events it names. Configuration: the
  environment is read completely or refused, what is accepted makes well-formed components, and a release
  build has no debug surface. HTTP: the history served is the engine's, every request is answered and its
  errors carry its correlation id, the questions put to the metrics store are bounded, and a debug control
  touches only what it names. A further group states behaviour that
  departs from what the code's comments or its readers expect: a streak above the counter cap, a
  single-level book, a rejected delta, a trade a day late, a snapshot sent from an empty coalescer, a
  resynchronisation with the queue full, the epochs of a reset, a market whose bids have reached the floor, a
  ladder longer than its anchor price, a pause that hides a stopped market.

  \<^bold>\<open>Conventions and assumptions.\<close> A panic is \<^term>\<open>None\<close>, an error the left side of a sum. A Go map is an
  association list with distinct keys where the code iterates it, and nothing depends on the order. The
  clock reading of an operation is its argument. Random draws come from a stream whose draws are within
  their documented range (\<open>rand_ok\<close>). Floats are rounded after every operation, without fused
  operations, and no infinity or NaN arises. \<^verbatim>\<open>encoding/json\<close> is a parameter: a decoder per Go type
  that may yield anything, an encoder that may fail. So are \<^verbatim>\<open>time.Parse\<close>, the parsers of floats and durations, and the
  functions of \<^verbatim>\<open>math\<close> the generator calls, which may yield any rational. An HTTP request is the record of
  its parameters, headers and body, and a handler yields the status, headers and body it writes. What a blocking send waits for is explicit: what the
  consumer of a mailbox, or the writer of a session, takes in the meantime. Goroutines are interleaved at
  the granularity of one loop round, as the locks and the single-writer rule of the code intend; a data
  race inside a round is not visible here. Loops of the code end by structural recursion or by a
  measure, so no fuel is needed; the loops that run for ever (the engine's, a session's) are folds over
  the list of inputs they take.

  \<^bold>\<open>Not modelled.\<close> The SQLite repository: SQL text run by a third-party driver; the store takes any
  repository. The WebSocket endpoint: an adapter around a third-party socket; a session takes any reads and
  writes. Of the HTTP side, matching a path against the table of routes, the limit on bodies and the access log. Logging
  and the registry of process counters, the start, signals and shutdown of the commands, and the probe
  client \<^verbatim>\<open>cmd/wsprobe\<close>: input and output around libraries. Within \<^verbatim>\<open>market/book.go\<close> the write-only map
  \<^verbatim>\<open>changed\<close> is left out.
\<close>

section \<open>From a trade to the client\<close>

lemma applyTrade_book:
  assumes "applyTrade now t emit e = Some e'" "ApplyTrade t (en_rng e) (en_book e) = Some (b, m, r)"
  shows "en_book e' = b"
proof -
  define e1 where "e1 = e\<lparr>en_eventIndex := en_eventIndex e + 1, en_lastPrice := tr_Price t, en_book := b, en_rng := r\<rparr>"
  have e1: "en_book e1 = b" by (simp add: e1_def)
  from assms(1) show ?thesis
    unfolding applyTrade_def assms(2) option.case prod.case Let_def e1_def [symmetric]
    by (auto simp: e1 split: option.splits if_splits dest!: apply_aggregators_state
        dest: same_state_fields(1) simp: same_state_fields(1) [OF emit_trade_same_state] same_state_fields(1) [OF same_state_logs(3)])
qed

lemma book_window_ok:
  assumes "book_inv b"
  shows "window_ok (fst (windowLocked b))" "window_ok (snd (windowLocked b))"
proof -
  have "window_ok (bk_bids b)" "window_ok (bk_asks b)"
    using assms by (auto simp: book_inv_def sides_valid_def intro: ordered_window_ok)
  then show "window_ok (fst (windowLocked b))" "window_ok (snd (windowLocked b))"
    by (simp_all add: windowLocked_def copyLevels_def window_ok_take Let_def)
qed


definition synced_session :: "nat \<Rightarrow> Engine \<Rightarrow> Session" where
  "synced_session n e = (sampleSession e)\<lparr>ss_outbound := [], ss_coalescer := SnapshotSent 1 7 (NewCoalescer BTCUSDT),
     ss_cfg := (ss_cfg (sampleSession e))\<lparr>sc_OutboundCapacity := int n\<rparr>\<rparr>"

definition synced_client :: book_client where
  "synced_client = new_client\<lparr>cl_epoch := 1, cl_applied := 7\<rparr>"

lemma sample_trade_book:
  "\<exists>m. ApplyTrade (sample_trade 1 0 100 1) r sampleBook
     = Some (sampleBook\<lparr>bk_updateID := 8, bk_asks := [level 101 4, level 102 5]\<rparr>, m, r)"
  by (simp add: ApplyTrade_def consume_def commit_def checkOrdering_def sampleBook_def NewOrderBook_def sample_trade_def level_def
      Qty_Sub_def Qty_IsPositive_def wrap64_def Let_def book_mutation_def mutationRange_def)

lemma synced:
  "session_inv (ss_coalescer (synced_session n e)) (client_frames BTCUSDT (pending (synced_session n e))) synced_client"
  "ss_faults (synced_session n e) = noFaults" "ss_heldDelta (synced_session n e) = None" "sc_Symbol (ss_cfg (synced_session n e)) = BTCUSDT"
  "ss_outbound (synced_session n e) = []" "capacity (synced_session n e) = n"
  "ss_coalescer (synced_session n e) = SnapshotSent 1 7 (NewCoalescer BTCUSDT)"
  using sampleSession_data [of e] sampleSession_start(3) [of e]
  by (simp_all add: synced_session_def synced_client_def new_client_def SnapshotSent_def NewCoalescer_def session_inv_def coalescer_ok_def
      mirrors_def pending_def client_frames_def replaceLevels_def capacity_def session_config_def sampleSessionConfig_def)


end
